(* ===== verification/Prelude.thy ===== *)
theory Prelude
  imports Complex_Main "HOL-Library.Sublist"
begin

text \<open>
  What the components share: the strings and numbers of the language as far as the
  sources use them, the refusal-or-success shape of every command, and the contract an
  aggregate keeps over a run of commands.

  A string is a list of Latin-1 code units (\<open>string\<close>), so \<open>length\<close> is
  JavaScript's \<open>length\<close> on such strings; code units above 255 are not represented.
  Integral numbers (counts, epoch milliseconds) are \<open>int\<close>; numbers the code tests
  with \<open>Number.isInteger\<close> or divides are \<open>rat\<close>. A result is \<open>'e + 'a\<close> with
  \<open>Inl\<close> the refusal.
\<close>

section \<open>Collections of rules\<close>

named_theorems cmd_defs \<open>definitions of the commands of the aggregates\<close>
named_theorems inv_defs \<open>definitions of the invariants of the aggregates\<close>
named_theorems text_simps \<open>facts on trimming and character classes\<close>

section \<open>Strings\<close>

type_synonym instant = int
type_synonym duration = int

text \<open>The members of JavaScript's \<open>\s\<close> (white space and line ends) below 256.\<close>

definition is_js_space :: "char \<Rightarrow> bool" where
  "is_js_space c = (of_char c \<in> {9, 10, 11, 12, 13, 32, 160 :: nat})"

definition has_js_space :: "string \<Rightarrow> bool" where
  "has_js_space s = list_ex is_js_space s"

text \<open>\<open>String.prototype.trim\<close>.\<close>

definition js_trim :: "string \<Rightarrow> string" where
  "js_trim s = rev (dropWhile is_js_space (rev (dropWhile is_js_space s)))"

text \<open>\<open>String.prototype.toLowerCase\<close>, which maps Latin-1 into itself.\<close>

definition js_lower_char :: "char \<Rightarrow> char" where
  "js_lower_char c =
     (let n = of_char c :: nat
      in if 65 \<le> n \<and> n \<le> 90 \<or> 192 \<le> n \<and> n \<le> 222 \<and> n \<noteq> 215 then char_of (n + 32) else c)"

definition js_lower :: "string \<Rightarrow> string" where
  "js_lower s = map js_lower_char s"

text \<open>
  \<open>String.prototype.toUpperCase\<close> as code points: three Latin-1 characters leave
  Latin-1 (the micro sign and y with diaeresis map above 255, the sharp s to \<open>SS\<close>).
\<close>

definition js_upper_char :: "char \<Rightarrow> nat list" where
  "js_upper_char c =
     (let n = of_char c :: nat
      in if 97 \<le> n \<and> n \<le> 122 \<or> 224 \<le> n \<and> n \<le> 254 \<and> n \<noteq> 247 then [n - 32]
         else if n = 223 then [83, 83]
         else if n = 181 then [924]
         else if n = 255 then [376]
         else [n])"

definition js_upper :: "string \<Rightarrow> nat list" where
  "js_upper s = concat (map js_upper_char s)"

lemma dropWhile_hd: "dropWhile P xs = y # ys \<Longrightarrow> \<not> P y"
  by (metis hd_dropWhile list.distinct(1) list.sel(1))

lemma last_dropWhile: "dropWhile P xs \<noteq> [] \<Longrightarrow> last (dropWhile P xs) = last xs"
  by (induction xs) auto

lemma js_trim_Nil [simp]: "js_trim [] = []"
  by (simp add: js_trim_def)

lemma js_trim_hd: "js_trim s \<noteq> [] \<Longrightarrow> \<not> is_js_space (hd (js_trim s))"
proof -
  assume ne: "js_trim s \<noteq> []"
  let ?d = "dropWhile is_js_space s"
  let ?e = "dropWhile is_js_space (rev ?d)"
  have "?e \<noteq> []" using ne by (simp only: js_trim_def rev_is_Nil_conv not_False_eq_True)
  then have "last ?e = last (rev ?d)" by (rule last_dropWhile)
  moreover have "hd (js_trim s) = last ?e" using ne
    by (simp add: js_trim_def hd_rev)
  moreover have "?d \<noteq> []" using \<open>?e \<noteq> []\<close> by (metis dropWhile.simps(1) rev.simps(1))
  ultimately show ?thesis by (metis hd_dropWhile last_rev)
qed

lemma js_trim_last: "js_trim s \<noteq> [] \<Longrightarrow> \<not> is_js_space (last (js_trim s))"
  by (metis (no_types, lifting) hd_dropWhile js_trim_def last_rev rev_is_Nil_conv)

lemma js_trim_id [text_simps]:
  "s \<noteq> [] \<Longrightarrow> \<not> is_js_space (hd s) \<Longrightarrow> \<not> is_js_space (last s) \<Longrightarrow> js_trim s = s"
  by (simp add: js_trim_def hd_rev dropWhile_eq_self_iff [THEN iffD2])

text \<open>Trimming a trimmed string changes nothing.\<close>

lemma js_trim_idem [simp]: "js_trim (js_trim s) = js_trim s"
  by (cases "js_trim s = []") (auto intro!: js_trim_id dest: js_trim_hd js_trim_last)

lemma set_js_trim: "set (js_trim s) \<subseteq> set s"
  by (auto simp: js_trim_def dest!: set_dropWhileD) 

lemma length_js_trim: "length (js_trim s) \<le> length s"
  by (metis (no_types, lifting) js_trim_def length_dropWhile_le length_rev order_trans)

lemma js_trim_eq_Nil_iff: "js_trim s = [] \<longleftrightarrow> (\<forall>c \<in> set s. is_js_space c)"
proof
  assume "js_trim s = []"
  then have "dropWhile is_js_space (rev (dropWhile is_js_space s)) = []"
    by (simp only: js_trim_def rev_is_Nil_conv)
  then have "\<forall>c \<in> set (dropWhile is_js_space s). is_js_space c"
    by (metis dropWhile_eq_Nil_conv set_rev)
  then have "dropWhile is_js_space s = []"
    by (metis hd_dropWhile hd_in_set)
  then show "\<forall>c \<in> set s. is_js_space c" by simp
next
  assume "\<forall>c \<in> set s. is_js_space c"
  then have "dropWhile is_js_space s = []" by (simp only: dropWhile_eq_Nil_conv)
  then show "js_trim s = []" by (simp only: js_trim_def rev.simps dropWhile.simps)
qed

section \<open>Numbers that may be fractional\<close>

text \<open>\<open>Number.isInteger\<close> on finite values.\<close>

definition is_integer :: "rat \<Rightarrow> bool" where
  "is_integer d = (of_int \<lfloor>d\<rfloor> = d)"

lemma is_integer_of_int [simp]: "is_integer (of_int n)"
  by (simp add: is_integer_def)

lemma is_integer_of_nat [simp]: "is_integer (of_nat n)"
  by (simp add: is_integer_def)

section \<open>Decimal numerals\<close>

text \<open>\<open>Number.prototype.toString\<close> on integral values below \<open>10 ^ 21\<close> in size.\<close>

definition digit_char :: "nat \<Rightarrow> char" where
  "digit_char d = char_of (48 + d)"

fun show_nat :: "nat \<Rightarrow> string" where
  "show_nat n = (if n < 10 then [digit_char n] else show_nat (n div 10) @ [digit_char (n mod 10)])"

declare show_nat.simps [simp del]

definition show_int :: "int \<Rightarrow> string" where
  "show_int i = (if i < 0 then CHR ''-'' # show_nat (nat (- i)) else show_nat (nat i))"

definition read_nat :: "string \<Rightarrow> nat" where
  "read_nat s = foldl (\<lambda>acc c. 10 * acc + (of_char c - 48)) 0 s"

lemma of_digit_char [simp]: "d < 10 \<Longrightarrow> of_char (digit_char d) = 48 + d"
  by (simp add: digit_char_def)

lemma read_show_nat [simp]: "read_nat (show_nat n) = n"
proof (induction n rule: show_nat.induct)
  case (1 n)
  show ?case
  proof (cases "n < 10")
    case True
    then show ?thesis by (simp add: show_nat.simps [of n] read_nat_def)
  next
    case False
    with 1 have "read_nat (show_nat (n div 10)) = n div 10" by simp
    with False show ?thesis
      by (simp add: show_nat.simps [of n] read_nat_def)
  qed
qed

lemma show_nat_digits: "c \<in> set (show_nat n) \<Longrightarrow> 48 \<le> (of_char c :: nat) \<and> of_char c \<le> (57 :: nat)"
proof (induction n rule: show_nat.induct)
  case (1 n)
  show ?case
  proof (cases "n < 10")
    case True
    with 1 show ?thesis by (simp add: show_nat.simps [of n])
  next
    case False
    have "n mod 10 < 10" by simp
    with False 1 show ?thesis
      by (auto simp: show_nat.simps [of n])
  qed
qed

lemma show_nat_nonempty [simp]: "show_nat n \<noteq> []"
  by (simp add: show_nat.simps [of n])

lemma show_nat_inj [simp]: "show_nat m = show_nat n \<longleftrightarrow> m = n"
  by (metis read_show_nat)

lemma minus_not_digit: "show_nat n \<noteq> CHR ''-'' # s"
proof
  assume "show_nat n = CHR ''-'' # s"
  then have "CHR ''-'' \<in> set (show_nat n)" by simp
  from show_nat_digits [OF this] show False by simp
qed

lemma show_int_inj [simp]: "show_int a = show_int b \<longleftrightarrow> a = b"
  using minus_not_digit by (auto simp: show_int_def) (metis minus_not_digit)+

lemma show_int_no_nul: "CHR 0x00 \<notin> set (show_int a)"
  using show_nat_digits by (fastforce simp: show_int_def split: if_splits)

section \<open>Lists\<close>

lemma find_Some_iff_mem: "find P xs = Some x \<Longrightarrow> x \<in> set xs \<and> P x"
  by (auto simp: find_Some_iff)

lemma find_None_iff_all: "find P xs = None \<longleftrightarrow> (\<forall>x \<in> set xs. \<not> P x)"
  by (auto simp: find_None_iff)

lemma length_filter_split: "length (filter P xs) + length (filter (\<lambda>x. \<not> P x) xs) = length xs"
  by (rule sum_length_filter_compl)

lemma distinct_map_filter: "distinct (map f xs) \<Longrightarrow> distinct (map f (filter P xs))"
  by (induction xs) auto

text \<open>A separator that neither part contains splits a text in one way.\<close>

lemma append_sep_inj:
  "c \<notin> set a \<Longrightarrow> c \<notin> set b \<Longrightarrow> a @ c # x = b @ c # y \<longleftrightarrow> a = b \<and> x = y"
proof (induction a arbitrary: b)
  case Nil
  then show ?case by (cases b) auto
next
  case (Cons d a)
  then show ?case by (cases b) auto
qed

lemma append_sep_inj_right:
  assumes "c \<notin> set x" "c \<notin> set y"
  shows "a @ c # x = b @ c # y \<longleftrightarrow> a = b \<and> x = y"
proof -
  have "a @ c # x = b @ c # y \<longleftrightarrow> rev (a @ c # x) = rev (b @ c # y)" by (rule rev_is_rev_conv [symmetric])
  also have "\<dots> \<longleftrightarrow> rev x @ c # rev a = rev y @ c # rev b" by simp
  also have "\<dots> \<longleftrightarrow> rev x = rev y \<and> rev a = rev b" using assms by (intro append_sep_inj) auto
  finally show ?thesis by auto
qed

text \<open>\<open>[...new Set(...)]\<close>: the first occurrences, in order.\<close>

fun set_order :: "'k list \<Rightarrow> 'k list \<Rightarrow> 'k list" where
  "set_order seen [] = []"
| "set_order seen (k # ks) = (if k \<in> set seen then set_order seen ks else k # set_order (k # seen) ks)"

lemma set_order_facts:
  "set (set_order seen ks) = set ks - set seen \<and> distinct (set_order seen ks)"
  by (induction ks arbitrary: seen) auto

lemma set_set_order [simp]: "set (set_order [] ks) = set ks"
  and distinct_set_order [simp]: "distinct (set_order [] ks)"
  using set_order_facts [of "[]" ks] by simp_all

lemma map_replace_ids:
  "(\<And>x. f (g x) = f x) \<Longrightarrow> map f (map (\<lambda>x. if P x then g x else x) xs) = map f xs"
  by simp

text \<open>\<open>Array.prototype.join\<close>.\<close>

fun join_with :: "string \<Rightarrow> string list \<Rightarrow> string" where
  "join_with sep [] = []"
| "join_with sep [x] = x"
| "join_with sep (x # y # xs) = x @ sep @ join_with sep (y # xs)"

text \<open>The names every object literal inherits.\<close>

definition INHERITED_NAMES :: "string list" where
  "INHERITED_NAMES =
     [''constructor'', ''__defineGetter__'', ''__defineSetter__'', ''hasOwnProperty'',
      ''__lookupGetter__'', ''__lookupSetter__'', ''isPrototypeOf'', ''propertyIsEnumerable'',
      ''toString'', ''valueOf'', ''__proto__'', ''toLocaleString'']"

section \<open>Maps in insertion order\<close>

text \<open>\<open>Map.set\<close>: a key that is present keeps its place.\<close>

fun map_put :: "'k \<Rightarrow> 'v \<Rightarrow> ('k \<times> 'v) list \<Rightarrow> ('k \<times> 'v) list" where
  "map_put k v [] = [(k, v)]"
| "map_put k v ((k', v') # kvs) = (if k' = k then (k, v) # kvs else (k', v') # map_put k v kvs)"

lemma map_of_map_put: "map_of (map_put k v kvs) i = (if i = k then Some v else map_of kvs i)"
  by (induction k v kvs rule: map_put.induct) auto

lemma keys_map_put: "map fst (map_put k v kvs) = map fst kvs @ (if k \<in> fst ` set kvs then [] else [k])"
  by (induction k v kvs rule: map_put.induct) auto

lemma set_map_put_fst: "fst ` set (map_put k v kvs) = insert k (fst ` set kvs)"
  by (induction k v kvs rule: map_put.induct) auto

lemma distinct_map_put: "distinct (map fst kvs) \<Longrightarrow> distinct (map fst (map_put k v kvs))"
  by (induction k v kvs rule: map_put.induct) (auto simp: set_map_put_fst image_iff)

lemma list_all_map_put: "P (k, v) \<Longrightarrow> list_all P kvs \<Longrightarrow> list_all P (map_put k v kvs)"
  by (induction k v kvs rule: map_put.induct) auto

text \<open>A row found by a predicate is the row of its own key.\<close>

lemma find_row:
  assumes "distinct (map fst kvs)" "list_all (\<lambda>(k, v). k = key v) kvs" "find P (map snd kvs) = Some v"
  shows "map_of kvs (key v) = Some v \<and> P v"
proof -
  have v: "P v" "v \<in> snd ` set kvs" using assms(3) find_Some_iff_mem [of P "map snd kvs" v] by auto
  then obtain k where "(k, v) \<in> set kvs" by auto
  moreover from this have "k = key v" using assms(2) by (auto simp: list_all_iff)
  ultimately show ?thesis using assms(1) v(1) by simp
qed

lemma find_no_row:
  assumes "find P (map snd kvs) = None" "map_of kvs i = Some v"
  shows "\<not> P v"
  using assms map_of_SomeD [OF assms(2)] by (auto simp: find_None_iff_all)

lemma row_key: "list_all (\<lambda>(k, v). k = key v) kvs \<Longrightarrow> map_of kvs i = Some v \<Longrightarrow> key v = i"
  by (auto simp: list_all_iff dest!: map_of_SomeD)

section \<open>Aggregates\<close>

text \<open>
  Every aggregate of the program has the same contract: a command, handed a state,
  either is refused with a stated error and changes nothing, or yields the next state
  and the events to publish. \<open>run_cmds\<close> drives one through a sequence of commands the
  way the use cases do (load, command, save on success).
\<close>

fun run_cmds :: "('c \<Rightarrow> 's \<Rightarrow> 'e + ('s \<times> 'ev list)) \<Rightarrow> 'c list \<Rightarrow> 's \<Rightarrow> 's \<times> 'ev list" where
  "run_cmds ex [] s = (s, [])"
| "run_cmds ex (c # cs) s =
     (case ex c s of
        Inl _ \<Rightarrow> run_cmds ex cs s
      | Inr (s', es) \<Rightarrow> (let (t, es') = run_cmds ex cs s' in (t, es @ es')))"

locale aggregate =
  fixes exec :: "'c \<Rightarrow> 's \<Rightarrow> 'e + ('s \<times> 'ev list)"
    and invar :: "'s \<Rightarrow> bool"
    and ident :: "'s \<Rightarrow> 'i"
    and about :: "'ev \<Rightarrow> 'i"
  assumes exec_invar: "invar s \<Longrightarrow> exec c s = Inr (s', es) \<Longrightarrow> invar s'"
    and exec_ident: "exec c s = Inr (s', es) \<Longrightarrow> ident s' = ident s"
    and exec_about: "exec c s = Inr (s', es) \<Longrightarrow> e \<in> set es \<Longrightarrow> about e = ident s"
begin

lemma run_invar: "invar s \<Longrightarrow> run_cmds exec cs s = (t, es) \<Longrightarrow> invar t"
proof (induction cs arbitrary: s es)
  case (Cons c cs)
  then show ?case
    by (auto split: sum.splits prod.splits dest: exec_invar)
qed simp

lemma run_ident: "run_cmds exec cs s = (t, es) \<Longrightarrow> ident t = ident s"
proof (induction cs arbitrary: s es)
  case (Cons c cs)
  then show ?case
    by (auto split: sum.splits prod.splits dest: exec_ident)
qed simp

lemma run_about: "run_cmds exec cs s = (t, es) \<Longrightarrow> e \<in> set es \<Longrightarrow> about e = ident s"
proof (induction cs arbitrary: s t es)
  case (Cons c cs)
  show ?case
  proof (cases "exec c s")
    case (Inl x)
    with Cons show ?thesis by auto
  next
    case (Inr r)
    obtain s' fs where r: "exec c s = Inr (s', fs)" using Inr by (cases r) auto
    obtain u gs where u: "run_cmds exec cs s' = (u, gs)" by fastforce
    from Cons.prems r u have "e \<in> set fs \<or> e \<in> set gs" by auto
    with Cons.IH [OF u] exec_about [OF r] exec_ident [OF r] show ?thesis by metis
  qed
qed simp

text \<open>The three facts at once, the form in which the components use them.\<close>

lemma run_sound:
  "invar s \<Longrightarrow> run_cmds exec cs s = (t, es) \<Longrightarrow>
     invar t \<and> ident t = ident s \<and> (\<forall>e \<in> set es. about e = ident s)"
  using run_invar run_ident run_about by blast

end

end
