(* ===== verification/Kernel.thy ===== *)
theory Kernel
  imports Prelude
begin

text \<open>
  The shared kernel, packages/kernel/src: results (result.ts), identifiers (ids.ts),
  instants and durations (instant.ts, duration.ts), roles and permissions (authz.ts).
  \<open>json\<close> is the sources' \<open>unknown\<close>: a value that arrived from \<open>JSON.parse\<close>, an
  object being its entries in enumeration order.
\<close>

section \<open>Untrusted values\<close>

text \<open>
  JSON numbers are represented at integral values; \<open>JInfinite\<close> stands for a literal
  such as \<open>1e999\<close>, which \<open>JSON.parse\<close> reads as an infinity.
\<close>

datatype json =
    JUndefined
  | JNull
  | JBool bool
  | JNum int
  | JInfinite
  | JStr string
  | JArr "json list"
  | JObj "(string \<times> json) list"

definition json_get :: "json \<Rightarrow> string \<Rightarrow> json" where
  "json_get v k =
     (case v of
        JObj kvs \<Rightarrow> (case map_of kvs k of None \<Rightarrow> JUndefined | Some x \<Rightarrow> x)
      | _ \<Rightarrow> JUndefined)"

section \<open>Results\<close>

definition ok :: "'t \<Rightarrow> 'e + 't" where
  "ok v = Inr v"

definition err :: "'e \<Rightarrow> 'e + 't" where
  "err e = Inl e"

definition is_ok :: "'e + 't \<Rightarrow> bool" where
  "is_ok r = (case r of Inl _ \<Rightarrow> False | Inr _ \<Rightarrow> True)"

definition is_err :: "'e + 't \<Rightarrow> bool" where
  "is_err r = (\<not> is_ok r)"

definition result_map :: "'e + 't \<Rightarrow> ('t \<Rightarrow> 'u) \<Rightarrow> 'e + 'u" where
  "result_map r f = (case r of Inl e \<Rightarrow> Inl e | Inr v \<Rightarrow> ok (f v))"

definition result_map_err :: "'e + 't \<Rightarrow> ('e \<Rightarrow> 'f) \<Rightarrow> 'f + 't" where
  "result_map_err r f = (case r of Inl e \<Rightarrow> err (f e) | Inr v \<Rightarrow> Inr v)"

definition flat_map :: "'e + 't \<Rightarrow> ('t \<Rightarrow> 'e + 'u) \<Rightarrow> 'e + 'u" where
  "flat_map r f = (case r of Inl e \<Rightarrow> Inl e | Inr v \<Rightarrow> f v)"

definition unwrap_or :: "'e + 't \<Rightarrow> 't \<Rightarrow> 't" where
  "unwrap_or r fallback = (case r of Inl _ \<Rightarrow> fallback | Inr v \<Rightarrow> v)"

text \<open>\<open>all\<close>: the loop pushes values and returns the first error it meets.\<close>

fun result_all_loop :: "'t list \<Rightarrow> ('e + 't) list \<Rightarrow> 'e + 't list" where
  "result_all_loop values [] = Inr values"
| "result_all_loop values (r # rs) =
     (case r of Inl e \<Rightarrow> Inl e | Inr v \<Rightarrow> result_all_loop (values @ [v]) rs)"

definition result_all :: "('e + 't) list \<Rightarrow> 'e + 't list" where
  "result_all results = result_all_loop [] results"

fun result_partition_loop :: "'t list \<times> 'e list \<Rightarrow> ('e + 't) list \<Rightarrow> 't list \<times> 'e list" where
  "result_partition_loop (values, errors) [] = (values, errors)"
| "result_partition_loop (values, errors) (r # rs) =
     (case r of
        Inr v \<Rightarrow> result_partition_loop (values @ [v], errors) rs
      | Inl e \<Rightarrow> result_partition_loop (values, errors @ [e]) rs)"

definition result_partition :: "('e + 't) list \<Rightarrow> 't list \<times> 'e list" where
  "result_partition results = result_partition_loop ([], []) results"

lemma flat_map_Inr: "flat_map r f = Inr v \<longleftrightarrow> (\<exists>u. r = Inr u \<and> f u = Inr v)"
  by (cases r) (auto simp: flat_map_def)

lemma result_map_Inr: "result_map r f = Inr v \<longleftrightarrow> (\<exists>x. r = Inr x \<and> v = f x)"
  by (cases r) (auto simp: result_map_def ok_def)

lemma result_all_loop_Inr:
  "result_all_loop vs rs = Inr ws \<longleftrightarrow> (\<exists>us. rs = map Inr us \<and> ws = vs @ us)"
proof (induction rs arbitrary: vs)
  case (Cons r rs)
  show ?case
  proof (cases r)
    case (Inr v)
    with Cons [of "vs @ [v]"] show ?thesis by (auto simp: Cons_eq_map_conv)
  qed auto
qed auto

lemma result_all_loop_Inl:
  "result_all_loop vs rs = Inl e \<longleftrightarrow> (\<exists>us rest. rs = map Inr us @ Inl e # rest)"
proof (induction rs arbitrary: vs)
  case (Cons r rs)
  show ?case
  proof (cases r)
    case (Inl x)
    then show ?thesis by (auto simp: Cons_eq_append_conv Cons_eq_map_conv)
  next
    case (Inr v)
    with Cons [of "vs @ [v]"] show ?thesis
      by (auto simp: Cons_eq_append_conv Cons_eq_map_conv)
  qed
qed auto

fun oks :: "('e + 't) list \<Rightarrow> 't list" where
  "oks [] = []"
| "oks (Inl _ # rs) = oks rs"
| "oks (Inr v # rs) = v # oks rs"

fun errs :: "('e + 't) list \<Rightarrow> 'e list" where
  "errs [] = []"
| "errs (Inl e # rs) = e # errs rs"
| "errs (Inr _ # rs) = errs rs"

lemma result_partition_loop_eq:
  "result_partition_loop (vs, es) rs = (vs @ oks rs, es @ errs rs)"
  by (induction rs arbitrary: vs es) (auto split: sum.splits)

lemma result_all_loop_errs:
  "result_all_loop vs rs = (if errs rs = [] then Inr (vs @ oks rs) else Inl (hd (errs rs)))"
  by (induction rs arbitrary: vs) (auto split: sum.splits)

text \<open>
  The two collectors agree: every result succeeded exactly when the partition has no
  errors, and then \<open>all\<close> returns the partition's values; otherwise it returns the
  partition's first error.
\<close>

lemma result_all_partition:
  "result_all rs =
     (let (values, errors) = result_partition rs
      in if errors = [] then Inr values else Inl (hd errors))"
  by (simp add: result_all_def result_partition_def result_partition_loop_eq result_all_loop_errs)

lemma length_oks_errs: "length (oks rs) + length (errs rs) = length rs"
  by (induction rs rule: oks.induct) auto

section \<open>Identifiers\<close>

text \<open>Ids are branded strings; the brand is erased, so an id is its string.\<close>

type_synonym workspace_id = string
type_synonym project_id = string
type_synonym dashboard_id = string
type_synonym tile_id = string
type_synonym monitor_id = string
type_synonym account_id = string
type_synonym credential_id = string
type_synonym visit_id = string
type_synonym person_id = string

definition MAX_ID_LENGTH :: nat where
  "MAX_ID_LENGTH = 128"

definition is_id_shape :: "json \<Rightarrow> bool" where
  "is_id_shape v =
     (case v of
        JStr s \<Rightarrow> length s > 0 \<and> length s \<le> MAX_ID_LENGTH \<and> \<not> has_js_space s
      | _ \<Rightarrow> False)"

definition is_visit_id :: "json \<Rightarrow> bool" where
  "is_visit_id v = is_id_shape v"

definition is_project_id :: "json \<Rightarrow> bool" where
  "is_project_id v = is_id_shape v"

section \<open>Durations and instants\<close>

definition duration_seconds :: "int \<Rightarrow> duration" where
  "duration_seconds n = n * 1000"

definition duration_minutes :: "int \<Rightarrow> duration" where
  "duration_minutes n = n * 60000"

definition duration_hours :: "int \<Rightarrow> duration" where
  "duration_hours n = n * 3600000"

definition duration_days :: "int \<Rightarrow> duration" where
  "duration_days n = n * 86400000"

definition duration_compare :: "duration \<Rightarrow> duration \<Rightarrow> int" where
  "duration_compare a b = a - b"

definition duration_is_negative :: "duration \<Rightarrow> bool" where
  "duration_is_negative d = (d < 0)"

definition MAX_EPOCH_MILLIS :: int where
  "MAX_EPOCH_MILLIS = 8640000000000000"

definition is_instant :: "json \<Rightarrow> bool" where
  "is_instant v = (case v of JNum n \<Rightarrow> \<bar>n\<bar> \<le> MAX_EPOCH_MILLIS | _ \<Rightarrow> False)"

datatype instant_parse_error = NotAnInstant string

text \<open>
  \<open>Date.parse\<close> falls back to implementation-defined formats, so it is a parameter:
  \<open>None\<close> is its \<open>NaN\<close>.
\<close>

definition instant_from_iso :: "(string \<Rightarrow> int option) \<Rightarrow> string \<Rightarrow> instant_parse_error + instant" where
  "instant_from_iso date_parse raw =
     (case date_parse raw of
        None \<Rightarrow> err (NotAnInstant raw)
      | Some parsed \<Rightarrow>
          if \<bar>parsed\<bar> > MAX_EPOCH_MILLIS then err (NotAnInstant raw) else ok parsed)"

definition instant_plus :: "instant \<Rightarrow> duration \<Rightarrow> instant" where
  "instant_plus i d = i + d"

definition instant_minus :: "instant \<Rightarrow> duration \<Rightarrow> instant" where
  "instant_minus i d = i - d"

definition instant_between :: "instant \<Rightarrow> instant \<Rightarrow> duration" where
  "instant_between a b = b - a"

definition is_before :: "instant \<Rightarrow> instant \<Rightarrow> bool" where
  "is_before a b = (a < b)"

definition is_after :: "instant \<Rightarrow> instant \<Rightarrow> bool" where
  "is_after a b = (a > b)"

definition instant_min :: "instant \<Rightarrow> instant \<Rightarrow> instant" where
  "instant_min a b = (if a \<le> b then a else b)"

definition instant_max :: "instant \<Rightarrow> instant \<Rightarrow> instant" where
  "instant_max a b = (if a \<ge> b then a else b)"

lemmas time_defs =
  duration_seconds_def duration_minutes_def duration_hours_def duration_days_def
  duration_compare_def duration_is_negative_def instant_plus_def instant_minus_def
  instant_between_def is_before_def is_after_def instant_min_def instant_max_def

lemma instant_plus_between [simp]: "instant_plus a (instant_between a b) = b"
  by (simp add: time_defs)

section \<open>Roles and permissions\<close>

datatype role = Owner | Admin | Member

definition ROLES :: "role list" where
  "ROLES = [Owner, Admin, Member]"

fun role_rank :: "role \<Rightarrow> nat" where
  "role_rank Owner = 3"
| "role_rank Admin = 2"
| "role_rank Member = 1"

definition role_at_least :: "role \<Rightarrow> role \<Rightarrow> bool" where
  "role_at_least actual required = (role_rank actual \<ge> role_rank required)"

text \<open>Roles are ordered by authority.\<close>

lemma role_rank_inj [simp]: "role_rank a = role_rank b \<longleftrightarrow> a = b"
  by (cases a; cases b) simp_all

instantiation role :: linorder
begin

definition less_eq_role :: "role \<Rightarrow> role \<Rightarrow> bool" where
  "less_eq_role a b = (role_rank a \<le> role_rank b)"

definition less_role :: "role \<Rightarrow> role \<Rightarrow> bool" where
  "less_role a b = (role_rank a < role_rank b)"

instance
  by standard (auto simp: less_eq_role_def less_role_def)

end

lemma role_at_least_iff: "role_at_least a b \<longleftrightarrow> b \<le> a"
  by (simp add: role_at_least_def less_eq_role_def)

datatype permission =
    EventsWrite
  | QueriesRun
  | ProjectsRead
  | ProjectsWrite
  | ProjectsDelete
  | DashboardsRead
  | DashboardsWrite
  | MonitorsRead
  | MonitorsWrite
  | CredentialsRead
  | CredentialsWrite
  | WorkspaceRead
  | WorkspaceAdmin
  | BillingRead
  | BillingWrite

text \<open>The string a permission is.\<close>

fun permission_string :: "permission \<Rightarrow> string" where
  "permission_string EventsWrite = ''events:write''"
| "permission_string QueriesRun = ''queries:run''"
| "permission_string ProjectsRead = ''projects:read''"
| "permission_string ProjectsWrite = ''projects:write''"
| "permission_string ProjectsDelete = ''projects:delete''"
| "permission_string DashboardsRead = ''dashboards:read''"
| "permission_string DashboardsWrite = ''dashboards:write''"
| "permission_string MonitorsRead = ''monitors:read''"
| "permission_string MonitorsWrite = ''monitors:write''"
| "permission_string CredentialsRead = ''credentials:read''"
| "permission_string CredentialsWrite = ''credentials:write''"
| "permission_string WorkspaceRead = ''workspace:read''"
| "permission_string WorkspaceAdmin = ''workspace:admin''"
| "permission_string BillingRead = ''billing:read''"
| "permission_string BillingWrite = ''billing:write''"

definition ALL_PERMISSIONS :: "permission list" where
  "ALL_PERMISSIONS =
     [EventsWrite, QueriesRun, ProjectsRead, ProjectsWrite, ProjectsDelete, DashboardsRead,
      DashboardsWrite, MonitorsRead, MonitorsWrite, CredentialsRead, CredentialsWrite,
      WorkspaceRead, WorkspaceAdmin, BillingRead, BillingWrite]"

fun index_of :: "char \<Rightarrow> string \<Rightarrow> nat option" where
  "index_of c [] = None"
| "index_of c (x # xs) = (if x = c then Some 0 else map_option Suc (index_of c xs))"

text \<open>\<open>slice(0, at)\<close> and \<open>slice(at + 1)\<close>; \<open>at\<close> is \<open>-1\<close> when there is no colon.\<close>

definition split_permission :: "permission \<Rightarrow> string \<times> string" where
  "split_permission p =
     (let s = permission_string p
      in case index_of CHR '':'' s of
           Some i \<Rightarrow> (take i s, drop (i + 1) s)
         | None \<Rightarrow> (butlast s, s))"

lemma ALL_PERMISSIONS_complete [simp]: "p \<in> set ALL_PERMISSIONS"
  by (cases p) (simp_all add: ALL_PERMISSIONS_def)

lemma distinct_ALL_PERMISSIONS [simp]: "distinct ALL_PERMISSIONS"
  by (simp add: ALL_PERMISSIONS_def)

lemma ROLES_complete [simp]: "r \<in> set ROLES"
  by (cases r) (simp_all add: ROLES_def)

text \<open>Splitting loses nothing, so action and resource determine the permission.\<close>

lemma split_permission_join:
  "fst (split_permission p) @ '':'' @ snd (split_permission p) = permission_string p"
  by (cases p) (simp_all add: split_permission_def)

lemma permission_string_inj: "permission_string p = permission_string q \<Longrightarrow> p = q"
  by (cases p; cases q) simp_all

lemma split_permission_inj [simp]: "split_permission p = split_permission q \<longleftrightarrow> p = q"
  by (metis permission_string_inj split_permission_join)

end
