(* ===== verification/Authorization.thy ===== *)
theory Authorization
  imports Kernel
begin

text \<open>
  The one authorization policy, packages/authorization/src: who is asking
  (principal.ts), what a role holds (grants.ts), where a principal reaches
  (placement.ts) and the decision that combines them (decide.ts). The library
  \<open>accesscontrol\<close> that grants.ts expands the role table with is a parameter of the
  definitions that use it; \<open>ac_lib_ok\<close> states what its documentation promises.
\<close>

section \<open>Principals\<close>

record workspace_role =
  standing_workspace :: workspace_id
  standing_role :: role

datatype projects_binding = AllProjects | SomeProjects "project_id list"

datatype principal =
    Anonymous
  | Account account_id "workspace_role option" "permission list option"
  | Service credential_id workspace_id projects_binding "permission list" account_id
  | Ingest credential_id project_id "workspace_id option" "permission list"
  | Share credential_id dashboard_id "project_id list" "permission list"

fun principal_actor :: "principal \<Rightarrow> account_id option" where
  "principal_actor (Account a _ _) = Some a"
| "principal_actor (Service _ _ _ _ a) = Some a"
| "principal_actor Anonymous = None"
| "principal_actor (Ingest _ _ _ _) = None"
| "principal_actor (Share _ _ _ _) = None"

fun principal_credential :: "principal \<Rightarrow> credential_id option" where
  "principal_credential (Service c _ _ _ _) = Some c"
| "principal_credential (Ingest c _ _ _) = Some c"
| "principal_credential (Share c _ _ _) = Some c"
| "principal_credential (Account _ _ _) = None"
| "principal_credential Anonymous = None"

fun principal_describe :: "principal \<Rightarrow> string" where
  "principal_describe Anonymous = ''anonymous''"
| "principal_describe (Account a _ _) = ''account:'' @ a"
| "principal_describe (Service c _ _ _ _) = ''service:'' @ c"
| "principal_describe (Ingest c _ _ _) = ''ingest:'' @ c"
| "principal_describe (Share c _ _ _) = ''share:'' @ c"

section \<open>The grant table\<close>

text \<open>
  The library as grants.ts uses it: \<open>new AccessControl()\<close>, \<open>ac.grant(role)\<close>,
  \<open>access.extend(below)\<close>, \<open>access.do(action, resource)\<close>, \<open>ac.lock()\<close> and
  \<open>ac.can(role).do(action, resource).granted\<close>.
\<close>

record 'ac ac_lib =
  ac_new :: 'ac
  ac_grant :: "role \<Rightarrow> 'ac \<Rightarrow> 'ac"
  ac_extend :: "role \<Rightarrow> role \<Rightarrow> 'ac \<Rightarrow> 'ac"
  ac_do :: "role \<Rightarrow> string \<Rightarrow> string \<Rightarrow> 'ac \<Rightarrow> 'ac"
  ac_lock :: "'ac \<Rightarrow> 'ac"
  ac_granted :: "'ac \<Rightarrow> role \<Rightarrow> string \<Rightarrow> string \<Rightarrow> bool"

text \<open>
  Documented behaviour: a policy is a set of direct grants and a set of \<open>extends\<close>
  edges; a role may do what is granted to a role it is, or transitively extends.
\<close>

definition ac_lib_ok ::
  "'ac ac_lib \<Rightarrow> ('ac \<Rightarrow> (role \<times> string \<times> string) set) \<Rightarrow> ('ac \<Rightarrow> (role \<times> role) set) \<Rightarrow> bool" where
  "ac_lib_ok lib direct extends \<longleftrightarrow>
     direct (ac_new lib) = {} \<and> extends (ac_new lib) = {} \<and>
     (\<forall>r ac. direct (ac_grant lib r ac) = direct ac \<and> extends (ac_grant lib r ac) = extends ac) \<and>
     (\<forall>r b ac. direct (ac_extend lib r b ac) = direct ac \<and>
               extends (ac_extend lib r b ac) = insert (r, b) (extends ac)) \<and>
     (\<forall>r a x ac. direct (ac_do lib r a x ac) = insert (r, a, x) (direct ac) \<and>
                 extends (ac_do lib r a x ac) = extends ac) \<and>
     (\<forall>ac. direct (ac_lock lib ac) = direct ac \<and> extends (ac_lock lib ac) = extends ac) \<and>
     (\<forall>ac r a x. ac_granted lib ac r a x \<longleftrightarrow>
                 (\<exists>s. (r, s) \<in> (extends ac)\<^sup>* \<and> (s, a, x) \<in> direct ac))"

fun ADDS :: "role \<Rightarrow> permission list" where
  "ADDS Member =
     [QueriesRun, ProjectsRead, DashboardsRead, DashboardsWrite, MonitorsRead,
      MonitorsWrite, WorkspaceRead]"
| "ADDS Admin = [EventsWrite, ProjectsWrite, CredentialsRead, CredentialsWrite, BillingRead]"
| "ADDS Owner = [ProjectsDelete, WorkspaceAdmin, BillingWrite]"

definition INHERITANCE :: "role list" where
  "INHERITANCE = [Member, Admin, Owner]"

fun grant_each :: "'ac ac_lib \<Rightarrow> role \<Rightarrow> permission list \<Rightarrow> 'ac \<Rightarrow> 'ac" where
  "grant_each lib role [] ac = ac"
| "grant_each lib role (p # ps) ac =
     (let (resource, action) = split_permission p
      in grant_each lib role ps (ac_do lib role action resource ac))"

fun build_grants_loop :: "'ac ac_lib \<Rightarrow> role option \<Rightarrow> role list \<Rightarrow> 'ac \<Rightarrow> 'ac" where
  "build_grants_loop lib below [] ac = ac"
| "build_grants_loop lib below (role # roles) ac =
     (let ac1 = ac_grant lib role ac;
          ac2 = (case below of None \<Rightarrow> ac1 | Some b \<Rightarrow> ac_extend lib role b ac1)
      in build_grants_loop lib (Some role) roles (grant_each lib role (ADDS role) ac2))"

definition build_grants :: "'ac ac_lib \<Rightarrow> 'ac" where
  "build_grants lib = ac_lock lib (build_grants_loop lib None INHERITANCE (ac_new lib))"

definition HOLDINGS :: "'ac ac_lib \<Rightarrow> role \<Rightarrow> permission list" where
  "HOLDINGS lib role =
     filter (\<lambda>p. let (resource, action) = split_permission p
                 in ac_granted lib (build_grants lib) role action resource) ALL_PERMISSIONS"

definition permits :: "'ac ac_lib \<Rightarrow> role \<Rightarrow> permission \<Rightarrow> bool" where
  "permits lib role p =
     (if \<not> (role \<in> set ROLES \<and> p \<in> set ALL_PERMISSIONS) then False
      else p \<in> set (HOLDINGS lib role))"

definition permissions_for_role :: "'ac ac_lib \<Rightarrow> role \<Rightarrow> permission list" where
  "permissions_for_role lib role =
     (if role \<in> set ROLES then filter (\<lambda>p. p \<in> set (HOLDINGS lib role)) ALL_PERMISSIONS else [])"

definition roles_holding :: "'ac ac_lib \<Rightarrow> permission \<Rightarrow> role list" where
  "roles_holding lib p = filter (\<lambda>role. permits lib role p) ROLES"

text \<open>What the loop leaves behind, for any library that keeps its promises.\<close>

lemma grant_each_direct:
  assumes "ac_lib_ok lib direct extends"
  shows "direct (grant_each lib r ps ac) =
           direct ac \<union> {(r, snd (split_permission p), fst (split_permission p)) | p. p \<in> set ps}"
    and "extends (grant_each lib r ps ac) = extends ac"
  using assms
  by (induction ps arbitrary: ac) (auto simp: ac_lib_ok_def split_beta Let_def)

lemma build_grants_direct:
  assumes "ac_lib_ok lib direct extends"
  shows "direct (build_grants lib) =
           {(r, snd (split_permission p), fst (split_permission p)) | r p. p \<in> set (ADDS r)}"
proof -
  have "direct (build_grants lib) =
          {(Member, snd (split_permission p), fst (split_permission p)) | p. p \<in> set (ADDS Member)} \<union>
          {(Admin, snd (split_permission p), fst (split_permission p)) | p. p \<in> set (ADDS Admin)} \<union>
          {(Owner, snd (split_permission p), fst (split_permission p)) | p. p \<in> set (ADDS Owner)}"
    using assms grant_each_direct [OF assms]
    by (simp add: build_grants_def INHERITANCE_def ac_lib_ok_def Let_def Un_assoc del: ADDS.simps)
  moreover have "(\<exists>r. Q r) \<longleftrightarrow> Q Member \<or> Q Admin \<or> Q Owner" for Q :: "role \<Rightarrow> bool"
    by (metis role.exhaust)
  ultimately show ?thesis
    by (simp only: set_eq_iff Un_iff mem_Collect_eq) blast
qed

lemma build_grants_extends:
  assumes "ac_lib_ok lib direct extends"
  shows "extends (build_grants lib) = {(Owner, Admin), (Admin, Member)}"
  using assms grant_each_direct(2) [OF assms]
  by (simp add: build_grants_def INHERITANCE_def ac_lib_ok_def Let_def del: ADDS.simps)

lemma inherits_iff: "(r, s) \<in> {(Owner, Admin), (Admin, Member)}\<^sup>* \<longleftrightarrow> s \<le> r"
proof -
  have ok: "(Owner, Admin) \<in> {(Owner, Admin), (Admin, Member)}\<^sup>*"
    "(Admin, Member) \<in> {(Owner, Admin), (Admin, Member)}\<^sup>*"
    by auto
  show ?thesis
  proof
    assume "(r, s) \<in> {(Owner, Admin), (Admin, Member)}\<^sup>*"
    then show "s \<le> r"
      by induction (auto simp: less_eq_role_def)
  next
    assume "s \<le> r"
    with ok show "(r, s) \<in> {(Owner, Admin), (Admin, Member)}\<^sup>*"
      by (cases r; cases s) (auto simp: less_eq_role_def)
  qed
qed

lemma holdings_iff:
  assumes "ac_lib_ok lib direct extends"
  shows "p \<in> set (HOLDINGS lib r) \<longleftrightarrow> (\<exists>s \<le> r. p \<in> set (ADDS s))"
proof -
  have "ac_granted lib (build_grants lib) r (snd (split_permission p)) (fst (split_permission p)) \<longleftrightarrow>
          (\<exists>s \<le> r. p \<in> set (ADDS s))"
    using assms
    by (auto simp: ac_lib_ok_def build_grants_direct [OF assms] build_grants_extends [OF assms]
        inherits_iff) (metis prod_eq_iff split_permission_inj)
  then show ?thesis by (simp add: HOLDINGS_def split_beta)
qed

lemma permits_iff [simp]: "permits lib r p \<longleftrightarrow> p \<in> set (HOLDINGS lib r)"
  by (simp add: permits_def)

lemma set_permissions_for_role [simp]:
  "set (permissions_for_role lib r) = set (HOLDINGS lib r)"
  by (auto simp: permissions_for_role_def)

text \<open>A library that keeps the promises: a policy is its two lists.\<close>

fun extends_closure :: "(role \<times> role) list \<Rightarrow> role \<Rightarrow> role \<Rightarrow> bool" where
  "extends_closure [] r s = (r = s)"
| "extends_closure ((a, b) # es) r s =
     (extends_closure es r s \<or> (extends_closure es r a \<and> extends_closure es b s))"

lemma extends_closure_iff: "extends_closure es r s \<longleftrightarrow> (r, s) \<in> (set es)\<^sup>*"
  by (induction es r s rule: extends_closure.induct) (auto simp: rtrancl_insert)

definition list_ac :: "((role \<times> string \<times> string) list \<times> (role \<times> role) list) ac_lib" where
  "list_ac =
     \<lparr> ac_new = ([], []),
       ac_grant = (\<lambda>r ac. ac),
       ac_extend = (\<lambda>r b (ds, es). (ds, (r, b) # es)),
       ac_do = (\<lambda>r a x (ds, es). ((r, a, x) # ds, es)),
       ac_lock = (\<lambda>ac. ac),
       ac_granted = (\<lambda>(ds, es) r a x.
         list_ex (\<lambda>(s, a', x'). a' = a \<and> x' = x \<and> extends_closure es r s) ds) \<rparr>"

lemma list_ac_ok: "ac_lib_ok list_ac (\<lambda>(ds, es). set ds) (\<lambda>(ds, es). set es)"
  by (auto simp: ac_lib_ok_def list_ac_def extends_closure_iff list_ex_iff)

section \<open>Placement and reach\<close>

record placement =
  placed_workspace :: "workspace_id option"
  placed_project :: "project_id option"

datatype resource =
    RWorkspace workspace_id
  | RProject project_id
  | RDashboard dashboard_id
  | RMonitor monitor_id
  | RCredential credential_id

fun resource_type :: "resource \<Rightarrow> string" where
  "resource_type (RWorkspace _) = ''workspace''"
| "resource_type (RProject _) = ''project''"
| "resource_type (RDashboard _) = ''dashboard''"
| "resource_type (RMonitor _) = ''monitor''"
| "resource_type (RCredential _) = ''credential''"

datatype binding =
    BNothing
  | BWorkspace workspace_id
  | BProjects "workspace_id option" "project_id list"
  | BDashboard dashboard_id "project_id list"

datatype coverage_gap =
    BoundToNothing
  | Unplaced
  | DifferentWorkspace
  | DifferentProject
  | PlacedAboveBinding
  | DifferentDashboard

datatype coverage = Covered | Missing coverage_gap

definition is_covered :: "coverage \<Rightarrow> bool" where
  "is_covered c = (c = Covered)"

fun binding_of :: "principal \<Rightarrow> binding" where
  "binding_of Anonymous = BNothing"
| "binding_of (Account _ standing _) =
     (case standing of None \<Rightarrow> BNothing | Some s \<Rightarrow> BWorkspace (standing_workspace s))"
| "binding_of (Service _ w projects _ _) =
     (case projects of AllProjects \<Rightarrow> BWorkspace w | SomeProjects ps \<Rightarrow> BProjects (Some w) ps)"
| "binding_of (Ingest _ project w _) = BProjects w [project]"
| "binding_of (Share _ d projects _) = BDashboard d projects"

fun covers :: "binding \<Rightarrow> placement \<Rightarrow> resource \<Rightarrow> coverage" where
  "covers BNothing pl res = Missing BoundToNothing"
| "covers (BWorkspace w) pl res =
     (case placed_workspace pl of
        None \<Rightarrow> Missing Unplaced
      | Some pw \<Rightarrow> if pw = w then Covered else Missing DifferentWorkspace)"
| "covers (BProjects w projects) pl res =
     (case placed_project pl of
        None \<Rightarrow> Missing PlacedAboveBinding
      | Some p \<Rightarrow>
          if p \<notin> set projects then Missing DifferentProject
          else if w \<noteq> None \<and> placed_workspace pl \<noteq> w then Missing DifferentWorkspace
          else Covered)"
| "covers (BDashboard d projects) pl res =
     (case res of
        RDashboard i \<Rightarrow> if i = d then Covered else Missing DifferentDashboard
      | _ \<Rightarrow>
          (case placed_project pl of
             None \<Rightarrow> Missing PlacedAboveBinding
           | Some p \<Rightarrow> if p \<in> set projects then Covered else Missing DifferentProject))"

definition reaches :: "binding \<Rightarrow> placement \<Rightarrow> resource \<Rightarrow> bool" where
  "reaches b pl res = is_covered (covers b pl res)"

section \<open>The decision\<close>

datatype denial =
    NotAuthenticated
  | NotAMember account_id
  | NotPermitted permission
  | OutOfBinding permission resource coverage_gap

datatype decision = Allow | Deny denial

definition allows :: "decision \<Rightarrow> bool" where
  "allows d = (d = Allow)"

definition within_ceiling :: "permission list option \<Rightarrow> permission \<Rightarrow> bool" where
  "within_ceiling cap p = (case cap of None \<Rightarrow> True | Some ps \<Rightarrow> p \<in> set ps)"

fun permissions_held_by :: "'ac ac_lib \<Rightarrow> principal \<Rightarrow> permission list" where
  "permissions_held_by lib Anonymous = []"
| "permissions_held_by lib (Account _ standing cap) =
     (case standing of
        None \<Rightarrow> []
      | Some s \<Rightarrow> filter (within_ceiling cap) (permissions_for_role lib (standing_role s)))"
| "permissions_held_by lib (Service _ _ _ ps _) = ps"
| "permissions_held_by lib (Ingest _ _ _ ps) = ps"
| "permissions_held_by lib (Share _ _ _ ps) = ps"

definition holds_permission :: "'ac ac_lib \<Rightarrow> principal \<Rightarrow> permission \<Rightarrow> bool" where
  "holds_permission lib who p =
     (case who of
        Account _ standing cap \<Rightarrow>
          (case standing of
             None \<Rightarrow> False
           | Some s \<Rightarrow> permits lib (standing_role s) p \<and> within_ceiling cap p)
      | _ \<Rightarrow> p \<in> set (permissions_held_by lib who))"

definition decide :: "'ac ac_lib \<Rightarrow> principal \<Rightarrow> permission \<Rightarrow> placement \<Rightarrow> resource \<Rightarrow> decision" where
  "decide lib who p pl res =
     (if who = Anonymous then Deny NotAuthenticated
      else case who of
        Account a None _ \<Rightarrow> Deny (NotAMember a)
      | _ \<Rightarrow>
          if \<not> holds_permission lib who p then Deny (NotPermitted p)
          else (case covers (binding_of who) pl res of
                  Missing gap \<Rightarrow> Deny (OutOfBinding p res gap)
                | Covered \<Rightarrow> Allow))"

datatype unplaced_need = NeedAccount | NeedCredential | NeedPermission permission

definition decide_unplaced ::
  "'ac ac_lib \<Rightarrow> principal \<Rightarrow> unplaced_need \<Rightarrow> workspace_role list \<Rightarrow> decision" where
  "decide_unplaced lib who need standings =
     (if who = Anonymous then Deny NotAuthenticated
      else case need of
        NeedAccount \<Rightarrow>
          (case who of
             Account _ _ _ \<Rightarrow> Allow
           | Service _ _ _ _ _ \<Rightarrow> Allow
           | _ \<Rightarrow> Deny NotAuthenticated)
      | NeedCredential \<Rightarrow>
          (case who of
             Service _ _ _ _ _ \<Rightarrow> Allow
           | Ingest _ _ _ _ \<Rightarrow> Allow
           | _ \<Rightarrow> Deny NotAuthenticated)
      | NeedPermission p \<Rightarrow>
          (case who of
             Account _ standing cap \<Rightarrow>
               (let held = standings @ (case standing of None \<Rightarrow> [] | Some s \<Rightarrow> [s])
                in if within_ceiling cap p \<and> list_ex (\<lambda>s. permits lib (standing_role s) p) held
                   then Allow else Deny (NotPermitted p))
           | _ \<Rightarrow>
               if p \<in> set (permissions_held_by lib who) then Allow else Deny (NotPermitted p)))"

fun gap_string :: "coverage_gap \<Rightarrow> string" where
  "gap_string BoundToNothing = ''BoundToNothing''"
| "gap_string Unplaced = ''Unplaced''"
| "gap_string DifferentWorkspace = ''DifferentWorkspace''"
| "gap_string DifferentProject = ''DifferentProject''"
| "gap_string PlacedAboveBinding = ''PlacedAboveBinding''"
| "gap_string DifferentDashboard = ''DifferentDashboard''"

fun explain :: "denial \<Rightarrow> string" where
  "explain NotAuthenticated = ''not authenticated''"
| "explain (NotAMember _) = ''not a member of the workspace that owns this resource''"
| "explain (NotPermitted p) = ''missing permission '' @ permission_string p"
| "explain (OutOfBinding p res gap) =
     permission_string p @ '' not reachable on '' @ resource_type res @ '': '' @ gap_string gap"

lemma holds_permission_iff [simp]:
  "holds_permission lib who p \<longleftrightarrow> p \<in> set (permissions_held_by lib who)"
  by (cases who) (auto simp: holds_permission_def split: option.splits)

lemma decide_Allow_iff:
  "decide lib who p pl res = Allow \<longleftrightarrow>
     p \<in> set (permissions_held_by lib who) \<and> covers (binding_of who) pl res = Covered"
  by (cases who)
    (auto simp: decide_def split: option.splits coverage.splits)

lemma covers_BProjects_Covered:
  "covers (BProjects w ps) pl res = Covered \<longleftrightarrow>
     (\<exists>p. placed_project pl = Some p \<and> p \<in> set ps) \<and> (w = None \<or> placed_workspace pl = w)"
  by (auto split: option.splits)

lemma covers_BWorkspace_Covered:
  "covers (BWorkspace w) pl res = Covered \<longleftrightarrow> placed_workspace pl = Some w"
  by (auto split: option.splits)

text \<open>The one workspace a principal was issued in or resolved in, if any.\<close>

fun principal_workspace :: "principal \<Rightarrow> workspace_id option" where
  "principal_workspace (Account _ standing _) = map_option standing_workspace standing"
| "principal_workspace (Service _ w _ _ _) = Some w"
| "principal_workspace (Ingest _ _ w _) = w"
| "principal_workspace Anonymous = None"
| "principal_workspace (Share _ _ _ _) = None"

section \<open>Properties\<close>

text \<open>
  The role table, expanded through the library, is exact: a role is permitted what it
  or a lower role adds and nothing else, so authority only grows with rank; a role's
  full list is duplicate free and agrees with the single-permission question.
\<close>

theorem role_holdings_exact:
  assumes "ac_lib_ok lib direct extends"
  shows "(permits lib r p \<longleftrightarrow> (\<exists>s. s \<le> r \<and> p \<in> set (ADDS s))) \<and>
         (p \<in> set (permissions_for_role lib r) \<longleftrightarrow> permits lib r p) \<and>
         (distinct (permissions_for_role lib r)) \<and>
         (r \<le> r' \<longrightarrow> permits lib r p \<longrightarrow> permits lib r' p) \<and>
         (r \<in> set (roles_holding lib p) \<longleftrightarrow> permits lib r p)"
proof (intro conjI impI)
  show "permits lib r p \<longleftrightarrow> (\<exists>s. s \<le> r \<and> p \<in> set (ADDS s))"
    using holdings_iff [OF assms] by simp
  show "permits lib r' p" if "r \<le> r'" "permits lib r p"
    using that holdings_iff [OF assms] by (auto intro: order_trans)
qed (simp_all add: permissions_for_role_def roles_holding_def)

theorem role_holdings_exact_witness:
  "permits list_ac Admin QueriesRun \<and> \<not> permits list_ac Admin BillingWrite \<and>
   permits list_ac Owner QueriesRun"
proof -
  have "permits list_ac Admin QueriesRun"
    unfolding role_holdings_exact [OF list_ac_ok, THEN conjunct1]
    by (rule exI [of _ Member]) (simp add: less_eq_role_def)
  moreover have "\<not> permits list_ac Admin BillingWrite"
  proof -
    have "\<not> (s \<le> Admin \<and> BillingWrite \<in> set (ADDS s))" for s
      by (cases s) (simp_all add: less_eq_role_def)
    then show ?thesis unfolding role_holdings_exact [OF list_ac_ok, THEN conjunct1] by blast
  qed
  moreover have "Admin \<le> Owner" by (simp add: less_eq_role_def)
  ultimately show ?thesis
    using role_holdings_exact [OF list_ac_ok] by blast
qed



text \<open>
  C19. Tenant isolation: a human with a standing, a service key, and an ingest key of a
  claimed project are allowed nothing outside the one workspace they belong to.
\<close>

theorem tenant_isolation:
  assumes "principal_workspace who = Some w" and "decide lib who p pl res = Allow"
  shows "placed_workspace pl = Some w"
  using assms
  by (cases who)
    (auto simp: decide_Allow_iff covers_BProjects_Covered covers_BWorkspace_Covered
      simp del: covers.simps split: option.splits projects_binding.splits)

theorem tenant_isolation_witness:
  "decide list_ac (Ingest ''k'' ''p'' (Some ''w'') [EventsWrite]) EventsWrite
     \<lparr> placed_workspace = Some ''w'', placed_project = Some ''p'' \<rparr> (RProject ''p'') = Allow \<and>
   decide list_ac (Ingest ''k'' ''p'' (Some ''w'') [EventsWrite]) EventsWrite
     \<lparr> placed_workspace = Some ''v'', placed_project = Some ''p'' \<rparr> (RProject ''p'') \<noteq> Allow"
proof -
  let ?who = "Ingest ''k'' ''p'' (Some ''w'') [EventsWrite]"
  have "decide list_ac ?who EventsWrite
          \<lparr> placed_workspace = Some ''w'', placed_project = Some ''p'' \<rparr> (RProject ''p'') = Allow"
    by (simp add: decide_def)
  moreover have "decide list_ac ?who EventsWrite
          \<lparr> placed_workspace = Some ''v'', placed_project = Some ''p'' \<rparr> (RProject ''p'') \<noteq> Allow"
    using tenant_isolation [of ?who "''w''" list_ac EventsWrite
        "\<lparr> placed_workspace = Some ''v'', placed_project = Some ''p'' \<rparr>" "RProject ''p''"]
    by auto
  ultimately show ?thesis by blast
qed

text \<open>
  A delegated consent's permission ceiling only ever narrows: the account is allowed
  exactly what its current role allows and the ceiling names, with a placement and
  without one.
\<close>

theorem ceiling_only_narrows:
  "(decide lib (Account a st (Some cs)) p pl res = Allow \<longleftrightarrow>
     p \<in> set cs \<and> decide lib (Account a st None) p pl res = Allow) \<and>
   (decide_unplaced lib (Account a st (Some cs)) (NeedPermission p) sts = Allow \<longleftrightarrow>
     p \<in> set cs \<and> decide_unplaced lib (Account a st None) (NeedPermission p) sts = Allow)"
  by (auto simp: decide_Allow_iff decide_unplaced_def within_ceiling_def split: option.splits)

text \<open>
  The three checks and their order: every denial names the first check that failed,
  and a call is allowed exactly when all three pass.
\<close>

theorem decide_reasons:
  "(decide lib who p pl res = Deny NotAuthenticated \<longleftrightarrow> who = Anonymous) \<and>
   (decide lib who p pl res = Deny (NotAMember a) \<longleftrightarrow> (\<exists>cap. who = Account a None cap)) \<and>
   (decide lib who p pl res = Deny (NotPermitted q) \<longleftrightarrow>
     who \<noteq> Anonymous \<and> (\<nexists>a cap. who = Account a None cap) \<and> q = p \<and>
     p \<notin> set (permissions_held_by lib who)) \<and>
   (decide lib who p pl res = Deny (OutOfBinding q res' gap) \<longleftrightarrow>
     q = p \<and> res' = res \<and> p \<in> set (permissions_held_by lib who) \<and>
     covers (binding_of who) pl res = Missing gap) \<and>
   (decide lib who p pl res = Allow \<longleftrightarrow>
     p \<in> set (permissions_held_by lib who) \<and> covers (binding_of who) pl res = Covered)"
  by (intro conjI)
    (cases who; auto simp: decide_def simp del: covers.simps split: option.splits coverage.splits)+

text \<open>
  The unplaced question never refuses what a placed one allowed, whatever standings
  the caller resolved; and a human with no standing anywhere is refused.
\<close>

theorem placed_implies_unplaced:
  assumes "decide lib who p pl res = Allow"
  shows "decide_unplaced lib who (NeedPermission p) sts = Allow"
    and "decide_unplaced lib (Account a None cap) (NeedPermission p) [] = Deny (NotPermitted p)"
  using assms
  by (cases who; auto simp: decide_Allow_iff decide_unplaced_def split: option.splits)+

theorem placed_implies_unplaced_witness:
  "decide_unplaced list_ac (Share ''s'' ''d'' [''p''] [QueriesRun]) (NeedPermission QueriesRun) [] = Allow"
  by (rule placed_implies_unplaced(1) [where res = "RProject ''p''" and
        pl = "\<lparr> placed_workspace = Some ''w'', placed_project = Some ''p'' \<rparr>"])
    (simp add: decide_def)

end
