(* ===== verification/Tenancy.thy ===== *)
theory Tenancy
  imports Kernel
begin

text \<open>
  What a workspace is entitled to, packages/tenancy/domain/src: the plan catalog
  (plan.ts), limits (limits.ts), the entitlement a payment state confers
  (entitlement.ts), the event quota (quota.ts), retention (retention.ts), the project
  count (project-count.ts), the Workspace aggregate (workspace.ts, events.ts, errors.ts),
  billing transitions (subscription.ts) and the usage readout (usage.ts). An absent limit
  is \<open>None\<close>, as the sources' \<open>null\<close>.
\<close>

section \<open>Plans and entitlements\<close>

datatype plan_id = Free | Pro

definition PLAN_IDS :: "plan_id list" where
  "PLAN_IDS = [Free, Pro]"

fun plan_string :: "plan_id \<Rightarrow> string" where
  "plan_string Free = ''free''"
| "plan_string Pro = ''pro''"

definition is_plan_id :: "string \<Rightarrow> bool" where
  "is_plan_id raw = (raw \<in> set (map plan_string PLAN_IDS))"

record plan_limits =
  events_per_month :: "int option"
  plan_projects :: "int option"
  plan_seats :: "int option"
  retention_days :: "int option"

record plan =
  plan_ident :: plan_id
  plan_name :: string
  plan_limits :: plan_limits

definition FREE :: plan where
  "FREE =
     \<lparr> plan_ident = Free, plan_name = ''Free'',
       plan_limits = \<lparr> events_per_month = Some 100000, plan_projects = Some 3,
                       plan_seats = None, retention_days = Some 180 \<rparr> \<rparr>"

definition PRO :: plan where
  "PRO =
     \<lparr> plan_ident = Pro, plan_name = ''Pro'',
       plan_limits = \<lparr> events_per_month = Some 1000000, plan_projects = None,
                       plan_seats = None, retention_days = Some 730 \<rparr> \<rparr>"

definition catalog_all :: "plan list" where
  "catalog_all = [FREE, PRO]"

fun catalog_of :: "plan_id \<Rightarrow> plan" where
  "catalog_of Free = FREE"
| "catalog_of Pro = PRO"

definition limits_for :: "plan_id \<Rightarrow> plan_limits" where
  "limits_for i = plan_limits (catalog_of i)"

fun plan_rank :: "plan_id \<Rightarrow> nat" where
  "plan_rank Free = 0"
| "plan_rank Pro = 1"

definition plan_is_at_least :: "plan_id \<Rightarrow> plan_id \<Rightarrow> bool" where
  "plan_is_at_least a b = (plan_rank a \<ge> plan_rank b)"

definition plan_is_paid :: "plan_id \<Rightarrow> bool" where
  "plan_is_paid i = (i \<noteq> Free)"

record workspace_limits =
  max_projects :: "int option"
  max_seats :: "int option"

definition limits_of :: "int option \<Rightarrow> int option \<Rightarrow> workspace_limits" where
  "limits_of p s = \<lparr> max_projects = p, max_seats = s \<rparr>"

definition UNLIMITED :: workspace_limits where
  "UNLIMITED = \<lparr> max_projects = None, max_seats = None \<rparr>"

definition limits_equal :: "workspace_limits \<Rightarrow> workspace_limits \<Rightarrow> bool" where
  "limits_equal a b = (max_projects a = max_projects b \<and> max_seats a = max_seats b)"

definition breached :: "int \<Rightarrow> int option \<Rightarrow> int option" where
  "breached cnt limit = (case limit of None \<Rightarrow> None | Some l \<Rightarrow> if cnt \<ge> l then Some l else None)"

definition over :: "int \<Rightarrow> int option \<Rightarrow> int option" where
  "over cnt limit = (case limit of None \<Rightarrow> None | Some l \<Rightarrow> if cnt > l then Some l else None)"

datatype payment_state = NoPayment | Active | PastDue | Canceled

fun payment_string :: "payment_state \<Rightarrow> string" where
  "payment_string NoPayment = ''none''"
| "payment_string Active = ''active''"
| "payment_string PastDue = ''past_due''"
| "payment_string Canceled = ''canceled''"

definition PAYMENT_STATES :: "payment_state list" where
  "PAYMENT_STATES = [NoPayment, Active, PastDue, Canceled]"

definition is_payment_state :: "string \<Rightarrow> bool" where
  "is_payment_state raw = (raw \<in> set (map payment_string PAYMENT_STATES))"

record entitlement =
  ent_plan :: plan_id
  ent_limits :: plan_limits
  in_grace :: bool

fun resolve :: "plan_id \<Rightarrow> payment_state \<Rightarrow> entitlement" where
  "resolve p Active = \<lparr> ent_plan = p, ent_limits = limits_for p, in_grace = False \<rparr>"
| "resolve p PastDue = \<lparr> ent_plan = p, ent_limits = limits_for p, in_grace = True \<rparr>"
| "resolve p NoPayment = \<lparr> ent_plan = Free, ent_limits = limits_for Free, in_grace = False \<rparr>"
| "resolve p Canceled = \<lparr> ent_plan = Free, ent_limits = limits_for Free, in_grace = False \<rparr>"

definition entitlement_none :: entitlement where
  "entitlement_none = resolve Free NoPayment"

definition entitlement_is_paid :: "entitlement \<Rightarrow> bool" where
  "entitlement_is_paid e = plan_is_paid (ent_plan e)"

definition to_workspace_limits :: "entitlement \<Rightarrow> workspace_limits" where
  "to_workspace_limits e = limits_of (plan_projects (ent_limits e)) (plan_seats (ent_limits e))"

definition is_downgrade :: "entitlement \<Rightarrow> entitlement \<Rightarrow> bool" where
  "is_downgrade current next = (\<not> plan_is_at_least (ent_plan next) (ent_plan current))"

definition entitlement_equal :: "entitlement \<Rightarrow> entitlement \<Rightarrow> bool" where
  "entitlement_equal a b = (ent_plan a = ent_plan b \<and> in_grace a = in_grace b)"

lemmas plan_defs = limits_for_def FREE_def PRO_def

lemma limits_equal_iff [simp]: "limits_equal a b \<longleftrightarrow> a = b"
  by (auto simp: limits_equal_def)

lemma breached_iff: "breached n limit \<noteq> None \<longleftrightarrow> (\<exists>l. limit = Some l \<and> l \<le> n)"
  by (auto simp: breached_def split: option.splits)

lemma over_iff: "over n limit = Some l \<longleftrightarrow> limit = Some l \<and> l < n"
  by (auto simp: over_def split: option.splits)

text \<open>\<open>Entitlement.equal\<close> compares two fields; on resolved entitlements that is equality.\<close>

lemma resolve_limits: "ent_limits (resolve p s) = limits_for (ent_plan (resolve p s))"
  by (cases s) simp_all

lemma entitlement_equal_resolve:
  "entitlement_equal (resolve p s) (resolve q u) \<longleftrightarrow> resolve p s = resolve q u"
  by (auto simp: entitlement_equal_def resolve_limits intro: entitlement.equality)

section \<open>The event quota\<close>

text \<open>
  A ratio is an exact rational, or infinite for a zero allowance. The sources divide
  doubles; for the catalog's allowances and any count below \<open>2 ^ 53\<close> the comparison with
  1.3 has the same outcome, the two quotients nearest to it being a whole event apart.
\<close>

datatype ratio = Ratio rat | InfiniteRatio

definition OVERAGE_MULTIPLE :: rat where
  "OVERAGE_MULTIPLE = 13 / 10"

fun ratio_below :: "ratio \<Rightarrow> rat \<Rightarrow> bool" where
  "ratio_below (Ratio r) m = (r < m)"
| "ratio_below InfiniteRatio m = False"

datatype quota_decision =
    QuotaOk int "int option"
  | QuotaOverage int int ratio
  | QuotaRejected int int ratio

definition quota_decide :: "entitlement \<Rightarrow> int \<Rightarrow> quota_decision" where
  "quota_decide e used =
     (case events_per_month (ent_limits e) of
        None \<Rightarrow> QuotaOk used None
      | Some limit \<Rightarrow>
          if used < limit then QuotaOk used (Some limit)
          else
            (let r = (if limit = 0 then InfiniteRatio else Ratio (of_int used / of_int limit))
             in if ratio_below r OVERAGE_MULTIPLE then QuotaOverage used limit r
                else QuotaRejected used limit r))"

fun quota_accepts :: "quota_decision \<Rightarrow> bool" where
  "quota_accepts (QuotaRejected _ _ _) = False"
| "quota_accepts _ = True"

fun needs_attention :: "quota_decision \<Rightarrow> bool" where
  "needs_attention (QuotaOk _ _) = False"
| "needs_attention _ = True"

fun utilisation :: "quota_decision \<Rightarrow> ratio option" where
  "utilisation (QuotaOk used limit) =
     (case limit of
        None \<Rightarrow> None
      | Some l \<Rightarrow> if l = 0 then None else Some (Ratio (of_int used / of_int l)))"
| "utilisation (QuotaOverage _ _ r) = Some r"
| "utilisation (QuotaRejected _ _ r) = Some r"

datatype quota_state = StateOk | StateOverage | StateRejected

fun quota_state_of :: "quota_decision \<Rightarrow> quota_state" where
  "quota_state_of (QuotaOk _ _) = StateOk"
| "quota_state_of (QuotaOverage _ _ _) = StateOverage"
| "quota_state_of (QuotaRejected _ _ _) = StateRejected"

lemma ratio_below_multiple:
  assumes "0 < l"
  shows "of_int u / of_int l < OVERAGE_MULTIPLE \<longleftrightarrow> 10 * u < 13 * l"
proof -
  have "of_int u / of_int l < OVERAGE_MULTIPLE \<longleftrightarrow> (of_int (10 * u) :: rat) < of_int (13 * l)"
    using assms by (simp add: OVERAGE_MULTIPLE_def field_simps)
  then show ?thesis by (simp only: of_int_less_iff)
qed

section \<open>Retention\<close>

definition retention_cutoff :: "entitlement \<Rightarrow> instant \<Rightarrow> instant option" where
  "retention_cutoff e now =
     (case retention_days (ent_limits e) of
        None \<Rightarrow> None
      | Some days \<Rightarrow> Some (instant_minus now (duration_days days)))"

fun longest_retention_loop :: "int \<Rightarrow> plan_id list \<Rightarrow> int option" where
  "longest_retention_loop longest [] = Some longest"
| "longest_retention_loop longest (i # ids) =
     (case retention_days (limits_for i) of
        None \<Rightarrow> None
      | Some days \<Rightarrow> longest_retention_loop (max longest days) ids)"

definition longest_retention_days :: "int option" where
  "longest_retention_days = longest_retention_loop 0 PLAN_IDS"

definition global_purge_cutoff :: "instant \<Rightarrow> instant option" where
  "global_purge_cutoff now =
     (case longest_retention_days of
        None \<Rightarrow> None
      | Some days \<Rightarrow> Some (instant_minus now (duration_days days)))"

definition needs_row_purge :: "entitlement \<Rightarrow> bool" where
  "needs_row_purge e =
     (case retention_days (ent_limits e) of
        None \<Rightarrow> False
      | Some mine \<Rightarrow> (case longest_retention_days of None \<Rightarrow> True | Some l \<Rightarrow> mine < l))"

text \<open>The loop computes an upper bound of every plan it visits.\<close>

lemma longest_retention_loop_bound:
  "longest_retention_loop m ids = Some l \<Longrightarrow>
     m \<le> l \<and> (\<forall>i \<in> set ids. \<exists>d. retention_days (limits_for i) = Some d \<and> d \<le> l)"
proof (induction ids arbitrary: m)
  case (Cons i ids)
  then show ?case by (fastforce split: option.splits)
qed simp

lemma plan_in_PLAN_IDS [simp]: "i \<in> set PLAN_IDS"
  by (cases i) (simp_all add: PLAN_IDS_def)

section \<open>The Workspace aggregate\<close>

datatype project_state = ProjectActive | ProjectArchived

record project_entry =
  entry_id :: project_id
  entry_name :: string
  entry_state :: project_state

definition counts_against_cap :: "project_entry \<Rightarrow> bool" where
  "counts_against_cap entry = (entry_state entry = ProjectActive)"

fun count_loop :: "int \<Rightarrow> project_entry list \<Rightarrow> int" where
  "count_loop n [] = n"
| "count_loop n (entry # entries) =
     count_loop (if counts_against_cap entry then n + 1 else n) entries"

definition count_against_cap :: "project_entry list \<Rightarrow> int" where
  "count_against_cap entries = count_loop 0 entries"

definition active_projects :: "project_entry list \<Rightarrow> project_entry list" where
  "active_projects entries = filter counts_against_cap entries"

definition find_project :: "project_entry list \<Rightarrow> project_id \<Rightarrow> project_entry option" where
  "find_project entries i = find (\<lambda>entry. entry_id entry = i) entries"

record workspace_standing =
  standing_plan :: plan_id
  standing_payment :: payment_state

record workspace =
  ws_id :: workspace_id
  ws_name :: string
  ws_plan :: plan_id
  ws_payment :: payment_state
  ws_projects :: "project_entry list"

datatype workspace_error =
    NameRequired
  | NoSuchWorkspace workspace_id
  | AlreadyAMember account_id
  | NotAMemberOf account_id
  | RoleUnchanged account_id role
  | LastOwner account_id
  | SeatLimitReached int
  | ProjectExists project_id
  | NoSuchProject project_id
  | ProjectAlreadyArchived project_id
  | ProjectNotArchived project_id
  | ProjectLimitReached int

datatype workspace_event =
    WorkspaceOpened workspace_id account_id instant
  | WorkspaceRenamed workspace_id string instant
  | PlanChanged workspace_id plan_id plan_id instant
  | PaymentStateChanged workspace_id payment_state payment_state instant
  | ProjectProvisioned workspace_id project_id string instant
  | ProjectWasArchived workspace_id project_id instant
  | ProjectRestored workspace_id project_id instant
  | ProjectDeregistered workspace_id project_id instant
  | LimitsChanged workspace_id workspace_limits instant
  | OverProjectLimit workspace_id int int instant
  | OverSeatLimit workspace_id int int instant

fun workspace_event_about :: "workspace_event \<Rightarrow> workspace_id" where
  "workspace_event_about (WorkspaceOpened w _ _) = w"
| "workspace_event_about (WorkspaceRenamed w _ _) = w"
| "workspace_event_about (PlanChanged w _ _ _) = w"
| "workspace_event_about (PaymentStateChanged w _ _ _) = w"
| "workspace_event_about (ProjectProvisioned w _ _ _) = w"
| "workspace_event_about (ProjectWasArchived w _ _) = w"
| "workspace_event_about (ProjectRestored w _ _) = w"
| "workspace_event_about (ProjectDeregistered w _ _) = w"
| "workspace_event_about (LimitsChanged w _ _) = w"
| "workspace_event_about (OverProjectLimit w _ _ _) = w"
| "workspace_event_about (OverSeatLimit w _ _ _) = w"

type_synonym workspace_applied = "workspace \<times> workspace_event list"

definition workspace_open ::
  "workspace_id \<Rightarrow> string \<Rightarrow> account_id \<Rightarrow> instant \<Rightarrow> workspace_error + workspace_applied" where
  "workspace_open i name founder t =
     (let trimmed = js_trim name
      in if length trimmed = 0 then err NameRequired
         else ok (\<lparr> ws_id = i, ws_name = trimmed, ws_plan = Free, ws_payment = NoPayment,
                    ws_projects = [] \<rparr>,
                  [WorkspaceOpened i founder t]))"

definition workspace_entitlement :: "workspace \<Rightarrow> entitlement" where
  "workspace_entitlement w = resolve (ws_plan w) (ws_payment w)"

definition workspace_limits_now :: "workspace \<Rightarrow> workspace_limits" where
  "workspace_limits_now w = to_workspace_limits (workspace_entitlement w)"

definition project_count :: "workspace \<Rightarrow> int" where
  "project_count w = count_against_cap (ws_projects w)"

definition rename_workspace ::
  "string \<Rightarrow> instant \<Rightarrow> workspace \<Rightarrow> workspace_error + workspace_applied" where
  "rename_workspace name t w =
     (let trimmed = js_trim name
      in if length trimmed = 0 then err NameRequired
         else if trimmed = ws_name w then ok (w, [])
         else ok (w\<lparr>ws_name := trimmed\<rparr>, [WorkspaceRenamed (ws_id w) trimmed t]))"

definition refuse_if_full :: "workspace \<Rightarrow> workspace_error option" where
  "refuse_if_full w =
     map_option ProjectLimitReached
       (breached (project_count w) (max_projects (workspace_limits_now w)))"

definition replace_entry :: "workspace \<Rightarrow> project_id \<Rightarrow> project_entry \<Rightarrow> project_entry list" where
  "replace_entry w i entry = map (\<lambda>p. if entry_id p = i then entry else p) (ws_projects w)"

definition register_project ::
  "project_id \<Rightarrow> string \<Rightarrow> instant \<Rightarrow> workspace \<Rightarrow> workspace_error + workspace_applied" where
  "register_project i name t w =
     (let trimmed = js_trim name
      in if length trimmed = 0 then err NameRequired
         else if find_project (ws_projects w) i \<noteq> None then err (ProjectExists i)
         else (case refuse_if_full w of
                 Some capped \<Rightarrow> err capped
               | None \<Rightarrow>
                   ok (w\<lparr>ws_projects := ws_projects w @
                           [\<lparr> entry_id = i, entry_name = trimmed, entry_state = ProjectActive \<rparr>]\<rparr>,
                       [ProjectProvisioned (ws_id w) i trimmed t])))"

definition archive_project ::
  "project_id \<Rightarrow> instant \<Rightarrow> workspace \<Rightarrow> workspace_error + workspace_applied" where
  "archive_project i t w =
     (case find_project (ws_projects w) i of
        None \<Rightarrow> err (NoSuchProject i)
      | Some entry \<Rightarrow>
          if entry_state entry = ProjectArchived then err (ProjectAlreadyArchived i)
          else ok (w\<lparr>ws_projects := replace_entry w i (entry\<lparr>entry_state := ProjectArchived\<rparr>)\<rparr>,
                   [ProjectWasArchived (ws_id w) i t]))"

definition restore_project ::
  "project_id \<Rightarrow> instant \<Rightarrow> workspace \<Rightarrow> workspace_error + workspace_applied" where
  "restore_project i t w =
     (case find_project (ws_projects w) i of
        None \<Rightarrow> err (NoSuchProject i)
      | Some entry \<Rightarrow>
          if entry_state entry = ProjectActive then err (ProjectNotArchived i)
          else (case refuse_if_full w of
                  Some capped \<Rightarrow> err capped
                | None \<Rightarrow>
                    ok (w\<lparr>ws_projects := replace_entry w i (entry\<lparr>entry_state := ProjectActive\<rparr>)\<rparr>,
                        [ProjectRestored (ws_id w) i t])))"

definition deregister_project ::
  "project_id \<Rightarrow> instant \<Rightarrow> workspace \<Rightarrow> workspace_error + workspace_applied" where
  "deregister_project i t w =
     (if find_project (ws_projects w) i = None then err (NoSuchProject i)
      else ok (w\<lparr>ws_projects := filter (\<lambda>p. entry_id p \<noteq> i) (ws_projects w)\<rparr>,
               [ProjectDeregistered (ws_id w) i t]))"

definition may_admit_seat :: "int \<Rightarrow> workspace \<Rightarrow> workspace_error + (int \<times> int option)" where
  "may_admit_seat seats w =
     (let maxs = max_seats (workspace_limits_now w)
      in case breached seats maxs of
           Some b \<Rightarrow> err (SeatLimitReached b)
         | None \<Rightarrow> ok (seats, maxs))"

definition apply_standing ::
  "workspace_standing \<Rightarrow> int \<Rightarrow> instant \<Rightarrow> workspace \<Rightarrow> workspace_applied" where
  "apply_standing standing seats t w =
     (let before = workspace_limits_now w;
          nxt = w\<lparr>ws_plan := standing_plan standing, ws_payment := standing_payment standing\<rparr>;
          after = workspace_limits_now nxt;
          plan_events =
            (if standing_plan standing \<noteq> ws_plan w
             then [PlanChanged (ws_id w) (ws_plan w) (standing_plan standing) t] else []);
          payment_events =
            (if standing_payment standing \<noteq> ws_payment w
             then [PaymentStateChanged (ws_id w) (ws_payment w) (standing_payment standing) t]
             else []);
          limit_events =
            (if \<not> limits_equal before after
             then [LimitsChanged (ws_id w) after t] @
                  (case over (project_count nxt) (max_projects after) of
                     None \<Rightarrow> []
                   | Some l \<Rightarrow> [OverProjectLimit (ws_id w) (project_count nxt) l t]) @
                  (case over seats (max_seats after) of
                     None \<Rightarrow> []
                   | Some l \<Rightarrow> [OverSeatLimit (ws_id w) seats l t])
             else [])
      in (nxt, plan_events @ payment_events @ limit_events))"

lemmas workspace_op_defs =
  rename_workspace_def register_project_def archive_project_def restore_project_def
  deregister_project_def Let_def ok_def err_def

lemma count_loop_eq: "count_loop n es = n + int (length (filter counts_against_cap es))"
  by (induction es arbitrary: n) auto

lemma count_against_cap_eq: "count_against_cap es = int (length (active_projects es))"
  by (simp add: count_against_cap_def count_loop_eq active_projects_def)

lemma find_project_Some:
  "find_project es i = Some e \<Longrightarrow> e \<in> set es \<and> entry_id e = i"
  using find_Some_iff_mem [of "\<lambda>e. entry_id e = i"] by (auto simp: find_project_def)

lemma find_project_None: "find_project es i = None \<longleftrightarrow> i \<notin> entry_id ` set es"
  by (auto simp: find_project_def find_None_iff_all)

lemma length_filter_replace:
  assumes "distinct (map entry_id es)" and "find_project es i = Some e"
    and "entry_id e' = i"
  shows "length (filter counts_against_cap (map (\<lambda>p. if entry_id p = i then e' else p) es)) +
           (if counts_against_cap e then 1 else 0) =
         length (filter counts_against_cap es) + (if counts_against_cap e' then 1 else 0)"
  using assms
proof (induction es)
  case (Cons x xs)
  show ?case
  proof (cases "entry_id x = i")
    case True
    with Cons.prems have "map (\<lambda>p. if entry_id p = i then e' else p) xs = xs"
      by (intro map_idI) (auto, metis image_eqI)
    with True Cons.prems show ?thesis by (simp add: find_project_def)
  next
    case False
    with Cons show ?thesis by (simp add: find_project_def)
  qed
qed (simp add: find_project_def)

text \<open>
  The aggregate's commands. Adopting a payment standing is the only one that can shrink
  the entitlement, so the project commands are a group of their own.
\<close>

datatype project_command =
    CmdRename string instant
  | CmdRegister project_id string instant
  | CmdArchive project_id instant
  | CmdRestore project_id instant
  | CmdDeregister project_id instant

datatype workspace_command =
    CmdProject project_command
  | CmdStanding workspace_standing int instant

fun exec_project_command ::
  "project_command \<Rightarrow> workspace \<Rightarrow> workspace_error + workspace_applied" where
  "exec_project_command (CmdRename n t) w = rename_workspace n t w"
| "exec_project_command (CmdRegister i n t) w = register_project i n t w"
| "exec_project_command (CmdArchive i t) w = archive_project i t w"
| "exec_project_command (CmdRestore i t) w = restore_project i t w"
| "exec_project_command (CmdDeregister i t) w = deregister_project i t w"

fun exec_workspace :: "workspace_command \<Rightarrow> workspace \<Rightarrow> workspace_error + workspace_applied" where
  "exec_workspace (CmdProject c) w = exec_project_command c w"
| "exec_workspace (CmdStanding st seats t) w = Inr (apply_standing st seats t w)"

definition named :: "string \<Rightarrow> bool" where
  "named n = (n \<noteq> [] \<and> js_trim n = n)"

definition workspace_wf :: "workspace \<Rightarrow> bool" where
  "workspace_wf w =
     (named (ws_name w) \<and> distinct (map entry_id (ws_projects w)) \<and>
      list_all (\<lambda>e. named (entry_name e)) (ws_projects w))"

definition within_cap :: "workspace \<Rightarrow> bool" where
  "within_cap w =
     (case max_projects (workspace_limits_now w) of None \<Rightarrow> True | Some l \<Rightarrow> project_count w \<le> l)"

lemma named_trim: "js_trim n \<noteq> [] \<Longrightarrow> named (js_trim n)"
  by (simp add: named_def)

lemma limits_now_cong:
  "ws_plan v = ws_plan w \<Longrightarrow> ws_payment v = ws_payment w \<Longrightarrow>
     workspace_limits_now v = workspace_limits_now w"
  by (simp add: workspace_limits_now_def workspace_entitlement_def)

lemma project_command_keeps:
  "exec_project_command c w = Inr (w', es) \<Longrightarrow>
     ws_id w' = ws_id w \<and> ws_plan w' = ws_plan w \<and> ws_payment w' = ws_payment w"
  by (cases c) (auto simp: workspace_op_defs split: if_splits option.splits)

lemma project_command_limits:
  "exec_project_command c w = Inr (w', es) \<Longrightarrow> workspace_limits_now w' = workspace_limits_now w"
  using project_command_keeps limits_now_cong by blast

lemma map_id_replace_entry:
  "entry_id e = i \<Longrightarrow> map entry_id (replace_entry w i e) = map entry_id (ws_projects w)"
  by (simp add: replace_entry_def)

lemma named_replace_entry:
  assumes "find_project (ws_projects w) i = Some e"
    and "list_all (\<lambda>e. named (entry_name e)) (ws_projects w)"
  shows "list_all (\<lambda>e. named (entry_name e)) (replace_entry w i (e\<lparr>entry_state := st\<rparr>))"
  using assms find_project_Some [OF assms(1)] by (auto simp: replace_entry_def list_all_iff)

lemma count_replace_entry:
  assumes "distinct (map entry_id (ws_projects w))" and "find_project (ws_projects w) i = Some e"
  shows "count_against_cap (replace_entry w i (e\<lparr>entry_state := st\<rparr>)) =
           project_count w + (if st = ProjectActive then 1 else 0)
             - (if entry_state e = ProjectActive then 1 else 0)"
proof -
  have "entry_id (e\<lparr>entry_state := st\<rparr>) = i"
    using find_project_Some [OF assms(2)] by simp
  from length_filter_replace [OF assms this] show ?thesis
    by (auto simp: replace_entry_def project_count_def count_against_cap_eq active_projects_def
        counts_against_cap_def)
qed

lemma exec_project_wf:
  assumes "workspace_wf w" and "exec_project_command c w = Inr (w', es)"
  shows "workspace_wf w'"
proof (cases c)
  case (CmdRegister i n t)
  with assms show ?thesis
    by (auto simp: workspace_op_defs workspace_wf_def named_trim find_project_None
        split: if_splits option.splits)
next
  case (CmdArchive i t)
  with assms show ?thesis
    by (auto simp: workspace_op_defs workspace_wf_def map_id_replace_entry named_replace_entry
        dest: find_project_Some split: if_splits option.splits)
next
  case (CmdRestore i t)
  with assms show ?thesis
    by (auto simp: workspace_op_defs workspace_wf_def map_id_replace_entry named_replace_entry
        dest: find_project_Some split: if_splits option.splits)
qed (use assms in \<open>auto simp: workspace_op_defs workspace_wf_def named_trim list_all_iff
        distinct_map_filter split: if_splits\<close>)

text \<open>What a project command does to the count: a slot is taken only when there is one.\<close>

lemma refuse_if_full_None:
  "refuse_if_full w = None \<longleftrightarrow>
     (case max_projects (workspace_limits_now w) of None \<Rightarrow> True | Some l \<Rightarrow> project_count w < l)"
  by (auto simp: refuse_if_full_def breached_def split: option.splits)

lemma count_filter_le:
  "count_against_cap (filter P es) \<le> count_against_cap es"
  by (induction es) (auto simp: count_against_cap_eq active_projects_def)

lemma exec_project_count:
  assumes "workspace_wf w" and "exec_project_command c w = Inr (w', es)"
  shows "project_count w' \<le> project_count w \<or>
           (refuse_if_full w = None \<and> project_count w' = project_count w + 1)"
proof (cases c)
  case (CmdRegister i n t)
  with assms show ?thesis
    by (auto simp: workspace_op_defs project_count_def count_against_cap_eq active_projects_def
        counts_against_cap_def split: if_splits option.splits)
next
  case (CmdArchive i t)
  with assms show ?thesis
    by (auto simp: workspace_op_defs workspace_wf_def project_count_def [of w'] count_replace_entry
        split: if_splits option.splits)
next
  case (CmdRestore i t)
  with assms show ?thesis
    by (auto simp: workspace_op_defs workspace_wf_def project_count_def [of w'] count_replace_entry
        split: if_splits option.splits)
qed (use assms in \<open>auto simp: workspace_op_defs project_count_def count_filter_le split: if_splits\<close>)

lemma exec_project_within_cap:
  assumes "workspace_wf w" "exec_project_command c w = Inr (w', es)" "within_cap w"
  shows "within_cap w'"
  using exec_project_count [OF assms(1,2)] assms(3) project_command_limits [OF assms(2)]
  by (auto simp: within_cap_def refuse_if_full_None split: option.splits)

lemma exec_project_about:
  "exec_project_command c w = Inr (w', es) \<Longrightarrow> e \<in> set es \<Longrightarrow> workspace_event_about e = ws_id w"
  by (cases c) (auto simp: workspace_op_defs split: if_splits option.splits)

lemma apply_standing_fst:
  "fst (apply_standing st seats t w) =
     w\<lparr>ws_plan := standing_plan st, ws_payment := standing_payment st\<rparr>"
  by (simp add: apply_standing_def Let_def)

lemma apply_standing_about:
  "e \<in> set (snd (apply_standing st seats t w)) \<Longrightarrow> workspace_event_about e = ws_id w"
  by (auto simp: apply_standing_def Let_def split: if_splits option.splits)

lemma apply_standing_count [simp]:
  "project_count (fst (apply_standing st seats t w)) = project_count w"
  by (simp add: apply_standing_fst project_count_def)

text \<open>
  Two readings of the contract: under any commands names and ids stay well formed; under
  project commands alone the cap holds as well.
\<close>

interpretation ws: aggregate exec_workspace workspace_wf ws_id workspace_event_about
proof
  fix c s s' es e
  assume exec: "exec_workspace c s = Inr (s', es)"
  show "workspace_wf s'" if "workspace_wf s"
  proof (cases c)
    case (CmdProject p)
    with exec that show ?thesis by (auto intro: exec_project_wf)
  next
    case (CmdStanding st seats t)
    with exec apply_standing_fst [of st seats t s] that show ?thesis
      by (simp add: workspace_wf_def)
  qed
  show "ws_id s' = ws_id s"
  proof (cases c)
    case (CmdProject p)
    with exec show ?thesis by (auto dest: project_command_keeps)
  next
    case (CmdStanding st seats t)
    with exec apply_standing_fst [of st seats t s] show ?thesis by simp
  qed
  show "workspace_event_about e = ws_id s" if "e \<in> set es"
  proof (cases c)
    case (CmdProject p)
    with exec that show ?thesis by (auto dest: exec_project_about)
  next
    case (CmdStanding st seats t)
    with exec that apply_standing_about [of e st seats t s] show ?thesis by simp
  qed
qed

interpretation ws_capped: aggregate exec_project_command
  "\<lambda>w. workspace_wf w \<and> within_cap w" ws_id workspace_event_about
  using exec_project_wf exec_project_within_cap project_command_keeps exec_project_about
  by unfold_locales blast+

section \<open>Subscriptions and billing events\<close>

record subscription =
  sub_workspace :: workspace_id
  sub_plan :: plan_id
  sub_payment :: payment_state
  sub_customer :: "string option"
  sub_ref :: "string option"
  renews_at :: "instant option"
  updated_at :: instant

definition subscription_none :: "workspace_id \<Rightarrow> instant \<Rightarrow> subscription" where
  "subscription_none w t =
     \<lparr> sub_workspace = w, sub_plan = Free, sub_payment = NoPayment, sub_customer = None,
       sub_ref = None, renews_at = None, updated_at = t \<rparr>"

definition entitlement_of :: "subscription \<Rightarrow> entitlement" where
  "entitlement_of s = resolve (sub_plan s) (sub_payment s)"

definition subscription_is_paid :: "subscription \<Rightarrow> bool" where
  "subscription_is_paid s = entitlement_is_paid (entitlement_of s)"

definition standing_of :: "subscription \<Rightarrow> workspace_standing" where
  "standing_of s = \<lparr> standing_plan = sub_plan s, standing_payment = sub_payment s \<rparr>"

definition has_billing_account :: "subscription \<Rightarrow> bool" where
  "has_billing_account s = (sub_customer s \<noteq> None)"

datatype billing_event =
    CheckoutCompleted plan_id string string "instant option"
  | SubscriptionUpdated plan_id string "instant option" bool
  | PaymentFailed string
  | PaymentRecovered string
  | SubscriptionCanceled string

datatype notable = Upgraded | Downgraded | NotePaymentFailed | NoteRecovered

record transition =
  next_subscription :: subscription
  entitlement_changed :: bool
  notable_change :: "notable option"

fun next_subscription_of :: "subscription \<Rightarrow> billing_event \<Rightarrow> instant \<Rightarrow> subscription" where
  "next_subscription_of s (CheckoutCompleted p customer ref renews) t =
     s\<lparr>sub_plan := p, sub_payment := Active, sub_customer := Some customer,
       sub_ref := Some ref, renews_at := renews, updated_at := t\<rparr>"
| "next_subscription_of s (SubscriptionUpdated p ref renews act) t =
     s\<lparr>sub_plan := p, sub_payment := (if act then Active else Canceled),
       sub_ref := Some ref, renews_at := renews, updated_at := t\<rparr>"
| "next_subscription_of s (PaymentFailed _) t = s\<lparr>sub_payment := PastDue, updated_at := t\<rparr>"
| "next_subscription_of s (PaymentRecovered _) t = s\<lparr>sub_payment := Active, updated_at := t\<rparr>"
| "next_subscription_of s (SubscriptionCanceled _) t =
     s\<lparr>sub_payment := Canceled, renews_at := None, updated_at := t\<rparr>"

fun is_payment_failed :: "billing_event \<Rightarrow> bool" where
  "is_payment_failed (PaymentFailed _) = True"
| "is_payment_failed _ = False"

fun is_payment_recovered :: "billing_event \<Rightarrow> bool" where
  "is_payment_recovered (PaymentRecovered _) = True"
| "is_payment_recovered _ = False"

definition notability_of :: "billing_event \<Rightarrow> entitlement \<Rightarrow> entitlement \<Rightarrow> notable option" where
  "notability_of ev before after =
     (if is_payment_failed ev then Some NotePaymentFailed
      else if is_payment_recovered ev \<and> in_grace before then Some NoteRecovered
      else if entitlement_is_paid after \<and> \<not> entitlement_is_paid before then Some Upgraded
      else if entitlement_is_paid before \<and> \<not> entitlement_is_paid after then Some Downgraded
      else None)"

definition apply_billing_event :: "subscription \<Rightarrow> billing_event \<Rightarrow> instant \<Rightarrow> transition" where
  "apply_billing_event current ev t =
     (let before = entitlement_of current;
          nxt = next_subscription_of current ev t;
          after = entitlement_of nxt
      in \<lparr> next_subscription = nxt,
           entitlement_changed = (\<not> entitlement_equal before after),
           notable_change = notability_of ev before after \<rparr>)"

section \<open>The usage readout\<close>

record measured_usage =
  measured_events :: int
  measured_seats :: int

record workspace_usage =
  usage_plan :: plan_id
  usage_in_grace :: bool
  events_used :: int
  events_limit :: "int option"
  events_state :: quota_state
  projects_used :: int
  projects_limit :: "int option"
  seats_used :: int
  seats_limit :: "int option"

fun decision_used :: "quota_decision \<Rightarrow> int" where
  "decision_used (QuotaOk u _) = u"
| "decision_used (QuotaOverage u _ _) = u"
| "decision_used (QuotaRejected u _ _) = u"

definition workspace_usage_of :: "workspace \<Rightarrow> measured_usage \<Rightarrow> workspace_usage" where
  "workspace_usage_of w m =
     (let e = workspace_entitlement w; d = quota_decide e (measured_events m)
      in \<lparr> usage_plan = ent_plan e, usage_in_grace = in_grace e,
           events_used = decision_used d, events_limit = events_per_month (ent_limits e),
           events_state = quota_state_of d,
           projects_used = project_count w,
           projects_limit = max_projects (workspace_limits_now w),
           seats_used = measured_seats m, seats_limit = max_seats (workspace_limits_now w) \<rparr>)"

section \<open>Properties\<close>

text \<open>
  C9. The project cap: a workspace opened and then driven through any sequence of renames,
  registrations, archivals, restorations and deregistrations holds at most the projects its
  plan allows, with distinct ids and trimmed non-empty names, and is still the workspace
  it was opened as.
\<close>

theorem project_cap_invariant:
  assumes "workspace_open i n founder t0 = Inr (w, es0)"
    and "run_cmds exec_project_command cs w = (v, es)"
  shows "within_cap v \<and> workspace_wf v \<and> ws_id v = i \<and>
         (\<forall>e \<in> set es. workspace_event_about e = i)"
proof -
  have "workspace_wf w \<and> within_cap w" and "ws_id w = i"
    using assms(1)
    by (auto simp: workspace_open_def Let_def ok_def err_def workspace_wf_def named_trim
        within_cap_def project_count_def count_against_cap_eq active_projects_def
        workspace_limits_now_def workspace_entitlement_def to_workspace_limits_def limits_of_def
        plan_defs split: if_splits)
  with ws_capped.run_sound [OF _ assms(2)] show ?thesis by auto
qed

theorem project_cap_invariant_witness:
  "\<exists>w. run_cmds exec_project_command
      [CmdRegister ''a'' ''A'' 1, CmdRegister ''b'' ''B'' 2, CmdRegister ''c'' ''C'' 3,
       CmdArchive ''a'' 4, CmdRegister ''d'' ''D'' 5, CmdRestore ''a'' 6]
      \<lparr> ws_id = ''w'', ws_name = ''Acme'', ws_plan = Free, ws_payment = NoPayment, ws_projects = [] \<rparr>
      = w \<and> within_cap (fst w) \<and> project_count (fst w) = 3"
proof -
  let ?w = "\<lparr> ws_id = ''w'', ws_name = ''Acme'', ws_plan = Free, ws_payment = NoPayment,
             ws_projects = [] \<rparr>"
  let ?cs = "[CmdRegister ''a'' ''A'' 1, CmdRegister ''b'' ''B'' 2, CmdRegister ''c'' ''C'' 3,
              CmdArchive ''a'' 4, CmdRegister ''d'' ''D'' 5, CmdRestore ''a'' 6]"
  have "workspace_open ''w'' ''Acme'' ''u'' 0 = Inr (?w, [WorkspaceOpened ''w'' ''u'' 0])"
    by code_simp
  moreover have "run_cmds exec_project_command ?cs ?w =
      (fst (run_cmds exec_project_command ?cs ?w), snd (run_cmds exec_project_command ?cs ?w))"
    by simp
  ultimately have "within_cap (fst (run_cmds exec_project_command ?cs ?w))"
    using project_cap_invariant by blast
  moreover have "project_count (fst (run_cmds exec_project_command ?cs ?w)) = 3"
    by code_simp
  ultimately show ?thesis by blast
qed

lemma exec_over_reported:
  assumes "workspace_wf w" "within_cap w" "exec_workspace c w = Inr (v, es)" "\<not> within_cap v"
  shows "\<exists>n l t. OverProjectLimit (ws_id w) n l t \<in> set es"
proof (cases c)
  case (CmdProject p)
  with assms exec_project_within_cap show ?thesis by auto
next
  case (CmdStanding st seats t)
  with assms(3) have v: "v = fst (apply_standing st seats t w)"
    and es: "es = snd (apply_standing st seats t w)" by auto
  have cnt: "project_count v = project_count w" unfolding v by simp
  with assms(2,4) have "workspace_limits_now v \<noteq> workspace_limits_now w"
    by (auto simp: within_cap_def split: option.splits)
  moreover from assms(4) have "\<exists>l. over (project_count v) (max_projects (workspace_limits_now v)) = Some l"
    by (auto simp: within_cap_def over_def split: option.splits)
  ultimately show ?thesis
    unfolding es using v
    by (auto simp: apply_standing_def Let_def)
qed

text \<open>
  Whatever payment standings arrive among the commands, a workspace that was within its
  cap is over it afterwards only if an event reported that it went over; nothing is
  deleted silently and nothing slips past the cap.
\<close>

theorem over_cap_is_reported:
  assumes "workspace_wf w" and "within_cap w"
    and "run_cmds exec_workspace cs w = (v, es)" and "\<not> within_cap v"
  shows "\<exists>n l t. OverProjectLimit (ws_id w) n l t \<in> set es"
  using assms
proof (induction cs arbitrary: w es)
  case (Cons c cs)
  show ?case
  proof (cases "exec_workspace c w")
    case (Inl e)
    with Cons show ?thesis by auto
  next
    case (Inr r)
    obtain u fs where u: "exec_workspace c w = Inr (u, fs)" using Inr by (cases r) auto
    obtain gs where gs: "run_cmds exec_workspace cs u = (v, gs)" and es: "es = fs @ gs"
      using Cons.prems(3) u by (auto split: prod.splits)
    have "workspace_wf u" and id: "ws_id u = ws_id w"
      using ws.exec_invar [OF Cons.prems(1) u] ws.exec_ident [OF u] by auto
    then show ?thesis
      using Cons.IH [OF _ _ gs Cons.prems(4)] exec_over_reported [OF Cons.prems(1,2) u] es
      by (cases "within_cap u") auto
  qed
qed simp

theorem over_cap_is_reported_witness:
  "let w = \<lparr> ws_id = ''w'', ws_name = ''Acme'', ws_plan = Pro, ws_payment = Active,
             ws_projects = map (\<lambda>i. \<lparr> entry_id = i, entry_name = i, entry_state = ProjectActive \<rparr>)
                             [''a'', ''b'', ''c'', ''d''] \<rparr>;
       cs = [CmdStanding \<lparr> standing_plan = Pro, standing_payment = Canceled \<rparr> 1 9]
   in \<exists>n l t. OverProjectLimit ''w'' n l t \<in> set (snd (run_cmds exec_workspace cs w))"
proof -
  let ?w = "\<lparr> ws_id = ''w'', ws_name = ''Acme'', ws_plan = Pro, ws_payment = Active,
             ws_projects = map (\<lambda>i. \<lparr> entry_id = i, entry_name = i, entry_state = ProjectActive \<rparr>)
                             [''a'', ''b'', ''c'', ''d''] \<rparr>"
  let ?cs = "[CmdStanding \<lparr> standing_plan = Pro, standing_payment = Canceled \<rparr> 1 9]"
  have "workspace_wf ?w" "within_cap ?w" "\<not> within_cap (fst (run_cmds exec_workspace ?cs ?w))"
    by code_simp+
  from over_cap_is_reported [OF this(1,2) surjective_pairing this(3)] show ?thesis by simp
qed

text \<open>
  Adopting a payment standing is idempotent and destroys nothing: the same standing
  again yields the same workspace and no event, and the project register is untouched.
\<close>

theorem apply_standing_idempotent:
  "let (v, es) = apply_standing st seats t w
   in apply_standing st seats' t' v = (v, []) \<and> ws_projects v = ws_projects w \<and>
      ws_name v = ws_name w \<and> workspace_entitlement v = resolve (standing_plan st) (standing_payment st)"
proof -
  have "apply_standing st seats' t' (fst (apply_standing st seats t w)) =
          (fst (apply_standing st seats t w), [])"
    by (simp add: apply_standing_def Let_def)
  then show ?thesis
    using apply_standing_fst [of st seats t w]
    by (auto simp: case_prod_beta workspace_entitlement_def)
qed

text \<open>
  One count, one answer: the usage readout shows the workspace full exactly when a new
  project under a fresh id and a real name is refused for the limit, and otherwise the
  registration succeeds and takes exactly one slot.
\<close>

theorem usage_agrees_with_admission:
  assumes "find_project (ws_projects w) i = None" and "js_trim n \<noteq> []"
  shows "(\<exists>l. projects_limit (workspace_usage_of w m) = Some l \<and>
              projects_used (workspace_usage_of w m) \<ge> l \<and>
              register_project i n t w = Inl (ProjectLimitReached l)) \<or>
         (refuse_if_full w = None \<and>
          (\<exists>v es. register_project i n t w = Inr (v, es) \<and>
                  projects_used (workspace_usage_of v m) = projects_used (workspace_usage_of w m) + 1 \<and>
                  events_state (workspace_usage_of v m) = events_state (workspace_usage_of w m)))"
proof (cases "refuse_if_full w")
  case None
  with assms show ?thesis
    by (auto simp: workspace_op_defs workspace_usage_of_def project_count_def count_against_cap_eq
        active_projects_def counts_against_cap_def workspace_entitlement_def)
next
  case (Some e)
  with assms show ?thesis
    by (auto simp: workspace_op_defs workspace_usage_of_def refuse_if_full_def breached_def
        split: option.splits if_splits)
qed

theorem usage_agrees_with_admission_witness:
  "let w = \<lparr> ws_id = ''w'', ws_name = ''Acme'', ws_plan = Free, ws_payment = NoPayment,
             ws_projects = map (\<lambda>i. \<lparr> entry_id = i, entry_name = i, entry_state = ProjectActive \<rparr>)
                             [''a'', ''b'', ''c''] \<rparr>
   in register_project ''d'' ''D'' 0 w = Inl (ProjectLimitReached 3)"
proof -
  let ?w = "\<lparr> ws_id = ''w'', ws_name = ''Acme'', ws_plan = Free, ws_payment = NoPayment,
             ws_projects = map (\<lambda>i. \<lparr> entry_id = i, entry_name = i, entry_state = ProjectActive \<rparr>)
                             [''a'', ''b'', ''c''] \<rparr>"
  have "find_project (ws_projects ?w) ''d'' = None" "js_trim ''D'' \<noteq> []"
    and full: "refuse_if_full ?w \<noteq> None"
    and lim: "max_projects (workspace_limits_now ?w) = Some 3"
    by code_simp+
  from usage_agrees_with_admission [OF this(1,2), of "\<lparr> measured_events = 0, measured_seats = 1 \<rparr>" 0]
  have "register_project ''d'' ''D'' 0 ?w = Inl (ProjectLimitReached 3)"
    using full lim by (auto simp: workspace_usage_of_def Let_def)
  then show ?thesis by simp
qed

lemma find_project_replace:
  assumes "find_project es i = Some e" "entry_id e' = i"
  shows "find_project (map (\<lambda>p. if entry_id p = i then e' else p) es) i = Some e'"
  using assms by (induction es) (auto simp: find_project_def)

text \<open>
  Archiving frees exactly one slot and is undone by restoring while the slot is still
  free: the two commands in a row give the register back as it was.
\<close>

theorem archive_restore_roundtrip:
  assumes "workspace_wf w" and "within_cap w" and "archive_project i t w = Inr (v, es)"
  shows "(project_count v = project_count w - 1) \<and>
         (\<exists>es'. restore_project i t' v = Inr (w, es'))"
proof (intro conjI impI)
  obtain e where e: "find_project (ws_projects w) i = Some e" "entry_state e = ProjectActive"
    and v: "v = w\<lparr>ws_projects := replace_entry w i (e\<lparr>entry_state := ProjectArchived\<rparr>)\<rparr>"
    using assms(3)
    by (auto simp: workspace_op_defs split: option.splits if_splits)
      (metis project_state.exhaust)
  have dist: "distinct (map entry_id (ws_projects w))" using assms(1) by (simp add: workspace_wf_def)
  show cnt: "project_count v = project_count w - 1"
    using count_replace_entry [OF dist e(1)] e(2) v by (simp add: project_count_def)
  have lim: "workspace_limits_now v = workspace_limits_now w"
    by (rule limits_now_cong) (simp_all add: v)
  have room: "refuse_if_full v = None"
    using assms(2) cnt lim by (auto simp: refuse_if_full_None within_cap_def split: option.splits)
  have id: "entry_id e = i" using find_project_Some [OF e(1)] by simp
  have found: "find_project (ws_projects v) i = Some (e\<lparr>entry_state := ProjectArchived\<rparr>)"
    using find_project_replace [OF e(1)] id by (simp add: v replace_entry_def)
  have same: "e\<lparr>entry_state := ProjectActive\<rparr> = e" using e(2) by simp
  have uniq: "e = p" if "p \<in> set (ws_projects w)" "entry_id p = i" for p
    using dist that find_project_Some [OF e(1)] by (auto simp: distinct_map inj_on_def)
  have "replace_entry v i e = ws_projects w"
    using uniq id by (auto simp: v replace_entry_def intro!: map_idI)
  then show "\<exists>es'. restore_project i t' v = Inr (w, es')"
    using found room same by (simp add: restore_project_def ok_def v)
qed

theorem archive_restore_roundtrip_witness:
  "let w = \<lparr> ws_id = ''w'', ws_name = ''Acme'', ws_plan = Free, ws_payment = NoPayment,
             ws_projects = [\<lparr> entry_id = ''a'', entry_name = ''A'', entry_state = ProjectActive \<rparr>] \<rparr>
   in \<exists>v es. archive_project ''a'' 1 w = Inr (v, es) \<and> (\<exists>es'. restore_project ''a'' 2 v = Inr (w, es'))"
proof -
  let ?w = "\<lparr> ws_id = ''w'', ws_name = ''Acme'', ws_plan = Free, ws_payment = NoPayment,
             ws_projects = [\<lparr> entry_id = ''a'', entry_name = ''A'', entry_state = ProjectActive \<rparr>] \<rparr>"
  have wf: "workspace_wf ?w" "within_cap ?w" by code_simp+
  have "\<exists>r. archive_project ''a'' 1 ?w = Inr r"
    by (simp add: archive_project_def find_project_def ok_def)
  then obtain v es where a: "archive_project ''a'' 1 ?w = Inr (v, es)" by auto
  from archive_restore_roundtrip [OF wf a] a show ?thesis by (auto simp: Let_def)
qed

text \<open>
  The event quota has exactly three bands. With a positive allowance \<open>l\<close>, events are
  fine below \<open>l\<close>, in overage from \<open>l\<close> to 1.3 times \<open>l\<close>, and rejected from there; a zero
  allowance rejects at once, no allowance never does. Accepting is monotone: less usage
  is never rejected where more was accepted.
\<close>

theorem quota_bands:
  "(events_per_month (ent_limits e) = None \<longrightarrow> quota_state_of (quota_decide e u) = StateOk) \<and>
   (events_per_month (ent_limits e) = Some l \<longrightarrow> 0 < l \<longrightarrow>
     quota_state_of (quota_decide e u) =
       (if u < l then StateOk else if 10 * u < 13 * l then StateOverage else StateRejected)) \<and>
   (events_per_month (ent_limits e) = Some 0 \<longrightarrow> 0 \<le> u \<longrightarrow> \<not> quota_accepts (quota_decide e u)) \<and>
   (0 \<le> u \<longrightarrow> u \<le> u' \<longrightarrow> (\<forall>l. events_per_month (ent_limits e) = Some l \<longrightarrow> 0 \<le> l) \<longrightarrow>
     quota_accepts (quota_decide e u') \<longrightarrow> quota_accepts (quota_decide e u))"
proof (intro conjI impI)
  show "events_per_month (ent_limits e) = None \<Longrightarrow> quota_state_of (quota_decide e u) = StateOk"
    by (simp add: quota_decide_def)
  show "events_per_month (ent_limits e) = Some l \<Longrightarrow> 0 < l \<Longrightarrow>
     quota_state_of (quota_decide e u) =
       (if u < l then StateOk else if 10 * u < 13 * l then StateOverage else StateRejected)"
    by (auto simp: quota_decide_def Let_def ratio_below_multiple)
  show "events_per_month (ent_limits e) = Some 0 \<Longrightarrow> 0 \<le> u \<Longrightarrow> \<not> quota_accepts (quota_decide e u)"
    by (simp add: quota_decide_def Let_def)
  show "quota_accepts (quota_decide e u)"
    if "0 \<le> u" "u \<le> u'" "\<forall>l. events_per_month (ent_limits e) = Some l \<longrightarrow> 0 \<le> l"
      "quota_accepts (quota_decide e u')"
    using that
    by (auto simp: quota_decide_def Let_def ratio_below_multiple order.order_iff_strict
        split: option.splits if_splits)
qed

theorem quota_bands_witness:
  "quota_state_of (quota_decide (resolve Free Active) 129999) = StateOverage \<and>
   quota_state_of (quota_decide (resolve Free Active) 130000) = StateRejected \<and>
   quota_accepts (quota_decide (resolve Pro PastDue) 1)"
proof -
  have f: "events_per_month (ent_limits (resolve Free Active)) = Some 100000"
    by (simp add: plan_defs)
  have p: "events_per_month (ent_limits (resolve Pro PastDue)) = Some 1000000"
    by (simp add: plan_defs)
  have "quota_accepts (quota_decide (resolve Pro PastDue) 2)"
    using p by (simp add: quota_decide_def del: resolve.simps)
  then have "quota_accepts (quota_decide (resolve Pro PastDue) 1)"
    using p quota_bands [of "resolve Pro PastDue" 1 0 2] by (simp del: resolve.simps)
  then show ?thesis
    using f quota_bands [of "resolve Free Active" 129999 100000] quota_bands [of "resolve Free Active" 130000 100000]
    by (simp del: resolve.simps)
qed

text \<open>
  Retention is safe to enforce by dropping whole partitions: for every plan and payment
  state the global cutoff exists and is never after the workspace's own cutoff, and rows
  must be purged separately exactly when the two differ.
\<close>

theorem retention_cutoffs_safe:
  "\<exists>g c. global_purge_cutoff now = Some g \<and> retention_cutoff (resolve p s) now = Some c \<and>
         g \<le> c \<and> (needs_row_purge (resolve p s) \<longleftrightarrow> g < c)"
proof -
  obtain l where l: "longest_retention_days = Some l"
    by (simp add: longest_retention_days_def PLAN_IDS_def plan_defs)
  obtain d where d: "retention_days (ent_limits (resolve p s)) = Some d" "d \<le> l"
    using longest_retention_loop_bound [OF l [unfolded longest_retention_days_def]]
    by (metis plan_in_PLAN_IDS resolve_limits)
  show ?thesis
    unfolding global_purge_cutoff_def retention_cutoff_def needs_row_purge_def l d(1) option.case
    using d(2) by (auto simp: time_defs)
qed

text \<open>
  A billing event always lands on the workspace it is about and reports precisely: the
  entitlement is flagged changed exactly when plan, limits or grace differ; a completed
  checkout confers the plan that was bought whatever came before; a cancellation falls
  back to the free plan keeping the plan id; a failed payment keeps the plan's limits in
  grace; and the paid and unpaid sides of the change are what the notice says.
\<close>

theorem billing_transition_correct:
  "(sub_workspace (next_subscription (apply_billing_event s ev t)) = sub_workspace s) \<and>
   (entitlement_changed (apply_billing_event s ev t) \<longleftrightarrow>
     entitlement_of (next_subscription (apply_billing_event s ev t)) \<noteq> entitlement_of s) \<and>
   (entitlement_of (next_subscription (apply_billing_event s (CheckoutCompleted p c r rn) t)) =
     \<lparr> ent_plan = p, ent_limits = limits_for p, in_grace = False \<rparr>) \<and>
   (entitlement_of (next_subscription (apply_billing_event s (SubscriptionCanceled r) t)) = entitlement_none \<and>
   sub_plan (next_subscription (apply_billing_event s (SubscriptionCanceled r) t)) = sub_plan s) \<and>
   (sub_payment s = Active \<longrightarrow>
     entitlement_of (next_subscription (apply_billing_event s (PaymentFailed r) t)) =
       (entitlement_of s)\<lparr>in_grace := True\<rparr>) \<and>
   (notable_change (apply_billing_event s ev t) = Some Upgraded \<longrightarrow>
     \<not> subscription_is_paid s \<and> subscription_is_paid (next_subscription (apply_billing_event s ev t))) \<and>
   (notable_change (apply_billing_event s ev t) = Some Downgraded \<longrightarrow>
     subscription_is_paid s \<and> \<not> subscription_is_paid (next_subscription (apply_billing_event s ev t)))"
proof (intro conjI impI)
  show "sub_workspace (next_subscription (apply_billing_event s ev t)) = sub_workspace s"
    by (cases ev) (simp_all add: apply_billing_event_def Let_def)
  show "entitlement_changed (apply_billing_event s ev t) \<longleftrightarrow>
          entitlement_of (next_subscription (apply_billing_event s ev t)) \<noteq> entitlement_of s"
    by (auto simp: apply_billing_event_def Let_def entitlement_of_def entitlement_equal_resolve
        simp del: resolve.simps)
  show "sub_payment s = Active \<Longrightarrow>
          entitlement_of (next_subscription (apply_billing_event s (PaymentFailed r) t)) =
            (entitlement_of s)\<lparr>in_grace := True\<rparr>"
    by (simp add: apply_billing_event_def Let_def entitlement_of_def)
  show "\<not> subscription_is_paid s" "subscription_is_paid (next_subscription (apply_billing_event s ev t))"
    if "notable_change (apply_billing_event s ev t) = Some Upgraded"
    using that by (simp_all add: apply_billing_event_def Let_def notability_of_def subscription_is_paid_def
        split: if_splits)
  show "subscription_is_paid s" "\<not> subscription_is_paid (next_subscription (apply_billing_event s ev t))"
    if "notable_change (apply_billing_event s ev t) = Some Downgraded"
    using that by (simp_all add: apply_billing_event_def Let_def notability_of_def subscription_is_paid_def
        split: if_splits)
qed (simp_all add: apply_billing_event_def Let_def entitlement_of_def entitlement_none_def)

theorem billing_transition_correct_witness:
  "entitlement_of (next_subscription (apply_billing_event
     (next_subscription (apply_billing_event (subscription_none ''w'' 0)
        (CheckoutCompleted Pro ''cus'' ''sub'' None) 1)) (PaymentFailed ''sub'') 2)) =
   \<lparr> ent_plan = Pro, ent_limits = limits_for Pro, in_grace = True \<rparr>"
proof -
  let ?s = "next_subscription (apply_billing_event (subscription_none ''w'' 0)
              (CheckoutCompleted Pro ''cus'' ''sub'' None) 1)"
  have "sub_payment ?s = Active" by (simp add: apply_billing_event_def Let_def)
  then have "entitlement_of (next_subscription (apply_billing_event ?s (PaymentFailed ''sub'') 2)) =
      (entitlement_of ?s)\<lparr>in_grace := True\<rparr>"
    using billing_transition_correct by blast
  moreover have "entitlement_of ?s = \<lparr> ent_plan = Pro, ent_limits = limits_for Pro, in_grace = False \<rparr>"
    using billing_transition_correct by blast
  ultimately show ?thesis by simp
qed

text \<open>
  What the transition does not look at: neither the event's subscription reference nor
  the state it arrives in. A failed payment delivered after the cancellation of a paid
  plan moves the workspace back to that plan's limits, in grace, and the change is
  reported as a failed payment.
\<close>

theorem payment_failed_after_cancel_revives:
  assumes "plan_is_paid (sub_plan s)"
  shows "(\<not> subscription_is_paid (next_subscription (apply_billing_event s (SubscriptionCanceled r) t))) \<and>
         (subscription_is_paid (next_subscription (apply_billing_event
           (next_subscription (apply_billing_event s (SubscriptionCanceled r) t)) (PaymentFailed r') t')))"
  using assms
  by (simp_all add: apply_billing_event_def Let_def subscription_is_paid_def entitlement_of_def
      entitlement_is_paid_def plan_is_paid_def)

theorem payment_failed_after_cancel_revives_witness:
  "subscription_is_paid (next_subscription (apply_billing_event
     (next_subscription (apply_billing_event ((subscription_none ''w'' 0)\<lparr>sub_plan := Pro\<rparr>)
        (SubscriptionCanceled ''sub'') 1)) (PaymentFailed ''sub'') 2))"
  by (rule payment_failed_after_cancel_revives [THEN conjunct2])
    (simp add: subscription_none_def plan_is_paid_def)

end
