(* ===== verification/Projects.thy ===== *)
theory Projects
  imports Kernel "HOL-Library.Word"
begin

unbundle bit_operations_syntax

text \<open>
  Projects and their credentials, packages/projects/domain/src: the Project aggregate
  (project.ts, events.ts, errors.ts), the rules about credentials (credential.ts), what a
  credential may carry (grant.ts), retention (retention.ts) and suggested names
  (suggested-name.ts). Credentials are rows another store owns; every rule here is a
  function of the facts that were loaded.
\<close>

section \<open>Retention\<close>

datatype credential_kind = IngestKey | ServiceKey

datatype project_error =
    ProjectNameRequired
  | NameUnchanged
  | UnknownProject project_id
  | FirstCredentialMustIngest
  | PermissionsRequired
  | PermissionEscalation "permission list" "permission list"
  | CredentialExists credential_id
  | UnknownCredential credential_id
  | CredentialRevokedError credential_id
  | CredentialExpiredError credential_id
  | LastIngestCredential credential_id
  | RotationKindMismatch
  | AlreadyClaimed
  | GrantExpired
  | GrantMismatch
  | ProjectIsArchived project_id
  | ProjectIsNotArchived project_id
  | InvalidRetention rat
  | RetentionUnchanged

definition MAX_RETENTION_DAYS :: int where
  "MAX_RETENTION_DAYS = 3650"

datatype retention_policy = RetainInherit | RetainDays int

definition RETENTION_INHERIT :: retention_policy where
  "RETENTION_INHERIT = RetainInherit"

definition make_retention_policy :: "rat \<Rightarrow> project_error + retention_policy" where
  "make_retention_policy days =
     (if \<not> is_integer days \<or> days < 1 \<or> days > of_int MAX_RETENTION_DAYS
      then err (InvalidRetention days)
      else ok (RetainDays \<lfloor>days\<rfloor>))"

fun effective_retention_days :: "retention_policy \<Rightarrow> int option \<Rightarrow> int option" where
  "effective_retention_days RetainInherit plan_days = plan_days"
| "effective_retention_days (RetainDays d) None = Some d"
| "effective_retention_days (RetainDays d) (Some p) = Some (min d p)"

definition project_retention_cutoff ::
  "retention_policy \<Rightarrow> int option \<Rightarrow> instant \<Rightarrow> instant option" where
  "project_retention_cutoff policy plan_days now =
     (case effective_retention_days policy plan_days of
        None \<Rightarrow> None
      | Some days \<Rightarrow> Some (instant_minus now (duration_days days)))"

fun retention_equals :: "retention_policy \<Rightarrow> retention_policy \<Rightarrow> bool" where
  "retention_equals RetainInherit b = (b = RetainInherit)"
| "retention_equals (RetainDays d) b = (case b of RetainDays e \<Rightarrow> d = e | RetainInherit \<Rightarrow> False)"

lemma retention_equals_iff [simp]: "retention_equals a b \<longleftrightarrow> a = b"
  by (cases a; cases b) auto

section \<open>The Project aggregate\<close>

record claim_grant =
  grant_digest :: string
  grant_expires_at :: instant

datatype ownership = Unclaimed claim_grant | Claimed workspace_id instant

record project =
  prj_id :: project_id
  prj_name :: string
  prj_ownership :: ownership
  prj_archived :: bool
  prj_retention :: retention_policy

datatype project_event =
    ProjectCreated project_id workspace_id string instant
  | ProjectProvisionedUnclaimed project_id string instant instant
  | ProjectClaimed project_id workspace_id instant
  | ProjectRenamed project_id string instant
  | ProjectArchivedEvent project_id instant
  | ProjectRestoredEvent project_id instant
  | ProjectDeleted project_id "workspace_id option" instant
  | ProjectRetentionChanged project_id "int option" instant

text \<open>
  The credential facts of the event union, emitted by the use cases that sequence the
  credential store.
\<close>

datatype credential_event =
    CredentialIssued project_id credential_id credential_kind instant
  | WorkspaceCredentialIssued workspace_id credential_id credential_kind instant
  | CredentialRotated project_id credential_id credential_id instant instant
  | CredentialRevoked project_id credential_id instant
  | WorkspaceCredentialRotated workspace_id credential_id credential_id instant instant
  | WorkspaceCredentialRevoked workspace_id credential_id instant

fun project_event_about :: "project_event \<Rightarrow> project_id" where
  "project_event_about (ProjectCreated p _ _ _) = p"
| "project_event_about (ProjectProvisionedUnclaimed p _ _ _) = p"
| "project_event_about (ProjectClaimed p _ _) = p"
| "project_event_about (ProjectRenamed p _ _) = p"
| "project_event_about (ProjectArchivedEvent p _) = p"
| "project_event_about (ProjectRestoredEvent p _) = p"
| "project_event_about (ProjectDeleted p _ _) = p"
| "project_event_about (ProjectRetentionChanged p _ _) = p"

type_synonym project_applied = "project \<times> project_event list"

text \<open>
  The constant-time comparison: every pair of code units is combined, at the 32 bits of
  the bitwise operators, whatever the earlier ones were.
\<close>

definition char_code :: "char \<Rightarrow> 32 word" where
  "char_code c = word_of_nat (of_char c)"

fun digest_difference :: "32 word \<Rightarrow> string \<Rightarrow> string \<Rightarrow> 32 word" where
  "digest_difference difference (a # as) (b # bs) =
     digest_difference (difference OR (char_code a XOR char_code b)) as bs"
| "digest_difference difference _ _ = difference"

definition digests_match :: "string \<Rightarrow> string \<Rightarrow> bool" where
  "digests_match a b =
     (if length a \<noteq> length b then False else digest_difference 0 a b = 0)"

definition project_create ::
  "project_id \<Rightarrow> string \<Rightarrow> workspace_id \<Rightarrow> instant \<Rightarrow> project_error + project_applied" where
  "project_create i name w t =
     (let trimmed = js_trim name
      in if length trimmed = 0 then err ProjectNameRequired
         else ok (\<lparr> prj_id = i, prj_name = trimmed, prj_ownership = Claimed w t,
                    prj_archived = False, prj_retention = RETENTION_INHERIT \<rparr>,
                  [ProjectCreated i w trimmed t]))"

definition provision_unclaimed ::
  "project_id \<Rightarrow> string \<Rightarrow> claim_grant \<Rightarrow> instant \<Rightarrow> project_error + project_applied" where
  "provision_unclaimed i name g t =
     (let trimmed = js_trim name
      in if length trimmed = 0 then err ProjectNameRequired
         else if \<not> is_after (grant_expires_at g) t then err GrantExpired
         else ok (\<lparr> prj_id = i, prj_name = trimmed, prj_ownership = Unclaimed g,
                    prj_archived = False, prj_retention = RETENTION_INHERIT \<rparr>,
                  [ProjectProvisionedUnclaimed i trimmed (grant_expires_at g) t]))"

fun owner_workspace :: "ownership \<Rightarrow> workspace_id option" where
  "owner_workspace (Claimed w _) = Some w"
| "owner_workspace (Unclaimed _) = None"

definition project_workspace :: "project \<Rightarrow> workspace_id option" where
  "project_workspace p = owner_workspace (prj_ownership p)"

definition is_claimed :: "project \<Rightarrow> bool" where
  "is_claimed p = (case prj_ownership p of Claimed _ _ \<Rightarrow> True | Unclaimed _ \<Rightarrow> False)"

definition admits_events :: "instant \<Rightarrow> project \<Rightarrow> bool" where
  "admits_events t p =
     (if prj_archived p then False
      else case prj_ownership p of
        Unclaimed g \<Rightarrow> is_after (grant_expires_at g) t
      | Claimed _ _ \<Rightarrow> True)"

definition rename_project :: "string \<Rightarrow> instant \<Rightarrow> project \<Rightarrow> project_error + project_applied" where
  "rename_project name t p =
     (if prj_archived p then err (ProjectIsArchived (prj_id p))
      else
        (let trimmed = js_trim name
         in if length trimmed = 0 then err ProjectNameRequired
            else if trimmed = prj_name p then err NameUnchanged
            else ok (p\<lparr>prj_name := trimmed, prj_archived := False\<rparr>,
                     [ProjectRenamed (prj_id p) trimmed t])))"

definition archive :: "instant \<Rightarrow> project \<Rightarrow> project_error + project_applied" where
  "archive t p =
     (if prj_archived p then err (ProjectIsArchived (prj_id p))
      else ok (p\<lparr>prj_archived := True\<rparr>, [ProjectArchivedEvent (prj_id p) t]))"

definition restore :: "instant \<Rightarrow> project \<Rightarrow> project_error + project_applied" where
  "restore t p =
     (if \<not> prj_archived p then err (ProjectIsNotArchived (prj_id p))
      else ok (p\<lparr>prj_archived := False\<rparr>, [ProjectRestoredEvent (prj_id p) t]))"

definition set_retention ::
  "retention_policy \<Rightarrow> instant \<Rightarrow> project \<Rightarrow> project_error + project_applied" where
  "set_retention policy t p =
     (if prj_archived p then err (ProjectIsArchived (prj_id p))
      else if retention_equals policy (prj_retention p) then err RetentionUnchanged
      else ok (p\<lparr>prj_archived := False, prj_retention := policy\<rparr>,
               [ProjectRetentionChanged (prj_id p)
                  (case policy of RetainDays d \<Rightarrow> Some d | RetainInherit \<Rightarrow> None) t]))"

definition claim ::
  "string \<Rightarrow> workspace_id \<Rightarrow> instant \<Rightarrow> project \<Rightarrow> project_error + project_applied" where
  "claim presented into t p =
     (case prj_ownership p of
        Claimed _ _ \<Rightarrow> err AlreadyClaimed
      | Unclaimed g \<Rightarrow>
          if \<not> is_after (grant_expires_at g) t then err GrantExpired
          else if \<not> digests_match (grant_digest g) presented then err GrantMismatch
          else ok (p\<lparr>prj_ownership := Claimed into t\<rparr>, [ProjectClaimed (prj_id p) into t]))"

lemmas project_op_defs =
  rename_project_def archive_def restore_def set_retention_def claim_def Let_def ok_def err_def

lemma char_code_inj [simp]: "char_code a = char_code b \<longleftrightarrow> a = b"
proof
  have lt: "(of_char c :: nat) < 2 ^ LENGTH(32)" for c
    by (rule less_le_trans [OF nat_of_char_less_256]) simp
  assume "char_code a = char_code b"
  then have "unat (char_code a) = unat (char_code b)" by simp
  then have "(of_char a :: nat) = of_char b"
    unfolding char_code_def unat_of_nat mod_less [OF lt] .
  then show "a = b" by simp
qed simp

lemma or_zero_iff: "(x :: 32 word) OR y = 0 \<longleftrightarrow> x = 0 \<and> y = 0"
  by (metis or.right_neutral or_eq_0_iff)

lemma xor_zero_iff: "(x :: 32 word) XOR y = 0 \<longleftrightarrow> x = y"
  by (metis xor.assoc xor.right_neutral xor_self_eq xor.left_neutral)

lemma digest_difference_zero:
  "length a = length b \<Longrightarrow> digest_difference d a b = 0 \<longleftrightarrow> d = 0 \<and> a = b"
  by (induction d a b rule: digest_difference.induct) (auto simp: or_zero_iff xor_zero_iff)

lemma digests_match_iff [simp]: "digests_match a b \<longleftrightarrow> a = b"
  by (auto simp: digests_match_def digest_difference_zero)

text \<open>The aggregate's commands, each at its instant.\<close>

datatype prj_command =
    PrjRename string
  | PrjArchive
  | PrjRestore
  | PrjRetention retention_policy
  | PrjClaim string workspace_id

fun exec_project :: "prj_command \<times> instant \<Rightarrow> project \<Rightarrow> project_error + project_applied" where
  "exec_project (PrjRename n, t) p = rename_project n t p"
| "exec_project (PrjArchive, t) p = archive t p"
| "exec_project (PrjRestore, t) p = restore t p"
| "exec_project (PrjRetention r, t) p = set_retention r t p"
| "exec_project (PrjClaim d w, t) p = claim d w t p"

definition project_wf :: "project \<Rightarrow> bool" where
  "project_wf p = (prj_name p \<noteq> [] \<and> js_trim (prj_name p) = prj_name p)"

lemma exec_project_cases:
  assumes "exec_project (c, t) p = Inr (q, es)"
  shows "prj_id q = prj_id p \<and> (project_wf p \<longrightarrow> project_wf q) \<and>
         (\<forall>e \<in> set es. project_event_about e = prj_id p) \<and>
         (prj_ownership q = prj_ownership p \<or>
          (\<exists>g w. prj_ownership p = Unclaimed g \<and> prj_ownership q = Claimed w t \<and>
                 t < grant_expires_at g \<and> c = PrjClaim (grant_digest g) w))"
  using assms
  by (cases c)
    (auto simp: project_op_defs project_wf_def is_after_def split: if_splits ownership.splits)

interpretation prj: aggregate exec_project project_wf prj_id project_event_about
  using exec_project_cases by unfold_locales fast+

text \<open>Ownership is final: a claimed project stays in its workspace under every command.\<close>

interpretation prj_claimed: aggregate exec_project
  "\<lambda>p. prj_ownership p = Claimed w t" prj_id project_event_about for w t
  using exec_project_cases by unfold_locales (fastforce, fast+)

section \<open>Credentials\<close>

record credential_facts =
  cred_id :: credential_id
  cred_kind :: credential_kind
  cred_name :: string
  cred_expires_at :: "instant option"
  cred_revoked_at :: "instant option"

datatype credential_status = StatusActive | StatusExpiring | StatusRevoked | StatusExpired

definition credential_status_of :: "'c credential_facts_scheme \<Rightarrow> instant \<Rightarrow> credential_status" where
  "credential_status_of c t =
     (if cred_revoked_at c \<noteq> None then StatusRevoked
      else case cred_expires_at c of
        None \<Rightarrow> StatusActive
      | Some e \<Rightarrow> if is_after e t then StatusExpiring else StatusExpired)"

definition is_usable :: "'c credential_facts_scheme \<Rightarrow> instant \<Rightarrow> bool" where
  "is_usable c t =
     (let status = credential_status_of c t
      in status = StatusActive \<or> status = StatusExpiring)"

definition usable_credentials :: "'c credential_facts_scheme list \<Rightarrow> instant \<Rightarrow> 'c credential_facts_scheme list" where
  "usable_credentials cs t = filter (\<lambda>c. is_usable c t) cs"

definition usable_ingest_credentials :: "'c credential_facts_scheme list \<Rightarrow> instant \<Rightarrow> 'c credential_facts_scheme list" where
  "usable_ingest_credentials cs t = filter (\<lambda>c. cred_kind c = IngestKey \<and> is_usable c t) cs"

definition can_ingest :: "'c credential_facts_scheme list \<Rightarrow> instant \<Rightarrow> bool" where
  "can_ingest cs t = (length (usable_ingest_credentials cs t) > 0)"

definition name_is_available :: "'c credential_facts_scheme list \<Rightarrow> string \<Rightarrow> instant \<Rightarrow> project_error + string" where
  "name_is_available cs name t =
     (let trimmed = js_trim name
      in if length trimmed = 0 then err ProjectNameRequired
         else case find (\<lambda>c. is_usable c t \<and> cred_name c = trimmed) cs of
           Some clash \<Rightarrow> err (CredentialExists (cred_id clash))
         | None \<Rightarrow> ok trimmed)"

definition live_credential ::
  "'c credential_facts_scheme list \<Rightarrow> credential_id \<Rightarrow> instant \<Rightarrow> project_error + 'c credential_facts_scheme" where
  "live_credential cs target t =
     (case find (\<lambda>c. cred_id c = target) cs of
        None \<Rightarrow> err (UnknownCredential target)
      | Some found \<Rightarrow>
          (case credential_status_of found t of
             StatusRevoked \<Rightarrow> err (CredentialRevokedError target)
           | StatusExpired \<Rightarrow> err (CredentialExpiredError target)
           | _ \<Rightarrow> ok found))"

definition may_revoke ::
  "'c credential_facts_scheme list \<Rightarrow> credential_id \<Rightarrow> instant \<Rightarrow> project_error + 'c credential_facts_scheme" where
  "may_revoke cs target t =
     (case live_credential cs target t of
        Inl e \<Rightarrow> Inl e
      | Inr found \<Rightarrow>
          if cred_kind found = IngestKey \<and>
             length (filter (\<lambda>c. cred_id c \<noteq> target) (usable_ingest_credentials cs t)) = 0
          then err (LastIngestCredential target)
          else Inr found)"

definition may_rotate ::
  "'c credential_facts_scheme list \<Rightarrow> credential_id \<Rightarrow> credential_kind option \<Rightarrow> instant \<Rightarrow>
     project_error + 'c credential_facts_scheme" where
  "may_rotate cs target expected t =
     (case live_credential cs target t of
        Inl e \<Rightarrow> Inl e
      | Inr found \<Rightarrow>
          (case expected of
             Some k \<Rightarrow> if cred_kind found \<noteq> k then err RotationKindMismatch else Inr found
           | None \<Rightarrow> Inr found))"

lemma is_usable_iff:
  "is_usable c t \<longleftrightarrow>
     cred_revoked_at c = None \<and> (\<forall>e. cred_expires_at c = Some e \<longrightarrow> t < e)"
  by (auto simp: is_usable_def credential_status_of_def is_after_def Let_def split: option.splits)

lemma can_ingest_iff: "can_ingest cs t \<longleftrightarrow> (\<exists>c \<in> set cs. cred_kind c = IngestKey \<and> is_usable c t)"
  by (auto simp: can_ingest_def usable_ingest_credentials_def filter_empty_conv)

lemma live_credential_Inr:
  "live_credential cs target t = Inr c \<longleftrightarrow>
     find (\<lambda>c. cred_id c = target) cs = Some c \<and> is_usable c t"
  by (auto simp: live_credential_def is_usable_def Let_def ok_def err_def
      split: option.splits credential_status.splits)

lemma live_credential_Inl:
  "live_credential cs target t = Inl e \<longleftrightarrow>
     (e = UnknownCredential target \<and> find (\<lambda>c. cred_id c = target) cs = None) \<or>
     (\<exists>c. find (\<lambda>c. cred_id c = target) cs = Some c \<and>
          (e = CredentialRevokedError target \<and> credential_status_of c t = StatusRevoked \<or>
           e = CredentialExpiredError target \<and> credential_status_of c t = StatusExpired))"
  by (auto simp: live_credential_def ok_def err_def split: option.splits credential_status.splits)

text \<open>What the store does with the answer: the key's revocation is recorded.\<close>

definition revoke_in :: "credential_id \<Rightarrow> instant \<Rightarrow> 'c credential_facts_scheme list \<Rightarrow> 'c credential_facts_scheme list" where
  "revoke_in target t cs =
     map (\<lambda>c. if cred_id c = target then c\<lparr>cred_revoked_at := Some t\<rparr> else c) cs"

fun run_revocations ::
  "credential_id list \<Rightarrow> instant \<Rightarrow> 'c credential_facts_scheme list \<Rightarrow> 'c credential_facts_scheme list" where
  "run_revocations [] t cs = cs"
| "run_revocations (target # targets) t cs =
     run_revocations targets t
       (case may_revoke cs target t of Inl _ \<Rightarrow> cs | Inr _ \<Rightarrow> revoke_in target t cs)"

lemma can_ingest_revoke_in:
  "can_ingest (revoke_in target t cs) u \<longleftrightarrow>
     (\<exists>c \<in> set cs. cred_id c \<noteq> target \<and> cred_kind c = IngestKey \<and> is_usable c u)"
  by (auto simp: can_ingest_iff revoke_in_def is_usable_iff)

section \<open>What a credential may carry\<close>

definition INGEST_PERMISSIONS :: "permission list" where
  "INGEST_PERMISSIONS = [EventsWrite]"

definition SERVICE_DELEGABLE_PERMISSIONS :: "permission list" where
  "SERVICE_DELEGABLE_PERMISSIONS =
     [EventsWrite, QueriesRun, ProjectsRead, ProjectsWrite, ProjectsDelete, DashboardsRead,
      DashboardsWrite, MonitorsRead, MonitorsWrite, CredentialsRead, CredentialsWrite,
      WorkspaceRead, BillingRead]"

definition within_grant :: "permission list \<Rightarrow> permission list \<Rightarrow> project_error + permission list" where
  "within_grant requested held =
     (if length requested = 0 then err PermissionsRequired
      else
        (let excess = filter (\<lambda>p. p \<notin> set held) requested
         in if length excess > 0 then err (PermissionEscalation excess held) else ok requested))"

definition grantable_to :: "credential_kind \<Rightarrow> permission list \<Rightarrow> project_error + permission list" where
  "grantable_to kind held =
     (if kind = IngestKey then within_grant INGEST_PERMISSIONS held
      else within_grant (filter (\<lambda>p. p \<in> set held) SERVICE_DELEGABLE_PERMISSIONS) held)"

lemma within_grant_Inr:
  "within_grant requested held = Inr ps \<longleftrightarrow>
     ps = requested \<and> requested \<noteq> [] \<and> set requested \<subseteq> set held"
  by (auto simp: within_grant_def Let_def ok_def err_def filter_empty_conv)

lemma grantable_to_Inr:
  "grantable_to kind held = Inr ps \<Longrightarrow>
     ps \<noteq> [] \<and> set ps \<subseteq> set held \<and> set ps \<subseteq> set SERVICE_DELEGABLE_PERMISSIONS"
  by (auto simp: grantable_to_def within_grant_Inr INGEST_PERMISSIONS_def
      SERVICE_DELEGABLE_PERMISSIONS_def split: if_splits)

section \<open>Suggested names\<close>

definition FIRST :: "string list" where
  "FIRST =
     [''amber'', ''basalt'', ''cedar'', ''cobalt'', ''copper'', ''delta'', ''ember'', ''flint'',
      ''granite'', ''harbor'', ''indigo'', ''juniper'', ''kettle'', ''lantern'', ''marble'',
      ''meadow'', ''north'', ''onyx'', ''pewter'', ''quarry'', ''river'', ''saffron'', ''slate'',
      ''summit'', ''thistle'', ''umber'', ''vellum'', ''willow'', ''yarrow'', ''zephyr'']"

definition SECOND :: "string list" where
  "SECOND =
     [''atlas'', ''basin'', ''beacon'', ''bridge'', ''canyon'', ''compass'', ''current'',
      ''ferry'', ''field'', ''gate'', ''grove'', ''harvest'', ''hollow'', ''ledger'', ''lookout'',
      ''meridian'', ''orchard'', ''outpost'', ''quay'', ''ridge'', ''signal'', ''station'',
      ''thicket'', ''tide'', ''trellis'', ''vault'', ''verge'', ''waypoint'', ''well'', ''yard'']"

definition SUGGESTED_NAME_COMBINATIONS :: nat where
  "SUGGESTED_NAME_COMBINATIONS = length FIRST * length SECOND"

text \<open>\<open>xs[Math.floor(random() * xs.length)]\<close>; the two draws are two arguments.\<close>

definition pick :: "rat \<Rightarrow> string list \<Rightarrow> string" where
  "pick r xs = xs ! nat \<lfloor>r * of_nat (length xs)\<rfloor>"

definition suggested_project_name :: "rat \<Rightarrow> rat \<Rightarrow> string" where
  "suggested_project_name r1 r2 = pick r1 FIRST @ ''-'' @ pick r2 SECOND"

lemma pick_in:
  assumes "0 \<le> r" "r < 1" "xs \<noteq> []"
  shows "pick r xs \<in> set xs"
proof -
  have "r * of_nat (length xs) < of_nat (length xs)" using assms by simp
  then have "\<lfloor>r * of_nat (length xs)\<rfloor> < int (length xs)" by (simp add: floor_less_iff)
  then have "nat \<lfloor>r * of_nat (length xs)\<rfloor> < length xs"
    using assms by (simp add: nat_less_iff)
  then show ?thesis by (simp add: pick_def)
qed

section \<open>Properties\<close>



text \<open>
  An unclaimed project whose grant has lapsed is finished: no sequence of commands at
  later instants claims it or makes it accept an event again, so anonymous provisioning
  is not an unbounded free tier.
\<close>

theorem lapsed_grant_is_final:
  assumes "prj_ownership p = Unclaimed g"
    and "list_all (\<lambda>(c, t). grant_expires_at g \<le> t) cs"
    and "run_cmds exec_project cs p = (q, es)"
  shows "prj_ownership q = Unclaimed g \<and> (grant_expires_at g \<le> u \<longrightarrow> \<not> admits_events u q)"
proof -
  have "prj_ownership q = Unclaimed g"
    using assms
  proof (induction cs arbitrary: p es)
    case (Cons ct cs)
    obtain c t where ct: "ct = (c, t)" by fastforce
    show ?case
    proof (cases "exec_project ct p")
      case (Inl e)
      with Cons show ?thesis by auto
    next
      case (Inr r)
      obtain p' fs where p': "exec_project (c, t) p = Inr (p', fs)"
        using Inr ct by (cases r) auto
      have "prj_ownership p' = Unclaimed g"
        using exec_project_cases [OF p'] Cons.prems(1,2) ct by auto
      with Cons p' ct show ?thesis by (auto split: prod.splits)
    qed
  qed simp
  then show ?thesis by (simp add: admits_events_def is_after_def)
qed

theorem lapsed_grant_is_final_witness:
  "let p = \<lparr> prj_id = ''p'', prj_name = ''slate-harbor'',
             prj_ownership = Unclaimed \<lparr> grant_digest = ''ab12'', grant_expires_at = 10 \<rparr>,
             prj_archived = False, prj_retention = RetainInherit \<rparr>;
       q = fst (run_cmds exec_project [(PrjClaim ''ab12'' ''w'', 10), (PrjRename ''x'', 11)] p)
   in prj_name q = ''x'' \<and> admits_events 9 p \<and> \<not> admits_events 12 q"
proof -
  let ?p = "\<lparr> prj_id = ''p'', prj_name = ''slate-harbor'',
             prj_ownership = Unclaimed \<lparr> grant_digest = ''ab12'', grant_expires_at = 10 \<rparr>,
             prj_archived = False, prj_retention = RetainInherit \<rparr>"
  let ?r = "run_cmds exec_project [(PrjClaim ''ab12'' ''w'', 10), (PrjRename ''x'', 11)] ?p"
  have "\<not> admits_events 12 (fst ?r)"
    using lapsed_grant_is_final [of ?p "\<lparr> grant_digest = ''ab12'', grant_expires_at = 10 \<rparr>"
        "[(PrjClaim ''ab12'' ''w'', 10), (PrjRename ''x'', 11)]" "fst ?r" "snd ?r" 12]
    by simp
  moreover have "prj_name (fst ?r) = ''x''" "admits_events 9 ?p" by code_simp+
  ultimately show ?thesis by (simp only: Let_def) blast
qed

text \<open>
  An archived project admits no event and refuses every edit but its restoration, with
  one exception the sources do not mention: an unexpired claim still succeeds on it.
\<close>

theorem archived_project_refuses:
  assumes "prj_archived p"
  shows "(\<not> admits_events t p) \<and>
         (rename_project n t p = Inl (ProjectIsArchived (prj_id p))) \<and>
         (archive t p = Inl (ProjectIsArchived (prj_id p))) \<and>
         (set_retention r t p = Inl (ProjectIsArchived (prj_id p))) \<and>
         (restore t p = Inr (p\<lparr>prj_archived := False\<rparr>, [ProjectRestoredEvent (prj_id p) t])) \<and>
         (prj_ownership p = Unclaimed g \<longrightarrow> t < grant_expires_at g \<longrightarrow>
           (\<exists>q es. claim (grant_digest g) w t p = Inr (q, es) \<and> prj_archived q \<and>
                   project_workspace q = Some w))"
  using assms
  by (auto simp: project_op_defs admits_events_def is_after_def project_workspace_def)

theorem archived_project_refuses_witness:
  "let p = \<lparr> prj_id = ''p'', prj_name = ''slate-harbor'',
             prj_ownership = Unclaimed \<lparr> grant_digest = ''ab12'', grant_expires_at = 10 \<rparr>,
             prj_archived = True, prj_retention = RetainInherit \<rparr>
   in \<exists>q es. claim ''ab12'' ''w'' 3 p = Inr (q, es) \<and> prj_archived q"
proof -
  let ?p = "\<lparr> prj_id = ''p'', prj_name = ''slate-harbor'',
             prj_ownership = Unclaimed \<lparr> grant_digest = ''ab12'', grant_expires_at = 10 \<rparr>,
             prj_archived = True, prj_retention = RetainInherit \<rparr>"
  have "prj_archived ?p" by simp
  from archived_project_refuses [OF this, of 3 _ _ "\<lparr> grant_digest = ''ab12'', grant_expires_at = 10 \<rparr>" "''w''"]
  show ?thesis by fastforce
qed

lemma may_revoke_Inr:
  "may_revoke cs target t = Inr c \<longleftrightarrow>
     find (\<lambda>c. cred_id c = target) cs = Some c \<and> is_usable c t \<and>
     (cred_kind c = IngestKey \<longrightarrow>
        (\<exists>d \<in> set cs. cred_id d \<noteq> target \<and> cred_kind d = IngestKey \<and> is_usable d t))"
proof (cases "live_credential cs target t")
  case (Inl e)
  then have "\<not> (find (\<lambda>c. cred_id c = target) cs = Some c \<and> is_usable c t)"
    using live_credential_Inr [of cs target t c] by simp
  with Inl show ?thesis by (auto simp: may_revoke_def)
next
  case (Inr d)
  then show ?thesis
    using live_credential_Inr [of cs target t d]
    by (auto simp: may_revoke_def err_def usable_ingest_credentials_def filter_empty_conv)
qed

lemma revoke_in_ids [simp]: "map cred_id (revoke_in target t cs) = map cred_id cs"
  by (simp add: revoke_in_def)

lemma may_revoke_keeps_ingest:
  assumes "distinct (map cred_id cs)" "may_revoke cs target t = Inr c" "can_ingest cs t"
  shows "can_ingest (revoke_in target t cs) t"
proof -
  have f: "c \<in> set cs" "cred_id c = target"
    using find_Some_iff_mem assms(2) unfolding may_revoke_Inr by fastforce+
  show ?thesis
  proof (cases "cred_kind c = IngestKey")
    case True
    with assms(2) show ?thesis by (auto simp: may_revoke_Inr can_ingest_revoke_in)
  next
    case False
    obtain d where d: "d \<in> set cs" "cred_kind d = IngestKey" "is_usable d t"
      using assms(3) by (auto simp: can_ingest_iff)
    have "cred_id d \<noteq> target"
      using assms(1) f d(1,2) False by (auto simp: distinct_map inj_on_def)
    with d show ?thesis by (auto simp: can_ingest_revoke_in)
  qed
qed

text \<open>
  C15. Revocation never cuts a project off: whatever keys are revoked, in whatever order, each
  behind the check, a project that could receive events still can; and a key is refused
  for being the last one only when revoking it would really stop the events.
\<close>

theorem revocation_keeps_ingest:
  "(distinct (map cred_id cs) \<longrightarrow> can_ingest cs t \<longrightarrow> can_ingest (run_revocations targets t cs) t) \<and>
   (may_revoke cs target t = Inl (LastIngestCredential target) \<longrightarrow>
     can_ingest cs t \<and> \<not> can_ingest (revoke_in target t cs) t)"
proof (intro conjI impI)
  show "distinct (map cred_id cs) \<Longrightarrow> can_ingest cs t \<Longrightarrow> can_ingest (run_revocations targets t cs) t"
  proof (induction targets arbitrary: cs)
    case (Cons target targets)
    then show ?case
      by (auto split: sum.splits simp: may_revoke_keeps_ingest)
  qed simp
  assume last: "may_revoke cs target t = Inl (LastIngestCredential target)"
  then obtain c where c: "live_credential cs target t = Inr c" "cred_kind c = IngestKey"
    and none: "filter (\<lambda>c. cred_id c \<noteq> target) (usable_ingest_credentials cs t) = []"
    by (auto simp: may_revoke_def live_credential_Inl err_def split: sum.splits if_splits)
  have "c \<in> set cs"
    using c(1) find_Some_iff_mem by (fastforce simp: live_credential_Inr)
  with c have "can_ingest cs t" by (auto simp: can_ingest_iff live_credential_Inr)
  moreover have "\<not> can_ingest (revoke_in target t cs) t"
    using none by (auto simp: can_ingest_revoke_in usable_ingest_credentials_def filter_empty_conv)
  ultimately show "can_ingest cs t" "\<not> can_ingest (revoke_in target t cs) t" by blast+
qed

theorem revocation_keeps_ingest_witness:
  "let k = (\<lambda>i e. \<lparr> cred_id = i, cred_kind = IngestKey, cred_name = i, cred_expires_at = e,
                   cred_revoked_at = None \<rparr>);
       cs = [k ''a'' (Some 20), k ''b'' None]
   in can_ingest (run_revocations [''b'', ''a''] 5 cs) 5 \<and>
      run_revocations [''b'', ''a''] 5 cs =
        [k ''a'' (Some 20), (k ''b'' None)\<lparr>cred_revoked_at := Some 5\<rparr>]"
proof -
  let ?k = "\<lambda>i e. \<lparr> cred_id = i, cred_kind = IngestKey, cred_name = i, cred_expires_at = e,
                   cred_revoked_at = None \<rparr>"
  let ?cs = "[?k ''a'' (Some 20), ?k ''b'' None]"
  have "distinct (map cred_id ?cs)" "can_ingest ?cs 5" by code_simp+
  then have "can_ingest (run_revocations [''b'', ''a''] 5 ?cs) 5"
    using revocation_keeps_ingest by blast
  moreover have "run_revocations [''b'', ''a''] 5 ?cs =
      [?k ''a'' (Some 20), (?k ''b'' None)\<lparr>cred_revoked_at := Some 5\<rparr>]"
    by (simp add: may_revoke_def live_credential_def credential_status_of_def is_after_def
        revoke_in_def usable_ingest_credentials_def is_usable_def ok_def err_def)
  ultimately show ?thesis unfolding Let_def by blast
qed

text \<open>
  Acting on a key is explained in the order a person would want: rotation is allowed
  exactly on a key that exists, authenticates now and is of the expected kind; otherwise
  the first of unknown, revoked, expired, wrong kind is the error.
\<close>

theorem may_rotate_exact:
  "may_rotate cs target expected t =
     (case find (\<lambda>c. cred_id c = target) cs of
        None \<Rightarrow> Inl (UnknownCredential target)
      | Some c \<Rightarrow>
          if cred_revoked_at c \<noteq> None then Inl (CredentialRevokedError target)
          else if \<not> is_usable c t then Inl (CredentialExpiredError target)
          else if expected \<noteq> None \<and> expected \<noteq> Some (cred_kind c) then Inl RotationKindMismatch
          else Inr c)"
  by (auto simp: may_rotate_def live_credential_def credential_status_of_def is_usable_def
      ok_def err_def is_after_def Let_def split: option.splits)

text \<open>
  Names tell usable keys apart: issuing under a name the check accepted keeps the names
  of the usable keys distinct, and the accepted name is the trimmed, non-empty one.
\<close>

theorem available_name_keeps_distinct:
  assumes "distinct (map cred_name (usable_credentials cs t))"
    and "name_is_available cs n t = Inr m" and "cred_name c = m"
  shows "distinct (map cred_name (usable_credentials (c # cs) t)) \<and> m = js_trim n \<and> m \<noteq> []"
  using assms
  by (auto simp: name_is_available_def usable_credentials_def Let_def ok_def err_def
      find_None_iff_all split: if_splits option.splits)

theorem available_name_keeps_distinct_witness:
  "let k = (\<lambda>i n r. \<lparr> cred_id = i, cred_kind = ServiceKey, cred_name = n, cred_expires_at = None,
                     cred_revoked_at = r \<rparr>);
       cs = [k ''1'' ''production'' (Some 3)]
   in distinct (map cred_name (usable_credentials (k ''2'' ''production'' None # cs) 5))"
proof -
  let ?k = "\<lambda>i n r. \<lparr> cred_id = i, cred_kind = ServiceKey, cred_name = n, cred_expires_at = None,
                     cred_revoked_at = r \<rparr>"
  let ?cs = "[?k ''1'' ''production'' (Some 3)]"
  have "distinct (map cred_name (usable_credentials ?cs 5))"
    "name_is_available ?cs '' production '' 5 = Inr ''production''"
    "cred_name (?k ''2'' ''production'' None) = ''production''"
    by code_simp+
  from available_name_keeps_distinct [OF this, THEN conjunct1]
  show ?thesis unfolding Let_def .
qed

text \<open>
  No escalation by issuing: a key never carries a permission its issuer lacks, a service
  key never carries workspace administration or paying, an ingest key carries exactly
  event writing, and whenever the issuer holds something delegable a service key is granted
  all of it.
\<close>

theorem grantable_never_escalates:
  "(grantable_to kind held = Inr ps \<longrightarrow>
     set ps \<subseteq> set held \<and> ps \<noteq> [] \<and> WorkspaceAdmin \<notin> set ps \<and> BillingWrite \<notin> set ps) \<and>
   (grantable_to IngestKey held =
     (if EventsWrite \<in> set held then Inr [EventsWrite]
      else Inl (PermissionEscalation [EventsWrite] held))) \<and>
   (grantable_to ServiceKey held =
     (if set held \<subseteq> {WorkspaceAdmin, BillingWrite} then Inl PermissionsRequired
      else Inr (filter (\<lambda>p. p \<in> set held) SERVICE_DELEGABLE_PERMISSIONS)))"
proof (intro conjI impI)
  show "set ps \<subseteq> set held" "ps \<noteq> []" "WorkspaceAdmin \<notin> set ps" "BillingWrite \<notin> set ps"
    if "grantable_to kind held = Inr ps"
    using grantable_to_Inr [OF that] by (auto simp: SERVICE_DELEGABLE_PERMISSIONS_def)
  show "grantable_to IngestKey held =
     (if EventsWrite \<in> set held then Inr [EventsWrite]
      else Inl (PermissionEscalation [EventsWrite] held))"
    by (simp add: grantable_to_def within_grant_def INGEST_PERMISSIONS_def ok_def err_def)
  have mem: "p \<in> set SERVICE_DELEGABLE_PERMISSIONS \<longleftrightarrow> p \<notin> {WorkspaceAdmin, BillingWrite}" for p
    by (cases p) (simp_all add: SERVICE_DELEGABLE_PERMISSIONS_def)
  show "grantable_to ServiceKey held =
     (if set held \<subseteq> {WorkspaceAdmin, BillingWrite} then Inl PermissionsRequired
      else Inr (filter (\<lambda>p. p \<in> set held) SERVICE_DELEGABLE_PERMISSIONS))"
  proof (cases "filter (\<lambda>p. p \<in> set held) SERVICE_DELEGABLE_PERMISSIONS = []")
    case True
    then have "set held \<subseteq> {WorkspaceAdmin, BillingWrite}"
      using mem unfolding filter_empty_conv by blast
    with True show ?thesis by (simp add: grantable_to_def within_grant_def err_def)
  next
    case False
    then have "\<not> set held \<subseteq> {WorkspaceAdmin, BillingWrite}"
      using mem unfolding filter_empty_conv by blast
    with False show ?thesis by (simp add: grantable_to_def within_grant_def ok_def)
  qed
qed

theorem grantable_never_escalates_witness:
  "\<exists>ps. grantable_to ServiceKey [WorkspaceAdmin, ProjectsRead] = Inr ps \<and> WorkspaceAdmin \<notin> set ps"
proof -
  have "grantable_to ServiceKey [WorkspaceAdmin, ProjectsRead] = Inr [ProjectsRead]" by code_simp
  with grantable_never_escalates [of ServiceKey "[WorkspaceAdmin, ProjectsRead]" "[ProjectsRead]"]
  show ?thesis by blast
qed

text \<open>
  A project can shorten retention and never lengthen it: whatever policy the validation
  accepts, the days in force are at most the plan's, at least one, and the cutoff is never
  before the plan's own.
\<close>

theorem retention_only_shortens:
  assumes "make_retention_policy d = Inr policy" and "1 \<le> plan_days"
  shows "(\<exists>n c. effective_retention_days policy (Some plan_days) = Some n \<and> 1 \<le> n \<and> n \<le> plan_days \<and>
               project_retention_cutoff policy (Some plan_days) now = Some c \<and>
               instant_minus now (duration_days plan_days) \<le> c \<and> c < now) \<and>
         (effective_retention_days policy None = Some \<lfloor>d\<rfloor> \<and> of_int \<lfloor>d\<rfloor> = d)"
  using assms
  by (auto simp: make_retention_policy_def project_retention_cutoff_def is_integer_def ok_def err_def
      time_defs split: if_splits)

theorem retention_only_shortens_witness:
  "effective_retention_days (RetainDays 30) None = Some 30 \<and>
   (\<exists>n. effective_retention_days (RetainDays 30) (Some 180) = Some n \<and> n \<le> 180)"
proof -
  have "make_retention_policy 30 = Inr (RetainDays 30)"
    by (simp add: make_retention_policy_def is_integer_def MAX_RETENTION_DAYS_def ok_def)
  from retention_only_shortens [OF this, of 180 0]
  show ?thesis by auto
qed

end
