(* ===== verification/ProjectsUse.thy ===== *)
theory ProjectsUse
  imports Projects
begin

text \<open>
  The projects use cases, packages/projects/app/src: provisioning with its first key
  (provision.ts), issuing, rotating, revoking and listing credentials (credentials.ts,
  rotation.ts), the lifecycle of a project (lifecycle.ts) and the envelopes of the outbox
  (envelopes.ts). The project rows and the outbox are ours, the credential rows are another
  store's, and no transaction spans both; the ports are a record of operations on one state. The
  locale \<open>credential_stores\<close> states what the use cases rely on, and is interpreted on the
  in-memory ports of fakes.ts. Instants are arguments, one for each read of the clock.
\<close>

section \<open>The ports\<close>

record credential_summary = credential_facts +
  cs_hint :: string
  cs_workspace :: workspace_id
  cs_project :: "project_id option"
  cs_permissions :: "permission list"
  cs_issued_by :: account_id
  cs_created_at :: instant
  cs_last_used_at :: "instant option"

record issue_request =
  ir_kind :: credential_kind
  ir_name :: string
  ir_workspace :: workspace_id
  ir_project :: "project_id option"
  ir_issued_by :: account_id
  ir_ceiling :: "permission list option"
  ir_expires_in :: "duration option"

record issued_credential =
  ic_credential :: credential_summary
  ic_secret :: string

datatype issue_failure =
    IssueNoSuchWorkspace workspace_id
  | IssueNoSuchProject project_id
  | IssuerNotAMember account_id
  | NothingGrantable account_id

datatype key_failure = KeyUnknown credential_id | KeyAlreadyRevoked credential_id

record rotated_credential =
  rc_issued :: issued_credential
  rc_retiring :: credential_summary

datatype credential_scope = WorkspaceKeys workspace_id | ProjectKeys project_id

datatype outbox_fact = ProjectFact project_event | CredentialFact credential_event

record envelope =
  env_id :: string
  env_type :: string
  env_at :: instant
  env_payload :: outbox_fact

record 'st project_ports =
  find_project_row :: "project_id \<Rightarrow> 'st \<Rightarrow> project option"
  save_project_row :: "project \<Rightarrow> project_event list \<Rightarrow> 'st \<Rightarrow> 'st"
  delete_project_row :: "project_id \<Rightarrow> 'st \<Rightarrow> 'st"
  enqueue :: "envelope list \<Rightarrow> 'st \<Rightarrow> 'st"
  next_id :: "'st \<Rightarrow> string \<times> 'st"
  list_keys :: "credential_scope \<Rightarrow> 'st \<Rightarrow> credential_summary list"
  issue_key :: "issue_request \<Rightarrow> instant \<Rightarrow> 'st \<Rightarrow> (issue_failure + issued_credential) \<times> 'st"
  rotate_key :: "credential_id \<Rightarrow> duration \<Rightarrow> instant \<Rightarrow> 'st \<Rightarrow> (key_failure + rotated_credential) \<times> 'st"
  revoke_key :: "credential_id \<Rightarrow> instant \<Rightarrow> 'st \<Rightarrow> (key_failure + unit) \<times> 'st"
  reassign_keys :: "project_id \<Rightarrow> workspace_id \<Rightarrow> 'st \<Rightarrow> nat \<times> 'st"

section \<open>Envelopes\<close>

fun fact_kind :: "outbox_fact \<Rightarrow> string" where
  "fact_kind (ProjectFact (ProjectCreated _ _ _ _)) = ''ProjectCreated''"
| "fact_kind (ProjectFact (ProjectProvisionedUnclaimed _ _ _ _)) = ''ProjectProvisionedUnclaimed''"
| "fact_kind (ProjectFact (ProjectClaimed _ _ _)) = ''ProjectClaimed''"
| "fact_kind (ProjectFact (ProjectRenamed _ _ _)) = ''ProjectRenamed''"
| "fact_kind (ProjectFact (ProjectArchivedEvent _ _)) = ''ProjectArchived''"
| "fact_kind (ProjectFact (ProjectRestoredEvent _ _)) = ''ProjectRestored''"
| "fact_kind (ProjectFact (ProjectDeleted _ _ _)) = ''ProjectDeleted''"
| "fact_kind (ProjectFact (ProjectRetentionChanged _ _ _)) = ''ProjectRetentionChanged''"
| "fact_kind (CredentialFact (CredentialIssued _ _ _ _)) = ''CredentialIssued''"
| "fact_kind (CredentialFact (WorkspaceCredentialIssued _ _ _ _)) = ''WorkspaceCredentialIssued''"
| "fact_kind (CredentialFact (CredentialRotated _ _ _ _ _)) = ''CredentialRotated''"
| "fact_kind (CredentialFact (CredentialRevoked _ _ _)) = ''CredentialRevoked''"
| "fact_kind (CredentialFact (WorkspaceCredentialRotated _ _ _ _ _)) = ''WorkspaceCredentialRotated''"
| "fact_kind (CredentialFact (WorkspaceCredentialRevoked _ _ _)) = ''WorkspaceCredentialRevoked''"

fun fact_at :: "outbox_fact \<Rightarrow> instant" where
  "fact_at (ProjectFact (ProjectCreated _ _ _ t)) = t"
| "fact_at (ProjectFact (ProjectProvisionedUnclaimed _ _ _ t)) = t"
| "fact_at (ProjectFact (ProjectClaimed _ _ t)) = t"
| "fact_at (ProjectFact (ProjectRenamed _ _ t)) = t"
| "fact_at (ProjectFact (ProjectArchivedEvent _ t)) = t"
| "fact_at (ProjectFact (ProjectRestoredEvent _ t)) = t"
| "fact_at (ProjectFact (ProjectDeleted _ _ t)) = t"
| "fact_at (ProjectFact (ProjectRetentionChanged _ _ t)) = t"
| "fact_at (CredentialFact (CredentialIssued _ _ _ t)) = t"
| "fact_at (CredentialFact (WorkspaceCredentialIssued _ _ _ t)) = t"
| "fact_at (CredentialFact (CredentialRotated _ _ _ _ t)) = t"
| "fact_at (CredentialFact (CredentialRevoked _ _ t)) = t"
| "fact_at (CredentialFact (WorkspaceCredentialRotated _ _ _ _ t)) = t"
| "fact_at (CredentialFact (WorkspaceCredentialRevoked _ _ t)) = t"

fun envelopes :: "'st project_ports \<Rightarrow> outbox_fact list \<Rightarrow> 'st \<Rightarrow> envelope list \<times> 'st" where
  "envelopes ports [] st = ([], st)"
| "envelopes ports (e # es) st =
     (let (i, st) = next_id ports st;
          (rest, st) = envelopes ports es st
      in (\<lparr> env_id = i, env_type = ''projects.'' @ fact_kind e, env_at = fact_at e, env_payload = e \<rparr> # rest, st))"

definition publish :: "'st project_ports \<Rightarrow> outbox_fact list \<Rightarrow> 'st \<Rightarrow> 'st" where
  "publish ports facts st = (let (es, st) = envelopes ports facts st in enqueue ports es st)"

section \<open>Lifecycle\<close>

definition mutate_project ::
  "'st project_ports \<Rightarrow> project_id \<Rightarrow> (project \<Rightarrow> project_error + project_applied) \<Rightarrow> 'st \<Rightarrow>
   'st \<times> (project_error + project)" where
  "mutate_project ports i decide st =
     (case find_project_row ports i st of
        None \<Rightarrow> (st, err (UnknownProject i))
      | Some p \<Rightarrow>
          (case decide p of
             Inl e \<Rightarrow> (st, Inl e)
           | Inr (q, es) \<Rightarrow> (publish ports (map ProjectFact es) (save_project_row ports q es st), ok q)))"

definition rename_project_use where
  "rename_project_use ports i name t = mutate_project ports i (rename_project name t)"

definition archive_project_use where
  "archive_project_use ports i t = mutate_project ports i (archive t)"

definition restore_project_use where
  "restore_project_use ports i t = mutate_project ports i (restore t)"

definition set_project_retention where
  "set_project_retention ports i policy t = mutate_project ports i (set_retention policy t)"

definition claim_project ::
  "'st project_ports \<Rightarrow> project_id \<Rightarrow> string \<Rightarrow> workspace_id \<Rightarrow> instant \<Rightarrow> 'st \<Rightarrow> 'st \<times> (project_error + project)" where
  "claim_project ports i digest into t st =
     (case mutate_project ports i (claim digest into t) st of
        (st, Inl e) \<Rightarrow> (st, Inl e)
      | (st, Inr p) \<Rightarrow> (snd (reassign_keys ports i into st), Inr p))"

fun revoke_all :: "'st project_ports \<Rightarrow> instant \<Rightarrow> credential_summary list \<Rightarrow> 'st \<Rightarrow> 'st" where
  "revoke_all ports t [] st = st"
| "revoke_all ports t (c # cs) st =
     revoke_all ports t cs
       (if credential_status_of c t = StatusRevoked then st else snd (revoke_key ports (cred_id c) t st))"

definition delete_project ::
  "'st project_ports \<Rightarrow> project_id \<Rightarrow> instant \<Rightarrow> 'st \<Rightarrow> 'st \<times> (project_error + unit)" where
  "delete_project ports i t st =
     (case find_project_row ports i st of
        None \<Rightarrow> (st, err (UnknownProject i))
      | Some p \<Rightarrow>
          (let st = revoke_all ports t (list_keys ports (ProjectKeys i) st) st;
               st = delete_project_row ports i st
           in (publish ports [ProjectFact (ProjectDeleted i (project_workspace p) t)] st, ok ())))"

section \<open>Rotation overlap\<close>

definition DEFAULT_ROTATION_OVERLAP :: duration where
  "DEFAULT_ROTATION_OVERLAP = duration_hours 24"

definition MAX_ROTATION_OVERLAP :: duration where
  "MAX_ROTATION_OVERLAP = duration_days 7"

definition resolve_overlap :: "duration option \<Rightarrow> duration" where
  "resolve_overlap requested =
     (case requested of
        None \<Rightarrow> DEFAULT_ROTATION_OVERLAP
      | Some d \<Rightarrow> if d < 0 then 0 else if d > MAX_ROTATION_OVERLAP then MAX_ROTATION_OVERLAP else d)"

section \<open>Credentials\<close>

datatype credential_failure = OfProject project_error | OfIssue issue_failure

fun as_project_error :: "key_failure \<Rightarrow> project_error" where
  "as_project_error (KeyAlreadyRevoked c) = CredentialRevokedError c"
| "as_project_error (KeyUnknown c) = UnknownCredential c"

definition refused :: "project_error \<Rightarrow> credential_failure + 'a" where
  "refused e = err (OfProject e)"

definition list_credentials ::
  "'st project_ports \<Rightarrow> project_id \<Rightarrow> instant \<Rightarrow> 'st \<Rightarrow> (credential_summary \<times> credential_status) list" where
  "list_credentials ports i t st =
     map (\<lambda>c. (c, credential_status_of c t)) (list_keys ports (ProjectKeys i) st)"

definition list_workspace_credentials ::
  "'st project_ports \<Rightarrow> workspace_id \<Rightarrow> instant \<Rightarrow> 'st \<Rightarrow> (credential_summary \<times> credential_status) list" where
  "list_workspace_credentials ports w t st =
     map (\<lambda>c. (c, credential_status_of c t)) (list_keys ports (WorkspaceKeys w) st)"

record issue_command =
  is_kind :: credential_kind
  is_name :: string
  is_issued_by :: account_id
  is_held :: "permission list"
  is_requested :: "permission list option"
  is_expires_in :: "duration option"

text \<open>What both issuing use cases do once the subset is settled: the key, the check, the fact.\<close>

definition issue_checked ::
  "'st project_ports \<Rightarrow> issue_request \<Rightarrow> permission list \<Rightarrow> (credential_id \<Rightarrow> credential_event) \<Rightarrow> instant \<Rightarrow>
   'st \<Rightarrow> 'st \<times> (credential_failure + issued_credential)" where
  "issue_checked ports request allowed tell t st =
     (case issue_key ports request t st of
        (Inl e, st) \<Rightarrow> (st, err (OfIssue e))
      | (Inr issued, st) \<Rightarrow>
          (case within_grant (cs_permissions (ic_credential issued)) allowed of
             Inl e \<Rightarrow> (snd (revoke_key ports (cred_id (ic_credential issued)) t st), refused e)
           | Inr _ \<Rightarrow> (publish ports [CredentialFact (tell (cred_id (ic_credential issued)))] st, ok issued)))"

definition issue_credential ::
  "'st project_ports \<Rightarrow> project_id \<Rightarrow> issue_command \<Rightarrow> instant \<Rightarrow> 'st \<Rightarrow>
   'st \<times> (credential_failure + issued_credential)" where
  "issue_credential ports i command t st =
     (case find_project_row ports i st of
        None \<Rightarrow> (st, refused (UnknownProject i))
      | Some p \<Rightarrow>
          if prj_archived p then (st, refused (ProjectIsArchived i))
          else
            (case project_workspace p of
               None \<Rightarrow> (st, refused GrantMismatch)
             | Some w \<Rightarrow>
            (case grantable_to (is_kind command) (is_held command) of
               Inl e \<Rightarrow> (st, refused e)
             | Inr grantable \<Rightarrow>
            (case within_grant
                    (if is_kind command = ServiceKey
                     then (case is_requested command of Some r \<Rightarrow> r | None \<Rightarrow> grantable) else grantable) grantable of
               Inl e \<Rightarrow> (st, refused e)
             | Inr narrowed \<Rightarrow>
            (case name_is_available (list_keys ports (ProjectKeys i) st) (is_name command) t of
               Inl e \<Rightarrow> (st, refused e)
             | Inr name \<Rightarrow>
                 issue_checked ports
                   \<lparr> ir_kind = is_kind command, ir_name = name, ir_workspace = w, ir_project = Some i,
                     ir_issued_by = is_issued_by command, ir_ceiling = Some narrowed,
                     ir_expires_in = is_expires_in command \<rparr>
                   narrowed (\<lambda>c. CredentialIssued i c (is_kind command) t) t st)))))"

definition issue_workspace_credential ::
  "'st project_ports \<Rightarrow> workspace_id \<Rightarrow> issue_command \<Rightarrow> instant \<Rightarrow> 'st \<Rightarrow>
   'st \<times> (credential_failure + issued_credential)" where
  "issue_workspace_credential ports w command t st =
     (case grantable_to ServiceKey (is_held command) of
        Inl e \<Rightarrow> (st, refused e)
      | Inr grantable \<Rightarrow>
     (case within_grant (case is_requested command of Some r \<Rightarrow> r | None \<Rightarrow> grantable) grantable of
        Inl e \<Rightarrow> (st, refused e)
      | Inr narrowed \<Rightarrow>
     (case name_is_available (list_keys ports (WorkspaceKeys w) st) (is_name command) t of
        Inl e \<Rightarrow> (st, refused e)
      | Inr name \<Rightarrow>
          issue_checked ports
            \<lparr> ir_kind = ServiceKey, ir_name = name, ir_workspace = w, ir_project = None,
              ir_issued_by = is_issued_by command, ir_ceiling = Some narrowed,
              ir_expires_in = is_expires_in command \<rparr>
            narrowed (\<lambda>c. WorkspaceCredentialIssued w c ServiceKey t) t st)))"

record rotation_outcome =
  ro_issued :: issued_credential
  ro_retiring :: credential_summary
  ro_grace_ends_at :: instant

text \<open>What both rotating use cases do with the keys they may touch.\<close>

definition rotate_among ::
  "'st project_ports \<Rightarrow> credential_summary list \<Rightarrow> credential_id \<Rightarrow> permission list \<Rightarrow> credential_kind option \<Rightarrow>
   duration option \<Rightarrow> (credential_kind \<Rightarrow> credential_id \<Rightarrow> instant \<Rightarrow> credential_event list) \<Rightarrow> instant \<Rightarrow>
   'st \<Rightarrow> 'st \<times> (credential_failure + rotation_outcome)" where
  "rotate_among ports existing target held expected overlap facts t st =
     (case may_rotate existing target expected t of
        Inl e \<Rightarrow> (st, refused e)
      | Inr rotatable \<Rightarrow>
     (case within_grant (cs_permissions rotatable) held of
        Inl e \<Rightarrow> (st, refused e)
      | Inr _ \<Rightarrow>
          (let window = resolve_overlap overlap
           in case rotate_key ports target window t st of
                (Inl e, st) \<Rightarrow> (st, refused (as_project_error e))
              | (Inr rotated, st) \<Rightarrow>
                  (let grace = instant_plus t window;
                       fresh = cred_id (ic_credential (rc_issued rotated))
                   in (publish ports (map CredentialFact (facts (cred_kind rotatable) fresh grace)) st,
                       ok \<lparr> ro_issued = rc_issued rotated, ro_retiring = rc_retiring rotated,
                            ro_grace_ends_at = grace \<rparr>)))))"

definition rotate_credential ::
  "'st project_ports \<Rightarrow> project_id \<Rightarrow> credential_id \<Rightarrow> permission list \<Rightarrow> credential_kind option \<Rightarrow>
   duration option \<Rightarrow> instant \<Rightarrow> 'st \<Rightarrow> 'st \<times> (credential_failure + rotation_outcome)" where
  "rotate_credential ports i target held expected overlap t st =
     (case find_project_row ports i st of
        None \<Rightarrow> (st, refused (UnknownProject i))
      | Some p \<Rightarrow>
          if prj_archived p then (st, refused (ProjectIsArchived i))
          else rotate_among ports (list_keys ports (ProjectKeys i) st) target held expected overlap
                 (\<lambda>kind fresh grace.
                    [CredentialIssued i fresh kind t, CredentialRotated i target fresh grace t]) t st)"

definition revoke_among ::
  "'st project_ports \<Rightarrow> credential_summary list \<Rightarrow> credential_id \<Rightarrow> credential_event \<Rightarrow> instant \<Rightarrow> 'st \<Rightarrow>
   'st \<times> (credential_failure + credential_summary)" where
  "revoke_among ports existing target told t st =
     (case may_revoke existing target t of
        Inl e \<Rightarrow> (st, refused e)
      | Inr revocable \<Rightarrow>
     (case revoke_key ports target t st of
        (Inl e, st) \<Rightarrow> (st, refused (as_project_error e))
      | (Inr _, st) \<Rightarrow>
          (publish ports [CredentialFact told] st, ok (revocable\<lparr>cred_revoked_at := Some t\<rparr>))))"

definition revoke_credential ::
  "'st project_ports \<Rightarrow> project_id \<Rightarrow> credential_id \<Rightarrow> instant \<Rightarrow> 'st \<Rightarrow>
   'st \<times> (credential_failure + credential_summary)" where
  "revoke_credential ports i target t st =
     (case find_project_row ports i st of
        None \<Rightarrow> (st, refused (UnknownProject i))
      | Some _ \<Rightarrow>
          revoke_among ports (list_keys ports (ProjectKeys i) st) target (CredentialRevoked i target t) t st)"

definition workspace_keys :: "'st project_ports \<Rightarrow> workspace_id \<Rightarrow> 'st \<Rightarrow> credential_summary list" where
  "workspace_keys ports w st =
     filter (\<lambda>c. cs_workspace c = w \<and> cs_project c = None \<and> cred_kind c = ServiceKey)
       (list_keys ports (WorkspaceKeys w) st)"

definition rotate_workspace_credential ::
  "'st project_ports \<Rightarrow> workspace_id \<Rightarrow> credential_id \<Rightarrow> permission list \<Rightarrow> duration option \<Rightarrow> instant \<Rightarrow> 'st \<Rightarrow>
   'st \<times> (credential_failure + rotation_outcome)" where
  "rotate_workspace_credential ports w target held overlap t st =
     rotate_among ports (workspace_keys ports w st) target held (Some ServiceKey) overlap
       (\<lambda>_ fresh grace.
          [WorkspaceCredentialIssued w fresh ServiceKey t, WorkspaceCredentialRotated w target fresh grace t]) t st"

definition revoke_workspace_credential ::
  "'st project_ports \<Rightarrow> workspace_id \<Rightarrow> credential_id \<Rightarrow> instant \<Rightarrow> 'st \<Rightarrow>
   'st \<times> (credential_failure + credential_summary)" where
  "revoke_workspace_credential ports w target t st =
     revoke_among ports (workspace_keys ports w st) target (WorkspaceCredentialRevoked w target t) t st"

section \<open>Provisioning\<close>

record provisioned_project =
  pp_project :: project
  pp_credential :: issued_credential

definition chosen_name :: "string \<Rightarrow> rat \<times> rat \<Rightarrow> string" where
  "chosen_name name draws =
     (if length (js_trim name) = 0 then suggested_project_name (fst draws) (snd draws) else name)"

definition first_key :: "string option \<Rightarrow> workspace_id \<Rightarrow> project_id \<Rightarrow> account_id \<Rightarrow> issue_request" where
  "first_key name w i issuer =
     \<lparr> ir_kind = IngestKey, ir_name = (case name of None \<Rightarrow> ''default'' | Some n \<Rightarrow> n), ir_workspace = w,
       ir_project = Some i, ir_issued_by = issuer, ir_ceiling = None, ir_expires_in = None \<rparr>"

definition project_id_for :: "'st project_ports \<Rightarrow> project_id option \<Rightarrow> 'st \<Rightarrow> project_id \<times> 'st" where
  "project_id_for ports given st = (case given of Some i \<Rightarrow> (i, st) | None \<Rightarrow> next_id ports st)"

definition compensate :: "'st project_ports \<Rightarrow> project_id \<Rightarrow> workspace_id \<Rightarrow> instant \<Rightarrow> 'st \<Rightarrow> 'st" where
  "compensate ports i w t st =
     publish ports [ProjectFact (ProjectDeleted i (Some w) t)] (delete_project_row ports i st)"

text \<open>The saga both provisionings share: the row and its facts, the key, the check, the undo.\<close>

definition with_first_key ::
  "'st project_ports \<Rightarrow> project \<Rightarrow> project_event list \<Rightarrow> issue_request \<Rightarrow> permission list \<Rightarrow> ('st \<Rightarrow> 'st) \<Rightarrow>
   instant \<Rightarrow> 'st \<Rightarrow> 'st \<times> (credential_failure + provisioned_project)" where
  "with_first_key ports p es request allowed undo t st =
     (let st = publish ports (map ProjectFact es) (save_project_row ports p es st)
      in case issue_key ports request t st of
           (Inl e, st) \<Rightarrow> (undo st, err (OfIssue e))
         | (Inr issued, st) \<Rightarrow>
             (let c = cred_id (ic_credential issued)
              in case within_grant (cs_permissions (ic_credential issued)) allowed of
                   Inl e \<Rightarrow> (undo (snd (revoke_key ports c t st)), refused e)
                 | Inr _ \<Rightarrow>
                     (publish ports [CredentialFact (CredentialIssued (prj_id p) c IngestKey t)] st,
                      ok \<lparr> pp_project = p, pp_credential = issued \<rparr>)))"

definition provision_project ::
  "'st project_ports \<Rightarrow> workspace_id \<Rightarrow> string \<Rightarrow> account_id \<Rightarrow> permission list \<Rightarrow> string option \<Rightarrow> project_id option \<Rightarrow>
   rat \<times> rat \<Rightarrow> instant \<Rightarrow> instant \<Rightarrow> 'st \<Rightarrow> 'st \<times> (credential_failure + provisioned_project)" where
  "provision_project ports w name issuer held key_name given draws t later st =
     (case grantable_to IngestKey held of
        Inl e \<Rightarrow> (st, refused e)
      | Inr grantable \<Rightarrow>
          (let (i, st) = project_id_for ports given st
           in case project_create i (chosen_name name draws) w t of
                Inl e \<Rightarrow> (st, refused e)
              | Inr (p, es) \<Rightarrow>
                  with_first_key ports p es (first_key key_name w i issuer) grantable
                    (compensate ports i w later) t st))"

definition provision_unclaimed_project ::
  "'st project_ports \<Rightarrow> string \<Rightarrow> claim_grant \<Rightarrow> workspace_id \<times> account_id \<Rightarrow> string option \<Rightarrow> project_id option \<Rightarrow>
   rat \<times> rat \<Rightarrow> instant \<Rightarrow> 'st \<Rightarrow> 'st \<times> (credential_failure + provisioned_project)" where
  "provision_unclaimed_project ports name grant holding key_name given draws t st =
     (let (i, st) = project_id_for ports given st
      in case provision_unclaimed i (chosen_name name draws) grant t of
           Inl e \<Rightarrow> (st, refused e)
         | Inr (p, es) \<Rightarrow>
             with_first_key ports p es (first_key key_name (fst holding) i (snd holding)) INGEST_PERMISSIONS
               (delete_project_row ports i) t st)"

section \<open>Repair\<close>

definition suffixed :: "string \<Rightarrow> nat \<Rightarrow> string" where
  "suffixed preferred n = preferred @ ''-'' @ show_nat n"

lemma suffixed_inj: "suffixed p m = suffixed p n \<longleftrightarrow> m = n"
  by (simp add: suffixed_def show_nat_inj)

text \<open>Every turn of the search uses up one of the finitely many names that are taken.\<close>

function suffix_from :: "string list \<Rightarrow> string \<Rightarrow> nat \<Rightarrow> nat" where
  "suffix_from taken preferred n =
     (if suffixed preferred n \<in> set taken then suffix_from taken preferred (n + 1) else n)"
  by pat_completeness auto

termination
proof (relation "measure (\<lambda>(taken, preferred, n). card {m. n \<le> m \<and> suffixed preferred m \<in> set taken})")
  fix taken preferred n
  assume here: "suffixed preferred n \<in> set taken"
  have "inj_on (suffixed preferred) {m. n \<le> m \<and> suffixed preferred m \<in> set taken}"
    by (simp add: inj_on_def suffixed_inj)
  moreover have "suffixed preferred ` {m. n \<le> m \<and> suffixed preferred m \<in> set taken} \<subseteq> set taken" by auto
  ultimately have "finite {m. n \<le> m \<and> suffixed preferred m \<in> set taken}"
    by (metis finite_subset List.finite_set finite_imageD)
  moreover have "{m. n + 1 \<le> m \<and> suffixed preferred m \<in> set taken} \<subset> {m. n \<le> m \<and> suffixed preferred m \<in> set taken}"
  proof (rule psubsetI)
    have "n \<in> {m. n \<le> m \<and> suffixed preferred m \<in> set taken}" using here by simp
    then show "{m. n + 1 \<le> m \<and> suffixed preferred m \<in> set taken} \<noteq> {m. n \<le> m \<and> suffixed preferred m \<in> set taken}"
      by (metis (no_types, lifting) mem_Collect_eq Suc_eq_plus1 not_less_eq_eq order_refl)
  qed auto
  ultimately show "((taken, preferred, n + 1), (taken, preferred, n)) \<in>
      measure (\<lambda>(taken, preferred, n). card {m. n \<le> m \<and> suffixed preferred m \<in> set taken})"
    by (simp add: psubset_card_mono)
qed simp

declare suffix_from.simps [simp del]

definition unique_name :: "credential_summary list \<Rightarrow> string \<Rightarrow> string" where
  "unique_name existing preferred =
     (let taken = map cred_name existing
      in if preferred \<notin> set taken then preferred else suffixed preferred (suffix_from taken preferred 2))"

datatype credential_repair = AlreadyProvisioned | RepairLapsed | Repaired issued_credential

definition repair_project_credential ::
  "'st project_ports \<Rightarrow> project_id \<Rightarrow> account_id \<Rightarrow> permission list \<Rightarrow> string option \<Rightarrow> instant \<Rightarrow> 'st \<Rightarrow>
   'st \<times> (credential_failure + credential_repair)" where
  "repair_project_credential ports i issuer held key_name t st =
     (case find_project_row ports i st of
        None \<Rightarrow> (st, refused (UnknownProject i))
      | Some p \<Rightarrow>
          if prj_archived p then (st, ok RepairLapsed)
          else if \<not> admits_events t p then (st, ok RepairLapsed)
          else
            (let existing = list_keys ports (ProjectKeys i) st
             in if list_ex (\<lambda>c. can_ingest [c] t) existing then (st, ok AlreadyProvisioned)
                else
                  (case grantable_to IngestKey held of
                     Inl e \<Rightarrow> (st, refused e)
                   | Inr grantable \<Rightarrow>
                  (case project_workspace p of
                     None \<Rightarrow> (st, ok RepairLapsed)
                   | Some w \<Rightarrow>
                       (case issue_checked ports
                               ((first_key None w i issuer)\<lparr>ir_name :=
                                  unique_name existing (case key_name of None \<Rightarrow> ''default'' | Some n \<Rightarrow> n)\<rparr>)
                               grantable (\<lambda>c. CredentialIssued i c IngestKey t) t st of
                          (st, Inl e) \<Rightarrow> (st, Inl e)
                        | (st, Inr issued) \<Rightarrow> (st, ok (Repaired issued)))))))"

section \<open>The in-memory ports\<close>

text \<open>
  fakes.ts. Two options make the credential store misbehave: refuse the next issue, or hand out
  other permissions than were asked for. Its rotation gives the replacement the permissions any
  issue would. The ellipsis that ends a hint is outside Latin-1 and left out.
\<close>

record memory_projects =
  mp_rows :: "(project_id \<times> project) list"
  mp_saved :: "project_event list"
  mp_outbox :: "envelope list"
  mp_ids :: nat
  mp_keys :: "(credential_id \<times> credential_summary) list"
  mp_counter :: nat
  mp_fail :: "issue_failure option"
  mp_instead :: "permission list option"

definition minted :: "issue_request \<Rightarrow> instant \<Rightarrow> nat \<Rightarrow> permission list option \<Rightarrow> credential_summary" where
  "minted r t n instead =
     \<lparr> cred_id = ''cred_'' @ show_nat n, cred_kind = ir_kind r, cred_name = ir_name r,
       cred_expires_at = map_option (instant_plus t) (ir_expires_in r), cred_revoked_at = None,
       cs_hint = (if ir_kind r = IngestKey then ''ck_'' else ''sk_'') @ show_nat n,
       cs_workspace = ir_workspace r, cs_project = ir_project r,
       cs_permissions = (case instead of Some ps \<Rightarrow> ps | None \<Rightarrow>
         (case ir_ceiling r of Some ps \<Rightarrow> ps | None \<Rightarrow> if ir_kind r = IngestKey then [EventsWrite] else [QueriesRun])),
       cs_issued_by = ir_issued_by r, cs_created_at = t, cs_last_used_at = None \<rparr>"

definition memory_issue ::
  "issue_request \<Rightarrow> instant \<Rightarrow> memory_projects \<Rightarrow> (issue_failure + issued_credential) \<times> memory_projects" where
  "memory_issue r t st =
     (case mp_fail st of
        Some failure \<Rightarrow> (err failure, st\<lparr>mp_fail := None\<rparr>)
      | None \<Rightarrow>
          (let n = mp_counter st + 1;
               c = minted r t n (mp_instead st)
           in (ok \<lparr> ic_credential = c, ic_secret = ''secret_'' @ show_nat n \<rparr>,
               st\<lparr>mp_counter := n, mp_keys := map_put (cred_id c) c (mp_keys st)\<rparr>)))"

definition memory_rotate ::
  "credential_id \<Rightarrow> duration \<Rightarrow> instant \<Rightarrow> memory_projects \<Rightarrow> (key_failure + rotated_credential) \<times> memory_projects" where
  "memory_rotate i overlap t st =
     (case map_of (mp_keys st) i of
        None \<Rightarrow> (err (KeyUnknown i), st)
      | Some outgoing \<Rightarrow>
          if cred_revoked_at outgoing \<noteq> None then (err (KeyAlreadyRevoked i), st)
          else
            (case memory_issue \<lparr> ir_kind = cred_kind outgoing, ir_name = cred_name outgoing @ '' (rotated)'',
                     ir_workspace = cs_workspace outgoing, ir_project = cs_project outgoing,
                     ir_issued_by = cs_issued_by outgoing, ir_ceiling = None, ir_expires_in = None \<rparr> t st of
               (Inl _, st) \<Rightarrow> (err (KeyUnknown i), st)
             | (Inr issued, st) \<Rightarrow>
                 (let retiring = outgoing\<lparr>cred_expires_at := Some (instant_plus t overlap)\<rparr>
                  in (ok \<lparr> rc_issued = issued, rc_retiring = retiring \<rparr>,
                      st\<lparr>mp_keys := map_put i retiring (mp_keys st)\<rparr>))))"

definition memory_revoke ::
  "credential_id \<Rightarrow> instant \<Rightarrow> memory_projects \<Rightarrow> (key_failure + unit) \<times> memory_projects" where
  "memory_revoke i t st =
     (case map_of (mp_keys st) i of
        None \<Rightarrow> (err (KeyUnknown i), st)
      | Some row \<Rightarrow>
          if cred_revoked_at row \<noteq> None then (err (KeyAlreadyRevoked i), st)
          else (ok (), st\<lparr>mp_keys := map_put i (row\<lparr>cred_revoked_at := Some t\<rparr>) (mp_keys st)\<rparr>))"

fun in_scope :: "credential_scope \<Rightarrow> credential_summary \<Rightarrow> bool" where
  "in_scope (ProjectKeys i) c = (cs_project c = Some i)"
| "in_scope (WorkspaceKeys w) c = (cs_workspace c = w)"

definition memory_reassign :: "project_id \<Rightarrow> workspace_id \<Rightarrow> memory_projects \<Rightarrow> nat \<times> memory_projects" where
  "memory_reassign i w st =
     (let moves = (\<lambda>c. cs_project c = Some i \<and> cs_workspace c \<noteq> w)
      in (length (filter (\<lambda>(k, c). moves c) (mp_keys st)),
          st\<lparr>mp_keys := map (\<lambda>(k, c). (k, if moves c then c\<lparr>cs_workspace := w\<rparr> else c)) (mp_keys st)\<rparr>))"

definition memory_project_ports :: "memory_projects project_ports" where
  "memory_project_ports =
     \<lparr> find_project_row = (\<lambda>i st. map_of (mp_rows st) i),
       save_project_row = (\<lambda>p es st. st\<lparr>mp_rows := map_put (prj_id p) p (mp_rows st), mp_saved := mp_saved st @ es\<rparr>),
       delete_project_row = (\<lambda>i st. st\<lparr>mp_rows := filter (\<lambda>(k, p). k \<noteq> i) (mp_rows st)\<rparr>),
       enqueue = (\<lambda>es st. st\<lparr>mp_outbox := mp_outbox st @ es\<rparr>),
       next_id = (\<lambda>st. (''id_'' @ show_nat (mp_ids st + 1), st\<lparr>mp_ids := mp_ids st + 1\<rparr>)),
       list_keys = (\<lambda>scope st. filter (in_scope scope) (map snd (mp_keys st))),
       issue_key = memory_issue, rotate_key = memory_rotate, revoke_key = memory_revoke,
       reassign_keys = memory_reassign \<rparr>"

definition memory_projects_wf :: "memory_projects \<Rightarrow> bool" where
  "memory_projects_wf st \<longleftrightarrow>
     distinct (map fst (mp_keys st)) \<and> list_all (\<lambda>(k, c). k = cred_id c) (mp_keys st) \<and>
     (\<forall>k \<in> fst ` set (mp_keys st). \<exists>n \<le> mp_counter st. k = ''cred_'' @ show_nat n)"

section \<open>What the use cases rely on\<close>

text \<open>
  \<open>keys\<close> is the set of credential rows a state holds. Rows and keys do not disturb each other; a
  listing is the rows in scope; issuing adds one fresh key placed as asked, and nothing when it
  fails; revoking a live key succeeds and marks it; a rotation adds one key and leaves the old one
  at most the overlap. Nothing is assumed of the permissions an issued key carries.
\<close>

definition revoked_in :: "credential_id \<Rightarrow> instant \<Rightarrow> credential_summary set \<Rightarrow> credential_summary set" where
  "revoked_in i t ks = (\<lambda>c. if cred_id c = i then c\<lparr>cred_revoked_at := Some t\<rparr> else c) ` ks"

definition placed_as :: "issue_request \<Rightarrow> instant \<Rightarrow> credential_summary \<Rightarrow> bool" where
  "placed_as r t c \<longleftrightarrow>
     cred_kind c = ir_kind r \<and> cred_name c = ir_name r \<and> cs_workspace c = ir_workspace r \<and>
     cs_project c = ir_project r \<and> cred_revoked_at c = None \<and>
     cred_expires_at c = map_option (instant_plus t) (ir_expires_in r)"

locale credential_stores =
  fixes ports :: "'st project_ports" and valid :: "'st \<Rightarrow> bool" and keys :: "'st \<Rightarrow> credential_summary set"
  assumes save_row: "valid st \<Longrightarrow> valid (save_project_row ports p es st) \<and>
          keys (save_project_row ports p es st) = keys st \<and>
          find_project_row ports i (save_project_row ports p es st) =
            (if i = prj_id p then Some p else find_project_row ports i st)"
    and delete_row: "valid st \<Longrightarrow> valid (delete_project_row ports j st) \<and>
          keys (delete_project_row ports j st) = keys st \<and>
          find_project_row ports i (delete_project_row ports j st) =
            (if i = j then None else find_project_row ports i st)"
    and outbox: "valid st \<Longrightarrow> valid (enqueue ports sent st) \<and> keys (enqueue ports sent st) = keys st \<and>
          find_project_row ports i (enqueue ports sent st) = find_project_row ports i st"
    and fresh_id: "valid st \<Longrightarrow> valid (snd (next_id ports st)) \<and> keys (snd (next_id ports st)) = keys st \<and>
          find_project_row ports i (snd (next_id ports st)) = find_project_row ports i st"
    and listed: "valid st \<Longrightarrow> set (list_keys ports scope st) = {c \<in> keys st. in_scope scope c}"
    and one_row: "valid st \<Longrightarrow> inj_on cred_id (keys st)"
    and issue_failed: "valid st \<Longrightarrow> issue_key ports r t st = (Inl e, st') \<Longrightarrow>
          valid st' \<and> keys st' = keys st \<and> find_project_row ports i st' = find_project_row ports i st"
    and issue_done: "valid st \<Longrightarrow> issue_key ports r t st = (Inr ic, st') \<Longrightarrow>
          valid st' \<and> keys st' = insert (ic_credential ic) (keys st) \<and>
          cred_id (ic_credential ic) \<notin> cred_id ` keys st \<and> placed_as r t (ic_credential ic) \<and>
          find_project_row ports i st' = find_project_row ports i st"
    and revoke_live: "valid st \<Longrightarrow> c \<in> keys st \<Longrightarrow> cred_revoked_at c = None \<Longrightarrow>
          fst (revoke_key ports (cred_id c) t st) = Inr ()"
    and revoke_keys: "valid st \<Longrightarrow> revoke_key ports j t st = (answer, st') \<Longrightarrow>
          valid st' \<and> find_project_row ports i st' = find_project_row ports i st \<and>
          keys st' = (if answer = Inr () then revoked_in j t (keys st) else keys st)"
    and rotate_failed: "valid st \<Longrightarrow> rotate_key ports j d t st = (Inl failed, st') \<Longrightarrow>
          valid st' \<and> keys st' = keys st \<and> find_project_row ports i st' = find_project_row ports i st"
    and rotate_done: "valid st \<Longrightarrow> rotate_key ports j d t st = (Inr rc, st') \<Longrightarrow>
          valid st' \<and> find_project_row ports i st' = find_project_row ports i st \<and>
          (\<exists>old \<in> keys st. cred_id old = j \<and>
             (\<exists>e. cred_expires_at (rc_retiring rc) = Some e \<and> e \<le> instant_plus t d) \<and>
             cred_id (rc_retiring rc) = j \<and> cred_kind (ic_credential (rc_issued rc)) = cred_kind old \<and>
             cs_project (ic_credential (rc_issued rc)) = cs_project old \<and>
             is_usable (ic_credential (rc_issued rc)) t \<and>
             keys st' = insert (ic_credential (rc_issued rc)) (insert (rc_retiring rc) (keys st - {old})))"
    and reassigned: "valid st \<Longrightarrow> reassign_keys ports j w st = (n, st') \<Longrightarrow>
          valid st' \<and> find_project_row ports i st' = find_project_row ports i st \<and>
          keys st' = (\<lambda>c. if cs_project c = Some j then c\<lparr>cs_workspace := w\<rparr> else c) ` keys st"

section \<open>Facts\<close>

lemma usable_never_revoked: "is_usable c u \<Longrightarrow> cred_revoked_at c = None"
  by (simp add: is_usable_iff)

lemma revoked_in_usable: "c \<in> revoked_in j t ks \<Longrightarrow> is_usable c u \<Longrightarrow> c \<in> ks \<and> cred_id c \<noteq> j"
  by (auto simp: revoked_in_def is_usable_iff split: if_splits)

lemma placed_usable: "placed_as r t c \<Longrightarrow> ir_expires_in r = None \<Longrightarrow> is_usable c u"
  by (simp add: placed_as_def is_usable_iff)

lemma suffix_from_fresh: "suffixed preferred (suffix_from taken preferred n) \<notin> set taken"
proof (induction taken preferred n rule: suffix_from.induct)
  case (1 taken preferred n)
  then show ?case by (subst suffix_from.simps) simp
qed

lemma unique_name_fresh: "unique_name existing preferred \<notin> cred_name ` set existing"
  using suffix_from_fresh [of preferred "map cred_name existing" 2] by (simp add: unique_name_def Let_def)

context credential_stores
begin

lemma envelopes_frame:
  "valid st \<Longrightarrow> valid (snd (envelopes ports fs st)) \<and> keys (snd (envelopes ports fs st)) = keys st \<and>
     find_project_row ports i (snd (envelopes ports fs st)) = find_project_row ports i st"
proof (induction fs arbitrary: st)
  case (Cons f fs)
  then show ?case using fresh_id [OF Cons.prems] by (simp add: case_prod_unfold Let_def)
qed simp

lemma publish_frame:
  assumes "valid st"
  shows "valid (publish ports fs st)" "keys (publish ports fs st) = keys st"
    "find_project_row ports i (publish ports fs st) = find_project_row ports i st"
  using envelopes_frame [OF assms, of fs] outbox [of "snd (envelopes ports fs st)"]
  by (simp_all add: publish_def case_prod_unfold Let_def)

text \<open>A key that came back with too much is dead before the call returns.\<close>

lemma withdrawn:
  assumes "valid st" "issue_key ports r t st = (Inr ic, st1)"
  shows "valid (snd (revoke_key ports (cred_id (ic_credential ic)) t st1)) \<and>
    find_project_row ports i (snd (revoke_key ports (cred_id (ic_credential ic)) t st1)) = find_project_row ports i st \<and>
    (\<forall>c u. c \<in> keys (snd (revoke_key ports (cred_id (ic_credential ic)) t st1)) \<longrightarrow> is_usable c u \<longrightarrow> c \<in> keys st)"
proof -
  let ?c = "ic_credential ic"
  note d = issue_done [OF assms]
  obtain res st2 where st2: "revoke_key ports (cred_id ?c) t st1 = (res, st2)" by fastforce
  have "res = Inr ()"
    using revoke_live [of st1 ?c t] d st2 by (simp add: placed_as_def)
  then have "keys st2 = revoked_in (cred_id ?c) t (insert ?c (keys st))"
    using revoke_keys [of st1 "cred_id ?c" t res st2] st2 d by simp
  then show ?thesis
    using revoke_keys [of st1 "cred_id ?c" t res st2 i] st2 d by (auto dest: revoked_in_usable)
qed

definition issued_soundly ::
  "'st \<Rightarrow> 'st \<Rightarrow> issue_request \<Rightarrow> permission list \<Rightarrow> instant \<Rightarrow> issued_credential \<Rightarrow> bool" where
  "issued_soundly st st' r allowed t ic \<longleftrightarrow>
     keys st' = insert (ic_credential ic) (keys st) \<and> placed_as r t (ic_credential ic) \<and>
     set (cs_permissions (ic_credential ic)) \<subseteq> set allowed"

definition no_new_key :: "'st \<Rightarrow> 'st \<Rightarrow> bool" where
  "no_new_key st st' \<longleftrightarrow> (\<forall>c u. c \<in> keys st' \<longrightarrow> is_usable c u \<longrightarrow> c \<in> keys st)"

lemma issue_checked_result:
  assumes "valid st" "issue_checked ports r allowed tell t st = (st', res)"
  shows "valid st' \<and> find_project_row ports i st' = find_project_row ports i st \<and>
    (case res of Inr ic \<Rightarrow> issued_soundly st st' r allowed t ic | Inl _ \<Rightarrow> no_new_key st st')"
proof -
  obtain out st1 where k: "issue_key ports r t st = (out, st1)" by fastforce
  show ?thesis
  proof (cases out)
    case (Inl e)
    then show ?thesis using issue_failed [OF assms(1), of r t e st1] k assms(2)
      by (auto simp: issue_checked_def err_def no_new_key_def)
  next
    case (Inr ic)
    note d = issue_done [OF assms(1) k [unfolded Inr]]
    show ?thesis
    proof (cases "within_grant (cs_permissions (ic_credential ic)) allowed")
      case (Inl e)
      then show ?thesis using withdrawn [OF assms(1) k [unfolded Inr], of i] k Inr assms(2)
        by (auto simp: issue_checked_def refused_def err_def no_new_key_def)
    next
      case ok: (Inr ps)
      then have "set (cs_permissions (ic_credential ic)) \<subseteq> set allowed" by (simp add: within_grant_Inr)
      then show ?thesis using d k Inr ok assms(2)
        by (auto simp: issue_checked_def ok_def publish_frame issued_soundly_def)
    qed
  qed
qed

lemma with_first_key_result:
  assumes "valid st" "with_first_key ports p es r allowed undo t st = (st', res)"
    and undo: "\<And>s i. valid s \<Longrightarrow> valid (undo s) \<and> keys (undo s) = keys s \<and>
          find_project_row ports i (undo s) = (if i = prj_id p then None else find_project_row ports i s)"
  shows "valid st' \<and> (\<forall>j. j \<noteq> prj_id p \<longrightarrow> find_project_row ports j st' = find_project_row ports j st) \<and>
    (case res of
       Inr pp \<Rightarrow> pp_project pp = p \<and> find_project_row ports (prj_id p) st' = Some p \<and>
         issued_soundly st st' r allowed t (pp_credential pp)
     | Inl _ \<Rightarrow> find_project_row ports (prj_id p) st' = None \<and> no_new_key st st')"
proof -
  define st0 where "st0 = publish ports (map ProjectFact es) (save_project_row ports p es st)"
  have st0: "valid st0" "keys st0 = keys st"
    "find_project_row ports j st0 = (if j = prj_id p then Some p else find_project_row ports j st)" for j
    using save_row [OF assms(1), of p es] publish_frame [of "save_project_row ports p es st"]
    by (simp_all add: st0_def)
  obtain out st1 where k: "issue_key ports r t st0 = (out, st1)" by fastforce
  show ?thesis
  proof (cases out)
    case (Inl e)
    then show ?thesis
      using issue_failed [OF st0(1), of r t e st1] k assms(2) undo [of st1] st0(2,3)
      by (auto simp: with_first_key_def st0_def [symmetric] err_def no_new_key_def)
  next
    case (Inr ic)
    note d = issue_done [OF st0(1) k [unfolded Inr]]
    show ?thesis
    proof (cases "within_grant (cs_permissions (ic_credential ic)) allowed")
      case (Inl e)
      then show ?thesis
        using withdrawn [OF st0(1) k [unfolded Inr]] k Inr assms(2) st0(2,3)
          undo [of "snd (revoke_key ports (cred_id (ic_credential ic)) t st1)"]
        by (auto simp: with_first_key_def st0_def [symmetric] refused_def err_def no_new_key_def Let_def)
    next
      case ok: (Inr ps)
      then have "set (cs_permissions (ic_credential ic)) \<subseteq> set allowed" by (simp add: within_grant_Inr)
      then show ?thesis using d k Inr ok assms(2) st0
        by (auto simp: with_first_key_def st0_def [symmetric] ok_def publish_frame issued_soundly_def Let_def)
    qed
  qed
qed

lemma project_id_frame:
  assumes "valid st"
  shows "valid (snd (project_id_for ports given st))" "keys (snd (project_id_for ports given st)) = keys st"
  using fresh_id [OF assms] assms by (auto simp: project_id_for_def split: option.splits)

lemma compensate_frame:
  "valid s \<Longrightarrow> valid (compensate ports i w t s) \<and> keys (compensate ports i w t s) = keys s \<and>
     find_project_row ports j (compensate ports i w t s) = (if j = i then None else find_project_row ports j s)"
  using delete_row [of s i] by (simp add: compensate_def publish_frame)

text \<open>Every key a call leaves usable was usable before, with the same permissions, or stays in the bound.\<close>

definition bounded_by :: "permission set \<Rightarrow> 'st \<Rightarrow> 'st \<Rightarrow> bool" where
  "bounded_by a st st' \<longleftrightarrow> valid st' \<and>
     (\<forall>c u. c \<in> keys st' \<longrightarrow> is_usable c u \<longrightarrow>
        set (cs_permissions c) \<subseteq> a \<or> (\<exists>d \<in> keys st. is_usable d u \<and> cs_permissions d = cs_permissions c))"

lemma bounded_same: "valid st' \<Longrightarrow> keys st' = keys st \<Longrightarrow> bounded_by a st st'"
  by (auto simp: bounded_by_def)

lemma bounded_fewer: "valid st' \<Longrightarrow> no_new_key st st' \<Longrightarrow> bounded_by a st st'"
  by (auto simp: bounded_by_def no_new_key_def)

lemma bounded_issued:
  "valid st' \<Longrightarrow> issued_soundly st st' r allowed t ic \<Longrightarrow> set allowed \<subseteq> a \<Longrightarrow> bounded_by a st st'"
  by (auto simp: bounded_by_def issued_soundly_def)

lemma bounded_checked:
  assumes "valid st" "set allowed \<subseteq> a"
  shows "bounded_by a st (fst (issue_checked ports r allowed tell t st))"
proof -
  obtain st' res where c: "issue_checked ports r allowed tell t st = (st', res)" by fastforce
  note f = issue_checked_result [OF assms(1) c]
  have "bounded_by a st st'"
  proof (cases res)
    case (Inl e)
    then show ?thesis using f bounded_fewer by simp
  next
    case (Inr ic)
    then show ?thesis using f bounded_issued [of st' st r allowed t ic a] assms(2) by simp
  qed
  then show ?thesis using c by simp
qed

lemma bounded_first_key:
  assumes "valid st" "keys st = keys st0" "set allowed \<subseteq> a"
    and "\<And>s i. valid s \<Longrightarrow> valid (undo s) \<and> keys (undo s) = keys s \<and>
          find_project_row ports i (undo s) = (if i = prj_id p then None else find_project_row ports i s)"
  shows "bounded_by a st0 (fst (with_first_key ports p es r allowed undo t st))"
proof -
  obtain st' res where c: "with_first_key ports p es r allowed undo t st = (st', res)" by fastforce
  note f = with_first_key_result [OF assms(1) c assms(4)]
  have "bounded_by a st st'"
  proof (cases res)
    case (Inl e)
    then show ?thesis using f bounded_fewer by simp
  next
    case (Inr pp)
    then show ?thesis using f bounded_issued [of st' st r allowed t "pp_credential pp" a] assms(3) by simp
  qed
  then show ?thesis using assms(2) c by (simp add: bounded_by_def)
qed

lemma mutate_frame:
  assumes "valid st"
  shows "valid (fst (mutate_project ports i decide st))" "keys (fst (mutate_project ports i decide st)) = keys st"
  using save_row [OF assms] assms by (auto simp: mutate_project_def publish_frame split: option.splits sum.splits)

lemma revoke_frame:
  assumes "valid st"
  shows "valid (snd (revoke_key ports j t st))"
    "find_project_row ports i (snd (revoke_key ports j t st)) = find_project_row ports i st"
    "c \<in> keys (snd (revoke_key ports j t st)) \<Longrightarrow> is_usable c u \<Longrightarrow> c \<in> keys st"
    "c \<in> keys st \<Longrightarrow> cred_id c \<noteq> j \<Longrightarrow> c \<in> keys (snd (revoke_key ports j t st))"
    "c \<in> keys st \<Longrightarrow> cred_revoked_at c = None \<Longrightarrow> cred_id c = j \<Longrightarrow>
       d \<in> keys (snd (revoke_key ports j t st)) \<Longrightarrow> is_usable d u \<Longrightarrow> cred_id d \<noteq> j"
proof -
  obtain res st' where r: "revoke_key ports j t st = (res, st')" by fastforce
  note k = revoke_keys [OF assms r]
  show "valid (snd (revoke_key ports j t st))"
    "find_project_row ports i (snd (revoke_key ports j t st)) = find_project_row ports i st"
    using k r by simp_all
  show "c \<in> keys st" if "c \<in> keys (snd (revoke_key ports j t st))" "is_usable c u"
    using k r that revoked_in_usable [of c j t "keys st" u] by (simp split: if_splits)
  show "c \<in> keys (snd (revoke_key ports j t st))" if "c \<in> keys st" "cred_id c \<noteq> j"
    using k r that by (auto simp: revoked_in_def image_iff)
  show "cred_id d \<noteq> j" if "c \<in> keys st" "cred_revoked_at c = None" "cred_id c = j"
    "d \<in> keys (snd (revoke_key ports j t st))" "is_usable d u"
    using k r that revoke_live [OF assms that(1,2), of t] revoked_in_usable [of d j t "keys st" u] by simp
qed

lemma revoke_all_frame:
  assumes "valid st"
  shows "valid (revoke_all ports t cs st) \<and>
    find_project_row ports i (revoke_all ports t cs st) = find_project_row ports i st \<and>
    (c \<in> keys (revoke_all ports t cs st) \<longrightarrow> is_usable c u \<longrightarrow> c \<in> keys st) \<and>
    (c \<in> keys st \<longrightarrow> cred_id c \<notin> cred_id ` set cs \<longrightarrow> c \<in> keys (revoke_all ports t cs st))"
  using assms
proof (induction cs arbitrary: st)
  case (Cons x cs)
  define st1 where "st1 = (if credential_status_of x t = StatusRevoked then st else snd (revoke_key ports (cred_id x) t st))"
  note frame = revoke_frame [OF Cons.prems, where j = "cred_id x" and t = t]
  have st1: "valid st1" "find_project_row ports i st1 = find_project_row ports i st"
    using frame(1) frame(2) [of i] Cons.prems by (simp_all add: st1_def)
  have old: "c \<in> keys st" if "c \<in> keys st1" "is_usable c u"
    using that frame(3) [of c u] by (simp add: st1_def split: if_splits)
  have kept: "c \<in> keys st1" if "c \<in> keys st" "cred_id c \<noteq> cred_id x"
    using that frame(4) [of c] by (simp add: st1_def)
  have run: "revoke_all ports t (x # cs) st = revoke_all ports t cs st1" by (simp add: st1_def)
  have later: "c \<in> keys st \<Longrightarrow> cred_id c \<notin> cred_id ` set (x # cs) \<Longrightarrow>
      c \<in> keys st1 \<and> cred_id c \<notin> cred_id ` set cs"
    using kept by simp
  from Cons.IH [OF st1(1)] later old show ?case unfolding run st1(2) by argo
qed simp

lemma revoke_all_kills:
  assumes "valid st" "c \<in> set cs" "c \<in> keys st" "d \<in> keys (revoke_all ports t cs st)" "cred_id d = cred_id c"
  shows "\<not> is_usable d u"
proof
  assume u: "is_usable d u"
  have "d \<in> keys st" using revoke_all_frame [OF assms(1)] assms(4) u by blast
  then have "d = c" using one_row [OF assms(1)] assms(3,5) by (simp add: inj_on_def)
  then have live: "cred_revoked_at c = None" using usable_never_revoked [OF u] by simp
  from assms live show False
  proof (induction cs arbitrary: st)
    case (Cons x cs)
    define st1 where "st1 = (if credential_status_of x t = StatusRevoked then st else snd (revoke_key ports (cred_id x) t st))"
    have st1: "valid st1" "d \<in> keys (revoke_all ports t cs st1)"
      using Cons.prems(1,4) revoke_frame(1) [OF Cons.prems(1)] by (simp_all add: st1_def)
    then have d1: "d \<in> keys st1" using revoke_all_frame [OF st1(1)] u by blast
    show ?case
    proof (cases "c = x")
      case True
      then have "credential_status_of x t \<noteq> StatusRevoked"
        using live by (simp add: credential_status_of_def split: option.splits)
      then show ?thesis
        using revoke_frame(5) [OF Cons.prems(1,3) live refl, of d t u] d1 u \<open>d = c\<close> True by (simp add: st1_def)
    next
      case False
      then show ?thesis using Cons.IH [OF st1(1)] Cons.prems st1 d1 \<open>d = c\<close> live by auto
    qed
  qed simp
qed

end

section \<open>Calls\<close>

text \<open>
  The commands a client can issue, rotation apart: what a replacement may carry is the store's
  promise (it inherits), not the use case's check.
\<close>

datatype project_call =
    KeyIssued project_id issue_command instant
  | WorkspaceKeyIssued workspace_id issue_command instant
  | KeyRevoked project_id credential_id instant
  | WorkspaceKeyRevoked workspace_id credential_id instant
  | KeyRepaired project_id account_id "permission list" "string option" instant
  | Provisioned workspace_id string account_id "permission list" "string option" "project_id option" "rat \<times> rat" instant instant
  | ProvisionedUnclaimed string claim_grant "workspace_id \<times> account_id" "string option" "project_id option" "rat \<times> rat" instant
  | ProjectCommanded project_id prj_command instant
  | ProjectRemoved project_id instant

fun exec_projects :: "'st project_ports \<Rightarrow> project_call \<Rightarrow> 'st \<Rightarrow> 'st" where
  "exec_projects ports (KeyIssued i c t) st = fst (issue_credential ports i c t st)"
| "exec_projects ports (WorkspaceKeyIssued w c t) st = fst (issue_workspace_credential ports w c t st)"
| "exec_projects ports (KeyRevoked i k t) st = fst (revoke_credential ports i k t st)"
| "exec_projects ports (WorkspaceKeyRevoked w k t) st = fst (revoke_workspace_credential ports w k t st)"
| "exec_projects ports (KeyRepaired i a held n t) st = fst (repair_project_credential ports i a held n t st)"
| "exec_projects ports (Provisioned w name a held n given draws t later) st =
     fst (provision_project ports w name a held n given draws t later st)"
| "exec_projects ports (ProvisionedUnclaimed name g holding n given draws t) st =
     fst (provision_unclaimed_project ports name g holding n given draws t st)"
| "exec_projects ports (ProjectCommanded i (PrjRename name) t) st = fst (rename_project_use ports i name t st)"
| "exec_projects ports (ProjectCommanded i PrjArchive t) st = fst (archive_project_use ports i t st)"
| "exec_projects ports (ProjectCommanded i PrjRestore t) st = fst (restore_project_use ports i t st)"
| "exec_projects ports (ProjectCommanded i (PrjRetention r) t) st = fst (set_project_retention ports i r t st)"
| "exec_projects ports (ProjectCommanded i (PrjClaim d w) t) st = fst (claim_project ports i d w t st)"
| "exec_projects ports (ProjectRemoved i t) st = fst (delete_project ports i t st)"

text \<open>What a call may put on a key: what its caller holds, and of that what may be delegated.\<close>

fun call_authority :: "project_call \<Rightarrow> permission set" where
  "call_authority (KeyIssued _ c _) = set (is_held c) \<inter> set SERVICE_DELEGABLE_PERMISSIONS"
| "call_authority (WorkspaceKeyIssued _ c _) = set (is_held c) \<inter> set SERVICE_DELEGABLE_PERMISSIONS"
| "call_authority (KeyRepaired _ _ held _ _) = set held \<inter> {EventsWrite}"
| "call_authority (Provisioned _ _ _ held _ _ _ _ _) = set held \<inter> {EventsWrite}"
| "call_authority (ProvisionedUnclaimed _ _ _ _ _ _ _) = {EventsWrite}"
| "call_authority _ = {}"

lemma grantable_ingest: "grantable_to IngestKey held = Inr ps \<Longrightarrow> set ps \<subseteq> set held \<inter> {EventsWrite}"
  by (auto simp: grantable_to_def within_grant_Inr INGEST_PERMISSIONS_def)

lemma project_create_id: "project_create i name w t = Inr (p, es) \<Longrightarrow> prj_id p = i \<and> project_workspace p = Some w"
  by (auto simp: project_create_def Let_def ok_def err_def project_workspace_def split: if_splits)

lemma provision_unclaimed_id: "provision_unclaimed i name g t = Inr (p, es) \<Longrightarrow> prj_id p = i"
  by (auto simp: provision_unclaimed_def Let_def ok_def err_def split: if_splits)

context credential_stores
begin

lemma bounded_refl: "valid st \<Longrightarrow> bounded_by a st st"
  by (rule bounded_same) simp_all

lemma issue_bounded:
  assumes "valid st"
  shows "bounded_by (call_authority (KeyIssued i c t)) st (fst (issue_credential ports i c t st))"
  using bounded_refl [OF assms] bounded_checked [OF assms] grantable_to_Inr
  by (auto simp: issue_credential_def within_grant_Inr refused_def Let_def
      split: option.splits sum.splits intro!: bounded_checked [OF assms] dest!: grantable_to_Inr)

lemma workspace_issue_bounded:
  assumes "valid st"
  shows "bounded_by (call_authority (WorkspaceKeyIssued w c t)) st (fst (issue_workspace_credential ports w c t st))"
  using bounded_refl [OF assms]
  by (auto simp: issue_workspace_credential_def within_grant_Inr refused_def
      split: option.splits sum.splits intro!: bounded_checked [OF assms] dest!: grantable_to_Inr)

lemma revoke_bounded:
  assumes "valid st"
  shows "bounded_by a st (fst (revoke_among ports existing k told t st))"
proof -
  note f = revoke_frame(1,3) [OF assms, where j = k and t = t]
  have "bounded_by a st (snd (revoke_key ports k t st))"
    using f by (auto intro!: bounded_fewer simp: no_new_key_def)
  moreover from this have "bounded_by a st (publish ports [CredentialFact told] (snd (revoke_key ports k t st)))"
    by (simp add: bounded_by_def publish_frame)
  ultimately show ?thesis using bounded_refl [OF assms]
    by (auto simp: revoke_among_def split: sum.splits prod.splits)
qed

lemma repair_bounded:
  assumes "valid st"
  shows "bounded_by (call_authority (KeyRepaired i a held n t)) st (fst (repair_project_credential ports i a held n t st))"
proof -
  have "bounded_by (set held \<inter> {EventsWrite}) st (fst (issue_checked ports r ps tell t st))"
    if "grantable_to IngestKey held = Inr ps" for r ps tell
    using bounded_checked [OF assms] grantable_ingest [OF that] by simp
  then show ?thesis using bounded_refl [OF assms]
    by (auto simp: repair_project_credential_def Let_def split: option.splits sum.splits prod.splits)
      (metis fst_conv)+
qed

lemma provision_bounded:
  assumes "valid st"
  shows "bounded_by (call_authority (Provisioned w name a held n given draws t later)) st
     (fst (provision_project ports w name a held n given draws t later st))"
proof -
  obtain i st1 where i: "project_id_for ports given st = (i, st1)" by fastforce
  note st1 = project_id_frame [OF assms, of given, unfolded i snd_conv]
  have "bounded_by (set held \<inter> {EventsWrite}) st
      (fst (with_first_key ports p es r ps (compensate ports i w later) t st1))"
    if "grantable_to IngestKey held = Inr ps" "project_create i x w t = Inr (p, es)" for ps x p es r
    by (rule bounded_first_key [OF st1 grantable_ingest [OF that(1)]])
      (simp add: compensate_frame project_create_id [OF that(2)])
  then show ?thesis using bounded_refl [OF assms] bounded_same [OF st1]
    by (auto simp: provision_project_def i split: sum.splits)
qed

lemma provision_unclaimed_bounded:
  assumes "valid st"
  shows "bounded_by (call_authority (ProvisionedUnclaimed name g holding n given draws t)) st
     (fst (provision_unclaimed_project ports name g holding n given draws t st))"
proof -
  obtain i st1 where i: "project_id_for ports given st = (i, st1)" by fastforce
  note st1 = project_id_frame [OF assms, of given, unfolded i snd_conv]
  have "bounded_by {EventsWrite} st
      (fst (with_first_key ports p es r INGEST_PERMISSIONS (delete_project_row ports i) t st1))"
    if "provision_unclaimed i x g t = Inr (p, es)" for x p es r
    by (rule bounded_first_key [OF st1])
      (simp_all add: INGEST_PERMISSIONS_def delete_row provision_unclaimed_id [OF that])
  then show ?thesis using bounded_same [OF st1]
    by (auto simp: provision_unclaimed_project_def i split: sum.splits)
qed

lemma claim_bounded:
  assumes "valid st"
  shows "bounded_by a st (fst (claim_project ports i d w t st))"
proof -
  obtain st1 res where m: "mutate_project ports i (claim d w t) st = (st1, res)" by fastforce
  note st1 = mutate_frame [OF assms, of i "claim d w t", unfolded m fst_conv]
  obtain n st2 where r: "reassign_keys ports i w st1 = (n, st2)" by fastforce
  note st2 = reassigned [OF st1(1) r]
  have "bounded_by a st st2"
    using st2 st1(2) by (auto simp: bounded_by_def is_usable_iff split: if_splits)
  then show ?thesis using m r bounded_same [OF st1] by (auto simp: claim_project_def split: sum.splits)
qed

lemma delete_bounded:
  assumes "valid st"
  shows "bounded_by a st (fst (delete_project ports i t st))"
proof -
  let ?st1 = "revoke_all ports t (list_keys ports (ProjectKeys i) st) st"
  note f = revoke_all_frame [OF assms, where t = t and cs = "list_keys ports (ProjectKeys i) st"]
  have "bounded_by a st ?st1" using f by (auto intro!: bounded_fewer simp: no_new_key_def)
  then show ?thesis using bounded_refl [OF assms] delete_row [of ?st1 i] f
    by (auto simp: delete_project_def Let_def bounded_by_def publish_frame split: option.splits)
qed

lemma command_bounded: "valid st \<Longrightarrow> bounded_by a st (exec_projects ports (ProjectCommanded i c t) st)"
  by (cases c) (simp_all add: rename_project_use_def archive_project_use_def restore_project_use_def
      set_project_retention_def claim_bounded bounded_same mutate_frame)

lemma call_bounded: "valid st \<Longrightarrow> bounded_by (call_authority call) st (exec_projects ports call st)"
  using issue_bounded workspace_issue_bounded repair_bounded provision_bounded provision_unclaimed_bounded
    command_bounded [of st "{}"] delete_bounded revoke_bounded
  by (cases call) (simp_all add: revoke_credential_def revoke_workspace_credential_def bounded_refl
      split: option.splits)

lemma calls_bounded:
  assumes "valid st"
  shows "valid (fold (exec_projects ports) calls st) \<and>
    (\<forall>c u. c \<in> keys (fold (exec_projects ports) calls st) \<longrightarrow> is_usable c u \<longrightarrow>
       (\<exists>call \<in> set calls. set (cs_permissions c) \<subseteq> call_authority call) \<or>
       (\<exists>d \<in> keys st. is_usable d u \<and> cs_permissions d = cs_permissions c))"
  using assms
proof (induction calls arbitrary: st)
  case (Cons call calls)
  note b = call_bounded [OF Cons.prems, of call, unfolded bounded_by_def]
  note ih = Cons.IH [OF b [THEN conjunct1]]
  show ?case
  proof (intro conjI allI impI)
    show "valid (fold (exec_projects ports) (call # calls) st)" using ih by simp
    fix c u
    assume c: "c \<in> keys (fold (exec_projects ports) (call # calls) st)" "is_usable c u"
    with ih consider x where "x \<in> set calls" "set (cs_permissions c) \<subseteq> call_authority x"
      | d where "d \<in> keys (exec_projects ports call st)" "is_usable d u" "cs_permissions d = cs_permissions c"
      by simp blast
    then show "(\<exists>call \<in> set (call # calls). set (cs_permissions c) \<subseteq> call_authority call) \<or>
        (\<exists>d \<in> keys st. is_usable d u \<and> cs_permissions d = cs_permissions c)"
    proof cases
      case 2
      then show ?thesis using b by (metis list.set_intros(1))
    qed auto
  qed
qed auto

lemma repair_result:
  assumes "valid st" "repair_project_credential ports i a held n t st = (st', Inr outcome)" "outcome \<noteq> RepairLapsed"
  shows "valid st' \<and> find_project_row ports i st' = find_project_row ports i st \<and>
    can_ingest (list_keys ports (ProjectKeys i) st') t \<and>
    (outcome = AlreadyProvisioned \<longrightarrow> st' = st) \<and>
    (\<forall>ic. outcome = Repaired ic \<longrightarrow>
       \<not> can_ingest (list_keys ports (ProjectKeys i) st) t \<and>
       set (cs_permissions (ic_credential ic)) \<subseteq> set held \<inter> {EventsWrite} \<and>
       cred_name (ic_credential ic) \<notin> cred_name ` set (list_keys ports (ProjectKeys i) st))"
proof -
  obtain p where p: "find_project_row ports i st = Some p" "\<not> prj_archived p" "admits_events t p"
    using assms(2,3) by (auto simp: repair_project_credential_def refused_def ok_def err_def
        split: option.splits if_splits)
  let ?existing = "list_keys ports (ProjectKeys i) st"
  show ?thesis
  proof (cases "list_ex (\<lambda>c. can_ingest [c] t) ?existing")
    case True
    then show ?thesis using assms p
      by (auto simp: repair_project_credential_def ok_def can_ingest_iff list_ex_iff)
  next
    case False
    obtain ps w r tell where c: "grantable_to IngestKey held = Inr ps"
      "issue_checked ports r ps tell t st = (st', case outcome of Repaired ic \<Rightarrow> Inr ic)"
      "\<exists>ic. outcome = Repaired ic"
      and r: "r = (first_key None w i a)\<lparr>ir_name := unique_name ?existing (case n of None \<Rightarrow> ''default'' | Some n \<Rightarrow> n)\<rparr>"
      using assms(2,3) p False
      by (auto simp: repair_project_credential_def refused_def ok_def err_def Let_def
          split: option.splits if_splits sum.splits prod.splits)
    from c(3) obtain ic where ic: "outcome = Repaired ic" by blast
    note f = issue_checked_result [OF assms(1) c(2) [unfolded ic], of i]
    then have k: "ic_credential ic \<in> set (list_keys ports (ProjectKeys i) st')" "is_usable (ic_credential ic) t"
      "cred_kind (ic_credential ic) = IngestKey"
      by (simp_all add: listed issued_soundly_def placed_as_def r first_key_def is_usable_iff)
    then show ?thesis using f False ic grantable_ingest [OF c(1)] unique_name_fresh [of ?existing]
      by (auto simp: can_ingest_iff list_ex_iff issued_soundly_def placed_as_def r)
  qed
qed

lemma repair_again:
  assumes "find_project_row ports i st = Some p" "\<not> prj_archived p" "admits_events t p"
    "can_ingest (list_keys ports (ProjectKeys i) st) t"
  shows "repair_project_credential ports i a held n t st = (st, Inr AlreadyProvisioned)"
  using assms by (auto simp: repair_project_credential_def ok_def can_ingest_iff list_ex_iff)

lemma delete_result:
  assumes "valid st" "find_project_row ports i st = Some p" "delete_project ports i t st = (st', res)"
  shows "valid st' \<and> res = Inr () \<and>
    (\<forall>j. find_project_row ports j st' = (if j = i then None else find_project_row ports j st)) \<and>
    (\<forall>c u. c \<in> keys st' \<longrightarrow> cs_project c = Some i \<longrightarrow> \<not> is_usable c u) \<and>
    (\<forall>c. c \<in> keys st \<longrightarrow> cs_project c \<noteq> Some i \<longrightarrow> c \<in> keys st')"
proof -
  define cs where "cs = list_keys ports (ProjectKeys i) st"
  define st1 where "st1 = revoke_all ports t cs st"
  have cs: "set cs = {c \<in> keys st. cs_project c = Some i}" by (simp add: cs_def listed [OF assms(1)])
  have f: "valid st1" "find_project_row ports j st1 = find_project_row ports j st"
    "c \<in> keys st1 \<Longrightarrow> is_usable c u \<Longrightarrow> c \<in> keys st"
    "c \<in> keys st \<Longrightarrow> cred_id c \<notin> cred_id ` set cs \<Longrightarrow> c \<in> keys st1" for j c u
    using revoke_all_frame [OF assms(1), where t = t and cs = cs] unfolding st1_def by blast+
  have st': "st' = publish ports [ProjectFact (ProjectDeleted i (project_workspace p) t)] (delete_project_row ports i st1)"
    "res = Inr ()"
    using assms(2,3) by (simp_all add: delete_project_def st1_def cs_def ok_def)
  note d = delete_row [OF f(1), of i]
  have keys: "keys st' = keys st1" using d st'(1) by (simp add: publish_frame)
  have dead: "\<not> is_usable c u" if "c \<in> keys st'" "cs_project c = Some i" for c u
  proof
    assume u: "is_usable c u"
    then have "c \<in> set cs" using f(3) [of c u] that keys cs by simp
    then show False
      using revoke_all_kills [OF assms(1), of c cs c t u] cs u that(1) keys by (simp add: st1_def)
  qed
  have kept: "c \<in> keys st'" if "c \<in> keys st" "cs_project c \<noteq> Some i" for c
  proof -
    have "cred_id c \<notin> cred_id ` set cs"
      using one_row [OF assms(1)] that cs by (auto simp: inj_on_def)
    then show ?thesis using f(4) that(1) keys by simp
  qed
  show ?thesis using d f(2) st' dead kept by (simp add: publish_frame)
qed

lemma rotate_result:
  assumes "valid st" "rotate_credential ports i target held expected overlap t st = (st', Inr out)"
  shows "let fresh = ic_credential (ro_issued out); old = ro_retiring out in
    fresh \<in> set (list_keys ports (ProjectKeys i) st') \<and> is_usable fresh t \<and>
    ro_grace_ends_at out = instant_plus t (resolve_overlap overlap) \<and>
    (\<exists>e. cred_expires_at old = Some e \<and> e \<le> ro_grace_ends_at out) \<and>
    (can_ingest (list_keys ports (ProjectKeys i) st) t \<longrightarrow> can_ingest (list_keys ports (ProjectKeys i) st') t)"
proof -
  let ?before = "list_keys ports (ProjectKeys i) st"
  obtain found rotated st1 facts where r: "may_rotate ?before target expected t = Inr found"
    "rotate_key ports target (resolve_overlap overlap) t st = (Inr rotated, st1)"
    "st' = publish ports facts st1"
    and out: "ro_issued out = rc_issued rotated" "ro_retiring out = rc_retiring rotated"
      "ro_grace_ends_at out = instant_plus t (resolve_overlap overlap)"
    using assms(2) by (auto simp: rotate_credential_def rotate_among_def refused_def err_def ok_def Let_def
        split: option.splits if_splits sum.splits prod.splits)
  note d = rotate_done [OF assms(1) r(2)]
  have same: "keys st' = keys st1" "valid st'" using r(3) d publish_frame(1,2) [of st1 facts] by auto
  obtain old where old: "old \<in> keys st" "cred_id old = target"
    and e: "\<exists>e. cred_expires_at (rc_retiring rotated) = Some e \<and> e \<le> instant_plus t (resolve_overlap overlap)"
    and fresh: "cred_kind (ic_credential (rc_issued rotated)) = cred_kind old"
      "cs_project (ic_credential (rc_issued rotated)) = cs_project old" "is_usable (ic_credential (rc_issued rotated)) t"
    and ks: "keys st1 = insert (ic_credential (rc_issued rotated)) (insert (rc_retiring rotated) (keys st - {old}))"
    using d by blast
  have "find (\<lambda>c. cred_id c = target) ?before = Some found"
    using r(1) by (auto simp: may_rotate_def live_credential_Inr err_def split: sum.splits option.splits if_splits)
  then have "found \<in> set ?before" "cred_id found = target" using find_Some_iff_mem by fastforce+
  then have "cs_project old = Some i"
    using one_row [OF assms(1)] old by (auto simp: listed [OF assms(1)] inj_on_def)
  then have mem: "ic_credential (rc_issued rotated) \<in> set (list_keys ports (ProjectKeys i) st')"
    using fresh ks same by (simp add: listed)
  have "\<exists>c \<in> set (list_keys ports (ProjectKeys i) st'). cred_kind c = IngestKey \<and> is_usable c t"
    if "c \<in> set ?before" "cred_kind c = IngestKey" "is_usable c t" for c
  proof (cases "c = old")
    case True
    then show ?thesis using mem fresh that by metis
  next
    case False
    then show ?thesis using that ks same by (auto simp: listed [OF assms(1)] listed [OF same(2)])
  qed
  then show ?thesis using mem e fresh(3) out by (auto simp: Let_def can_ingest_iff)
qed

lemma provision_result:
  assumes "valid st" "find_project_row ports i st = None"
    "provision_project ports w name a held n (Some i) draws t later st = (st', res)"
  shows "valid st' \<and> (\<forall>j. j \<noteq> i \<longrightarrow> find_project_row ports j st' = find_project_row ports j st) \<and>
    (case res of
       Inr pp \<Rightarrow> find_project_row ports i st' = Some (pp_project pp) \<and> project_workspace (pp_project pp) = Some w \<and>
         set (cs_permissions (ic_credential (pp_credential pp))) \<subseteq> set held \<inter> {EventsWrite} \<and>
         (\<forall>u. can_ingest (list_keys ports (ProjectKeys i) st') u)
     | Inl _ \<Rightarrow> find_project_row ports i st' = None \<and> no_new_key st st')"
proof (cases "\<exists>ps p es. grantable_to IngestKey held = Inr ps \<and> project_create i (chosen_name name draws) w t = Inr (p, es)")
  case True
  then obtain ps p es where c: "grantable_to IngestKey held = Inr ps" "project_create i (chosen_name name draws) w t = Inr (p, es)"
    by blast
  note p = project_create_id [OF c(2)]
  have run: "with_first_key ports p es (first_key n w i a) ps (compensate ports i w later) t st = (st', res)"
    using assms(3) c by (simp add: provision_project_def project_id_for_def)
  note f = with_first_key_result [OF assms(1) run, unfolded p [THEN conjunct1], OF compensate_frame]
  show ?thesis
  proof (cases res)
    case (Inr pp)
    then have k: "ic_credential (pp_credential pp) \<in> keys st'" "placed_as (first_key n w i a) t (ic_credential (pp_credential pp))"
      "valid st'"
      using f by (simp_all add: issued_soundly_def)
    then have "can_ingest (list_keys ports (ProjectKeys i) st') u" for u
      by (auto simp: can_ingest_iff listed [OF k(3)] placed_as_def first_key_def is_usable_iff)
    then show ?thesis using f Inr p grantable_ingest [OF c(1)] by (auto simp: issued_soundly_def)
  qed (use f in simp)
next
  case False
  then have "st' = st" "\<exists>e. res = Inl e"
    using assms(3) by (auto simp: provision_project_def project_id_for_def refused_def err_def split: sum.splits)
  then show ?thesis using assms(1,2) by (auto simp: no_new_key_def)
qed

end

section \<open>The in-memory ports are such stores\<close>

lemma set_map_put: "distinct (map fst kvs) \<Longrightarrow> set (map_put k v kvs) = insert (k, v) {x \<in> set kvs. fst x \<noteq> k}"
  by (induction k v kvs rule: map_put.induct) force+

lemma memory_wf_fail [simp]: "memory_projects_wf (st\<lparr>mp_fail := f\<rparr>) = memory_projects_wf st"
  by (simp add: memory_projects_wf_def)

lemma memory_wf_keys:
  assumes "memory_projects_wf st"
  shows "distinct (map fst (mp_keys st))" "list_all (\<lambda>(k, c). k = cred_id c) (mp_keys st)"
    "(k, c) \<in> set (mp_keys st) \<Longrightarrow> k = cred_id c"
    "fst ` set (mp_keys st) = cred_id ` snd ` set (mp_keys st)"
  using assms by (auto simp: memory_projects_wf_def list_all_iff image_image intro!: image_cong)

lemma memory_row_found:
  assumes "memory_projects_wf st" "map_of (mp_keys st) i = Some c"
  shows "cred_id c = i" "c \<in> snd ` set (mp_keys st)"
proof -
  have m: "(i, c) \<in> set (mp_keys st)" using assms(2) by (rule map_of_SomeD)
  then show "cred_id c = i" using memory_wf_keys(3) [OF assms(1)] by simp
  show "c \<in> snd ` set (mp_keys st)" using m by force
qed

lemma memory_row:
  assumes "memory_projects_wf st" "c \<in> snd ` set (mp_keys st)"
  shows "map_of (mp_keys st) (cred_id c) = Some c"
proof -
  obtain k where "(k, c) \<in> set (mp_keys st)" using assms(2) by auto
  then have "(cred_id c, c) \<in> set (mp_keys st)" using memory_wf_keys(3) [OF assms(1)] by metis
  then show ?thesis using memory_wf_keys(1) [OF assms(1)] by simp
qed

text \<open>Writing a row under its own id replaces the row that had it.\<close>

lemma memory_put:
  assumes "memory_projects_wf st" "cred_id c \<in> fst ` set (mp_keys st)"
  shows "memory_projects_wf (st\<lparr>mp_keys := map_put (cred_id c) c (mp_keys st)\<rparr>)"
    "snd ` set (map_put (cred_id c) c (mp_keys st)) = insert c {d \<in> snd ` set (mp_keys st). cred_id d \<noteq> cred_id c}"
proof -
  show "memory_projects_wf (st\<lparr>mp_keys := map_put (cred_id c) c (mp_keys st)\<rparr>)"
    using assms by (simp add: memory_projects_wf_def distinct_map_put list_all_map_put set_map_put_fst insert_absorb)
  note put = set_map_put [OF memory_wf_keys(1) [OF assms(1)], of "cred_id c" c]
  have "snd ` {x \<in> set (mp_keys st). fst x \<noteq> cred_id c} = {d \<in> snd ` set (mp_keys st). cred_id d \<noteq> cred_id c}"
  proof (intro set_eqI iffI)
    fix d
    assume "d \<in> snd ` {x \<in> set (mp_keys st). fst x \<noteq> cred_id c}"
    then obtain k where "(k, d) \<in> set (mp_keys st)" "k \<noteq> cred_id c" by auto
    then show "d \<in> {d \<in> snd ` set (mp_keys st). cred_id d \<noteq> cred_id c}"
      using memory_wf_keys(3) [OF assms(1)] by force
  next
    fix d
    assume "d \<in> {d \<in> snd ` set (mp_keys st). cred_id d \<noteq> cred_id c}"
    then obtain k where "(k, d) \<in> set (mp_keys st)" "cred_id d \<noteq> cred_id c" by auto
    then show "d \<in> snd ` {x \<in> set (mp_keys st). fst x \<noteq> cred_id c}"
      using memory_wf_keys(3) [OF assms(1)] by force
  qed
  then show "snd ` set (map_put (cred_id c) c (mp_keys st)) = insert c {d \<in> snd ` set (mp_keys st). cred_id d \<noteq> cred_id c}"
    unfolding put by simp
qed

lemma memory_issue_done:
  assumes "memory_projects_wf st" "memory_issue r t st = (Inr ic, st')"
  shows "memory_projects_wf st' \<and> mp_rows st' = mp_rows st \<and> placed_as r t (ic_credential ic) \<and>
    snd ` set (mp_keys st') = insert (ic_credential ic) (snd ` set (mp_keys st)) \<and>
    cred_id (ic_credential ic) \<notin> fst ` set (mp_keys st)"
proof -
  let ?n = "mp_counter st + 1"
  let ?c = "minted r t ?n (mp_instead st)"
  have ic: "ic_credential ic = ?c" "st' = st\<lparr>mp_counter := ?n, mp_keys := map_put (cred_id ?c) ?c (mp_keys st)\<rparr>"
    using assms(2) by (auto simp: memory_issue_def Let_def ok_def err_def split: option.splits)
  have id: "cred_id ?c = ''cred_'' @ show_nat ?n" by (simp add: minted_def)
  have new: "cred_id ?c \<notin> fst ` set (mp_keys st)"
  proof
    assume "cred_id ?c \<in> fst ` set (mp_keys st)"
    then obtain m where "m \<le> mp_counter st" "cred_id ?c = ''cred_'' @ show_nat m"
      using assms(1) unfolding memory_projects_wf_def by blast
    then show False unfolding id by (simp add: show_nat_inj)
  qed
  have "{x \<in> set (mp_keys st). fst x \<noteq> cred_id ?c} = set (mp_keys st)" using new by force
  then have put: "set (map_put (cred_id ?c) ?c (mp_keys st)) = insert (cred_id ?c, ?c) (set (mp_keys st))"
    using set_map_put [OF memory_wf_keys(1) [OF assms(1)], of "cred_id ?c" ?c] by simp
  have "\<exists>n \<le> ?n. k = ''cred_'' @ show_nat n" if "k \<in> fst ` set (map_put (cred_id ?c) ?c (mp_keys st))" for k
  proof (cases "k = cred_id ?c")
    case True
    then show ?thesis using id by blast
  next
    case False
    then have "k \<in> fst ` set (mp_keys st)" using that by (simp add: set_map_put_fst)
    then obtain m where "m \<le> mp_counter st" "k = ''cred_'' @ show_nat m"
      using assms(1) unfolding memory_projects_wf_def by blast
    then show ?thesis by (intro exI [of _ m]) simp
  qed
  then have "memory_projects_wf st'"
    using memory_wf_keys(1,2) [OF assms(1)] unfolding ic(2) memory_projects_wf_def
    by (simp add: distinct_map_put list_all_map_put)
  then show ?thesis using ic new put by (simp add: placed_as_def minted_def)
qed

lemma map_of_filter_key: "map_of (filter (\<lambda>(k, v). k \<noteq> j) kvs) i = (if i = j then None else map_of kvs i)"
  by (induction kvs) auto

lemma memory_reassigned:
  assumes "memory_projects_wf st" "memory_reassign j w st = (n, st')"
  shows "memory_projects_wf st' \<and> mp_rows st' = mp_rows st \<and>
    snd ` set (mp_keys st') = (\<lambda>c. if cs_project c = Some j then c\<lparr>cs_workspace := w\<rparr> else c) ` snd ` set (mp_keys st)"
proof -
  let ?f = "\<lambda>c. if cs_project c = Some j \<and> cs_workspace c \<noteq> w then c\<lparr>cs_workspace := w\<rparr> else c"
  have st': "st' = st\<lparr>mp_keys := map (\<lambda>(k, c). (k, ?f c)) (mp_keys st)\<rparr>"
    using assms(2) by (simp add: memory_reassign_def Let_def)
  have "memory_projects_wf st'"
    using memory_wf_keys(1,2) [OF assms(1)] assms(1) unfolding st' memory_projects_wf_def
    by (auto simp: list_all_iff case_prod_unfold o_def image_image)
  moreover have "?f c = (if cs_project c = Some j then c\<lparr>cs_workspace := w\<rparr> else c)" for c :: credential_summary
    by (cases c) auto
  ultimately show ?thesis unfolding st' by (force simp: image_image case_prod_unfold)
qed

lemma memory_revoke_done:
  assumes "memory_projects_wf st" "memory_revoke j t st = (res, st')"
  shows "memory_projects_wf st' \<and> mp_rows st' = mp_rows st \<and>
    snd ` set (mp_keys st') = (if res = Inr () then revoked_in j t (snd ` set (mp_keys st)) else snd ` set (mp_keys st)) \<and>
    (res = Inr () \<longleftrightarrow> (\<exists>c \<in> snd ` set (mp_keys st). cred_id c = j \<and> cred_revoked_at c = None))"
proof (cases "map_of (mp_keys st) j")
  case None
  then have "j \<notin> cred_id ` snd ` set (mp_keys st)"
    using memory_wf_keys(4) [OF assms(1)] by (simp add: map_of_eq_None_iff)
  then show ?thesis using assms None by (auto simp: memory_revoke_def err_def)
next
  case (Some row)
  note row = memory_row_found [OF assms(1) Some]
  have unique: "c = row" if "c \<in> snd ` set (mp_keys st)" "cred_id c = j" for c
    using memory_row [OF assms(1) that(1)] that(2) Some by simp
  show ?thesis
  proof (cases "cred_revoked_at row = None")
    case False
    then show ?thesis using assms Some unique by (auto simp: memory_revoke_def err_def)
  next
    case True
    define row' where "row' = row\<lparr>cred_revoked_at := Some t\<rparr>"
    have id: "cred_id row' = j" using row by (simp add: row'_def)
    have mem: "cred_id row' \<in> fst ` set (mp_keys st)"
      using row memory_wf_keys(4) [OF assms(1)] id by auto
    note put = memory_put [OF assms(1) mem, unfolded id]
    have st': "res = Inr ()" "st' = st\<lparr>mp_keys := map_put j row' (mp_keys st)\<rparr>"
      using assms(2) Some True by (simp_all add: memory_revoke_def ok_def row'_def)
    have "insert row' {d \<in> snd ` set (mp_keys st). cred_id d \<noteq> j} = revoked_in j t (snd ` set (mp_keys st))"
    proof (intro set_eqI iffI)
      fix d
      assume "d \<in> insert row' {d \<in> snd ` set (mp_keys st). cred_id d \<noteq> j}"
      then consider "d = row'" | "d \<in> snd ` set (mp_keys st)" "cred_id d \<noteq> j" by auto
      then show "d \<in> revoked_in j t (snd ` set (mp_keys st))"
        by cases (use row in \<open>auto simp: revoked_in_def row'_def intro!: image_eqI [of _ _ d] image_eqI [of _ _ row]\<close>)
    next
      fix d
      assume "d \<in> revoked_in j t (snd ` set (mp_keys st))"
      then obtain c where "c \<in> snd ` set (mp_keys st)" "d = (if cred_id c = j then c\<lparr>cred_revoked_at := Some t\<rparr> else c)"
        unfolding revoked_in_def by blast
      then show "d \<in> insert row' {d \<in> snd ` set (mp_keys st). cred_id d \<noteq> j}"
        using unique [of c] by (cases "cred_id c = j") (simp_all add: row'_def)
    qed
    then show ?thesis using put st' row True by auto
  qed
qed

lemma memory_rotate_done:
  assumes "memory_projects_wf st" "memory_rotate j d t st = (Inr rc, st')"
  shows "memory_projects_wf st' \<and> mp_rows st' = mp_rows st \<and>
    (\<exists>old \<in> snd ` set (mp_keys st). cred_id old = j \<and>
       (\<exists>e. cred_expires_at (rc_retiring rc) = Some e \<and> e \<le> instant_plus t d) \<and>
       cred_id (rc_retiring rc) = j \<and> cred_kind (ic_credential (rc_issued rc)) = cred_kind old \<and>
       cs_project (ic_credential (rc_issued rc)) = cs_project old \<and>
       is_usable (ic_credential (rc_issued rc)) t \<and>
       snd ` set (mp_keys st') = insert (ic_credential (rc_issued rc)) (insert (rc_retiring rc) (snd ` set (mp_keys st) - {old})))"
proof -
  obtain old where old: "map_of (mp_keys st) j = Some old"
    using assms(2) by (auto simp: memory_rotate_def err_def split: option.splits)
  note row = memory_row_found [OF assms(1) old]
  define r where "r = \<lparr> ir_kind = cred_kind old, ir_name = cred_name old @ '' (rotated)'',
     ir_workspace = cs_workspace old, ir_project = cs_project old,
     ir_issued_by = cs_issued_by old, ir_ceiling = None, ir_expires_in = None \<rparr>"
  define gone where "gone = old\<lparr>cred_expires_at := Some (instant_plus t d)\<rparr>"
  obtain ic st1 where ic: "memory_issue r t st = (Inr ic, st1)" "rc = \<lparr> rc_issued = ic, rc_retiring = gone \<rparr>"
    "st' = st1\<lparr>mp_keys := map_put j gone (mp_keys st1)\<rparr>"
    using assms(2) old by (auto simp: memory_rotate_def err_def ok_def r_def gone_def Let_def
        split: option.splits if_splits sum.splits prod.splits)
  note f = memory_issue_done [OF assms(1) ic(1)]
  have id: "cred_id gone = j" using row by (simp add: gone_def)
  have mem: "cred_id gone \<in> fst ` set (mp_keys st1)"
    using f row id memory_wf_keys(4) [of st1] by auto
  note put = memory_put [OF f [THEN conjunct1] mem, unfolded id]
  have fresh: "cred_id (ic_credential ic) \<noteq> j"
    using f row memory_wf_keys(4) [OF assms(1)] by auto
  have "{c \<in> snd ` set (mp_keys st). cred_id c \<noteq> j} = snd ` set (mp_keys st) - {old}"
    using memory_row [OF assms(1)] old row by (auto, force)
  then have "snd ` set (mp_keys st') = insert (ic_credential ic) (insert gone (snd ` set (mp_keys st) - {old}))"
    using put(2) f fresh ic(3) by auto
  moreover have "is_usable (ic_credential ic) t" "cred_kind (ic_credential ic) = cred_kind old"
    "cs_project (ic_credential ic) = cs_project old"
    using f by (simp_all add: placed_as_def r_def is_usable_iff)
  ultimately show ?thesis using put(1) f ic(2,3) row
    by (intro conjI bexI [of _ old]) (simp_all add: gone_def)
qed

interpretation mem_projects: credential_stores memory_project_ports memory_projects_wf "\<lambda>st. snd ` set (mp_keys st)"
proof unfold_locales
  fix st st' :: memory_projects and r :: issue_request and t :: instant and i j :: project_id
  assume wf: "memory_projects_wf st"
  show "memory_projects_wf (save_project_row memory_project_ports p es st) \<and>
      snd ` set (mp_keys (save_project_row memory_project_ports p es st)) = snd ` set (mp_keys st) \<and>
      find_project_row memory_project_ports i (save_project_row memory_project_ports p es st) =
        (if i = prj_id p then Some p else find_project_row memory_project_ports i st)" for p es
    using wf by (simp add: memory_project_ports_def memory_projects_wf_def map_of_map_put)
  show "memory_projects_wf (delete_project_row memory_project_ports j st) \<and>
      snd ` set (mp_keys (delete_project_row memory_project_ports j st)) = snd ` set (mp_keys st) \<and>
      find_project_row memory_project_ports i (delete_project_row memory_project_ports j st) =
        (if i = j then None else find_project_row memory_project_ports i st)"
    using wf map_of_filter_key [of j "mp_rows st" i]
    by (simp add: memory_project_ports_def memory_projects_wf_def)
  show "memory_projects_wf (enqueue memory_project_ports sent st) \<and>
      snd ` set (mp_keys (enqueue memory_project_ports sent st)) = snd ` set (mp_keys st) \<and>
      find_project_row memory_project_ports i (enqueue memory_project_ports sent st) =
        find_project_row memory_project_ports i st" for sent
    using wf by (simp add: memory_project_ports_def memory_projects_wf_def)
  show "memory_projects_wf (snd (next_id memory_project_ports st)) \<and>
      snd ` set (mp_keys (snd (next_id memory_project_ports st))) = snd ` set (mp_keys st) \<and>
      find_project_row memory_project_ports i (snd (next_id memory_project_ports st)) =
        find_project_row memory_project_ports i st"
    using wf by (simp add: memory_project_ports_def memory_projects_wf_def)
  show "set (list_keys memory_project_ports scope st) = {c \<in> snd ` set (mp_keys st). in_scope scope c}" for scope
    by (auto simp: memory_project_ports_def)
  show "inj_on cred_id (snd ` set (mp_keys st))"
    using memory_row [OF wf] by (metis inj_onI option.inject)
  show "memory_projects_wf st' \<and> snd ` set (mp_keys st') = snd ` set (mp_keys st) \<and>
      find_project_row memory_project_ports i st' = find_project_row memory_project_ports i st"
    if "issue_key memory_project_ports r t st = (Inl e, st')" for e
    using wf that by (auto simp: memory_project_ports_def memory_issue_def Let_def ok_def err_def split: option.splits)
  show "memory_projects_wf st' \<and> snd ` set (mp_keys st') = insert (ic_credential ic) (snd ` set (mp_keys st)) \<and>
      cred_id (ic_credential ic) \<notin> cred_id ` snd ` set (mp_keys st) \<and> placed_as r t (ic_credential ic) \<and>
      find_project_row memory_project_ports i st' = find_project_row memory_project_ports i st"
    if "issue_key memory_project_ports r t st = (Inr ic, st')" for ic
    using memory_issue_done [OF wf, of r t ic st'] that memory_wf_keys(4) [OF wf]
    by (simp add: memory_project_ports_def)
  show "fst (revoke_key memory_project_ports (cred_id c) t st) = Inr ()"
    if "c \<in> snd ` set (mp_keys st)" "cred_revoked_at c = None" for c
    using memory_row [OF wf that(1)] that(2) by (simp add: memory_project_ports_def memory_revoke_def ok_def)
  show "memory_projects_wf st' \<and> find_project_row memory_project_ports i st' = find_project_row memory_project_ports i st \<and>
      snd ` set (mp_keys st') = (if answer = Inr () then revoked_in k t (snd ` set (mp_keys st)) else snd ` set (mp_keys st))"
    if "revoke_key memory_project_ports k t st = (answer, st')" for answer k
    using memory_revoke_done [OF wf, of k t answer st'] that by (simp add: memory_project_ports_def)
  show "memory_projects_wf st' \<and> snd ` set (mp_keys st') = snd ` set (mp_keys st) \<and>
      find_project_row memory_project_ports i st' = find_project_row memory_project_ports i st"
    if "rotate_key memory_project_ports k d t st = (Inl failed, st')" for failed k d
    using wf that by (auto simp: memory_project_ports_def memory_rotate_def memory_issue_def Let_def
        ok_def err_def split: option.splits if_splits)
  show "memory_projects_wf st' \<and> find_project_row memory_project_ports i st' = find_project_row memory_project_ports i st \<and>
      (\<exists>old \<in> snd ` set (mp_keys st). cred_id old = k \<and>
         (\<exists>e. cred_expires_at (rc_retiring rc) = Some e \<and> e \<le> instant_plus t d) \<and>
         cred_id (rc_retiring rc) = k \<and> cred_kind (ic_credential (rc_issued rc)) = cred_kind old \<and>
         cs_project (ic_credential (rc_issued rc)) = cs_project old \<and>
         is_usable (ic_credential (rc_issued rc)) t \<and>
         snd ` set (mp_keys st') = insert (ic_credential (rc_issued rc)) (insert (rc_retiring rc) (snd ` set (mp_keys st) - {old})))"
    if "rotate_key memory_project_ports k d t st = (Inr rc, st')" for rc k d
    using memory_rotate_done [OF wf, of k d t rc st'] that
    by (simp add: memory_project_ports_def)
  show "memory_projects_wf st' \<and> find_project_row memory_project_ports i st' = find_project_row memory_project_ports i st \<and>
      snd ` set (mp_keys st') = (\<lambda>c. if cs_project c = Some j then c\<lparr>cs_workspace := w\<rparr> else c) ` snd ` set (mp_keys st)"
    if "reassign_keys memory_project_ports j w st = (n, st')" for n w
    using memory_reassigned [OF wf] that by (simp add: memory_project_ports_def)
qed

section \<open>Properties\<close>


definition empty_projects :: memory_projects where
  "empty_projects = \<lparr> mp_rows = [], mp_saved = [], mp_outbox = [], mp_ids = 0, mp_keys = [], mp_counter = 0,
     mp_fail = None, mp_instead = None \<rparr>"

lemma empty_projects_wf: "memory_projects_wf empty_projects"
  by (simp add: memory_projects_wf_def empty_projects_def)


text \<open>
  C4. Provisioning is all or nothing, over two stores with no transaction between them: it ends
  with the row and a key that can send events at every later instant, or with no row for the new id and no usable
  key that was not there before; and no other project's row is touched.
\<close>

theorem provisioning_is_all_or_nothing:
  assumes "credential_stores ports valid keys" and "valid st" and "find_project_row ports i st = None"
    and "provision_project ports w name a held n (Some i) draws t later st = (st', res)"
  shows "(\<forall>j. j \<noteq> i \<longrightarrow> find_project_row ports j st' = find_project_row ports j st) \<and>
    (case res of
       Inr pp \<Rightarrow> find_project_row ports i st' = Some (pp_project pp) \<and> project_workspace (pp_project pp) = Some w \<and>
         set (cs_permissions (ic_credential (pp_credential pp))) \<subseteq> set held \<inter> {EventsWrite} \<and>
         (\<forall>u. can_ingest (list_keys ports (ProjectKeys i) st') u)
     | Inl _ \<Rightarrow> find_project_row ports i st' = None \<and> (\<forall>c u. c \<in> keys st' \<longrightarrow> is_usable c u \<longrightarrow> c \<in> keys st))"
  using credential_stores.provision_result [OF assms(1,2,3,4)]
  unfolding credential_stores.no_new_key_def [OF assms(1)] by blast

theorem provisioning_is_all_or_nothing_witness:
  "let st = empty_projects\<lparr>mp_instead := Some [WorkspaceAdmin]\<rparr>;
       st' = fst (provision_project memory_project_ports ''w'' '''' ''u'' [EventsWrite] None (Some ''p'') (0, 0) 1 2 st)
   in find_project_row memory_project_ports ''p'' st' = None \<and>
      length (mp_keys st') = 1 \<and> (\<forall>c \<in> snd ` set (mp_keys st'). \<not> is_usable c 3)"
proof -
  let ?st = "empty_projects\<lparr>mp_instead := Some [WorkspaceAdmin]\<rparr>"
  let ?run = "provision_project memory_project_ports ''w'' '''' ''u'' [EventsWrite] None (Some ''p'') (0, 0) 1 2 ?st"
  have h: "memory_projects_wf ?st" "find_project_row memory_project_ports ''p'' ?st = None"
    by (simp_all add: memory_projects_wf_def empty_projects_def memory_project_ports_def)
  have v: "length (mp_keys (fst ?run)) = 1" "snd ?run = Inl (OfProject (PermissionEscalation [WorkspaceAdmin] [EventsWrite]))"
    by code_simp+
  have "?run = (fst ?run, Inl (OfProject (PermissionEscalation [WorkspaceAdmin] [EventsWrite])))"
    using v(2) by (metis prod.collapse)
  note f = provisioning_is_all_or_nothing [OF mem_projects.credential_stores_axioms h this]
  then have "find_project_row memory_project_ports ''p'' (fst ?run) = None"
    "\<forall>c u. c \<in> snd ` set (mp_keys (fst ?run)) \<longrightarrow> is_usable c u \<longrightarrow> c \<in> snd ` set (mp_keys ?st)" by simp_all
  then show ?thesis using v(1) unfolding Let_def by (auto simp: empty_projects_def)
qed

text \<open>
  C23. Deleting a project leaves no live key to it: the row is gone, every credential placed on it is
  unusable at every instant, whatever the state it was in, and no other project's row or credential
  is touched.
\<close>

theorem deletion_leaves_no_live_key:
  assumes "credential_stores ports valid keys" and "valid st" and "find_project_row ports i st = Some p"
    and "delete_project ports i t st = (st', res)"
  shows "res = Inr () \<and> (\<forall>c \<in> set (list_keys ports (ProjectKeys i) st'). \<forall>u. \<not> is_usable c u) \<and>
    (\<forall>c. c \<in> keys st \<and> cs_project c \<noteq> Some i \<longrightarrow> c \<in> keys st') \<and>
    (\<forall>j. find_project_row ports j st' = (if j = i then None else find_project_row ports j st))"
proof -
  note d = credential_stores.delete_result [OF assms]
  then show ?thesis using credential_stores.listed [OF assms(1), of st' "ProjectKeys i"] by simp
qed

definition two_projects :: memory_projects where
  "two_projects = fold (exec_projects memory_project_ports)
     [Provisioned ''w'' ''Site'' ''u'' [EventsWrite] None (Some ''p'') (0, 0) 1 2,
      Provisioned ''w'' ''Shop'' ''u'' [EventsWrite] None (Some ''q'') (0, 0) 1 2] empty_projects"

lemma two_projects_wf: "memory_projects_wf two_projects"
  unfolding two_projects_def using mem_projects.calls_bounded [OF empty_projects_wf] by blast

theorem deletion_leaves_no_live_key_witness:
  "let st' = fst (delete_project memory_project_ports ''p'' 5 two_projects)
   in find_project_row memory_project_ports ''p'' st' = None \<and> length (mp_keys st') = 2 \<and>
      (\<forall>c \<in> set (list_keys memory_project_ports (ProjectKeys ''p'') st'). \<not> is_usable c 6)"
proof -
  obtain p where p: "find_project_row memory_project_ports ''p'' two_projects = Some p"
    by (cases "find_project_row memory_project_ports ''p'' two_projects") (code_simp, simp)
  obtain st' res where r: "delete_project memory_project_ports ''p'' 5 two_projects = (st', res)" by fastforce
  have "length (mp_keys (fst (delete_project memory_project_ports ''p'' 5 two_projects))) = 2" by code_simp
  then show ?thesis
    using deletion_leaves_no_live_key [OF mem_projects.credential_stores_axioms two_projects_wf p r] r
    unfolding Let_def by simp
qed

text \<open>
  C24. Repair settles: when it reports anything but a project that cannot be repaired, the project can
  send events, the key it added has a name no other key of the project ever had and no permission
  its issuer lacks, and repairing again at that instant finds nothing to do and changes nothing.
\<close>

theorem repair_settles:
  assumes "credential_stores ports valid keys" and "valid st"
    and "repair_project_credential ports i a held n t st = (st', Inr outcome)" and "outcome \<noteq> RepairLapsed"
  shows "can_ingest (list_keys ports (ProjectKeys i) st') t \<and>
    repair_project_credential ports i b held' n' t st' = (st', Inr AlreadyProvisioned) \<and>
    (outcome = AlreadyProvisioned \<longrightarrow> st' = st) \<and>
    (\<forall>ic. outcome = Repaired ic \<longrightarrow> set (cs_permissions (ic_credential ic)) \<subseteq> set held \<inter> {EventsWrite} \<and>
       cred_name (ic_credential ic) \<notin> cred_name ` set (list_keys ports (ProjectKeys i) st))"
proof -
  note r = credential_stores.repair_result [OF assms]
  obtain p where "find_project_row ports i st = Some p" "\<not> prj_archived p" "admits_events t p"
    using assms(3,4) by (auto simp: repair_project_credential_def refused_def ok_def err_def split: option.splits if_splits)
  then show ?thesis using r credential_stores.repair_again [OF assms(1)] by auto
qed

text \<open>A project whose only key is revoked behind the guard's back.\<close>

definition silenced :: memory_projects where
  "silenced = snd (revoke_key memory_project_ports ''cred_1'' 5 two_projects)"

theorem repair_settles_witness:
  "\<exists>st' ic. repair_project_credential memory_project_ports ''p'' ''u'' [EventsWrite] None 6 silenced = (st', Inr (Repaired ic)) \<and>
     cred_name (ic_credential ic) = ''default-2'' \<and> can_ingest (list_keys memory_project_ports (ProjectKeys ''p'') st') 6"
proof -
  let ?run = "repair_project_credential memory_project_ports ''p'' ''u'' [EventsWrite] None 6 silenced"
  have wf: "memory_projects_wf silenced"
    unfolding silenced_def using mem_projects.revoke_frame(1) [OF two_projects_wf] .
  have "case snd ?run of Inr (Repaired ic) \<Rightarrow> cred_name (ic_credential ic) = ''default-2'' | _ \<Rightarrow> False" by code_simp
  then obtain ic where ic: "snd ?run = Inr (Repaired ic)" "cred_name (ic_credential ic) = ''default-2''"
    by (auto split: sum.splits credential_repair.splits)
  then have run: "?run = (fst ?run, Inr (Repaired ic))" by (metis prod.collapse)
  from repair_settles [OF mem_projects.credential_stores_axioms wf run] ic run show ?thesis by blast
qed

text \<open>
  C30. Rotation leaves no gap and no permanent second key: the replacement is usable at once on the same project, a
  project that could send events still can, and the outgoing key ends by the end of an overlap that is never
  negative nor longer than the longest one, whatever was asked for.
\<close>

theorem rotation_leaves_no_gap:
  assumes "credential_stores ports valid keys" and "valid st"
    and "rotate_credential ports i target held expected overlap t st = (st', Inr out)"
  shows "ic_credential (ro_issued out) \<in> set (list_keys ports (ProjectKeys i) st') \<and>
    is_usable (ic_credential (ro_issued out)) t \<and>
    t \<le> ro_grace_ends_at out \<and> ro_grace_ends_at out \<le> instant_plus t MAX_ROTATION_OVERLAP \<and>
    (\<exists>e. cred_expires_at (ro_retiring out) = Some e \<and> e \<le> ro_grace_ends_at out) \<and>
    (can_ingest (list_keys ports (ProjectKeys i) st) t \<longrightarrow> can_ingest (list_keys ports (ProjectKeys i) st') t)"
proof -
  have "0 \<le> resolve_overlap overlap" "resolve_overlap overlap \<le> MAX_ROTATION_OVERLAP"
    by (auto simp: resolve_overlap_def DEFAULT_ROTATION_OVERLAP_def MAX_ROTATION_OVERLAP_def time_defs split: option.splits)
  then show ?thesis
    using credential_stores.rotate_result [OF assms] by (auto simp: Let_def time_defs)
qed

theorem rotation_leaves_no_gap_witness:
  "\<exists>st' out. rotate_credential memory_project_ports ''p'' ''cred_1'' [EventsWrite] None (Some (duration_days 90)) 5 two_projects =
       (st', Inr out) \<and>
     ro_grace_ends_at out \<le> instant_plus 5 (duration_days 7) \<and> is_usable (ic_credential (ro_issued out)) 5"
proof -
  let ?run = "rotate_credential memory_project_ports ''p'' ''cred_1'' [EventsWrite] None (Some (duration_days 90)) 5 two_projects"
  have "case snd ?run of Inr out \<Rightarrow> True | _ \<Rightarrow> False" by code_simp
  then obtain out where "snd ?run = Inr out" by (auto split: sum.splits)
  then have run: "?run = (fst ?run, Inr out)" by (metis prod.collapse)
  from rotation_leaves_no_gap [OF mem_projects.credential_stores_axioms two_projects_wf run] run
  show ?thesis unfolding MAX_ROTATION_OVERLAP_def by blast
qed

end
