(* ===== verification/TenancyUse.thy ===== *)
theory TenancyUse
  imports Tenancy
begin

text \<open>
  The tenancy use cases, packages/tenancy/app/src: seats and the usage readout
  (entitlements.ts), plan changes (change-plan.ts), the project cap (project-cap.ts), opening a
  workspace (provision-workspace.ts) and the payment webhook (record-billing-event.ts). The ports
  of packages/tenancy/ports/src are a record of operations on a state of their own; the locale
  \<open>tenancy_stores\<close> states what the use cases rely on, and is interpreted on the in-memory ports
  of testing.ts. Saving a subscription may be refused: the promise rejects, and the transaction
  around the use case is rolled back, which is \<open>None\<close>.
\<close>

section \<open>The ports\<close>

record hosted_session =
  session_url :: string
  session_expires :: "instant option"

datatype cadence = Monthly | Annual

record checkout_request =
  co_workspace :: workspace_id
  co_plan :: plan_id
  co_cadence :: cadence
  co_customer :: "string option"
  co_success :: string
  co_cancel :: string

record portal_request =
  po_customer :: string
  po_return :: string

record verified_webhook =
  vw_id :: string
  vw_type :: string
  vw_workspace :: "workspace_id option"
  vw_event :: "billing_event option"

datatype webhook_rejection = WebhookBadSignature | WebhookStale int | WebhookMalformed string

record 'st tenancy_ports =
  find_workspace :: "workspace_id \<Rightarrow> 'st \<Rightarrow> workspace option"
  save_workspace :: "workspace \<Rightarrow> workspace_event list \<Rightarrow> 'st \<Rightarrow> 'st"
  find_subscription :: "workspace_id \<Rightarrow> 'st \<Rightarrow> subscription option"
  find_by_customer :: "string \<Rightarrow> 'st \<Rightarrow> subscription option"
  find_by_ref :: "string \<Rightarrow> 'st \<Rightarrow> subscription option"
  save_subscription :: "subscription \<Rightarrow> 'st \<Rightarrow> 'st option"
  claim_delivery :: "string \<Rightarrow> 'st \<Rightarrow> bool \<times> 'st"
  mark_processed :: "string \<Rightarrow> 'st \<Rightarrow> 'st"
  members_of :: "workspace_id \<Rightarrow> 'st \<Rightarrow> account_id list"

section \<open>Seats and usage\<close>

definition check_seat_allowance ::
  "'st tenancy_ports \<Rightarrow> workspace_id \<Rightarrow> 'st \<Rightarrow> workspace_error + (int \<times> int option)" where
  "check_seat_allowance ports w st =
     (case find_workspace ports w st of
        None \<Rightarrow> err (NoSuchWorkspace w)
      | Some found \<Rightarrow> may_admit_seat (int (length (members_of ports w st))) found)"

definition read_workspace_usage ::
  "'st tenancy_ports \<Rightarrow> workspace_id \<Rightarrow> int \<Rightarrow> 'st \<Rightarrow> workspace_error + workspace_usage" where
  "read_workspace_usage ports w events st =
     (case find_workspace ports w st of
        None \<Rightarrow> err (NoSuchWorkspace w)
      | Some found \<Rightarrow>
          ok (workspace_usage_of found
                \<lparr> measured_events = events, measured_seats = int (length (members_of ports w st)) \<rparr>))"

section \<open>Changing plan\<close>

datatype billing_error =
    PlanUnavailable string
  | NoSubscription workspace_id
  | ProviderUnavailable string
  | BadSignature
  | Stale int
  | Malformed string

record change_plan_command =
  cp_workspace :: workspace_id
  cp_plan :: string
  cp_cadence :: cadence
  cp_success :: string
  cp_cancel :: string
  cp_return :: string

text \<open>A gateway call answers a session or throws with a message.\<close>

definition attempt :: "string + hosted_session \<Rightarrow> billing_error + hosted_session" where
  "attempt call = result_map_err call ProviderUnavailable"

definition plan_of_string :: "string \<Rightarrow> plan_id" where
  "plan_of_string raw = (if raw = plan_string Pro then Pro else Free)"

definition change_plan ::
  "'st tenancy_ports \<Rightarrow> (portal_request \<Rightarrow> string + hosted_session) \<Rightarrow>
   (checkout_request \<Rightarrow> string + hosted_session) \<Rightarrow> change_plan_command \<Rightarrow> 'st \<Rightarrow>
   billing_error + hosted_session" where
  "change_plan ports portal checkout command st =
     (if \<not> is_plan_id (cp_plan command) then err (PlanUnavailable (cp_plan command))
      else
        (let target = plan_of_string (cp_plan command)
         in case find_subscription ports (cp_workspace command) st of
              None \<Rightarrow> err (NoSubscription (cp_workspace command))
            | Some s \<Rightarrow>
                (let entitled = ent_plan (entitlement_of s);
                     wants_portal = (\<not> plan_is_paid target \<or> target = entitled)
                 in if wants_portal
                    then (case sub_customer s of
                            None \<Rightarrow> err (NoSubscription (cp_workspace command))
                          | Some customer \<Rightarrow>
                              attempt (portal \<lparr> po_customer = customer, po_return = cp_return command \<rparr>))
                    else attempt (checkout
                           \<lparr> co_workspace = cp_workspace command, co_plan = target,
                             co_cadence = cp_cadence command, co_customer = sub_customer s,
                             co_success = cp_success command, co_cancel = cp_cancel command \<rparr>))))"

section \<open>The project cap\<close>

definition mutate_workspace ::
  "'st tenancy_ports \<Rightarrow> workspace_id \<Rightarrow> (workspace \<Rightarrow> workspace_error + workspace_applied) \<Rightarrow>
   'st \<Rightarrow> 'st \<times> (workspace_error + workspace)" where
  "mutate_workspace ports w command st =
     (case find_workspace ports w st of
        None \<Rightarrow> (st, err (NoSuchWorkspace w))
      | Some found \<Rightarrow>
          (case command found of
             Inl e \<Rightarrow> (st, Inl e)
           | Inr (applied, es) \<Rightarrow> (save_workspace ports applied es st, ok applied)))"

definition reserve_project_slot where
  "reserve_project_slot ports w project name t = mutate_workspace ports w (register_project project name t)"

definition release_project_slot where
  "release_project_slot ports w project t = mutate_workspace ports w (archive_project project t)"

definition restore_project_slot where
  "restore_project_slot ports w project t = mutate_workspace ports w (restore_project project t)"

definition drop_project_slot where
  "drop_project_slot ports w project t = mutate_workspace ports w (deregister_project project t)"

lemmas slot_defs =
  reserve_project_slot_def release_project_slot_def restore_project_slot_def drop_project_slot_def

section \<open>Opening a workspace\<close>

definition provision_workspace ::
  "'st tenancy_ports \<Rightarrow> workspace_id \<Rightarrow> string \<Rightarrow> account_id \<Rightarrow> instant \<Rightarrow> 'st \<Rightarrow>
   ('st \<times> (workspace_error + workspace \<times> subscription)) option" where
  "provision_workspace ports w name founder t st =
     (case workspace_open w name founder t of
        Inl e \<Rightarrow> Some (st, Inl e)
      | Inr (opened, es) \<Rightarrow>
          (let s = subscription_none w t
           in case save_subscription ports s (save_workspace ports opened es st) of
                None \<Rightarrow> None
              | Some st' \<Rightarrow> Some (st', ok (opened, s))))"

section \<open>The payment webhook\<close>

datatype ignored_reason = NotActionable | UnknownWorkspace

datatype billing_outcome =
    Applied transition
  | Duplicate string
  | Ignored ignored_reason string

fun from_webhook_rejection :: "webhook_rejection \<Rightarrow> billing_error" where
  "from_webhook_rejection WebhookBadSignature = BadSignature"
| "from_webhook_rejection (WebhookStale age) = Stale age"
| "from_webhook_rejection (WebhookMalformed detail) = Malformed detail"

fun event_subscription :: "billing_event \<Rightarrow> string" where
  "event_subscription (CheckoutCompleted _ _ ref _) = ref"
| "event_subscription (SubscriptionUpdated _ ref _ _) = ref"
| "event_subscription (PaymentFailed ref) = ref"
| "event_subscription (PaymentRecovered ref) = ref"
| "event_subscription (SubscriptionCanceled ref) = ref"

fun checkout_customer :: "billing_event \<Rightarrow> string option" where
  "checkout_customer (CheckoutCompleted _ customer _ _) = Some customer"
| "checkout_customer _ = None"

definition locate_subscription ::
  "'st tenancy_ports \<Rightarrow> verified_webhook \<Rightarrow> billing_event \<Rightarrow> instant \<Rightarrow> 'st \<Rightarrow> subscription option" where
  "locate_subscription ports verified event t st =
     (case find_by_ref ports (event_subscription event) st of
        Some s \<Rightarrow> Some s
      | None \<Rightarrow>
     (case (case checkout_customer event of None \<Rightarrow> None | Some c \<Rightarrow> find_by_customer ports c st) of
        Some s \<Rightarrow> Some s
      | None \<Rightarrow>
     (case vw_workspace verified of
        None \<Rightarrow> None
      | Some w \<Rightarrow>
          (case find_subscription ports w st of
             Some s \<Rightarrow> Some s
           | None \<Rightarrow> Some (subscription_none w t)))))"

definition acknowledge ::
  "'st tenancy_ports \<Rightarrow> verified_webhook \<Rightarrow> ignored_reason \<Rightarrow> 'st \<Rightarrow>
   ('st \<times> (billing_error + billing_outcome)) option" where
  "acknowledge ports verified reason st =
     Some (mark_processed ports (vw_id verified) st, ok (Ignored reason (vw_id verified)))"

definition record_billing_event ::
  "'st tenancy_ports \<Rightarrow> webhook_rejection + verified_webhook \<Rightarrow> instant \<Rightarrow> 'st \<Rightarrow>
   ('st \<times> (billing_error + billing_outcome)) option" where
  "record_billing_event ports verification t st =
     (case verification of
        Inl rejection \<Rightarrow> Some (st, err (from_webhook_rejection rejection))
      | Inr verified \<Rightarrow>
     (case claim_delivery ports (vw_id verified) st of
        (False, st) \<Rightarrow> Some (st, ok (Duplicate (vw_id verified)))
      | (True, st) \<Rightarrow>
     (case vw_event verified of
        None \<Rightarrow> acknowledge ports verified NotActionable st
      | Some event \<Rightarrow>
     (case locate_subscription ports verified event t st of
        None \<Rightarrow> acknowledge ports verified UnknownWorkspace st
      | Some current \<Rightarrow>
     (case find_workspace ports (sub_workspace current) st of
        None \<Rightarrow> acknowledge ports verified UnknownWorkspace st
      | Some found \<Rightarrow>
          (let transition = apply_billing_event current event t
           in case save_subscription ports (next_subscription transition) st of
                None \<Rightarrow> None
              | Some st \<Rightarrow>
                  (let seats = int (length (members_of ports (ws_id found) st));
                       (applied, es) = apply_standing (standing_of (next_subscription transition)) seats t found;
                       st = save_workspace ports applied es st
                   in Some (mark_processed ports (vw_id verified) st, ok (Applied transition)))))))))"

section \<open>The in-memory ports\<close>

text \<open>
  testing.ts: two \<open>Map\<close>s, the outbox, the claimed and processed deliveries, and the members. A
  save of a subscription whose customer or reference another workspace holds throws.
\<close>

record memory_tenancy =
  mt_workspaces :: "(workspace_id \<times> workspace) list"
  mt_events :: "workspace_event list"
  mt_subscriptions :: "(workspace_id \<times> subscription) list"
  mt_claimed :: "string list"
  mt_processed :: "string list"
  mt_members :: "(workspace_id \<times> account_id list) list"

definition holds :: "'r option \<Rightarrow> 'r option \<Rightarrow> bool" where
  "holds mine theirs = (mine \<noteq> None \<and> theirs = mine)"

definition clashes :: "subscription \<Rightarrow> subscription \<Rightarrow> bool" where
  "clashes s existing =
     (sub_workspace existing \<noteq> sub_workspace s \<and>
      (holds (sub_customer s) (sub_customer existing) \<or> holds (sub_ref s) (sub_ref existing)))"

definition memory_ports :: "memory_tenancy tenancy_ports" where
  "memory_ports =
     \<lparr> find_workspace = (\<lambda>w st. map_of (mt_workspaces st) w),
       save_workspace = (\<lambda>w es st. st\<lparr>mt_workspaces := map_put (ws_id w) w (mt_workspaces st),
                                        mt_events := mt_events st @ es\<rparr>),
       find_subscription = (\<lambda>w st. map_of (mt_subscriptions st) w),
       find_by_customer = (\<lambda>c st. find (\<lambda>s. sub_customer s = Some c) (map snd (mt_subscriptions st))),
       find_by_ref = (\<lambda>r st. find (\<lambda>s. sub_ref s = Some r) (map snd (mt_subscriptions st))),
       save_subscription = (\<lambda>s st.
         if list_ex (clashes s) (map snd (mt_subscriptions st)) then None
         else Some (st\<lparr>mt_subscriptions := map_put (sub_workspace s) s (mt_subscriptions st)\<rparr>)),
       claim_delivery = (\<lambda>i st. if i \<in> set (mt_claimed st) then (False, st)
                                else (True, st\<lparr>mt_claimed := i # mt_claimed st\<rparr>)),
       mark_processed = (\<lambda>i st. st\<lparr>mt_processed := mt_processed st @ [i]\<rparr>),
       members_of = (\<lambda>w st. case map_of (mt_members st) w of None \<Rightarrow> [] | Some ms \<Rightarrow> ms) \<rparr>"

definition memory_tenancy_wf :: "memory_tenancy \<Rightarrow> bool" where
  "memory_tenancy_wf st \<longleftrightarrow>
     distinct (map fst (mt_workspaces st)) \<and> list_all (\<lambda>(k, w). k = ws_id w) (mt_workspaces st) \<and>
     distinct (map fst (mt_subscriptions st)) \<and> list_all (\<lambda>(k, s). k = sub_workspace s) (mt_subscriptions st)"

section \<open>What the use cases rely on\<close>

text \<open>
  Rows are read back as saved and under their own id, the two stores do not disturb each other,
  a lookup by a provider reference answers a stored row that carries it or none does, and a
  delivery is claimed once. \<open>claimed\<close> is the set of deliveries a state remembers.
\<close>

locale tenancy_stores =
  fixes ports :: "'st tenancy_ports" and valid :: "'st \<Rightarrow> bool" and claimed :: "'st \<Rightarrow> string set"
  assumes save_ws_valid: "valid st \<Longrightarrow> valid (save_workspace ports w es st)"
    and save_sub_valid: "valid st \<Longrightarrow> save_subscription ports s st = Some st' \<Longrightarrow> valid st'"
    and claim_valid: "valid st \<Longrightarrow> valid (snd (claim_delivery ports i st))"
    and mark_valid: "valid st \<Longrightarrow> valid (mark_processed ports i st)"
    and find_saved_ws: "valid st \<Longrightarrow>
          find_workspace ports i (save_workspace ports w es st) =
            (if i = ws_id w then Some w else find_workspace ports i st)"
    and find_sub_ws: "valid st \<Longrightarrow>
          find_subscription ports i (save_workspace ports w es st) = find_subscription ports i st"
    and find_ws_sub: "valid st \<Longrightarrow> save_subscription ports s st = Some st' \<Longrightarrow>
          find_workspace ports i st' = find_workspace ports i st"
    and find_saved_sub: "valid st \<Longrightarrow> save_subscription ports s st = Some st' \<Longrightarrow>
          find_subscription ports i st' =
            (if i = sub_workspace s then Some s else find_subscription ports i st)"
    and find_claim: "valid st \<Longrightarrow>
          find_workspace ports i (snd (claim_delivery ports d st)) = find_workspace ports i st \<and>
          find_subscription ports i (snd (claim_delivery ports d st)) = find_subscription ports i st"
    and find_mark: "valid st \<Longrightarrow>
          find_workspace ports i (mark_processed ports d st) = find_workspace ports i st \<and>
          find_subscription ports i (mark_processed ports d st) = find_subscription ports i st"
    and ws_ident: "valid st \<Longrightarrow> find_workspace ports i st = Some w \<Longrightarrow> ws_id w = i"
    and sub_ident: "valid st \<Longrightarrow> find_subscription ports i st = Some s \<Longrightarrow> sub_workspace s = i"
    and by_customer: "valid st \<Longrightarrow> find_by_customer ports c st = Some s \<Longrightarrow>
          find_subscription ports (sub_workspace s) st = Some s \<and> sub_customer s = Some c"
    and by_ref: "valid st \<Longrightarrow> find_by_ref ports r st = Some s \<Longrightarrow>
          find_subscription ports (sub_workspace s) st = Some s \<and> sub_ref s = Some r"
    and by_customer_None: "valid st \<Longrightarrow> find_by_customer ports c st = None \<Longrightarrow>
          find_subscription ports i st = Some s \<Longrightarrow> sub_customer s \<noteq> Some c"
    and by_ref_None: "valid st \<Longrightarrow> find_by_ref ports r st = None \<Longrightarrow>
          find_subscription ports i st = Some s \<Longrightarrow> sub_ref s \<noteq> Some r"
    and save_sub_accepts: "valid st \<Longrightarrow>
          (\<And>i s'. find_subscription ports i st = Some s' \<Longrightarrow> \<not> clashes s s') \<Longrightarrow>
          \<exists>st'. save_subscription ports s st = Some st'"
    and claim_once: "valid st \<Longrightarrow> fst (claim_delivery ports d st) \<longleftrightarrow> d \<notin> claimed st"
    and claim_again: "valid st \<Longrightarrow> d \<in> claimed st \<Longrightarrow> snd (claim_delivery ports d st) = st"
    and claimed_claim: "valid st \<Longrightarrow> claimed (snd (claim_delivery ports d st)) = insert d (claimed st)"
    and claimed_save_ws: "valid st \<Longrightarrow> claimed (save_workspace ports w es st) = claimed st"
    and claimed_save_sub: "valid st \<Longrightarrow> save_subscription ports s st = Some st' \<Longrightarrow> claimed st' = claimed st"
    and claimed_mark: "valid st \<Longrightarrow> claimed (mark_processed ports d st) = claimed st"

text \<open>
  A workspace stands as its subscription says, and as a free one while it has none. A subscription
  without a workspace is possible: the webhook never creates one, but opening a workspace is
  atomic only within the caller's transaction.
\<close>

definition in_step :: "'st tenancy_ports \<Rightarrow> 'st \<Rightarrow> workspace_id \<Rightarrow> bool" where
  "in_step ports st i =
     (case find_workspace ports i st of
        None \<Rightarrow> True
      | Some w \<Rightarrow>
          workspace_wf w \<and>
          (case find_subscription ports i st of
             None \<Rightarrow> ws_plan w = Free \<and> ws_payment w = NoPayment
           | Some s \<Rightarrow> ws_plan w = sub_plan s \<and> ws_payment w = sub_payment s))"

datatype tenancy_call =
    ProvisionCall workspace_id string account_id instant
  | ReserveCall workspace_id project_id string instant
  | ReleaseCall workspace_id project_id instant
  | RestoreCall workspace_id project_id instant
  | DropCall workspace_id project_id instant
  | WebhookCall "webhook_rejection + verified_webhook" instant

text \<open>The state after a call; a rejected transaction is rolled back.\<close>

fun exec_tenancy :: "'st tenancy_ports \<Rightarrow> tenancy_call \<Rightarrow> 'st \<Rightarrow> 'st" where
  "exec_tenancy ports (ProvisionCall w name founder t) st =
     (case provision_workspace ports w name founder t st of None \<Rightarrow> st | Some (st', _) \<Rightarrow> st')"
| "exec_tenancy ports (ReserveCall w p name t) st = fst (reserve_project_slot ports w p name t st)"
| "exec_tenancy ports (ReleaseCall w p t) st = fst (release_project_slot ports w p t st)"
| "exec_tenancy ports (RestoreCall w p t) st = fst (restore_project_slot ports w p t st)"
| "exec_tenancy ports (DropCall w p t) st = fst (drop_project_slot ports w p t st)"
| "exec_tenancy ports (WebhookCall v t) st =
     (case record_billing_event ports v t st of None \<Rightarrow> st | Some (st', _) \<Rightarrow> st')"

section \<open>Facts\<close>

lemma in_step_cong:
  "find_workspace ports i st' = find_workspace ports i st \<Longrightarrow>
   find_subscription ports i st' = find_subscription ports i st \<Longrightarrow> in_step ports st' i = in_step ports st i"
  by (simp only: in_step_def)

lemma next_subscription_workspace [simp]: "sub_workspace (next_subscription_of s e t) = sub_workspace s"
  by (cases e) simp_all

lemma slot_calls:
  "reserve_project_slot ports w p name t = mutate_workspace ports w (exec_project_command (CmdRegister p name t))"
  "release_project_slot ports w p t = mutate_workspace ports w (exec_project_command (CmdArchive p t))"
  "restore_project_slot ports w p t = mutate_workspace ports w (exec_project_command (CmdRestore p t))"
  "drop_project_slot ports w p t = mutate_workspace ports w (exec_project_command (CmdDeregister p t))"
  unfolding slot_defs by (rule arg_cong [where f = "mutate_workspace ports w"], rule ext, simp)+

lemma opened_workspace:
  "workspace_open i name founder t = Inr (w, es) \<Longrightarrow>
     ws_id w = i \<and> workspace_wf w \<and> ws_plan w = Free \<and> ws_payment w = NoPayment"
  by (auto simp: workspace_open_def Let_def ok_def err_def workspace_wf_def named_trim split: if_splits)

lemma apply_standing_result:
  assumes "apply_standing standing seats t w = (v, es)"
  shows "ws_id v = ws_id w \<and> ws_plan v = standing_plan standing \<and> ws_payment v = standing_payment standing \<and>
    (workspace_wf w \<longrightarrow> workspace_wf v)"
  using apply_standing_fst [of standing seats t w] assms by (simp add: workspace_wf_def)

context tenancy_stores
begin

text \<open>What every call keeps: validity, step, and the memory of deliveries.\<close>

definition sound_after :: "'st \<Rightarrow> 'st \<Rightarrow> bool" where
  "sound_after st st' \<longleftrightarrow>
     valid st' \<and> claimed st \<subseteq> claimed st' \<and>
     ((\<forall>i. in_step ports st i) \<longrightarrow> (\<forall>i. in_step ports st' i))"

lemma sound_after_refl: "valid st \<Longrightarrow> sound_after st st"
  by (simp add: sound_after_def)

lemma sound_after_trans: "sound_after st st' \<Longrightarrow> sound_after st' st'' \<Longrightarrow> sound_after st st''"
  by (auto simp: sound_after_def)

lemma mark_sound: "valid st \<Longrightarrow> sound_after st (mark_processed ports d st)"
  using in_step_cong [of ports _ "mark_processed ports d st" st] find_mark [of st]
  by (simp add: sound_after_def mark_valid claimed_mark)

lemma claim_sound: "valid st \<Longrightarrow> sound_after st (snd (claim_delivery ports d st))"
  using in_step_cong [of ports _ "snd (claim_delivery ports d st)" st] find_claim [of st]
  by (auto simp: sound_after_def claim_valid claimed_claim)

lemma mutate_sound:
  assumes "valid st"
  shows "sound_after st (fst (mutate_workspace ports i (exec_project_command c) st))"
proof (cases "find_workspace ports i st")
  case (Some w)
  show ?thesis
  proof (cases "exec_project_command c w")
    case (Inr r)
    obtain w' es where r: "r = (w', es)" by fastforce
    note keeps = project_command_keeps [OF Inr [unfolded r]]
    have id: "ws_id w' = i" using keeps ws_ident [OF assms Some] by simp
    have "in_step ports (save_workspace ports w' es st) j" if "in_step ports st i" "in_step ports st j" for j
      using that Some keeps id exec_project_wf [OF _ Inr [unfolded r]]
      by (auto simp: in_step_def find_saved_ws [OF assms] find_sub_ws [OF assms] split: option.splits)
    then show ?thesis
      using Some Inr r assms
      by (simp add: mutate_workspace_def sound_after_def save_ws_valid claimed_save_ws ok_def)
  qed (use Some assms in \<open>simp add: mutate_workspace_def sound_after_refl\<close>)
qed (use assms in \<open>simp add: mutate_workspace_def sound_after_refl\<close>)

lemma provision_sound:
  assumes "valid st" "provision_workspace ports i name founder t st = Some (st', res)"
  shows "sound_after st st'"
proof (cases "workspace_open i name founder t")
  case (Inl e)
  then show ?thesis using assms by (simp add: provision_workspace_def sound_after_refl)
next
  case (Inr r)
  obtain w es where r: "r = (w, es)" by fastforce
  note w = opened_workspace [OF Inr [unfolded r]]
  let ?st = "save_workspace ports w es st"
  have v: "valid ?st" by (rule save_ws_valid [OF assms(1)])
  have save: "save_subscription ports (subscription_none i t) ?st = Some st'"
    using assms(2) Inr r by (auto simp: provision_workspace_def Let_def split: option.splits)
  have "in_step ports st' j" if "in_step ports st j" for j
    using that w
    by (auto simp: in_step_def find_ws_sub [OF v save] find_saved_sub [OF v save] find_saved_ws [OF assms(1)]
        find_sub_ws [OF assms(1)] subscription_none_def split: option.splits)
  then show ?thesis
    using save_sub_valid [OF v save] claimed_save_sub [OF v save] claimed_save_ws [OF assms(1)]
    by (simp add: sound_after_def)
qed

text \<open>Adopting what the provider reported.\<close>

lemma adopt_sound:
  assumes "valid st" "save_subscription ports s st = Some st1" "find_workspace ports (sub_workspace s) st = Some w"
    and "apply_standing (standing_of s) seats t w = (v, es)"
  shows "sound_after st (save_workspace ports v es st1)"
proof -
  note v1 = save_sub_valid [OF assms(1,2)]
  note ap = apply_standing_result [OF assms(4)]
  have id: "ws_id w = sub_workspace s" by (rule ws_ident [OF assms(1,3)])
  have "in_step ports (save_workspace ports v es st1) j"
    if "in_step ports st (sub_workspace s)" "in_step ports st j" for j
    using that ap id assms(3)
    by (auto simp: in_step_def find_saved_ws [OF v1] find_sub_ws [OF v1] find_ws_sub [OF assms(1,2)]
        find_saved_sub [OF assms(1,2)] standing_of_def split: option.splits)
  then show ?thesis
    using save_ws_valid [OF v1] claimed_save_ws [OF v1] claimed_save_sub [OF assms(1,2)]
    by (simp add: sound_after_def)
qed

lemma webhook_sound:
  assumes "valid st" "record_billing_event ports verification t st = Some (st', res)"
  shows "sound_after st st' \<and> (\<forall>x. verification = Inr x \<longrightarrow> vw_id x \<in> claimed st')"
proof (cases verification)
  case (Inl e)
  then show ?thesis using assms by (simp add: record_billing_event_def sound_after_refl)
next
  case (Inr x)
  obtain fresh st1 where c: "claim_delivery ports (vw_id x) st = (fresh, st1)" by fastforce
  have s1: "sound_after st st1" "valid st1" "vw_id x \<in> claimed st1"
    using claim_sound [OF assms(1), of "vw_id x"] claim_valid [OF assms(1), of "vw_id x"]
      claimed_claim [OF assms(1), of "vw_id x"] c by simp_all
  have "sound_after st1 st'"
  proof (cases fresh)
    case False
    then show ?thesis using assms(2) Inr c s1 by (simp add: record_billing_event_def sound_after_refl)
  next
    case True
    show ?thesis
    proof (cases "\<exists>e cur w. vw_event x = Some e \<and> locate_subscription ports x e t st1 = Some cur \<and>
        find_workspace ports (sub_workspace cur) st1 = Some w")
      case False
      then have "st' = mark_processed ports (vw_id x) st1"
        using assms(2) Inr c True
        by (auto simp: record_billing_event_def acknowledge_def split: option.splits)
      then show ?thesis using mark_sound [OF s1(2)] by simp
    next
      case yes: True
      then obtain e cur w where e: "vw_event x = Some e" "locate_subscription ports x e t st1 = Some cur"
        "find_workspace ports (sub_workspace cur) st1 = Some w" by blast
      let ?s = "next_subscription (apply_billing_event cur e t)"
      have ws: "sub_workspace ?s = sub_workspace cur" by (simp add: apply_billing_event_def Let_def)
      obtain st2 where st2: "save_subscription ports ?s st1 = Some st2"
        using assms(2) Inr c True e by (auto simp: record_billing_event_def Let_def split: option.splits)
      obtain v es where v: "apply_standing (standing_of ?s) (int (length (members_of ports (ws_id w) st2))) t w = (v, es)"
        by fastforce
      have st': "st' = mark_processed ports (vw_id x) (save_workspace ports v es st2)"
        using assms(2) Inr c True e st2 v by (auto simp: record_billing_event_def Let_def)
      have "sound_after st1 (save_workspace ports v es st2)"
        by (rule adopt_sound [OF s1(2) st2 _ v]) (simp add: ws e(3))
      then show ?thesis
        unfolding st' using sound_after_trans mark_sound by (metis sound_after_def)
    qed
  qed
  then show ?thesis using s1 sound_after_trans Inr by (auto simp: sound_after_def)
qed

lemma call_sound: "valid st \<Longrightarrow> sound_after st (exec_tenancy ports call st)"
  by (cases call)
    (auto simp: slot_calls mutate_sound sound_after_refl dest: provision_sound webhook_sound split: option.splits)

lemma calls_sound: "valid st \<Longrightarrow> sound_after st (fold (exec_tenancy ports) calls st)"
proof (induction calls arbitrary: st)
  case (Cons c cs)
  have "sound_after st (exec_tenancy ports c st)" by (rule call_sound [OF Cons.prems])
  moreover from this have "sound_after (exec_tenancy ports c st) (fold (exec_tenancy ports) (c # cs) st)"
    using Cons.IH by (simp add: sound_after_def)
  ultimately show ?case by (rule sound_after_trans)
qed (simp add: sound_after_refl)

lemma redelivered:
  assumes "valid st" "vw_id x \<in> claimed st"
  shows "record_billing_event ports (Inr x) t st = Some (st, Inr (Duplicate (vw_id x)))"
proof -
  have "claim_delivery ports (vw_id x) st = (False, st)"
    using claim_once [OF assms(1), of "vw_id x"] claim_again [OF assms] assms(2) by (simp add: prod_eq_iff)
  then show ?thesis by (simp add: record_billing_event_def ok_def)
qed

end

section \<open>The in-memory ports are such stores\<close>

interpretation mem_tenancy: tenancy_stores memory_ports memory_tenancy_wf "\<lambda>st. set (mt_claimed st)"
proof unfold_locales
  fix st st' :: memory_tenancy and s s' :: subscription
  assume wf: "memory_tenancy_wf st"
  show "memory_tenancy_wf (save_workspace memory_ports w es st)" for w es
    using wf by (simp add: memory_ports_def memory_tenancy_wf_def distinct_map_put list_all_map_put)
  show "memory_tenancy_wf (snd (claim_delivery memory_ports i st))" for i
    using wf by (simp add: memory_ports_def memory_tenancy_wf_def)
  show "memory_tenancy_wf (mark_processed memory_ports i st)" for i
    using wf by (simp add: memory_ports_def memory_tenancy_wf_def)
  show "ws_id w = i" if "find_workspace memory_ports i st = Some w" for i w
    using wf that row_key [of ws_id "mt_workspaces st"] by (simp add: memory_ports_def memory_tenancy_wf_def)
  show "sub_workspace s = i" if "find_subscription memory_ports i st = Some s" for i
    using wf that row_key [of sub_workspace "mt_subscriptions st"] by (simp add: memory_ports_def memory_tenancy_wf_def)
  show "find_subscription memory_ports (sub_workspace s) st = Some s \<and> sub_customer s = Some c"
    if "find_by_customer memory_ports c st = Some s" for c
    using wf that find_row [of "mt_subscriptions st" sub_workspace "\<lambda>s. sub_customer s = Some c" s]
    by (simp add: memory_ports_def memory_tenancy_wf_def)
  show "find_subscription memory_ports (sub_workspace s) st = Some s \<and> sub_ref s = Some c"
    if "find_by_ref memory_ports c st = Some s" for c
    using wf that find_row [of "mt_subscriptions st" sub_workspace "\<lambda>s. sub_ref s = Some c" s]
    by (simp add: memory_ports_def memory_tenancy_wf_def)
  show "sub_customer s \<noteq> Some c"
    if "find_by_customer memory_ports c st = None" "find_subscription memory_ports i st = Some s" for c i
    using that find_no_row [of "\<lambda>s. sub_customer s = Some c" "mt_subscriptions st" i s] by (simp add: memory_ports_def)
  show "sub_ref s \<noteq> Some c"
    if "find_by_ref memory_ports c st = None" "find_subscription memory_ports i st = Some s" for c i
    using that find_no_row [of "\<lambda>s. sub_ref s = Some c" "mt_subscriptions st" i s] by (simp add: memory_ports_def)
  show "\<exists>st'. save_subscription memory_ports s st = Some st'"
    if free: "\<And>i s'. find_subscription memory_ports i st = Some s' \<Longrightarrow> \<not> clashes s s'"
  proof -
    have "\<not> clashes s s'" if "s' \<in> snd ` set (mt_subscriptions st)" for s'
    proof -
      obtain k where "(k, s') \<in> set (mt_subscriptions st)" using \<open>s' \<in> snd ` set (mt_subscriptions st)\<close> by auto
      then have "map_of (mt_subscriptions st) k = Some s'" using wf by (simp add: memory_tenancy_wf_def)
      then show ?thesis using free [of k s'] by (simp add: memory_ports_def)
    qed
    then show ?thesis by (auto simp: memory_ports_def list_ex_iff)
  qed
  show "fst (claim_delivery memory_ports d st) \<longleftrightarrow> d \<notin> set (mt_claimed st)" for d
    by (simp add: memory_ports_def)
  show "snd (claim_delivery memory_ports d st) = st" if "d \<in> set (mt_claimed st)" for d
    using that by (simp add: memory_ports_def)
  show "set (mt_claimed (snd (claim_delivery memory_ports d st))) = insert d (set (mt_claimed st))" for d
    by (auto simp: memory_ports_def)
  show "memory_tenancy_wf st'" if "save_subscription memory_ports s st = Some st'"
    using wf that by (auto simp: memory_ports_def memory_tenancy_wf_def distinct_map_put list_all_map_put split: if_splits)
qed (auto simp: memory_ports_def map_of_map_put split: if_splits)

section \<open>Properties\<close>







text \<open>
  A plan change opens at most one kind of session: checkout, for the customer on record, just
  when the plan is a paid one the workspace is not already entitled to, so a subscriber is never
  sent to pay a second time; in every other case the checkout is not consulted. Without a
  subscription row it is an error, and the provider is blamed only when a session call threw.
\<close>

theorem plan_change_never_charges_twice:
  "(\<forall>s. find_subscription ports (cp_workspace c) st = Some s \<longrightarrow>
      (if is_plan_id (cp_plan c) \<and> plan_of_string (cp_plan c) \<notin> {Free, ent_plan (entitlement_of s)}
       then \<exists>req. co_customer req = sub_customer s \<and> co_workspace req = cp_workspace c \<and>
              plan_string (co_plan req) = cp_plan c \<and>
              change_plan ports portal checkout c st = attempt (checkout req)
       else \<forall>checkout'. change_plan ports portal checkout' c st = change_plan ports portal checkout c st)) \<and>
   (find_subscription ports (cp_workspace c) st = None \<longrightarrow>
      change_plan ports portal checkout c st =
        Inl (if is_plan_id (cp_plan c) then NoSubscription (cp_workspace c) else PlanUnavailable (cp_plan c))) \<and>
   (\<forall>d. change_plan ports portal checkout c st = Inl (ProviderUnavailable d) \<longrightarrow>
      (\<exists>r. portal r = Inl d) \<or> (\<exists>r. checkout r = Inl d))"
proof -
  have plan: "plan_string (plan_of_string (cp_plan c)) = cp_plan c" if "is_plan_id (cp_plan c)"
    using that by (auto simp: is_plan_id_def PLAN_IDS_def plan_of_string_def)
  have thrown: "call = Inl d" if "attempt call = Inl (ProviderUnavailable d)" for call d
    using that by (cases call) (simp_all add: attempt_def result_map_err_def err_def)
  show ?thesis
  proof (intro conjI allI impI)
    fix s
    assume s: "find_subscription ports (cp_workspace c) st = Some s"
    let ?req = "\<lparr> co_workspace = cp_workspace c, co_plan = plan_of_string (cp_plan c),
                  co_cadence = cp_cadence c, co_customer = sub_customer s,
                  co_success = cp_success c, co_cancel = cp_cancel c \<rparr>"
    show "if is_plan_id (cp_plan c) \<and> plan_of_string (cp_plan c) \<notin> {Free, ent_plan (entitlement_of s)}
       then \<exists>req. co_customer req = sub_customer s \<and> co_workspace req = cp_workspace c \<and>
              plan_string (co_plan req) = cp_plan c \<and>
              change_plan ports portal checkout c st = attempt (checkout req)
       else \<forall>checkout'. change_plan ports portal checkout' c st = change_plan ports portal checkout c st"
    proof (cases "is_plan_id (cp_plan c) \<and> plan_of_string (cp_plan c) \<notin> {Free, ent_plan (entitlement_of s)}")
      case True
      then show ?thesis
        using s plan by (auto simp: change_plan_def Let_def plan_is_paid_def intro!: exI [of _ ?req])
    qed (use s in \<open>auto simp: change_plan_def Let_def plan_is_paid_def\<close>)
  next
    fix d
    assume "change_plan ports portal checkout c st = Inl (ProviderUnavailable d)"
    then show "(\<exists>r. portal r = Inl d) \<or> (\<exists>r. checkout r = Inl d)"
      by (auto simp: change_plan_def Let_def err_def dest!: thrown split: if_splits option.splits)
  qed (simp add: change_plan_def Let_def err_def)
qed

theorem plan_change_never_charges_twice_witness:
  "let s = (subscription_none ''w'' 0)\<lparr>sub_plan := Pro, sub_payment := PastDue, sub_customer := Some ''cus''\<rparr>;
       st = \<lparr> mt_workspaces = [], mt_events = [], mt_subscriptions = [(''w'', s)], mt_claimed = [],
             mt_processed = [], mt_members = [] \<rparr>;
       c = \<lparr> cp_workspace = ''w'', cp_plan = ''pro'', cp_cadence = Annual, cp_success = ''/ok'',
              cp_cancel = ''/no'', cp_return = ''/billing'' \<rparr>;
       portal = (\<lambda>r. Inr \<lparr> session_url = po_customer r, session_expires = None \<rparr>)
   in \<forall>checkout. change_plan memory_ports portal checkout c st =
        Inr \<lparr> session_url = ''cus'', session_expires = None \<rparr>"
proof -
  let ?s = "(subscription_none ''w'' 0)\<lparr>sub_plan := Pro, sub_payment := PastDue, sub_customer := Some ''cus''\<rparr>"
  let ?st = "\<lparr> mt_workspaces = [], mt_events = [], mt_subscriptions = [(''w'', ?s)], mt_claimed = [],
             mt_processed = [], mt_members = [] \<rparr>"
  let ?c = "\<lparr> cp_workspace = ''w'', cp_plan = ''pro'', cp_cadence = Annual, cp_success = ''/ok'',
              cp_cancel = ''/no'', cp_return = ''/billing'' \<rparr>"
  let ?portal = "\<lambda>r. Inr \<lparr> session_url = po_customer r, session_expires = None \<rparr>"
  let ?throws = "\<lambda>r. Inl ''down''"
  have s: "find_subscription memory_ports (cp_workspace ?c) ?st = Some ?s" by (simp add: memory_ports_def)
  have held: "\<not> (is_plan_id (cp_plan ?c) \<and> plan_of_string (cp_plan ?c) \<notin> {Free, ent_plan (entitlement_of ?s)})"
    by (simp add: plan_of_string_def entitlement_of_def)
  have "\<forall>checkout. change_plan memory_ports ?portal checkout ?c ?st = change_plan memory_ports ?portal ?throws ?c ?st"
    using plan_change_never_charges_twice [of memory_ports ?c ?st ?portal ?throws] s held by (metis (no_types, lifting))
  moreover have "change_plan memory_ports ?portal ?throws ?c ?st = Inr \<lparr> session_url = ''cus'', session_expires = None \<rparr>"
    by code_simp
  ultimately show ?thesis unfolding Let_def by simp
qed

end
