(* ===== verification/Calendar.thy ===== *)
theory Calendar
  imports Kernel
begin

text \<open>
  The part of JavaScript's \<open>Date\<close> the sources use, in UTC, as the language standard defines
  it: an instant is split into a day number and the time within it, a day number into year,
  month and date of the proleptic Gregorian calendar, and the setters build an instant back
  from fields that may be out of range. Instants beyond the \<open>Date\<close> range are not marked
  invalid.
\<close>

section \<open>Days and years\<close>

definition MS_PER_DAY :: int where
  "MS_PER_DAY = 86400000"

definition day_of :: "instant \<Rightarrow> int" where
  "day_of t = t div MS_PER_DAY"

definition time_within_day :: "instant \<Rightarrow> int" where
  "time_within_day t = t mod MS_PER_DAY"

definition is_leap :: "int \<Rightarrow> bool" where
  "is_leap y = (4 dvd y \<and> (\<not> 100 dvd y \<or> 400 dvd y))"

definition days_in_year :: "int \<Rightarrow> int" where
  "days_in_year y = (if is_leap y then 366 else 365)"

definition day_from_year :: "int \<Rightarrow> int" where
  "day_from_year y =
     365 * (y - 1970) + (y - 1969) div 4 - (y - 1901) div 100 + (y - 1601) div 400"

definition year_from_day :: "int \<Rightarrow> int" where
  "year_from_day d =
     (let y = 1970 + (400 * d) div 146097
      in if d < day_from_year y then y - 1
         else if day_from_year (y + 1) \<le> d then y + 1 else y)"

lemma div_step:
  fixes a n :: int
  assumes "0 < n"
  shows "(a + 1) div n = a div n + (if n dvd a + 1 then 1 else 0)"
proof (cases "n dvd a + 1")
  case True
  then obtain q where q: "a + 1 = n * q" by blast
  then have "a = n * (q - 1) + (n - 1)" by (simp add: algebra_simps)
  then have "a div n = q - 1"
    by (rule int_div_pos_eq) (use assms in simp_all)
  moreover have "(a + 1) div n = q" using q assms by simp
  ultimately show ?thesis using True by simp
next
  case False
  let ?q = "a div n" and ?r = "a mod n"
  have a: "a = n * ?q + ?r" by simp
  have "?r + 1 \<noteq> n"
  proof
    assume "?r + 1 = n"
    with a have "a + 1 = n * (?q + 1)" by (metis add.assoc distrib_left mult.right_neutral)
    with False show False by simp
  qed
  moreover have "0 \<le> ?r" "?r < n" using assms by simp_all
  ultimately have "0 \<le> ?r + 1" "?r + 1 < n" by linarith+
  moreover have "a + 1 = n * ?q + (?r + 1)" using a by linarith
  ultimately have "(a + 1) div n = ?q" by (intro int_div_pos_eq)
  with False show ?thesis by simp
qed

lemma div_bounds:
  fixes a n :: int
  assumes "0 < n"
  shows "n * (a div n) \<le> a \<and> a \<le> n * (a div n) + (n - 1)"
proof -
  have "a = n * (a div n) + a mod n" by simp
  moreover have "0 \<le> a mod n" "a mod n < n" using assms by simp_all
  ultimately show ?thesis by linarith
qed

lemma year_step:
  fixes y c n :: int
  assumes "0 < n" "n dvd c - 1"
  shows "(y + 1 - c) div n = (y - c) div n + (if n dvd y then 1 else 0)"
proof -
  have "n dvd (y - c) + 1 \<longleftrightarrow> n dvd y - (c - 1)" by (simp add: algebra_simps)
  also have "\<dots> \<longleftrightarrow> n dvd y" using assms(2) by (metis dvd_add_left_iff diff_add_cancel)
  finally show ?thesis using div_step [OF assms(1), of "y - c"] by (simp add: algebra_simps)
qed

lemma day_from_year_Suc: "day_from_year (y + 1) = day_from_year y + days_in_year y"
proof -
  have "(100 :: int) dvd 400" "(4 :: int) dvd 100" by simp_all
  then have dvd: "400 dvd y \<Longrightarrow> 100 dvd y" "100 dvd y \<Longrightarrow> 4 dvd y"
    using dvd_trans by blast+
  have "(y + 1 - 1969) div 4 = (y - 1969) div 4 + (if 4 dvd y then 1 else 0)"
    "(y + 1 - 1901) div 100 = (y - 1901) div 100 + (if 100 dvd y then 1 else 0)"
    "(y + 1 - 1601) div 400 = (y - 1601) div 400 + (if 400 dvd y then 1 else 0)"
    by (rule year_step; simp)+
  then have "day_from_year (y + 1) = day_from_year y + 365 + (if 4 dvd y then 1 else 0) -
      (if 100 dvd y then 1 else 0) + (if 400 dvd y then 1 else 0)"
    unfolding day_from_year_def by (simp only: algebra_simps)
  with dvd show ?thesis
    by (cases "4 dvd y"; cases "100 dvd y"; cases "400 dvd y")
      (simp_all add: days_in_year_def is_leap_def)
qed

lemma days_in_year_bounds: "365 \<le> days_in_year y" "days_in_year y \<le> 366"
  by (simp_all add: days_in_year_def)

lemma day_from_year_less: "y < z \<Longrightarrow> day_from_year y < day_from_year z"
proof -
  have "day_from_year y < day_from_year (y + 1 + int n)" for n
  proof (induction n)
    case 0
    show ?case using day_from_year_Suc [of y] days_in_year_bounds(1) [of y] by simp
  next
    case (Suc n)
    show ?case
      using Suc day_from_year_Suc [of "y + 1 + int n"] days_in_year_bounds(1) [of "y + 1 + int n"]
      by (simp add: algebra_simps)
  qed
  from this [of "nat (z - y - 1)"] show "y < z \<Longrightarrow> day_from_year y < day_from_year z" by simp
qed

lemma day_from_year_le: "day_from_year y \<le> day_from_year z \<longleftrightarrow> y \<le> z"
  using day_from_year_less [of y z] day_from_year_less [of z y]
  by (cases y z rule: linorder_cases) simp_all

text \<open>The estimate is off by at most one year, so the correction lands on the day's year.\<close>

lemma day_from_year_near:
  "146097 * x - 508 \<le> 400 * day_from_year (1970 + x)"
  "400 * day_from_year (1970 + x) \<le> 146097 * x + 592"
proof -
  obtain a b c where abc: "a = (x + 1) div 4" "b = (x + 69) div 100" "c = (x + 369) div 400"
    by blast
  have bounds: "4 * a \<le> x + 1" "x + 1 \<le> 4 * a + 3" "100 * b \<le> x + 69" "x + 69 \<le> 100 * b + 99"
    "400 * c \<le> x + 369" "x + 369 \<le> 400 * c + 399"
    using div_bounds [of 4 "x + 1"] div_bounds [of 100 "x + 69"] div_bounds [of 400 "x + 369"]
    unfolding abc by simp_all
  have d: "400 * day_from_year (1970 + x) = 146000 * x + 400 * a - 400 * b + 400 * c"
    by (simp add: day_from_year_def abc algebra_simps)
  show "146097 * x - 508 \<le> 400 * day_from_year (1970 + x)" using bounds unfolding d by linarith
  show "400 * day_from_year (1970 + x) \<le> 146097 * x + 592" using bounds unfolding d by linarith
qed

lemma year_from_day_bounds:
  "day_from_year (year_from_day d) \<le> d \<and> d < day_from_year (year_from_day d + 1)"
proof -
  obtain q where q: "q = (400 * d) div 146097" by blast
  have b: "146097 * q \<le> 400 * d" "400 * d < 146097 * q + 146097"
    using div_bounds [of 146097 "400 * d"] unfolding q by simp_all
  have "400 * day_from_year (1970 + (q - 1)) \<le> 146097 * q - 145505"
    using day_from_year_near(2) [of "q - 1"] by (simp add: algebra_simps)
  moreover have "146097 * q + 291686 \<le> 400 * day_from_year (1970 + (q + 2))"
    using day_from_year_near(1) [of "q + 2"] by (simp add: algebra_simps)
  ultimately have "day_from_year (1970 + (q - 1)) \<le> d" "d < day_from_year (1970 + (q + 2))"
    using b by linarith+
  then have "day_from_year (1970 + q - 1) \<le> d" "d < day_from_year (1970 + q + 2)"
    by (simp_all add: algebra_simps)
  moreover have "1970 + q + 2 = 1970 + q + 1 + 1" "1970 + q - 1 + 1 = 1970 + q" by simp_all
  ultimately show ?thesis
    unfolding year_from_day_def Let_def q [symmetric] by auto
qed

lemma year_from_day_unique:
  assumes "day_from_year y \<le> d" "d < day_from_year (y + 1)"
  shows "year_from_day d = y"
proof -
  have "day_from_year (year_from_day d) < day_from_year (y + 1)"
    "day_from_year y < day_from_year (year_from_day d + 1)"
    using assms year_from_day_bounds [of d] by linarith+
  then have "\<not> y + 1 \<le> year_from_day d" "\<not> year_from_day d + 1 \<le> y"
    using day_from_year_le by (metis not_le)+
  then show ?thesis by linarith
qed

section \<open>Months and dates\<close>

text \<open>Months count from 0, dates from 1.\<close>

definition CUMULATIVE_DAYS :: "int list" where
  "CUMULATIVE_DAYS = [0, 31, 59, 90, 120, 151, 181, 212, 243, 273, 304, 334]"

definition month_start :: "int \<Rightarrow> int \<Rightarrow> int" where
  "month_start y m = CUMULATIVE_DAYS ! nat m + (if is_leap y \<and> 2 \<le> m then 1 else 0)"

definition month_length :: "int \<Rightarrow> int \<Rightarrow> int" where
  "month_length y m =
     (if m = 1 then (if is_leap y then 29 else 28) else if m \<in> {3, 5, 8, 10} then 30 else 31)"

fun month_at :: "int \<Rightarrow> int \<Rightarrow> int list \<Rightarrow> int" where
  "month_at y n [] = 11"
| "month_at y n (m # ms) = (if n < month_start y m then m - 1 else month_at y n ms)"

definition month_from_day :: "int \<Rightarrow> int \<Rightarrow> int" where
  "month_from_day y n = month_at y n [1, 2, 3, 4, 5, 6, 7, 8, 9, 10, 11]"

definition utc_year :: "instant \<Rightarrow> int" where
  "utc_year t = year_from_day (day_of t)"

definition day_in_year :: "instant \<Rightarrow> int" where
  "day_in_year t = day_of t - day_from_year (utc_year t)"

definition utc_month :: "instant \<Rightarrow> int" where
  "utc_month t = month_from_day (utc_year t) (day_in_year t)"

definition utc_date :: "instant \<Rightarrow> int" where
  "utc_date t = day_in_year t - month_start (utc_year t) (utc_month t) + 1"

definition utc_hours :: "instant \<Rightarrow> int" where
  "utc_hours t = time_within_day t div 3600000"

definition utc_minutes :: "instant \<Rightarrow> int" where
  "utc_minutes t = time_within_day t div 60000 mod 60"

definition utc_seconds :: "instant \<Rightarrow> int" where
  "utc_seconds t = time_within_day t div 1000 mod 60"

definition utc_milliseconds :: "instant \<Rightarrow> int" where
  "utc_milliseconds t = time_within_day t mod 1000"

text \<open>\<open>Date.prototype.toISOString\<close>.\<close>

definition pad_zeros :: "nat \<Rightarrow> string \<Rightarrow> string" where
  "pad_zeros n s = replicate (n - length s) (CHR ''0'') @ s"

definition iso_year :: "int \<Rightarrow> string" where
  "iso_year y =
     (if 0 \<le> y \<and> y \<le> 9999 then pad_zeros 4 (show_int y)
      else (if y < 0 then CHR ''-'' else CHR ''+'') # pad_zeros 6 (show_int \<bar>y\<bar>))"

definition instant_to_iso :: "instant \<Rightarrow> string" where
  "instant_to_iso t =
     iso_year (utc_year t) @ ''-'' @ pad_zeros 2 (show_int (utc_month t + 1)) @ ''-'' @
     pad_zeros 2 (show_int (utc_date t)) @ ''T'' @ pad_zeros 2 (show_int (utc_hours t)) @ '':'' @
     pad_zeros 2 (show_int (utc_minutes t)) @ '':'' @ pad_zeros 2 (show_int (utc_seconds t)) @ ''.'' @
     pad_zeros 3 (show_int (utc_milliseconds t)) @ ''Z''"

section \<open>Building instants\<close>

definition make_day :: "int \<Rightarrow> int \<Rightarrow> int \<Rightarrow> int" where
  "make_day year month date =
     (let y = year + month div 12; m = month mod 12
      in day_from_year y + month_start y m + date - 1)"

definition make_time :: "int \<Rightarrow> int \<Rightarrow> int \<Rightarrow> int \<Rightarrow> int" where
  "make_time h m s ms = h * 3600000 + m * 60000 + s * 1000 + ms"

definition make_date :: "int \<Rightarrow> int \<Rightarrow> instant" where
  "make_date day time = day * MS_PER_DAY + time"

text \<open>\<open>Date.UTC(year, month, date)\<close>, which reads years below 100 as of the 20th century.\<close>

definition date_utc :: "int \<Rightarrow> int \<Rightarrow> int \<Rightarrow> instant" where
  "date_utc year month date =
     make_date (make_day (if 0 \<le> year \<and> year \<le> 99 then 1900 + year else year) month date) 0"

definition set_utc_date :: "instant \<Rightarrow> int \<Rightarrow> instant" where
  "set_utc_date t date = make_date (make_day (utc_year t) (utc_month t) date) (time_within_day t)"

definition set_utc_month :: "instant \<Rightarrow> int \<Rightarrow> instant" where
  "set_utc_month t month = make_date (make_day (utc_year t) month (utc_date t)) (time_within_day t)"

definition set_utc_hours :: "instant \<Rightarrow> int \<Rightarrow> instant" where
  "set_utc_hours t hours =
     make_date (day_of t) (make_time hours (utc_minutes t) (utc_seconds t) (utc_milliseconds t))"

section \<open>Facts\<close>

lemma twelve_months:
  fixes m :: int
  shows "0 \<le> m \<Longrightarrow> m \<le> 11 \<Longrightarrow> m = 0 \<or> m = 1 \<or> m = 2 \<or> m = 3 \<or> m = 4 \<or> m = 5 \<or> m = 6 \<or>
     m = 7 \<or> m = 8 \<or> m = 9 \<or> m = 10 \<or> m = 11"
  by presburger

lemma month_start_simps [simp]:
  "month_start y 0 = 0" "month_start y 1 = 31" "month_start y 2 = (if is_leap y then 60 else 59)"
  "month_start y 3 = (if is_leap y then 91 else 90)"
  "month_start y 4 = (if is_leap y then 121 else 120)"
  "month_start y 5 = (if is_leap y then 152 else 151)"
  "month_start y 6 = (if is_leap y then 182 else 181)"
  "month_start y 7 = (if is_leap y then 213 else 212)"
  "month_start y 8 = (if is_leap y then 244 else 243)"
  "month_start y 9 = (if is_leap y then 274 else 273)"
  "month_start y 10 = (if is_leap y then 305 else 304)"
  "month_start y 11 = (if is_leap y then 335 else 334)"
  by (simp_all add: month_start_def CUMULATIVE_DAYS_def)

lemma month_from_day_bounds:
  assumes "0 \<le> n" "n < days_in_year y"
  shows "0 \<le> month_from_day y n \<and> month_from_day y n \<le> 11 \<and>
         month_start y (month_from_day y n) \<le> n \<and>
         n < month_start y (month_from_day y n) + month_length y (month_from_day y n)"
  using assms by (cases "is_leap y") (simp_all add: month_from_day_def month_length_def days_in_year_def)

lemma month_from_day_unique:
  assumes "0 \<le> m" "m \<le> 11" "month_start y m \<le> n" "n < month_start y m + month_length y m"
  shows "month_from_day y n = m"
  using twelve_months [OF assms(1,2)] assms(3,4)
  by (cases "is_leap y"; elim disjE) (simp_all add: month_from_day_def month_length_def)

lemma month_end:
  "0 \<le> m \<Longrightarrow> m \<le> 11 \<Longrightarrow> month_start y m + month_length y m \<le> days_in_year y"
  by (drule (1) twelve_months) (auto simp: month_length_def days_in_year_def)

lemma day_in_year_bounds: "0 \<le> day_in_year t" "day_in_year t < days_in_year (utc_year t)"
  using year_from_day_bounds [of "day_of t"] day_from_year_Suc [of "utc_year t"]
  by (simp_all add: day_in_year_def utc_year_def)

lemma utc_month_bounds: "0 \<le> utc_month t \<and> utc_month t \<le> 11"
  using month_from_day_bounds [OF day_in_year_bounds] by (simp add: utc_month_def)

lemma utc_date_bounds: "1 \<le> utc_date t \<and> utc_date t \<le> month_length (utc_year t) (utc_month t)"
  using month_from_day_bounds [OF day_in_year_bounds, of t] by (simp add: utc_date_def utc_month_def)

lemma time_within_day_bounds [simp]: "0 \<le> time_within_day t" "time_within_day t < MS_PER_DAY"
  by (simp_all add: time_within_day_def MS_PER_DAY_def)

lemma make_date_split [simp]: "make_date (day_of t) (time_within_day t) = t"
  by (simp add: make_date_def day_of_def time_within_day_def)

lemma day_of_make_date [simp]: "0 \<le> u \<Longrightarrow> u < MS_PER_DAY \<Longrightarrow> day_of (make_date d u) = d"
  by (simp add: make_date_def day_of_def MS_PER_DAY_def)

lemma time_of_make_date [simp]: "0 \<le> u \<Longrightarrow> u < MS_PER_DAY \<Longrightarrow> time_within_day (make_date d u) = u"
  by (simp add: make_date_def time_within_day_def MS_PER_DAY_def)

lemma make_day_in_year: "0 \<le> m \<Longrightarrow> m \<le> 11 \<Longrightarrow> make_day y m d = day_from_year y + month_start y m + d - 1"
  by (simp add: make_day_def)

lemma make_day_fields [simp]: "make_day (utc_year t) (utc_month t) (utc_date t) = day_of t"
  using utc_month_bounds [of t] by (simp add: make_day_in_year utc_date_def day_in_year_def)

lemma make_day_later: "make_day y m (d + k) = make_day y m d + k"
  by (simp add: make_day_def Let_def)

text \<open>Any date of any month has the fields it was built from.\<close>

lemma fields_of_make_date:
  assumes "0 \<le> m" "m \<le> 11" "1 \<le> d" "d \<le> month_length y m" "0 \<le> u" "u < MS_PER_DAY"
  shows "utc_year (make_date (make_day y m d) u) = y"
    and "utc_month (make_date (make_day y m d) u) = m"
    and "utc_date (make_date (make_day y m d) u) = d"
proof -
  let ?t = "make_date (make_day y m d) u"
  have pos: "0 \<le> month_start y m"
    using twelve_months [OF assms(1,2)] by (elim disjE) simp_all
  have day: "day_of ?t = day_from_year y + (month_start y m + d - 1)"
    using assms by (simp add: make_day_in_year)
  show y: "utc_year ?t = y"
    unfolding utc_year_def day
    by (rule year_from_day_unique)
      (use pos assms month_end [OF assms(1,2), of y] day_from_year_Suc [of y] in simp_all)
  then have n: "day_in_year ?t = month_start y m + d - 1" by (simp add: day_in_year_def day)
  show m: "utc_month ?t = m"
    unfolding utc_month_def y n using assms by (intro month_from_day_unique) simp_all
  show "utc_date ?t = d" unfolding utc_date_def y m n by simp
qed

lemma make_time_fields:
  "make_time (utc_hours t) (utc_minutes t) (utc_seconds t) (utc_milliseconds t) = time_within_day t"
proof -
  let ?u = "time_within_day t"
  have "?u = 1000 * (?u div 1000) + ?u mod 1000" by simp
  moreover have "?u div 1000 = 60 * (?u div 1000 div 60) + ?u div 1000 mod 60" by simp
  moreover have "?u div 1000 div 60 = ?u div 60000" by (simp add: zdiv_zmult2_eq [symmetric])
  moreover have "?u div 60000 = 60 * (?u div 60000 div 60) + ?u div 60000 mod 60" by simp
  moreover have "?u div 60000 div 60 = ?u div 3600000" by (simp add: zdiv_zmult2_eq [symmetric])
  ultimately show ?thesis
    unfolding make_time_def utc_hours_def utc_minutes_def utc_seconds_def utc_milliseconds_def
    by linarith
qed

lemma set_utc_hours_back: "set_utc_hours t (utc_hours t - n) = t - n * 3600000"
proof -
  have "make_time (utc_hours t - n) (utc_minutes t) (utc_seconds t) (utc_milliseconds t) =
      time_within_day t - n * 3600000"
    using make_time_fields [of t] by (simp add: make_time_def algebra_simps)
  then have "set_utc_hours t (utc_hours t - n) = make_date (day_of t) (time_within_day t) - n * 3600000"
    by (simp add: set_utc_hours_def make_date_def)
  then show ?thesis by simp
qed

lemma set_utc_date_back: "set_utc_date t (utc_date t - n) = t - n * MS_PER_DAY"
proof -
  have "make_day (utc_year t) (utc_month t) (utc_date t - n) = day_of t - n"
    using make_day_later [of "utc_year t" "utc_month t" "utc_date t" "- n"] by simp
  then have "set_utc_date t (utc_date t - n) = make_date (day_of t) (time_within_day t) - n * MS_PER_DAY"
    unfolding set_utc_date_def make_date_def by (simp only: left_diff_distrib)
  then show ?thesis by simp
qed

lemma iso_of_a_leap_day: "instant_to_iso 1709210096789 = ''2024-02-29T12:34:56.789Z''"
  by code_simp

end
