(* ===== verification/Monitor.thy ===== *)
theory Monitor
  imports Calendar
begin

text \<open>
  Monitors, packages/dashboarding/domain/src: thresholds (threshold.ts), the Monitor aggregate
  with its evaluation (monitor.ts, errors.ts, events.ts) and the alerts a transition sends
  (monitor-alert.ts). Observed values and thresholds are rational; the analysis is opaque, as
  in the sources.
\<close>

section \<open>Thresholds\<close>

datatype threshold = Above rat | Below rat

fun is_breached :: "threshold \<Rightarrow> rat \<Rightarrow> bool" where
  "is_breached (Above v) observed = (observed > v)"
| "is_breached (Below v) observed = (observed < v)"

fun threshold_equals :: "threshold \<Rightarrow> threshold \<Rightarrow> bool" where
  "threshold_equals (Above v) b = (case b of Above w \<Rightarrow> v = w | Below _ \<Rightarrow> False)"
| "threshold_equals (Below v) b = (case b of Below w \<Rightarrow> v = w | Above _ \<Rightarrow> False)"

section \<open>The aggregate\<close>

datatype channel = Email string | Webhook string

datatype monitor_state = MonOk | MonBreaching

definition DEFAULT_COOLDOWN :: duration where
  "DEFAULT_COOLDOWN = duration_hours 1"

record 'a monitor =
  mon_id :: monitor_id
  mon_workspace :: workspace_id
  mon_project :: project_id
  mon_name :: string
  mon_analysis :: 'a
  mon_threshold :: threshold
  mon_cooldown :: duration
  mon_channels :: "channel list"
  mon_enabled :: bool
  mon_state :: monitor_state
  last_notified_at :: "instant option"
  last_value :: "rat option"
  last_attempt_at :: "instant option"
  last_measured_at :: "instant option"
  evaluation_error :: "string option"
  pending_deliveries :: int
  failed_deliveries :: int
  delivery_error :: "string option"
  last_delivered_at :: "instant option"
  evaluation_claim :: "instant option"

datatype monitor_error =
    MonitorNameRequired
  | MonitorNameUnchanged
  | NoSuchMonitor monitor_id
  | NegativeCooldown
  | AnalysisMustBeScalar
  | InvalidAnalysis string
  | AlreadyEnabled
  | AlreadyDisabled

datatype monitor_event =
    MonitorCreated monitor_id workspace_id project_id string instant
  | MonitorRenamed monitor_id string instant
  | MonitorRetargeted monitor_id instant
  | MonitorReconfigured monitor_id instant
  | MonitorEnabled monitor_id instant
  | MonitorDisabled monitor_id instant
  | MonitorFired monitor_id project_id rat threshold bool instant
  | MonitorRecovered monitor_id project_id rat instant

fun monitor_event_about :: "monitor_event \<Rightarrow> monitor_id" where
  "monitor_event_about (MonitorCreated m _ _ _ _) = m"
| "monitor_event_about (MonitorRenamed m _ _) = m"
| "monitor_event_about (MonitorRetargeted m _) = m"
| "monitor_event_about (MonitorReconfigured m _) = m"
| "monitor_event_about (MonitorEnabled m _) = m"
| "monitor_event_about (MonitorDisabled m _) = m"
| "monitor_event_about (MonitorFired m _ _ _ _ _) = m"
| "monitor_event_about (MonitorRecovered m _ _ _) = m"

datatype silence = Disabled | WithinThreshold | CoolingDown

datatype monitor_decision =
    Fire rat threshold bool
  | Recover rat
  | Silent silence rat

type_synonym 'a monitor_applied = "'a monitor \<times> monitor_event list"

record monitor_settings =
  set_cooldown :: "duration option"
  set_channels :: "channel list option"

definition monitor_create ::
  "monitor_id \<Rightarrow> workspace_id \<Rightarrow> project_id \<Rightarrow> string \<Rightarrow> 'a \<Rightarrow> threshold \<Rightarrow> instant \<Rightarrow>
     monitor_settings \<Rightarrow> monitor_error + 'a monitor_applied" where
  "monitor_create i w p name analysis t now settings =
     (let trimmed = js_trim name
      in if length trimmed = 0 then err MonitorNameRequired
         else
           (let cooldown = (case set_cooldown settings of None \<Rightarrow> DEFAULT_COOLDOWN | Some c \<Rightarrow> c)
            in if duration_is_negative cooldown then err NegativeCooldown
               else ok (\<lparr> mon_id = i, mon_workspace = w, mon_project = p, mon_name = trimmed,
                          mon_analysis = analysis, mon_threshold = t, mon_cooldown = cooldown,
                          mon_channels = (case set_channels settings of None \<Rightarrow> [] | Some cs \<Rightarrow> cs),
                          mon_enabled = True, mon_state = MonOk, last_notified_at = None,
                          last_value = None, last_attempt_at = None, last_measured_at = None,
                          evaluation_error = None, pending_deliveries = 0, failed_deliveries = 0,
                          delivery_error = None, last_delivered_at = None,
                          evaluation_claim = None \<rparr>,
                        [MonitorCreated i w p trimmed now])))"

definition measurement_unavailable :: "string \<Rightarrow> instant \<Rightarrow> 'a monitor \<Rightarrow> 'a monitor" where
  "measurement_unavailable detail now m =
     m\<lparr>last_attempt_at := Some now, evaluation_error := Some detail\<rparr>"

definition monitor_decide :: "rat \<Rightarrow> instant \<Rightarrow> 'a monitor \<Rightarrow> monitor_decision" where
  "monitor_decide observed now m =
     (if \<not> mon_enabled m then Silent Disabled observed
      else if \<not> is_breached (mon_threshold m) observed then
        (if mon_state m = MonBreaching then Recover observed else Silent WithinThreshold observed)
      else if mon_state m = MonOk then Fire observed (mon_threshold m) True
      else case last_notified_at m of
        Some since \<Rightarrow>
          if duration_compare (instant_between since now) (mon_cooldown m) < 0
          then Silent CoolingDown observed
          else Fire observed (mon_threshold m) False
      | None \<Rightarrow> Fire observed (mon_threshold m) False)"

definition measured :: "instant \<Rightarrow> 'a monitor \<Rightarrow> 'a monitor" where
  "measured now m =
     m\<lparr>last_attempt_at := Some now, last_measured_at := Some now, evaluation_error := None\<rparr>"

fun monitor_apply :: "monitor_decision \<Rightarrow> instant \<Rightarrow> 'a monitor \<Rightarrow> 'a monitor_applied" where
  "monitor_apply (Fire observed t entering) now m =
     ((measured now m)\<lparr>mon_state := MonBreaching, last_notified_at := Some now,
                       last_value := Some observed\<rparr>,
      [MonitorFired (mon_id m) (mon_project m) observed (mon_threshold m) entering now])"
| "monitor_apply (Recover observed) now m =
     ((measured now m)\<lparr>mon_state := MonOk, last_value := Some observed\<rparr>,
      [MonitorRecovered (mon_id m) (mon_project m) observed now])"
| "monitor_apply (Silent reason observed) now m =
     ((measured now m)\<lparr>last_value := Some observed\<rparr>, [])"

definition rename_monitor ::
  "string \<Rightarrow> instant \<Rightarrow> 'a monitor \<Rightarrow> monitor_error + 'a monitor_applied" where
  "rename_monitor name now m =
     (let trimmed = js_trim name
      in if length trimmed = 0 then err MonitorNameRequired
         else if trimmed = mon_name m then err MonitorNameUnchanged
         else ok (m\<lparr>mon_name := trimmed\<rparr>, [MonitorRenamed (mon_id m) trimmed now]))"

definition retarget ::
  "'a \<Rightarrow> threshold \<Rightarrow> instant \<Rightarrow> 'a monitor \<Rightarrow> monitor_error + 'a monitor_applied" where
  "retarget analysis t now m =
     ok (m\<lparr>mon_analysis := analysis, mon_threshold := t, mon_state := MonOk,
           last_notified_at := None, last_value := None, last_attempt_at := None,
           last_measured_at := None, evaluation_error := None\<rparr>,
         [MonitorRetargeted (mon_id m) now])"

definition reconfigure ::
  "monitor_settings \<Rightarrow> instant \<Rightarrow> 'a monitor \<Rightarrow> monitor_error + 'a monitor_applied" where
  "reconfigure settings now m =
     (let cooldown = (case set_cooldown settings of None \<Rightarrow> mon_cooldown m | Some c \<Rightarrow> c)
      in if duration_is_negative cooldown then err NegativeCooldown
         else ok (m\<lparr>mon_cooldown := cooldown,
                    mon_channels := (case set_channels settings of
                                       None \<Rightarrow> mon_channels m | Some cs \<Rightarrow> cs)\<rparr>,
                  [MonitorReconfigured (mon_id m) now]))"

definition enable_mon :: "instant \<Rightarrow> 'a monitor \<Rightarrow> monitor_error + 'a monitor_applied" where
  "enable_mon now m =
     (if mon_enabled m then err AlreadyEnabled
      else ok (m\<lparr>mon_enabled := True, last_notified_at := None, last_value := None,
                 last_attempt_at := None, last_measured_at := None, evaluation_error := None\<rparr>,
               [MonitorEnabled (mon_id m) now]))"

definition disable_mon :: "instant \<Rightarrow> 'a monitor \<Rightarrow> monitor_error + 'a monitor_applied" where
  "disable_mon now m =
     (if \<not> mon_enabled m then err AlreadyDisabled
      else ok (m\<lparr>mon_enabled := False, mon_state := MonOk\<rparr>, [MonitorDisabled (mon_id m) now]))"

section \<open>Alerts\<close>

record monitor_alert =
  alert_id :: string
  alert_monitor :: string
  alert_workspace :: string
  alert_project :: string
  alert_name :: string
  alert_channel :: channel
  alert_state :: monitor_state
  alert_observed :: rat
  alert_threshold :: threshold
  alert_entering :: "bool option"
  alert_occurred_at :: string

definition alerts_from ::
  "'a monitor \<Rightarrow> string \<Rightarrow> monitor_state \<Rightarrow> rat \<Rightarrow> bool option \<Rightarrow> instant \<Rightarrow> monitor_alert list" where
  "alerts_from m kind state observed entering now =
     (let event_id = mon_id m @ '':'' @ kind @ '':'' @ show_int now;
          channels = set_order [] (mon_channels m)
      in map (\<lambda>(index, ch).
             \<lparr> alert_id = event_id @ '':'' @ show_nat index, alert_monitor = mon_id m,
               alert_workspace = mon_workspace m, alert_project = mon_project m,
               alert_name = mon_name m, alert_channel = ch, alert_state = state,
               alert_observed = observed, alert_threshold = mon_threshold m,
               alert_entering = entering, alert_occurred_at = instant_to_iso now \<rparr>)
           (zip [0 ..< length channels] channels))"

text \<open>
  Channels are recognised by their \<open>JSON.stringify\<close> text, which tells any two channels apart
  whose fields stand in the order of their declaration.
\<close>

fun alerts_for :: "'a monitor \<Rightarrow> monitor_event \<Rightarrow> monitor_alert list" where
  "alerts_for m (MonitorFired _ _ observed _ entering now) =
     alerts_from m ''MonitorFired'' MonBreaching observed (Some entering) now"
| "alerts_for m (MonitorRecovered _ _ observed now) =
     alerts_from m ''MonitorRecovered'' MonOk observed None now"
| "alerts_for m (MonitorCreated _ _ _ _ _) = []"
| "alerts_for m (MonitorRenamed _ _ _) = []"
| "alerts_for m (MonitorRetargeted _ _) = []"
| "alerts_for m (MonitorReconfigured _ _) = []"
| "alerts_for m (MonitorEnabled _ _) = []"
| "alerts_for m (MonitorDisabled _ _) = []"

section \<open>Commands and the invariant\<close>

text \<open>
  The aggregate's operations with their instants; an evaluation is \<open>decide\<close> and then
  \<open>apply\<close>, as the worker runs them.
\<close>

datatype 'a mon_command =
    MonEvaluate rat
  | MonUnavailable string
  | MonRename string
  | MonRetarget 'a threshold
  | MonReconfigure monitor_settings
  | MonEnable
  | MonDisable

fun exec_monitor ::
  "'a mon_command \<times> instant \<Rightarrow> 'a monitor \<Rightarrow> monitor_error + 'a monitor_applied" where
  "exec_monitor (MonEvaluate v, now) m = Inr (monitor_apply (monitor_decide v now m) now m)"
| "exec_monitor (MonUnavailable detail, now) m = Inr (measurement_unavailable detail now m, [])"
| "exec_monitor (MonRename n, now) m = rename_monitor n now m"
| "exec_monitor (MonRetarget a t, now) m = retarget a t now m"
| "exec_monitor (MonReconfigure s, now) m = reconfigure s now m"
| "exec_monitor (MonEnable, now) m = enable_mon now m"
| "exec_monitor (MonDisable, now) m = disable_mon now m"

definition monitor_wf :: "'a monitor \<Rightarrow> bool" where
  "monitor_wf m =
     (mon_name m \<noteq> [] \<and> js_trim (mon_name m) = mon_name m \<and> 0 \<le> mon_cooldown m \<and>
      (mon_state m = MonBreaching \<longrightarrow> mon_enabled m \<and> last_notified_at m \<noteq> None))"

lemmas monitor_op_defs =
  rename_monitor_def retarget_def reconfigure_def enable_mon_def disable_mon_def
  measurement_unavailable_def measured_def monitor_decide_def time_defs ok_def err_def Let_def

text \<open>What an evaluation does, case by case.\<close>

lemma evaluate_cases:
  assumes "exec_monitor (MonEvaluate v, now) m = Inr (n, es)"
  obtains (disabled) "\<not> mon_enabled m" "es = []" "n = (measured now m)\<lparr>last_value := Some v\<rparr>"
  | (quiet) "mon_enabled m" "\<not> is_breached (mon_threshold m) v" "mon_state m = MonOk" "es = []"
      "n = (measured now m)\<lparr>last_value := Some v\<rparr>"
  | (recovered) "mon_enabled m" "\<not> is_breached (mon_threshold m) v" "mon_state m = MonBreaching"
      "es = [MonitorRecovered (mon_id m) (mon_project m) v now]"
      "n = (measured now m)\<lparr>mon_state := MonOk, last_value := Some v\<rparr>"
  | (entered) "mon_enabled m" "is_breached (mon_threshold m) v" "mon_state m = MonOk"
      "es = [MonitorFired (mon_id m) (mon_project m) v (mon_threshold m) True now]"
      "n = (measured now m)\<lparr>mon_state := MonBreaching, last_notified_at := Some now,
                            last_value := Some v\<rparr>"
  | (cooling) since where "mon_enabled m" "is_breached (mon_threshold m) v"
      "mon_state m = MonBreaching" "last_notified_at m = Some since"
      "now - since < mon_cooldown m" "es = []" "n = (measured now m)\<lparr>last_value := Some v\<rparr>"
  | (again) "mon_enabled m" "is_breached (mon_threshold m) v" "mon_state m = MonBreaching"
      "\<forall>since. last_notified_at m = Some since \<longrightarrow> mon_cooldown m \<le> now - since"
      "es = [MonitorFired (mon_id m) (mon_project m) v (mon_threshold m) False now]"
      "n = (measured now m)\<lparr>mon_state := MonBreaching, last_notified_at := Some now,
                            last_value := Some v\<rparr>"
proof -
  let ?r = "monitor_apply (monitor_decide v now m) now m"
  have n: "n = fst ?r" and es: "es = snd ?r" using assms by simp_all
  show thesis
  proof (cases "mon_enabled m")
    case False
    show thesis by (rule disabled) (simp_all add: False n es monitor_decide_def)
  next
    case en: True
    show thesis
    proof (cases "is_breached (mon_threshold m) v")
      case within: False
      show thesis
      proof (cases "mon_state m")
        case MonOk
        show thesis by (rule quiet) (simp_all add: en within MonOk n es monitor_decide_def)
      next
        case MonBreaching
        show thesis by (rule recovered) (simp_all add: en within MonBreaching n es monitor_decide_def)
      qed
    next
      case over: True
      show thesis
      proof (cases "mon_state m")
        case MonOk
        show thesis by (rule entered) (simp_all add: en over MonOk n es monitor_decide_def)
      next
        case st: MonBreaching
        show thesis
        proof (cases "\<exists>since. last_notified_at m = Some since \<and> now - since < mon_cooldown m")
          case True
          then obtain since where s: "last_notified_at m = Some since" "now - since < mon_cooldown m"
            by blast
          show thesis
            by (rule cooling [OF en over st s])
              (use s in \<open>simp_all add: en over st n es monitor_decide_def time_defs\<close>)
        next
          case False
          have "monitor_decide v now m = Fire v (mon_threshold m) False"
            using False by (auto simp: en over st monitor_decide_def time_defs split: option.split)
          then show thesis
            by (intro again) (use False in \<open>auto simp: en over st n es not_less\<close>)
        qed
      qed
    qed
  qed
qed

lemma exec_monitor_sound:
  assumes "exec_monitor (c, now) m = Inr (n, es)"
  shows "mon_id n = mon_id m \<and> (\<forall>e \<in> set es. monitor_event_about e = mon_id m) \<and>
         (monitor_wf m \<longrightarrow> monitor_wf n)"
proof (cases c)
  case (MonEvaluate v)
  with assms have "exec_monitor (MonEvaluate v, now) m = Inr (n, es)" by simp
  then show ?thesis
    by (cases rule: evaluate_cases) (simp_all add: measured_def monitor_wf_def)
qed (use assms in \<open>auto simp: monitor_op_defs monitor_wf_def split: if_splits option.splits\<close>)

interpretation mon: aggregate exec_monitor monitor_wf mon_id monitor_event_about
proof unfold_locales
  show "monitor_wf n" if "monitor_wf m" "exec_monitor c m = Inr (n, es)"
    for c :: "'a mon_command \<times> instant" and m n :: "'a monitor" and es
    using that exec_monitor_sound by (cases c) blast
  show "mon_id n = mon_id m" if "exec_monitor c m = Inr (n, es)"
    for c :: "'a mon_command \<times> instant" and m n :: "'a monitor" and es
    using that exec_monitor_sound by (cases c) blast
  show "monitor_event_about e = mon_id m" if "exec_monitor c m = Inr (n, es)" "e \<in> set es"
    for c :: "'a mon_command \<times> instant" and m n :: "'a monitor" and es e
    using that exec_monitor_sound by (cases c) blast
qed

section \<open>What an operator is told\<close>

text \<open>
  The announcements as a language: \<open>b\<close> says whether a breach stands announced. A breach is
  entered once, repeated while it stands, and ended by one recovery; retargeting and disabling
  drop it silently.
\<close>

fun told_after :: "bool \<Rightarrow> monitor_event \<Rightarrow> bool" where
  "told_after b (MonitorFired _ _ _ _ _ _) = True"
| "told_after b (MonitorRecovered _ _ _ _) = False"
| "told_after b (MonitorRetargeted _ _) = False"
| "told_after b (MonitorDisabled _ _) = False"
| "told_after b (MonitorCreated _ _ _ _ _) = b"
| "told_after b (MonitorRenamed _ _ _) = b"
| "told_after b (MonitorReconfigured _ _) = b"
| "told_after b (MonitorEnabled _ _) = b"

fun may_tell :: "bool \<Rightarrow> monitor_event \<Rightarrow> bool" where
  "may_tell b (MonitorFired _ _ _ _ entering _) = (entering = (\<not> b))"
| "may_tell b (MonitorRecovered _ _ _ _) = b"
| "may_tell b _ = True"

fun announced :: "bool \<Rightarrow> monitor_event list \<Rightarrow> bool" where
  "announced b [] = True"
| "announced b (e # es) = (may_tell b e \<and> announced (told_after b e) es)"

text \<open>Repetitions keep their distance: \<open>since\<close> is the instant of the last one fired.\<close>

fun spaced :: "duration \<Rightarrow> instant option \<Rightarrow> monitor_event list \<Rightarrow> bool" where
  "spaced cd since [] = True"
| "spaced cd since (MonitorFired _ _ _ _ entering now # es) =
     ((entering \<or> (\<exists>s. since = Some s \<and> cd \<le> now - s)) \<and> spaced cd (Some now) es)"
| "spaced cd since (e # es) = spaced cd since es"

lemma announced_append:
  "announced b (es @ fs) \<longleftrightarrow> announced b es \<and> announced (foldl told_after b es) fs"
  by (induction es arbitrary: b) simp_all

lemma exec_monitor_told:
  assumes "exec_monitor (c, now) m = Inr (n, es)" and "monitor_wf m"
  shows "announced (mon_state m = MonBreaching) es \<and>
         foldl told_after (mon_state m = MonBreaching) es = (mon_state n = MonBreaching)"
proof (cases c)
  case (MonEvaluate v)
  with assms have "exec_monitor (MonEvaluate v, now) m = Inr (n, es)" by simp
  then show ?thesis
    by (cases rule: evaluate_cases) (use assms(2) in \<open>auto simp: measured_def monitor_wf_def\<close>)
qed (use assms in \<open>auto simp: monitor_op_defs monitor_wf_def split: if_splits option.splits\<close>)

lemma run_monitor_told:
  assumes "monitor_wf m" and "run_cmds exec_monitor cs m = (n, es)"
  shows "announced (mon_state m = MonBreaching) es"
  using assms
proof (induction cs arbitrary: m es)
  case (Cons c cs)
  obtain x now where c: "c = (x, now)" by fastforce
  show ?case
  proof (cases "exec_monitor (x, now) m")
    case (Inl y)
    then have "run_cmds exec_monitor cs m = (n, es)" using Cons.prems(2) c by simp
    with Cons.IH Cons.prems(1) show ?thesis by blast
  next
    case (Inr r)
    obtain m' fs where r: "exec_monitor (x, now) m = Inr (m', fs)" using Inr by (cases r) auto
    obtain k gs where g: "run_cmds exec_monitor cs m' = (k, gs)" by fastforce
    have es: "es = fs @ gs" "k = n" using Cons.prems(2) c r g by simp_all
    have "announced (mon_state m' = MonBreaching) gs"
      using Cons.IH exec_monitor_sound [OF r] Cons.prems(1) g es(2) by blast
    with exec_monitor_told [OF r Cons.prems(1)] show ?thesis
      by (simp add: es(1) announced_append)
  qed
qed simp

text \<open>The cooldown in force is the one the monitor carries, while no command changes it.\<close>

definition keeps_cooldown :: "'a mon_command \<Rightarrow> bool" where
  "keeps_cooldown c = (case c of MonReconfigure s \<Rightarrow> set_cooldown s = None | _ \<Rightarrow> True)"

fun last_fired :: "instant option \<Rightarrow> monitor_event list \<Rightarrow> instant option" where
  "last_fired since [] = since"
| "last_fired since (MonitorFired _ _ _ _ _ now # es) = last_fired (Some now) es"
| "last_fired since (e # es) = last_fired since es"

lemma spaced_append: "spaced cd since (es @ fs) \<longleftrightarrow> spaced cd since es \<and> spaced cd (last_fired since es) fs"
  by (induction cd since es rule: spaced.induct) simp_all

lemma exec_monitor_spaced:
  assumes "exec_monitor (c, now) m = Inr (n, es)" and "monitor_wf m" and "keeps_cooldown c"
    and "mon_state m = MonBreaching \<Longrightarrow> last_notified_at m = since"
  shows "spaced (mon_cooldown m) since es \<and> mon_cooldown n = mon_cooldown m \<and>
         (mon_state n = MonBreaching \<longrightarrow> last_notified_at n = last_fired since es)"
proof (cases c)
  case (MonEvaluate v)
  with assms have "exec_monitor (MonEvaluate v, now) m = Inr (n, es)" by simp
  then show ?thesis
    by (cases rule: evaluate_cases)
      (use assms(2,4) in \<open>auto simp: measured_def monitor_wf_def\<close>)
qed (use assms in \<open>auto simp: monitor_op_defs monitor_wf_def keeps_cooldown_def
      split: if_splits option.splits\<close>)

lemma run_monitor_spaced:
  assumes "monitor_wf m" and "run_cmds exec_monitor cs m = (n, es)"
    and "list_all (\<lambda>(c, t). keeps_cooldown c) cs"
    and "mon_state m = MonBreaching \<Longrightarrow> last_notified_at m = since"
  shows "spaced (mon_cooldown m) since es"
  using assms
proof (induction cs arbitrary: m es since)
  case (Cons c cs)
  obtain x now where c: "c = (x, now)" by fastforce
  show ?case
  proof (cases "exec_monitor (x, now) m")
    case (Inl y)
    then have "run_cmds exec_monitor cs m = (n, es)" using Cons.prems(2) c by simp
    then show ?thesis using Cons.prems(3) by (intro Cons.IH [OF Cons.prems(1)] Cons.prems(4)) simp_all
  next
    case (Inr r)
    obtain m' fs where r: "exec_monitor (x, now) m = Inr (m', fs)" using Inr by (cases r) auto
    obtain k gs where g: "run_cmds exec_monitor cs m' = (k, gs)" by fastforce
    have es: "es = fs @ gs" "k = n" using Cons.prems(2) c r g by simp_all
    have "keeps_cooldown x" using Cons.prems(3) c by simp
    note step = exec_monitor_spaced [OF r Cons.prems(1) this Cons.prems(4)]
    have "spaced (mon_cooldown m') (last_fired since fs) gs"
      by (rule Cons.IH) (use exec_monitor_sound [OF r] Cons.prems(1,3) g es(2) step in simp_all)
    with step show ?thesis by (simp add: es(1) spaced_append)
  qed
qed simp

section \<open>Properties\<close>

text \<open>
  C33. What an operator is told is a sound story, whatever is done to the monitor and whatever is
  measured: a breach is announced as entered once, repeated only while it stands, and ended by
  one recovery, which is never announced for a breach that was not; and while the cooldown is
  left alone, repetitions are at least the cooldown apart.
\<close>

theorem monitor_tells_a_sound_story:
  assumes "monitor_create i w p name a t now settings = Inr (m, es)"
    and "run_cmds exec_monitor cs m = (n, fs)"
  shows "announced False fs \<and> monitor_wf n \<and>
         (list_all (\<lambda>(c, t). keeps_cooldown c) cs \<longrightarrow> spaced (mon_cooldown m) None fs)"
proof -
  have wf: "monitor_wf m" and ok: "mon_state m = MonOk"
    using assms(1)
    by (auto simp: monitor_create_def monitor_wf_def DEFAULT_COOLDOWN_def time_defs ok_def err_def Let_def
        split: if_splits option.splits)
  show ?thesis
    using run_monitor_told [OF wf assms(2)] run_monitor_spaced [OF wf assms(2), of None]
      mon.run_invar [OF wf assms(2)] ok
    by simp
qed

theorem monitor_tells_a_sound_story_witness:
  "let settings = \<lparr> set_cooldown = Some 100, set_channels = None \<rparr>;
       cs = [(MonEvaluate 12, 0), (MonEvaluate 13, 60), (MonEvaluate 14, 120), (MonEvaluate 9, 130),
             (MonEvaluate 20, 140), (MonDisable, 150), (MonEvaluate 30, 160)]
   in \<exists>m es n fs. monitor_create ''m'' ''w'' ''p'' ''Errors'' () (Above 10) 0 settings = Inr (m, es) \<and>
        run_cmds exec_monitor cs m = (n, fs) \<and> spaced 100 None fs \<and>
        fs = [MonitorFired ''m'' ''p'' 12 (Above 10) True 0, MonitorFired ''m'' ''p'' 14 (Above 10) False 120,
              MonitorRecovered ''m'' ''p'' 9 130, MonitorFired ''m'' ''p'' 20 (Above 10) True 140,
              MonitorDisabled ''m'' 150]"
proof -
  let ?settings = "\<lparr> set_cooldown = Some 100, set_channels = None \<rparr>"
  let ?cs = "[(MonEvaluate 12, 0), (MonEvaluate 13, 60), (MonEvaluate 14, 120), (MonEvaluate 9, 130),
             (MonEvaluate 20, 140), (MonDisable, 150), (MonEvaluate 30, 160)]
            :: (unit mon_command \<times> instant) list"
  let ?fs = "[MonitorFired ''m'' ''p'' 12 (Above 10) True 0, MonitorFired ''m'' ''p'' 14 (Above 10) False 120,
              MonitorRecovered ''m'' ''p'' 9 130, MonitorFired ''m'' ''p'' 20 (Above 10) True 140,
              MonitorDisabled ''m'' 150]"
  have run: "case monitor_create ''m'' ''w'' ''p'' ''Errors'' () (Above 10) 0 ?settings of
      Inr (m, es) \<Rightarrow> snd (run_cmds exec_monitor ?cs m) = ?fs \<and> mon_cooldown m = 100 | Inl _ \<Rightarrow> False"
    by code_simp
  then obtain m :: "unit monitor" and es where
    c: "monitor_create ''m'' ''w'' ''p'' ''Errors'' () (Above 10) 0 ?settings = Inr (m, es)"
    by (auto split: sum.splits)
  have cd: "mon_cooldown m = 100" and fs: "snd (run_cmds exec_monitor ?cs m) = ?fs"
    using run c by simp_all
  then obtain n where r: "run_cmds exec_monitor ?cs m = (n, ?fs)" by (metis prod.collapse)
  have "list_all (\<lambda>(c, t). keeps_cooldown c) ?cs" by (simp add: keeps_cooldown_def)
  then have "spaced 100 None ?fs" using monitor_tells_a_sound_story [OF c r] cd by metis
  with c r show ?thesis unfolding Let_def by blast
qed

text \<open>
  An evaluation of an enabled monitor leaves it breaching exactly when the value is over its
  threshold, every change of that state is announced, and an announcement reaches each distinct
  channel exactly once, under ids of its own, with the value that caused it.
\<close>

theorem evaluation_alerts_each_channel_once:
  assumes "mon_enabled m" and "exec_monitor (MonEvaluate v, now) m = Inr (n, es)"
  shows "mon_state n = (if is_breached (mon_threshold m) v then MonBreaching else MonOk) \<and>
         last_value n = Some v \<and>
         (mon_state n \<noteq> mon_state m \<longrightarrow> es \<noteq> []) \<and>
         (es \<noteq> [] \<longrightarrow>
            (let alerts = concat (map (alerts_for n) es)
             in map alert_channel alerts = set_order [] (mon_channels m) \<and>
                distinct (map alert_id alerts) \<and>
                list_all (\<lambda>x. alert_observed x = v \<and> alert_state x = mon_state n) alerts))"
proof -
  have ids: "distinct (map (\<lambda>(k, ch). pre @ show_nat k) (zip [0 ..< length cs] cs))"
    for pre :: string and cs :: "channel list"
  proof -
    have "map (\<lambda>(k, ch). pre @ show_nat k) (zip [0 ..< length cs] cs) =
        map (\<lambda>k. pre @ show_nat k) (map fst (zip [0 ..< length cs] cs))"
      by (simp only: map_map comp_def case_prod_unfold)
    then show ?thesis by (simp add: distinct_map inj_on_def)
  qed
  have alerts: "map alert_channel (alerts_from m' kind st v entering now) = set_order [] (mon_channels m') \<and>
      distinct (map alert_id (alerts_from m' kind st v entering now)) \<and>
      list_all (\<lambda>x. alert_observed x = v \<and> alert_state x = st) (alerts_from m' kind st v entering now)"
    for m' :: "'a monitor" and kind st entering
    using ids [of "mon_id m' @ '':'' @ kind @ '':'' @ show_int now @ '':''" "set_order [] (mon_channels m')"]
    by (simp add: alerts_from_def Let_def comp_def case_prod_unfold list_all_iff)
  from assms(2) show ?thesis
    by (cases rule: evaluate_cases) (use assms(1) alerts in \<open>simp_all add: measured_def Let_def\<close>)
qed

theorem evaluation_alerts_each_channel_once_witness:
  "let settings = \<lparr> set_cooldown = None, set_channels = Some [Email ''a'', Webhook ''u'', Email ''a''] \<rparr>
   in \<exists>m es n fs. monitor_create ''m'' ''w'' ''p'' ''Errors'' () (Below 1) 0 settings = Inr (m, es) \<and>
        exec_monitor (MonEvaluate 0, 5) m = Inr (n, fs) \<and>
        map alert_channel (concat (map (alerts_for n) fs)) = [Email ''a'', Webhook ''u'']"
proof -
  let ?settings = "\<lparr> set_cooldown = None, set_channels = Some [Email ''a'', Webhook ''u'', Email ''a''] \<rparr>"
  have run: "case monitor_create ''m'' ''w'' ''p'' ''Errors'' () (Below 1) 0 ?settings of
      Inr (m, es) \<Rightarrow> mon_enabled m \<and> mon_state m = MonOk \<and> mon_threshold m = Below 1 \<and>
        set_order [] (mon_channels m) = [Email ''a'', Webhook ''u''] | Inl _ \<Rightarrow> False"
    by code_simp
  then obtain m :: "unit monitor" and es where
    c: "monitor_create ''m'' ''w'' ''p'' ''Errors'' () (Below 1) 0 ?settings = Inr (m, es)"
    by (auto split: sum.splits)
  have m: "mon_enabled m" "mon_state m = MonOk" "mon_threshold m = Below 1"
    "set_order [] (mon_channels m) = [Email ''a'', Webhook ''u'']"
    using run c by simp_all
  obtain n fs where "monitor_apply (monitor_decide 0 5 m) 5 m = (n, fs)" by fastforce
  then have e: "exec_monitor (MonEvaluate 0, 5) m = Inr (n, fs)" by simp
  have x: "map alert_channel (concat (map (alerts_for n) fs)) = [Email ''a'', Webhook ''u'']"
    using evaluation_alerts_each_channel_once [OF m(1) e] m by (simp add: Let_def)
  show ?thesis unfolding Let_def by (intro exI conjI) (rule c e x)+
qed

end
