(* ===== verification/Dashboard.thy ===== *)
theory Dashboard
  imports Kernel "HOL-Library.Multiset" "HOL-Library.Product_Lexorder"
begin

text \<open>
  Dashboards, packages/dashboarding/domain/src: tiles and the twelve-unit grid (tile.ts),
  share grants (share-grant.ts), the Dashboard aggregate (dashboard.ts, errors.ts,
  events.ts). The analysis a tile asks is opaque to the sources' type parameter \<open>A\<close> and
  to \<open>'a\<close> here. Widths, coordinates and positions are numbers the code tests with
  \<open>Number.isInteger\<close>, so they are rational.
\<close>

section \<open>Tiles\<close>

definition ROW_UNITS :: rat where
  "ROW_UNITS = 12"

definition is_valid_width :: "rat \<Rightarrow> bool" where
  "is_valid_width n = (is_integer n \<and> n \<ge> 1 \<and> n \<le> ROW_UNITS)"

datatype tile_view = ViewNumber | ViewLine | ViewBar | ViewTable | ViewFunnel | ViewRetention

definition TILE_VIEWS :: "string list" where
  "TILE_VIEWS = [''number'', ''line'', ''bar'', ''table'', ''funnel'', ''retention'']"

definition is_tile_view :: "json \<Rightarrow> bool" where
  "is_tile_view value = (case value of JStr s \<Rightarrow> s \<in> set TILE_VIEWS | _ \<Rightarrow> False)"

record tile_layout =
  lay_x :: rat
  lay_y :: rat
  lay_height :: rat

record tile_placement =
  pl_id :: tile_id
  pl_width :: rat
  pl_layout :: tile_layout

definition valid_tile_layout :: "tile_layout \<Rightarrow> rat \<Rightarrow> bool" where
  "valid_tile_layout l width =
     (is_integer (lay_x l) \<and> lay_x l \<ge> 0 \<and> lay_x l + width \<le> ROW_UNITS \<and>
      is_integer (lay_y l) \<and> lay_y l \<ge> 0 \<and> lay_y l \<le> 1000 \<and>
      is_integer (lay_height l) \<and> lay_height l \<ge> 3 \<and> lay_height l \<le> 20)"

record 'a tile =
  t_id :: tile_id
  t_title :: string
  t_project :: project_id
  t_analysis :: 'a
  t_view :: tile_view
  t_width :: rat
  t_layout :: "tile_layout option"

definition tile_of ::
  "tile_id \<Rightarrow> string \<Rightarrow> project_id \<Rightarrow> 'a \<Rightarrow> tile_view \<Rightarrow> rat \<Rightarrow> 'a tile" where
  "tile_of i title project analysis view width =
     \<lparr> t_id = i, t_title = title, t_project = project, t_analysis = analysis, t_view = view,
       t_width = width, t_layout = None \<rparr>"

definition with_width :: "'a tile \<Rightarrow> rat \<Rightarrow> 'a tile" where
  "with_width t width = t\<lparr>t_width := width, t_layout := None\<rparr>"

definition without_layout :: "'a tile \<Rightarrow> 'a tile" where
  "without_layout t = t\<lparr>t_layout := None\<rparr>"

lemma without_layout_id [simp]: "t_id (without_layout t) = t_id t"
  by (simp add: without_layout_def)

section \<open>The aggregate\<close>

record share_grant =
  sg_dashboard :: dashboard_id
  sg_digest :: string
  sg_expires_at :: instant

record 'a dashboard =
  dsh_id :: dashboard_id
  dsh_workspace :: workspace_id
  dsh_name :: string
  dsh_tiles :: "'a tile list"
  dsh_is_default :: bool
  dsh_share :: "share_grant option"

datatype dashboard_error =
    InvalidLayout string
  | DashboardNameRequired
  | DashboardNameUnchanged
  | NoSuchDashboard dashboard_id
  | TileTitleRequired
  | TileExists tile_id
  | NoSuchTile tile_id
  | TooManyTiles nat
  | InvalidWidth rat
  | WidthUnchanged tile_id
  | IndexOutOfRange rat nat
  | PositionUnchanged tile_id
  | NotAPermutation nat nat
  | OrderUnchanged
  | DefaultUnchanged
  | ShareGrantExpired
  | ShareGrantMismatch
  | NotShared

datatype dashboard_event =
    DashboardLayoutChanged dashboard_id instant
  | DashboardCreated dashboard_id workspace_id string instant
  | DashboardRenamed dashboard_id string instant
  | DashboardDefaultSet dashboard_id instant
  | DashboardDefaultCleared dashboard_id instant
  | TileAdded dashboard_id tile_id project_id instant
  | TileUpdated dashboard_id tile_id instant
  | TileRemoved dashboard_id tile_id instant
  | TileResized dashboard_id tile_id rat instant
  | TileMoved dashboard_id tile_id rat instant
  | TilesReordered dashboard_id "tile_id list" instant
  | DashboardShared dashboard_id instant instant
  | DashboardUnshared dashboard_id instant

fun dashboard_event_about :: "dashboard_event \<Rightarrow> dashboard_id" where
  "dashboard_event_about (DashboardLayoutChanged d _) = d"
| "dashboard_event_about (DashboardCreated d _ _ _) = d"
| "dashboard_event_about (DashboardRenamed d _ _) = d"
| "dashboard_event_about (DashboardDefaultSet d _) = d"
| "dashboard_event_about (DashboardDefaultCleared d _) = d"
| "dashboard_event_about (TileAdded d _ _ _) = d"
| "dashboard_event_about (TileUpdated d _ _) = d"
| "dashboard_event_about (TileRemoved d _ _) = d"
| "dashboard_event_about (TileResized d _ _ _) = d"
| "dashboard_event_about (TileMoved d _ _ _) = d"
| "dashboard_event_about (TilesReordered d _ _) = d"
| "dashboard_event_about (DashboardShared d _ _) = d"
| "dashboard_event_about (DashboardUnshared d _) = d"

type_synonym 'a dashboard_applied = "'a dashboard \<times> dashboard_event list"

definition MAX_TILES :: nat where
  "MAX_TILES = 50"

definition dashboard_create ::
  "dashboard_id \<Rightarrow> workspace_id \<Rightarrow> string \<Rightarrow> instant \<Rightarrow> bool \<Rightarrow>
     dashboard_error + 'a dashboard_applied" where
  "dashboard_create i w name t is_default =
     (let trimmed = js_trim name
      in if length trimmed = 0 then err DashboardNameRequired
         else ok (\<lparr> dsh_id = i, dsh_workspace = w, dsh_name = trimmed, dsh_tiles = [],
                    dsh_is_default = is_default, dsh_share = None \<rparr>,
                  [DashboardCreated i w trimmed t]))"

definition dashboard_tile :: "'a dashboard \<Rightarrow> tile_id \<Rightarrow> 'a tile option" where
  "dashboard_tile d i = find (\<lambda>t. t_id t = i) (dsh_tiles d)"

definition dashboard_projects :: "'a dashboard \<Rightarrow> project_id list" where
  "dashboard_projects d = set_order [] (map t_project (dsh_tiles d))"

text \<open>\<open>rows\<close>: \<open>row\<close> and \<open>used\<close> are the loop's variables, \<open>out\<close> the rows already closed.\<close>

fun rows_loop :: "'a tile list list \<Rightarrow> 'a tile list \<Rightarrow> rat \<Rightarrow> 'a tile list \<Rightarrow> 'a tile list list" where
  "rows_loop out row used [] = (if length row > 0 then out @ [row] else out)"
| "rows_loop out row used (t # ts) =
     (if used + t_width t > ROW_UNITS \<and> length row > 0
      then rows_loop (out @ [row]) [t] (0 + t_width t) ts
      else rows_loop out (row @ [t]) (used + t_width t) ts)"

definition dashboard_rows :: "'a dashboard \<Rightarrow> 'a tile list list" where
  "dashboard_rows d = rows_loop [] [] 0 (dsh_tiles d)"

definition well_formed_tile :: "'a tile \<Rightarrow> dashboard_error + 'a tile" where
  "well_formed_tile t =
     (if length (js_trim (t_title t)) = 0 then err TileTitleRequired
      else if \<not> is_valid_width (t_width t) then err (InvalidWidth (t_width t))
      else ok t)"

definition add_tile :: "'a tile \<Rightarrow> instant \<Rightarrow> 'a dashboard \<Rightarrow> dashboard_error + 'a dashboard_applied" where
  "add_tile t now d =
     (if length (dsh_tiles d) \<ge> MAX_TILES then err (TooManyTiles MAX_TILES)
      else if list_ex (\<lambda>x. t_id x = t_id t) (dsh_tiles d) then err (TileExists (t_id t))
      else case well_formed_tile t of
        Inl e \<Rightarrow> err e
      | Inr _ \<Rightarrow>
          ok (d\<lparr>dsh_tiles := dsh_tiles d @ [t]\<rparr>, [TileAdded (dsh_id d) (t_id t) (t_project t) now]))"

definition update_tile :: "'a tile \<Rightarrow> instant \<Rightarrow> 'a dashboard \<Rightarrow> dashboard_error + 'a dashboard_applied" where
  "update_tile t now d =
     (if \<not> list_ex (\<lambda>x. t_id x = t_id t) (dsh_tiles d) then err (NoSuchTile (t_id t))
      else case well_formed_tile t of
        Inl e \<Rightarrow> err e
      | Inr _ \<Rightarrow>
          ok (d\<lparr>dsh_tiles :=
                  map (\<lambda>x. if t_id x = t_id t
                           then (if t_width x = t_width t then t else without_layout t) else x)
                    (dsh_tiles d)\<rparr>,
              [TileUpdated (dsh_id d) (t_id t) now]))"

definition resize_tile ::
  "tile_id \<Rightarrow> rat \<Rightarrow> instant \<Rightarrow> 'a dashboard \<Rightarrow> dashboard_error + 'a dashboard_applied" where
  "resize_tile i width now d =
     (case dashboard_tile d i of
        None \<Rightarrow> err (NoSuchTile i)
      | Some existing \<Rightarrow>
          if \<not> is_valid_width width then err (InvalidWidth width)
          else if t_width existing = width then err (WidthUnchanged i)
          else ok (d\<lparr>dsh_tiles := map (\<lambda>x. if t_id x = i then with_width x width else x) (dsh_tiles d)\<rparr>,
                   [TileResized (dsh_id d) i width now]))"

text \<open>\<open>setLayout\<close>: the overlap test of its double loop, then the arrangement in reading order.\<close>

definition overlap :: "tile_placement \<Rightarrow> tile_placement \<Rightarrow> bool" where
  "overlap a b =
     (lay_x (pl_layout a) < lay_x (pl_layout b) + pl_width b \<and>
      lay_x (pl_layout a) + pl_width a > lay_x (pl_layout b) \<and>
      lay_y (pl_layout a) < lay_y (pl_layout b) + lay_height (pl_layout b) \<and>
      lay_y (pl_layout a) + lay_height (pl_layout a) > lay_y (pl_layout b))"

fun some_overlap :: "tile_placement list \<Rightarrow> bool" where
  "some_overlap [] = False"
| "some_overlap (a # bs) = (list_ex (overlap a) bs \<or> some_overlap bs)"

definition reading_key :: "tile_placement \<Rightarrow> rat \<times> rat" where
  "reading_key p = (lay_y (pl_layout p), lay_x (pl_layout p))"

definition place_tile :: "tile_placement \<Rightarrow> 'a tile \<Rightarrow> 'a tile" where
  "place_tile p t = t\<lparr>t_width := pl_width p, t_layout := Some (pl_layout p)\<rparr>"

text \<open>
  The lookup \<open>this.tile(id)!\<close> cannot miss once the first test passed, when the tiles' ids are
  distinct (they are in every state the commands reach); a miss contributes no tile here.
\<close>

definition arranged :: "'a dashboard \<Rightarrow> tile_placement list \<Rightarrow> 'a tile list" where
  "arranged d placements =
     List.map_filter (\<lambda>p. map_option (place_tile p) (dashboard_tile d (pl_id p)))
       (sort_key reading_key placements)"

definition same_place :: "'a tile \<Rightarrow> 'a tile \<Rightarrow> bool" where
  "same_place old t =
     (t_id old = t_id t \<and> t_width old = t_width t \<and> t_layout old = t_layout t)"

definition set_layout ::
  "tile_placement list \<Rightarrow> instant \<Rightarrow> 'a dashboard \<Rightarrow> dashboard_error + 'a dashboard_applied" where
  "set_layout placements now d =
     (let ids = map pl_id placements
      in if length placements \<noteq> length (dsh_tiles d) \<or>
            length (remdups ids) \<noteq> length (dsh_tiles d) \<or>
            list_ex (\<lambda>t. t_id t \<notin> set ids) (dsh_tiles d)
         then err (InvalidLayout ''The layout must contain every insight exactly once. Reload the dashboard and try again.'')
         else if list_ex (\<lambda>p. \<not> is_valid_width (pl_width p) \<or>
                              \<not> valid_tile_layout (pl_layout p) (pl_width p)) placements
         then err (InvalidLayout ''An insight lies outside the grid or has an invalid size.'')
         else if some_overlap placements then err (InvalidLayout ''Insights cannot overlap.'')
         else
           (let tiles = arranged d placements;
                unchanged = length tiles \<le> length (dsh_tiles d) \<and>
                            list_all (\<lambda>(old, t). same_place old t) (zip (dsh_tiles d) tiles)
            in ok (if unchanged then d else d\<lparr>dsh_tiles := tiles\<rparr>,
                   if unchanged then [] else [DashboardLayoutChanged (dsh_id d) now])))"

fun tile_index :: "('k \<Rightarrow> bool) \<Rightarrow> 'k list \<Rightarrow> nat option" where
  "tile_index P [] = None"
| "tile_index P (x # xs) = (if P x then Some 0 else map_option Suc (tile_index P xs))"

definition move_tile ::
  "tile_id \<Rightarrow> rat \<Rightarrow> instant \<Rightarrow> 'a dashboard \<Rightarrow> dashboard_error + 'a dashboard_applied" where
  "move_tile i to_index now d =
     (case tile_index (\<lambda>t. t_id t = i) (dsh_tiles d) of
        None \<Rightarrow> err (NoSuchTile i)
      | Some from \<Rightarrow>
          if \<not> is_integer to_index \<or> to_index < 0 \<or> to_index \<ge> of_nat (length (dsh_tiles d))
          then err (IndexOutOfRange to_index (length (dsh_tiles d)))
          else if of_nat from = to_index then err (PositionUnchanged i)
          else
            (let rest = take from (dsh_tiles d) @ drop (Suc from) (dsh_tiles d);
                 k = nat \<lfloor>to_index\<rfloor>;
                 next = take k rest @ [dsh_tiles d ! from] @ drop k rest
             in ok (d\<lparr>dsh_tiles := map without_layout next\<rparr>,
                    [TileMoved (dsh_id d) i to_index now])))"

definition reorder_tiles ::
  "tile_id list \<Rightarrow> instant \<Rightarrow> 'a dashboard \<Rightarrow> dashboard_error + 'a dashboard_applied" where
  "reorder_tiles order now d =
     (case find (\<lambda>i. \<not> list_ex (\<lambda>t. t_id t = i) (dsh_tiles d)) order of
        Some i \<Rightarrow> err (NoSuchTile i)
      | None \<Rightarrow>
          (let size = length (remdups order)
           in if size \<noteq> length (dsh_tiles d) \<or> length order \<noteq> length (dsh_tiles d)
              then err (NotAPermutation (length (dsh_tiles d)) size)
              else if list_all2 (\<lambda>t i. t_id t = i) (dsh_tiles d) order then err OrderUnchanged
              else
                (let by_id = map_of (rev (map (\<lambda>t. (t_id t, t)) (dsh_tiles d)));
                     next = List.map_filter by_id order
                 in ok (d\<lparr>dsh_tiles := map without_layout next\<rparr>,
                        [TilesReordered (dsh_id d) order now]))))"

definition remove_tile ::
  "tile_id \<Rightarrow> instant \<Rightarrow> 'a dashboard \<Rightarrow> dashboard_error + 'a dashboard_applied" where
  "remove_tile i now d =
     (if \<not> list_ex (\<lambda>t. t_id t = i) (dsh_tiles d) then err (NoSuchTile i)
      else ok (d\<lparr>dsh_tiles := filter (\<lambda>t. t_id t \<noteq> i) (dsh_tiles d)\<rparr>,
               [TileRemoved (dsh_id d) i now]))"

definition rename_dashboard ::
  "string \<Rightarrow> instant \<Rightarrow> 'a dashboard \<Rightarrow> dashboard_error + 'a dashboard_applied" where
  "rename_dashboard name now d =
     (let trimmed = js_trim name
      in if length trimmed = 0 then err DashboardNameRequired
         else if trimmed = dsh_name d then err DashboardNameUnchanged
         else ok (d\<lparr>dsh_name := trimmed\<rparr>, [DashboardRenamed (dsh_id d) trimmed now]))"

definition mark_default :: "instant \<Rightarrow> 'a dashboard \<Rightarrow> dashboard_error + 'a dashboard_applied" where
  "mark_default now d =
     (if dsh_is_default d then err DefaultUnchanged
      else ok (d\<lparr>dsh_is_default := True\<rparr>, [DashboardDefaultSet (dsh_id d) now]))"

definition clear_default :: "instant \<Rightarrow> 'a dashboard \<Rightarrow> dashboard_error + 'a dashboard_applied" where
  "clear_default now d =
     (if \<not> dsh_is_default d then err DefaultUnchanged
      else ok (d\<lparr>dsh_is_default := False\<rparr>, [DashboardDefaultCleared (dsh_id d) now]))"

definition grant_share ::
  "share_grant \<Rightarrow> instant \<Rightarrow> 'a dashboard \<Rightarrow> dashboard_error + 'a dashboard_applied" where
  "grant_share g now d =
     (if sg_dashboard g \<noteq> dsh_id d then err ShareGrantMismatch
      else if \<not> is_after (sg_expires_at g) now then err ShareGrantExpired
      else ok (d\<lparr>dsh_share := Some g\<rparr>, [DashboardShared (dsh_id d) (sg_expires_at g) now]))"

definition unshare :: "instant \<Rightarrow> 'a dashboard \<Rightarrow> dashboard_error + 'a dashboard_applied" where
  "unshare now d =
     (if dsh_share d = None then err NotShared
      else ok (d\<lparr>dsh_share := None\<rparr>, [DashboardUnshared (dsh_id d) now]))"

definition authorize_share_read ::
  "string \<Rightarrow> instant \<Rightarrow> 'a dashboard \<Rightarrow> dashboard_error + share_grant" where
  "authorize_share_read digest now d =
     (case dsh_share d of
        None \<Rightarrow> err NotShared
      | Some g \<Rightarrow>
          if sg_dashboard g \<noteq> dsh_id d then err ShareGrantMismatch
          else if sg_digest g \<noteq> digest then err NotShared
          else if \<not> is_after (sg_expires_at g) now then err ShareGrantExpired
          else ok g)"

definition allows_share_read :: "string \<Rightarrow> instant \<Rightarrow> 'a dashboard \<Rightarrow> bool" where
  "allows_share_read digest now d = is_ok (authorize_share_read digest now d)"

lemmas dashboard_op_defs =
  add_tile_def update_tile_def resize_tile_def remove_tile_def rename_dashboard_def
  mark_default_def clear_default_def grant_share_def unshare_def well_formed_tile_def
  dashboard_tile_def ok_def err_def Let_def

text \<open>The aggregate's commands, each at its instant.\<close>

datatype 'a dsh_command =
    DshAdd "'a tile"
  | DshUpdate "'a tile"
  | DshResize tile_id rat
  | DshLayout "tile_placement list"
  | DshMove tile_id rat
  | DshReorder "tile_id list"
  | DshRemove tile_id
  | DshRename string
  | DshMarkDefault
  | DshClearDefault
  | DshShare share_grant
  | DshUnshare

fun exec_dashboard ::
  "'a dsh_command \<times> instant \<Rightarrow> 'a dashboard \<Rightarrow> dashboard_error + 'a dashboard_applied" where
  "exec_dashboard (DshAdd t, now) d = add_tile t now d"
| "exec_dashboard (DshUpdate t, now) d = update_tile t now d"
| "exec_dashboard (DshResize i w, now) d = resize_tile i w now d"
| "exec_dashboard (DshLayout ps, now) d = set_layout ps now d"
| "exec_dashboard (DshMove i k, now) d = move_tile i k now d"
| "exec_dashboard (DshReorder order, now) d = reorder_tiles order now d"
| "exec_dashboard (DshRemove i, now) d = remove_tile i now d"
| "exec_dashboard (DshRename n, now) d = rename_dashboard n now d"
| "exec_dashboard (DshMarkDefault, now) d = mark_default now d"
| "exec_dashboard (DshClearDefault, now) d = clear_default now d"
| "exec_dashboard (DshShare g, now) d = grant_share g now d"
| "exec_dashboard (DshUnshare, now) d = unshare now d"

section \<open>Facts on the helpers\<close>

abbreviation tile_ids :: "'a dashboard \<Rightarrow> tile_id list" where
  "tile_ids d \<equiv> map t_id (dsh_tiles d)"

text \<open>What a tile asks, apart from where and how wide it is drawn.\<close>

definition tile_content :: "'a tile \<Rightarrow> tile_id \<times> string \<times> project_id \<times> 'a \<times> tile_view" where
  "tile_content t = (t_id t, t_title t, t_project t, t_analysis t, t_view t)"

lemma tile_content_simps [simp]:
  "tile_content (without_layout t) = tile_content t"
  "tile_content (with_width t w) = tile_content t"
  "tile_content (place_tile p t) = tile_content t"
  "tile_content (t\<lparr>t_width := w\<rparr>) = tile_content t"
  "tile_content (t\<lparr>t_layout := l\<rparr>) = tile_content t"
  by (simp_all add: tile_content_def without_layout_def with_width_def place_tile_def)

lemma tile_content_id: "tile_content t = tile_content u \<Longrightarrow> t_id t = t_id u"
  by (simp add: tile_content_def)

lemma find_tile:
  assumes "distinct (map t_id ts)" "t \<in> set ts"
  shows "find (\<lambda>x. t_id x = t_id t) ts = Some t"
  using assms by (induction ts) (auto simp: image_iff)

lemma find_tile_Some: "find (\<lambda>x. t_id x = i) ts = Some t \<Longrightarrow> t \<in> set ts \<and> t_id t = i"
  by (induction ts) (auto split: if_splits)

lemma find_tile_None: "find (\<lambda>x. t_id x = i) ts = None \<longleftrightarrow> i \<notin> t_id ` set ts"
  by (induction ts) auto

lemma tile_index_Some:
  "tile_index P xs = Some k \<Longrightarrow> k < length xs \<and> P (xs ! k) \<and> (\<forall>j < k. \<not> P (xs ! j))"
  by (induction xs arbitrary: k) (auto split: if_splits simp: nth_Cons' less_Suc_eq_0_disj)

lemma tile_index_None: "tile_index P xs = None \<longleftrightarrow> (\<forall>x \<in> set xs. \<not> P x)"
  by (induction xs) auto

text \<open>A duplicate-free list of the right length that contains the tiles' ids is one of their orders.\<close>

lemma permutation_of_ids:
  assumes "distinct ids"
  shows "length (remdups ks) = length ids \<and> length ks = length ids \<and> set ids \<subseteq> set ks \<longleftrightarrow>
         mset ks = mset ids"
proof
  assume a: "length (remdups ks) = length ids \<and> length ks = length ids \<and> set ids \<subseteq> set ks"
  then have d: "distinct ks" by (metis length_remdups_eq remdups_id_iff_distinct)
  have "card (set ks) = card (set ids)"
    using a d assms by (simp add: distinct_card)
  with a have "set ks = set ids" by (metis List.finite_set card_subset_eq)
  with d assms show "mset ks = mset ids" by (simp add: set_eq_iff_mset_eq_distinct)
next
  assume m: "mset ks = mset ids"
  with assms have "distinct ks" by (metis mset_eq_imp_distinct_iff)
  with m show "length (remdups ks) = length ids \<and> length ks = length ids \<and> set ids \<subseteq> set ks"
    by (metis distinct_remdups_id mset_eq_length mset_eq_setD order_refl)
qed

lemma permutation_of_ids':
  assumes "distinct ids"
  shows "set ks \<subseteq> set ids \<and> length (remdups ks) = length ids \<and> length ks = length ids \<longleftrightarrow>
         mset ks = mset ids"
proof
  assume a: "set ks \<subseteq> set ids \<and> length (remdups ks) = length ids \<and> length ks = length ids"
  then have "card (set ks) = card (set ids)"
    using assms by (metis distinct_card length_remdups_card_conv)
  with a have "set ks = set ids" by (metis List.finite_set card_subset_eq)
  with a show "mset ks = mset ids" using permutation_of_ids [OF assms] by blast
next
  assume "mset ks = mset ids"
  then show "set ks \<subseteq> set ids \<and> length (remdups ks) = length ids \<and> length ks = length ids"
    using permutation_of_ids [OF assms] by (metis mset_eq_setD order_refl)
qed

text \<open>Looking every id of an order up, and what is done to each tile, keeps the contents.\<close>

lemma map_filter_lookup:
  assumes "\<And>x. x \<in> set xs \<Longrightarrow> f x \<noteq> None"
  shows "List.map_filter f xs = map (\<lambda>x. the (f x)) xs"
  using assms by (induction xs) (fastforce simp: List.map_filter_simps)+

lemma mset_lookup_all:
  assumes "distinct (map t_id ts)" and "mset ids = mset (map t_id ts)"
    and "\<And>t. t \<in> set ts \<Longrightarrow> look (t_id t) = Some t"
  shows "mset (map (\<lambda>i. the (look i)) ids) = mset ts"
proof -
  have "mset (map (\<lambda>i. the (look i)) ids) = mset (map (\<lambda>i. the (look i)) (map t_id ts))"
    using assms(2) by (metis mset_map)
  also have "map (\<lambda>i. the (look i)) (map t_id ts) = ts"
    using assms(3) by (simp add: map_idI)
  finally show ?thesis .
qed

lemma some_overlap_iff: "some_overlap ps \<longleftrightarrow> \<not> sorted_wrt (\<lambda>a b. \<not> overlap a b) ps"
  by (induction ps) (auto simp: list_ex_iff)

lemma overlap_commute: "overlap a b \<longleftrightarrow> overlap b a"
  by (auto simp: overlap_def)

section \<open>What the rearranging commands do\<close>

text \<open>The placements a layout may have: every tile once, inside the grid, none over another.\<close>

definition layout_ok :: "'a dashboard \<Rightarrow> tile_placement list \<Rightarrow> bool" where
  "layout_ok d ps =
     (mset (map pl_id ps) = mset (tile_ids d) \<and>
      (\<forall>p \<in> set ps. is_valid_width (pl_width p) \<and> valid_tile_layout (pl_layout p) (pl_width p)) \<and>
      sorted_wrt (\<lambda>a b. \<not> overlap a b) ps)"

lemma arranged_map:
  assumes "mset (map pl_id ps) = mset (tile_ids d)"
  shows "arranged d ps =
           map (\<lambda>p. place_tile p (the (dashboard_tile d (pl_id p)))) (sort_key reading_key ps)"
proof -
  have "pl_id p \<in> t_id ` set (dsh_tiles d)" if "p \<in> set ps" for p
    using that assms by (metis image_eqI list.set_map mset_eq_setD)
  then have "dashboard_tile d (pl_id p) \<noteq> None" if "p \<in> set ps" for p
    using that unfolding dashboard_tile_def find_tile_None by blast
  then show ?thesis
    unfolding arranged_def by (subst map_filter_lookup) (auto intro!: map_cong simp: option.map_sel)
qed

lemma dashboard_tile_mem:
  assumes "distinct (tile_ids d)" "t \<in> set (dsh_tiles d)"
  shows "dashboard_tile d (t_id t) = Some t"
  unfolding dashboard_tile_def using assms by (rule find_tile)

lemma arranged_tile:
  assumes "mset (map pl_id ps) = mset (tile_ids d)" and "p \<in> set ps"
  obtains t where "t \<in> set (dsh_tiles d)" "dashboard_tile d (pl_id p) = Some t" "t_id t = pl_id p"
proof -
  have "pl_id p \<in> t_id ` set (dsh_tiles d)"
    using assms by (metis image_eqI list.set_map mset_eq_setD)
  then obtain t where "find (\<lambda>x. t_id x = pl_id p) (dsh_tiles d) = Some t"
    using find_tile_None by (metis option.exhaust)
  with find_tile_Some [OF this] that show ?thesis by (auto simp: dashboard_tile_def)
qed

lemma arranged_ids:
  assumes "mset (map pl_id ps) = mset (tile_ids d)"
  shows "map t_id (arranged d ps) = map pl_id (sort_key reading_key ps)"
  unfolding arranged_map [OF assms]
  by (auto simp: place_tile_def elim!: arranged_tile [OF assms])

lemma arranged_contents:
  assumes "distinct (tile_ids d)" and "mset (map pl_id ps) = mset (tile_ids d)"
  shows "mset (map tile_content (arranged d ps)) = mset (map tile_content (dsh_tiles d))"
proof -
  let ?look = "\<lambda>i. the (dashboard_tile d i)"
  have "mset (map pl_id (sort_key reading_key ps)) = mset (map t_id (dsh_tiles d))"
    using assms(2) by simp
  then have "mset (map ?look (map pl_id (sort_key reading_key ps))) = mset (dsh_tiles d)"
    by (rule mset_lookup_all [OF assms(1)]) (simp add: dashboard_tile_mem [OF assms(1)])
  then have "mset (map tile_content (map ?look (map pl_id (sort_key reading_key ps)))) =
      mset (map tile_content (dsh_tiles d))"
    by (metis mset_map)
  then show ?thesis by (simp add: arranged_map [OF assms(2)] comp_def)
qed

lemma same_tiles_iff:
  assumes "distinct (map t_id ts)" and "mset (map tile_content us) = mset (map tile_content ts)"
  shows "length us \<le> length ts \<and> list_all (\<lambda>(old, t). same_place old t) (zip ts us) \<longleftrightarrow> us = ts"
proof
  have len: "length us = length ts" using assms(2) by (metis length_map mset_eq_length)
  assume "length us \<le> length ts \<and> list_all (\<lambda>(old, t). same_place old t) (zip ts us)"
  then have same: "same_place (ts ! k) (us ! k)" if "k < length ts" for k
    using that len by (auto simp: list_all_length)
  show "us = ts"
  proof (rule nth_equalityI [OF len])
    fix k assume k: "k < length us"
    have "tile_content (us ! k) \<in> tile_content ` set ts"
      using k assms(2) by (metis image_eqI list.set_map mset_eq_setD nth_mem)
    then obtain j where j: "j < length ts" "tile_content (us ! k) = tile_content (ts ! j)"
      by (metis (no_types, lifting) image_iff in_set_conv_nth)
    then have "t_id (ts ! j) = t_id (ts ! k)"
      using same [of k] k len by (simp add: same_place_def tile_content_def)
    then have "j = k"
      using assms(1) j(1) k len by (simp add: distinct_conv_nth) metis
    with j(2) same [of k] k len show "us ! k = ts ! k"
      by (simp add: same_place_def tile_content_def)
  qed
qed (auto simp: list_all_length same_place_def)

lemma set_layout_Inr:
  assumes "distinct (tile_ids d)"
  shows "set_layout ps now d = Inr (e, es) \<longleftrightarrow>
           layout_ok d ps \<and> e = d\<lparr>dsh_tiles := arranged d ps\<rparr> \<and>
           es = (if arranged d ps = dsh_tiles d then [] else [DashboardLayoutChanged (dsh_id d) now])"
proof -
  have perm: "\<not> (length ps \<noteq> length (dsh_tiles d) \<or>
      length (remdups (map pl_id ps)) \<noteq> length (dsh_tiles d) \<or>
      list_ex (\<lambda>t. t_id t \<notin> set (map pl_id ps)) (dsh_tiles d)) \<longleftrightarrow>
      mset (map pl_id ps) = mset (tile_ids d)"
    using permutation_of_ids [OF assms, of "map pl_id ps"] by (auto simp: list_ex_iff)
  have valid: "\<not> list_ex (\<lambda>p. \<not> is_valid_width (pl_width p) \<or>
      \<not> valid_tile_layout (pl_layout p) (pl_width p)) ps \<longleftrightarrow>
      (\<forall>p \<in> set ps. is_valid_width (pl_width p) \<and> valid_tile_layout (pl_layout p) (pl_width p))"
    by (auto simp: list_ex_iff)
  have unchanged: "length (arranged d ps) \<le> length (dsh_tiles d) \<and>
      list_all (\<lambda>(old, t). same_place old t) (zip (dsh_tiles d) (arranged d ps)) \<longleftrightarrow>
      arranged d ps = dsh_tiles d" if "mset (map pl_id ps) = mset (tile_ids d)"
    using assms arranged_contents [OF assms that] by (rule same_tiles_iff)
  show ?thesis
    unfolding set_layout_def Let_def layout_ok_def
    using perm valid unchanged some_overlap_iff [of ps] by (auto simp: ok_def err_def split: if_splits)
qed

lemma map_of_rev_distinct:
  assumes "distinct (map fst xs)"
  shows "map_of (rev xs) k = map_of xs k"
proof (cases "map_of xs k")
  case None
  then have "map_of (rev xs) k = None" unfolding map_of_eq_None_iff by simp
  with None show ?thesis by simp
next
  case (Some y)
  have "distinct (map fst (rev xs))" using assms by (simp add: rev_map [symmetric])
  then have "map_of (rev xs) k = Some y" using Some map_of_eq_Some_iff [OF assms] by simp
  with Some show ?thesis by simp
qed

lemma reorder_tiles_Inr:
  assumes "distinct (tile_ids d)"
  shows "reorder_tiles order now d = Inr (e, es) \<longleftrightarrow>
           mset order = mset (tile_ids d) \<and> order \<noteq> tile_ids d \<and>
           e = d\<lparr>dsh_tiles := map (\<lambda>i. without_layout (the (dashboard_tile d i))) order\<rparr> \<and>
           es = [TilesReordered (dsh_id d) order now]"
proof -
  have known: "find (\<lambda>i. \<not> list_ex (\<lambda>t. t_id t = i) (dsh_tiles d)) order = None \<longleftrightarrow>
      set order \<subseteq> set (tile_ids d)"
    by (auto simp: find_None_iff list_ex_iff)
  have same: "list_all2 (\<lambda>t i. t_id t = i) (dsh_tiles d) order \<longleftrightarrow> tile_ids d = order"
    by (auto simp: list_all2_conv_all_nth list_eq_iff_nth_eq)
  have look: "map_of (rev (map (\<lambda>t. (t_id t, t)) (dsh_tiles d))) i = dashboard_tile d i" for i
  proof -
    have "map_of (rev (map (\<lambda>t. (t_id t, t)) (dsh_tiles d))) i = map_of (map (\<lambda>t. (t_id t, t)) (dsh_tiles d)) i"
      using assms by (intro map_of_rev_distinct) (simp add: comp_def)
    moreover have "map_of (map (\<lambda>t. (t_id t, t)) ts) i = find (\<lambda>t. t_id t = i) ts" for ts :: "'a tile list"
      by (induction ts) auto
    ultimately show ?thesis by (simp add: dashboard_tile_def)
  qed
  have all: "List.map_filter (map_of (rev (map (\<lambda>t. (t_id t, t)) (dsh_tiles d)))) order =
      map (\<lambda>i. the (dashboard_tile d i)) order" if "set order \<subseteq> set (tile_ids d)"
    using that unfolding look
    by (intro map_filter_lookup) (auto simp: dashboard_tile_def find_tile_None)
  show ?thesis
    using permutation_of_ids' [OF assms, of order] known same all
    by (auto simp: reorder_tiles_def ok_def err_def Let_def split: option.splits if_splits)
qed

text \<open>A list with one element taken out and put back in another place.\<close>

definition moved_list :: "nat \<Rightarrow> nat \<Rightarrow> 'k list \<Rightarrow> 'k list" where
  "moved_list origin k xs =
     (let rest = take origin xs @ drop (Suc origin) xs in take k rest @ [xs ! origin] @ drop k rest)"

lemma moved_list_mset: "origin < length xs \<Longrightarrow> mset (moved_list origin k xs) = mset xs"
proof -
  assume f: "origin < length xs"
  have "mset (moved_list origin k xs) = add_mset (xs ! origin) (mset (take origin xs @ drop (Suc origin) xs))"
    unfolding moved_list_def Let_def
    by (metis (no_types, lifting) append_Cons append_Nil append_take_drop_id mset.simps(2)
        mset_append union_mset_add_mset_right)
  also have "\<dots> = mset (take origin xs @ xs ! origin # drop (Suc origin) xs)" by simp
  also have "take origin xs @ xs ! origin # drop (Suc origin) xs = xs"
    using f by (simp add: Cons_nth_drop_Suc)
  finally show ?thesis .
qed

lemma moved_list_nth:
  assumes "origin < length xs" "k < length xs"
  shows "moved_list origin k xs ! k = xs ! origin"
proof -
  have "length (take k (take origin xs @ drop (Suc origin) xs)) = k" using assms by simp
  then show ?thesis unfolding moved_list_def Let_def by (metis append_Cons nth_append_length)
qed

lemma moved_list_others:
  assumes "origin < length xs" "\<not> P (xs ! origin)"
  shows "filter P (moved_list origin k xs) = filter P xs"
proof -
  have "filter P (moved_list origin k xs) = filter P (take origin xs @ drop (Suc origin) xs)"
    using assms(2) unfolding moved_list_def Let_def
    by (metis append_take_drop_id filter.simps(2) filter_append append_Nil append_Cons)
  also have "\<dots> = filter P (take origin xs @ xs ! origin # drop (Suc origin) xs)"
    using assms(2) by simp
  also have "take origin xs @ xs ! origin # drop (Suc origin) xs = xs"
    using assms(1) by (simp add: Cons_nth_drop_Suc)
  finally show ?thesis .
qed

lemma moved_list_map:
  "origin < length xs \<Longrightarrow> map f (moved_list origin k xs) = moved_list origin k (map f xs)"
  by (simp add: moved_list_def Let_def take_map drop_map)

lemma move_tile_Inr:
  "move_tile i to_index now d = Inr (e, es) \<longleftrightarrow>
     (\<exists>origin k. tile_index (\<lambda>t. t_id t = i) (dsh_tiles d) = Some origin \<and> to_index = of_nat k \<and>
        k < length (dsh_tiles d) \<and> k \<noteq> origin \<and>
        e = d\<lparr>dsh_tiles := map without_layout (moved_list origin k (dsh_tiles d))\<rparr> \<and>
        es = [TileMoved (dsh_id d) i to_index now])" (is "?l \<longleftrightarrow> ?r")
proof
  assume ?l
  then obtain origin where f: "tile_index (\<lambda>t. t_id t = i) (dsh_tiles d) = Some origin"
    and int: "is_integer to_index" "0 \<le> to_index" "to_index < of_nat (length (dsh_tiles d))"
    and ne: "of_nat origin \<noteq> to_index"
    by (auto simp: move_tile_def ok_def err_def Let_def split: option.splits if_splits)
  define k where "k = nat \<lfloor>to_index\<rfloor>"
  have "of_int \<lfloor>to_index\<rfloor> = to_index" "0 \<le> \<lfloor>to_index\<rfloor>"
    using int(1) [unfolded is_integer_def] int(2) by (blast, simp)
  then have k: "to_index = of_nat k" by (metis k_def of_nat_nat)
  have "k < length (dsh_tiles d)" using int(3) unfolding k by simp
  moreover have "k \<noteq> origin" using ne k by auto
  moreover have "nat \<lfloor>to_index\<rfloor> = k" by (simp add: k_def)
  moreover have "move_tile i to_index now d =
      Inr (d\<lparr>dsh_tiles := map without_layout (moved_list origin (nat \<lfloor>to_index\<rfloor>) (dsh_tiles d))\<rparr>,
           [TileMoved (dsh_id d) i to_index now])"
    using f int ne by (simp add: move_tile_def moved_list_def ok_def Let_def)
  ultimately show ?r using \<open>?l\<close> f k by auto
next
  assume ?r
  then obtain origin k where "tile_index (\<lambda>t. t_id t = i) (dsh_tiles d) = Some origin"
    and "to_index = of_nat k" "k < length (dsh_tiles d)" "k \<noteq> origin"
    and "e = d\<lparr>dsh_tiles := map without_layout (moved_list origin k (dsh_tiles d))\<rparr>"
    and "es = [TileMoved (dsh_id d) i to_index now]"
    by blast
  then show ?l by (simp add: move_tile_def moved_list_def ok_def Let_def)
qed

section \<open>The invariant\<close>

definition tile_wf :: "'a tile \<Rightarrow> bool" where
  "tile_wf t = (js_trim (t_title t) \<noteq> [] \<and> is_valid_width (t_width t))"

definition dashboard_wf :: "'a dashboard \<Rightarrow> bool" where
  "dashboard_wf d =
     (dsh_name d \<noteq> [] \<and> js_trim (dsh_name d) = dsh_name d \<and>
      distinct (tile_ids d) \<and> length (dsh_tiles d) \<le> MAX_TILES \<and>
      list_all tile_wf (dsh_tiles d) \<and>
      (case dsh_share d of None \<Rightarrow> True | Some g \<Rightarrow> sg_dashboard g = dsh_id d))"

text \<open>Replacing the tiles by as many well-formed ones with the same ids, in any order.\<close>

lemma dashboard_wf_tiles:
  assumes "dashboard_wf d" and "mset (map t_id ts) = mset (tile_ids d)" and "list_all tile_wf ts"
  shows "dashboard_wf (d\<lparr>dsh_tiles := ts\<rparr>)"
  using assms mset_eq_length [OF assms(2)] mset_eq_imp_distinct_iff [OF assms(2)]
  by (simp add: dashboard_wf_def cong: option.case_cong)

lemma tile_wf_simps [simp]:
  "tile_wf (without_layout t) = tile_wf t"
  "tile_wf (with_width t w) \<longleftrightarrow> js_trim (t_title t) \<noteq> [] \<and> is_valid_width w"
  "tile_wf (place_tile p t) \<longleftrightarrow> js_trim (t_title t) \<noteq> [] \<and> is_valid_width (pl_width p)"
  by (simp_all add: tile_wf_def without_layout_def with_width_def place_tile_def)

lemma tile_wf_without_layout_comp [simp]: "tile_wf \<circ> without_layout = tile_wf"
  by (simp add: fun_eq_iff)

lemma t_id_without_layout_comp [simp]: "t_id \<circ> without_layout = t_id"
  by (simp add: fun_eq_iff)

lemma dashboard_wf_stripped:
  assumes wf: "dashboard_wf d" and m: "mset ts = mset (dsh_tiles d)"
  shows "dashboard_wf (d\<lparr>dsh_tiles := map without_layout ts\<rparr>)"
proof (rule dashboard_wf_tiles [OF wf])
  have "mset (map t_id ts) = mset (tile_ids d)" using m by (metis mset_map)
  then show "mset (map t_id (map without_layout ts)) = mset (tile_ids d)" by simp
  have "set ts = set (dsh_tiles d)" using m by (rule mset_eq_setD)
  then show "list_all tile_wf (map without_layout ts)"
    using wf by (simp add: dashboard_wf_def list_all_iff)
qed

lemma set_layout_wf:
  assumes wf: "dashboard_wf d" and "set_layout ps now d = Inr (e, es)"
  shows "dashboard_wf e"
proof -
  have dist: "distinct (tile_ids d)" using wf by (simp add: dashboard_wf_def)
  have layout: "layout_ok d ps" and e: "e = d\<lparr>dsh_tiles := arranged d ps\<rparr>"
    using assms(2) by (simp_all add: set_layout_Inr [OF dist])
  have perm: "mset (map pl_id ps) = mset (tile_ids d)" using layout by (simp add: layout_ok_def)
  have "mset (map t_id (arranged d ps)) = mset (tile_ids d)"
    unfolding arranged_ids [OF perm] using perm by simp
  moreover have "tile_wf (place_tile p (the (dashboard_tile d (pl_id p))))" if p: "p \<in> set ps" for p
  proof -
    obtain t where t: "t \<in> set (dsh_tiles d)" "dashboard_tile d (pl_id p) = Some t"
      by (rule arranged_tile [OF perm p])
    then have "js_trim (t_title t) \<noteq> []"
      using wf by (simp add: dashboard_wf_def list_all_iff tile_wf_def)
    with p t layout show ?thesis by (simp add: layout_ok_def)
  qed
  then have "list_all tile_wf (arranged d ps)"
    by (simp add: arranged_map [OF perm] list_all_iff)
  ultimately show ?thesis unfolding e by (rule dashboard_wf_tiles [OF wf])
qed

lemma move_tile_wf:
  assumes wf: "dashboard_wf d" and "move_tile i k now d = Inr (e, es)"
  shows "dashboard_wf e"
proof -
  obtain origin k where f: "tile_index (\<lambda>t. t_id t = i) (dsh_tiles d) = Some origin"
    and e: "e = d\<lparr>dsh_tiles := map without_layout (moved_list origin k (dsh_tiles d))\<rparr>"
    using assms(2) unfolding move_tile_Inr by blast
  have "mset (moved_list origin k (dsh_tiles d)) = mset (dsh_tiles d)"
    using tile_index_Some [OF f] by (simp add: moved_list_mset)
  then show ?thesis unfolding e by (rule dashboard_wf_stripped [OF wf])
qed

lemma reorder_tiles_wf:
  assumes wf: "dashboard_wf d" and "reorder_tiles order now d = Inr (e, es)"
  shows "dashboard_wf e"
proof -
  have dist: "distinct (tile_ids d)" using wf by (simp add: dashboard_wf_def)
  have perm: "mset order = mset (tile_ids d)"
    and e: "e = d\<lparr>dsh_tiles := map (\<lambda>i. without_layout (the (dashboard_tile d i))) order\<rparr>"
    using assms(2) by (simp_all add: reorder_tiles_Inr [OF dist])
  have "mset (map (\<lambda>i. the (dashboard_tile d i)) order) = mset (dsh_tiles d)"
    using dist perm by (rule mset_lookup_all) (rule dashboard_tile_mem [OF dist])
  from dashboard_wf_stripped [OF wf this] show ?thesis by (simp add: e comp_def)
qed

lemma dashboard_wf_map:
  assumes wf: "dashboard_wf d"
    and f: "\<And>x. x \<in> set (dsh_tiles d) \<Longrightarrow> t_id (f x) = t_id x \<and> tile_wf (f x)"
  shows "dashboard_wf (d\<lparr>dsh_tiles := map f (dsh_tiles d)\<rparr>)"
proof (rule dashboard_wf_tiles [OF wf])
  have "map t_id (map f (dsh_tiles d)) = tile_ids d" using f by simp
  then show "mset (map t_id (map f (dsh_tiles d))) = mset (tile_ids d)" by (rule arg_cong)
qed (use f in \<open>simp add: list_all_iff\<close>)

lemma exec_dashboard_wf:
  assumes wf: "dashboard_wf d" and ex: "exec_dashboard (c, now) d = Inr (e, es)"
  shows "dashboard_wf e"
proof (cases c)
  case (DshAdd t)
  with wf ex show ?thesis
    by (auto simp: dashboard_op_defs dashboard_wf_def tile_wf_def list_ex_iff
        split: if_splits option.splits) (metis (full_types))+
next
  case (DshUpdate t)
  then have e: "e = d\<lparr>dsh_tiles :=
      map (\<lambda>x. if t_id x = t_id t then (if t_width x = t_width t then t else without_layout t) else x)
        (dsh_tiles d)\<rparr>" and t: "tile_wf t"
    using ex by (auto simp: dashboard_op_defs tile_wf_def split: if_splits)
  show ?thesis
    unfolding e
    by (rule dashboard_wf_map [OF wf]) (use wf t in \<open>auto simp: dashboard_wf_def list_all_iff\<close>)
next
  case (DshResize i w)
  then have e: "e = d\<lparr>dsh_tiles := map (\<lambda>x. if t_id x = i then with_width x w else x) (dsh_tiles d)\<rparr>"
    and w: "is_valid_width w"
    using ex by (auto simp: dashboard_op_defs split: if_splits option.splits)
  show ?thesis
    unfolding e
    by (rule dashboard_wf_map [OF wf])
      (use wf w in \<open>auto simp: dashboard_wf_def list_all_iff with_width_def tile_wf_def\<close>)
next
  case (DshRemove i)
  with wf ex show ?thesis
    by (auto simp: dashboard_op_defs dashboard_wf_def list_all_iff distinct_map_filter
        intro: order_trans [OF length_filter_le] split: if_splits option.splits)
next
  case (DshLayout ps)
  with wf ex show ?thesis using set_layout_wf by simp
next
  case (DshMove i k)
  with wf ex show ?thesis using move_tile_wf by simp
next
  case (DshReorder order)
  with wf ex show ?thesis using reorder_tiles_wf by simp
next
  case (DshShare g)
  with wf ex show ?thesis by (auto simp: dashboard_op_defs dashboard_wf_def split: if_splits)
qed (use wf ex in \<open>auto simp: dashboard_op_defs dashboard_wf_def split: if_splits option.splits\<close>)

lemma exec_dashboard_about:
  assumes "exec_dashboard (c, now) d = Inr (e, es)"
  shows "dsh_id e = dsh_id d \<and> (\<forall>x \<in> set es. dashboard_event_about x = dsh_id d)"
proof (cases c)
  case (DshMove i k)
  with assms have "move_tile i k now d = Inr (e, es)" by simp
  then show ?thesis unfolding move_tile_Inr by auto
next
  case (DshLayout ps)
  with assms show ?thesis
    by (auto simp: set_layout_def dashboard_op_defs split: if_splits)
next
  case (DshReorder order)
  with assms show ?thesis
    by (auto simp: reorder_tiles_def dashboard_op_defs split: if_splits option.splits)
qed (use assms in \<open>auto simp: dashboard_op_defs split: if_splits option.splits\<close>)

text \<open>Only granting and withdrawing touch the share grant.\<close>

lemma exec_dashboard_share:
  assumes "exec_dashboard (c, now) d = Inr (e, es)"
  shows "dsh_share e = dsh_share d \<or> dsh_share e = None \<or>
         (\<exists>g. c = DshShare g \<and> dsh_share e = Some g)"
proof (cases c)
  case (DshMove i k)
  with assms have "move_tile i k now d = Inr (e, es)" by simp
  then show ?thesis unfolding move_tile_Inr by auto
next
  case (DshLayout ps)
  with assms show ?thesis
    by (auto simp: set_layout_def dashboard_op_defs split: if_splits)
next
  case (DshReorder order)
  with assms show ?thesis
    by (auto simp: reorder_tiles_def dashboard_op_defs split: if_splits option.splits)
qed (use assms in \<open>auto simp: dashboard_op_defs split: if_splits option.splits\<close>)

interpretation dsh: aggregate exec_dashboard dashboard_wf dsh_id dashboard_event_about
proof unfold_locales
  show "dashboard_wf e" if "dashboard_wf d" "exec_dashboard c d = Inr (e, es)"
    for c :: "'a dsh_command \<times> instant" and d e :: "'a dashboard" and es
    using that exec_dashboard_wf by (cases c) blast
  show "dsh_id e = dsh_id d" if "exec_dashboard c d = Inr (e, es)"
    for c :: "'a dsh_command \<times> instant" and d e :: "'a dashboard" and es
    using that exec_dashboard_about by (cases c) blast
  show "dashboard_event_about x = dsh_id d" if "exec_dashboard c d = Inr (e, es)" "x \<in> set es"
    for c :: "'a dsh_command \<times> instant" and d e :: "'a dashboard" and es x
    using that exec_dashboard_about by (cases c) blast
qed

section \<open>Rows\<close>

text \<open>
  What a greedy packing is, without an algorithm: rows in order, none empty, each within the
  twelve units, and each next tile starting a row only because it did not fit.
\<close>

definition row_width :: "'a tile list \<Rightarrow> rat" where
  "row_width row = sum_list (map t_width row)"

fun packed :: "'a tile list list \<Rightarrow> bool" where
  "packed [] = True"
| "packed (r # rs) =
     (r \<noteq> [] \<and> row_width r \<le> ROW_UNITS \<and>
      (case rs of [] \<Rightarrow> True | r' # _ \<Rightarrow> r' \<noteq> [] \<longrightarrow> ROW_UNITS < row_width r + t_width (hd r')) \<and>
      packed rs)"

lemma rows_loop_out: "rows_loop out row used ts = out @ rows_loop [] row used ts"
proof (induction ts arbitrary: out row used)
  case (Cons t ts)
  show ?case
    using Cons [of "out @ [row]" "[t]"] Cons [of "[row]" "[t]"] Cons [of out "row @ [t]"] by simp
qed simp

lemma rows_loop_hd:
  "row \<noteq> [] \<Longrightarrow> \<exists>rest more. rows_loop [] row used ts = (row @ rest) # more"
proof (induction ts arbitrary: row used)
  case (Cons t ts)
  then show ?case
    using rows_loop_out [of "[row]" "[t]"] Cons.IH [of "row @ [t]"] by fastforce
qed simp

lemma rows_loop_packed:
  assumes "\<forall>t \<in> set ts. 0 < t_width t \<and> t_width t \<le> ROW_UNITS"
    and "row \<noteq> []" "used = row_width row" "used \<le> ROW_UNITS"
  shows "packed (rows_loop [] row used ts) \<and> concat (rows_loop [] row used ts) = row @ ts"
  using assms
proof (induction ts arbitrary: row used)
  case (Cons t ts)
  show ?case
  proof (cases "used + t_width t > ROW_UNITS")
    case True
    have "packed (rows_loop [] [t] (t_width t) ts) \<and> concat (rows_loop [] [t] (t_width t) ts) = [t] @ ts"
      using Cons.prems by (intro Cons.IH) (simp_all add: row_width_def)
    moreover obtain rest more where "rows_loop [] [t] (t_width t) ts = ([t] @ rest) # more"
      using rows_loop_hd by blast
    ultimately show ?thesis
      using True Cons.prems rows_loop_out [of "[row]" "[t]" "t_width t" ts] by (simp add: row_width_def)
  next
    case False
    have "packed (rows_loop [] (row @ [t]) (used + t_width t) ts) \<and>
        concat (rows_loop [] (row @ [t]) (used + t_width t) ts) = (row @ [t]) @ ts"
      using Cons.prems False by (intro Cons.IH) (simp_all add: row_width_def)
    with False show ?thesis by simp
  qed
qed simp

lemma packed_unique:
  assumes "packed rs" "packed rs'" "concat rs = concat rs'"
    and "\<forall>t \<in> set (concat rs). 0 < t_width t"
  shows "rs = rs'"
  using assms
proof (induction rs arbitrary: rs')
  case Nil
  then show ?case by (cases rs') auto
next
  case (Cons r rs)
  then obtain r' rest where rs': "rs' = r' # rest" by (cases rs') auto
  have pos: "0 \<le> row_width xs" if "\<forall>t \<in> set xs. 0 < t_width t" for xs :: "'a tile list"
    using that by (induction xs) (auto simp: row_width_def)
  \<comment> \<open>A row that is longer than another over the same tiles would have overflowed.\<close>
  have longer: "False"
    if a: "packed (a # as)" and b: "packed (b # bs)" and c: "concat as = x # xs @ concat bs"
      and ext: "b = a @ x # xs" and w: "\<forall>t \<in> set (concat as). 0 < t_width t"
    for a b xs :: "'a tile list" and as bs :: "'a tile list list" and x :: "'a tile"
  proof -
    obtain a' as' where a': "as = a' # as'" "a' \<noteq> []" using a c by (cases as) auto
    have "hd a' = x" using c a' by (cases a') auto
    then have "ROW_UNITS < row_width a + t_width x" using a a' by simp
    moreover have "0 \<le> row_width xs" using c w by (intro pos) auto
    ultimately show False using b ext by (simp add: row_width_def)
  qed
  have all: "r @ concat rs = r' @ concat rest" using Cons.prems(3) rs' by simp
  then obtain us where "r = r' @ us \<and> us @ concat rs = concat rest \<or> r @ us = r' \<and> concat rs = us @ concat rest"
    unfolding append_eq_append_conv2 by blast
  then have us: "us = []"
  proof
    assume u: "r = r' @ us \<and> us @ concat rs = concat rest"
    show "us = []"
    proof (cases us)
      case (Cons x xs)
      have "False"
      proof (rule longer)
        show "packed (r' # rest)" using Cons.prems(2) rs' by simp
        show "packed (r # rs)" by fact
        show "concat rest = x # xs @ concat rs" "r = r' @ x # xs" using u Cons by simp_all
        have "set (concat rest) \<subseteq> set (concat (r # rs))" using all by (metis concat.simps(2) set_append sup_ge2)
        then show "\<forall>t \<in> set (concat rest). 0 < t_width t" using Cons.prems(4) by blast
      qed
      then show ?thesis ..
    qed
  next
    assume u: "r @ us = r' \<and> concat rs = us @ concat rest"
    show "us = []"
    proof (cases us)
      case (Cons x xs)
      have "False"
      proof (rule longer)
        show "packed (r # rs)" by fact
        show "packed (r' # rest)" using Cons.prems(2) rs' by simp
        show "concat rs = x # xs @ concat rest" "r' = r @ x # xs" using u Cons by simp_all
        show "\<forall>t \<in> set (concat rs). 0 < t_width t" using Cons.prems(4) by simp
      qed
      then show ?thesis ..
    qed
  qed
  have eq: "r = r'" "concat rs = concat rest"
    using \<open>r = r' @ us \<and> us @ concat rs = concat rest \<or> r @ us = r' \<and> concat rs = us @ concat rest\<close> us
    by auto
  have "packed rs" "packed rest" using Cons.prems(1,2) rs' by simp_all
  moreover have "\<forall>t \<in> set (concat rs). 0 < t_width t" using Cons.prems(4) by simp
  ultimately have "rs = rest" using Cons.IH eq(2) by blast
  with eq rs' show ?case by simp
qed

section \<open>Properties\<close>

text \<open>
  A dashboard created and driven by any commands keeps its invariant: a trimmed name, at
  most fifty tiles with distinct ids, each titled and between one and twelve units wide, and a
  share grant only for itself; every event names it.
\<close>

theorem dashboard_invariant:
  assumes "dashboard_create i w n t is_default = Inr (d, es)" and "run_cmds exec_dashboard cs d = (e, fs)"
  shows "dashboard_wf e \<and> dsh_id e = i \<and> (\<forall>x \<in> set (es @ fs). dashboard_event_about x = i)"
proof -
  have "dashboard_wf d" "dsh_id d = i" "\<forall>x \<in> set es. dashboard_event_about x = i"
    using assms(1) by (auto simp: dashboard_create_def dashboard_wf_def Let_def ok_def err_def split: if_splits)
  with dsh.run_sound [OF _ assms(2)] show ?thesis by auto
qed

theorem dashboard_invariant_witness:
  "let t = tile_of ''t'' ''Visits'' ''p'' () ViewNumber 6;
       cs = [(DshAdd t, 2), (DshAdd t, 3), (DshResize ''t'' 13, 4), (DshResize ''t'' 12, 5)]
   in \<exists>d es e fs. dashboard_create ''d'' ''w'' '' Main '' 1 False = Inr (d, es) \<and>
        run_cmds exec_dashboard cs d = (e, fs) \<and> length fs = 2 \<and> dashboard_wf e"
proof -
  let ?t = "tile_of ''t'' ''Visits'' ''p'' () ViewNumber 6"
  let ?cs = "[(DshAdd ?t, 2), (DshAdd ?t, 3), (DshResize ''t'' 13, 4), (DshResize ''t'' 12, 5)]"
  have run: "case dashboard_create ''d'' ''w'' '' Main '' 1 False of
          Inr (d, es) \<Rightarrow> length (snd (run_cmds exec_dashboard ?cs d)) = 2 | Inl _ \<Rightarrow> False"
    by code_simp
  then obtain d :: "unit dashboard" and es where
    c: "dashboard_create ''d'' ''w'' '' Main '' 1 False = Inr (d, es)"
    by (auto split: sum.splits)
  obtain e fs where r: "run_cmds exec_dashboard ?cs d = (e, fs)" by fastforce
  from dashboard_invariant [OF c r] run c r show ?thesis by (auto simp: Let_def)
qed

text \<open>
  Rows are the greedy packing and nothing else: for a dashboard in its invariant, the rows
  are the only division of its tiles, in order, into non-empty rows of at most twelve units in
  which a tile starts a row only when it did not fit the one before.
\<close>

theorem rows_are_the_greedy_packing:
  assumes "dashboard_wf d"
  shows "dashboard_rows d = rs \<longleftrightarrow> packed rs \<and> concat rs = dsh_tiles d"
proof -
  have w: "\<forall>t \<in> set (dsh_tiles d). 0 < t_width t \<and> t_width t \<le> ROW_UNITS"
    using assms by (auto simp: dashboard_wf_def list_all_iff tile_wf_def is_valid_width_def)
  have rows: "packed (dashboard_rows d) \<and> concat (dashboard_rows d) = dsh_tiles d"
  proof (cases "dsh_tiles d")
    case (Cons t ts)
    then show ?thesis
      using w rows_loop_packed [of ts "[t]" "t_width t"] by (simp add: dashboard_rows_def row_width_def)
  qed (simp add: dashboard_rows_def)
  show ?thesis
    using rows packed_unique [of "dashboard_rows d" rs] w by auto
qed

theorem rows_are_the_greedy_packing_witness:
  "let t = (\<lambda>i w. tile_of i ''T'' ''p'' () ViewNumber w);
       d = \<lparr> dsh_id = ''d'', dsh_workspace = ''w'', dsh_name = ''D'',
             dsh_tiles = [t ''a'' 8, t ''b'' 6, t ''c'' 6], dsh_is_default = False, dsh_share = None \<rparr>
   in dashboard_rows d = [[t ''a'' 8], [t ''b'' 6, t ''c'' 6]]"
proof -
  let ?t = "\<lambda>i w. tile_of i ''T'' ''p'' () ViewNumber w"
  let ?d = "\<lparr> dsh_id = ''d'', dsh_workspace = ''w'', dsh_name = ''D'',
             dsh_tiles = [?t ''a'' 8, ?t ''b'' 6, ?t ''c'' 6], dsh_is_default = False, dsh_share = None \<rparr>"
  have "dashboard_wf ?d" by code_simp
  from rows_are_the_greedy_packing [OF this, of "[[?t ''a'' 8], [?t ''b'' 6, ?t ''c'' 6]]"]
  show ?thesis unfolding Let_def by (simp add: row_width_def tile_of_def ROW_UNITS_def)
qed

text \<open>
  Rearranging never loses, duplicates or rewrites a tile: a move keeps what every tile asks,
  puts the tile at the position named and leaves the others in their order; a reorder is accepted
  exactly for a different order of the same tiles, and yields that order.
\<close>

theorem rearranging_keeps_every_tile:
  assumes "dashboard_wf d"
  shows "(move_tile i k now d = Inr (e, es) \<longrightarrow>
            mset (map tile_content (dsh_tiles e)) = mset (map tile_content (dsh_tiles d)) \<and>
            (\<exists>m. k = of_nat m \<and> m < length (dsh_tiles e) \<and> tile_ids e ! m = i) \<and>
            filter (\<lambda>x. x \<noteq> i) (tile_ids e) = filter (\<lambda>x. x \<noteq> i) (tile_ids d)) \<and>
         ((\<exists>e es. reorder_tiles order now d = Inr (e, es)) \<longleftrightarrow>
            mset order = mset (tile_ids d) \<and> order \<noteq> tile_ids d) \<and>
         (reorder_tiles order now d = Inr (e, es) \<longrightarrow>
            tile_ids e = order \<and>
            mset (map tile_content (dsh_tiles e)) = mset (map tile_content (dsh_tiles d)))"
proof (intro conjI)
  have dist: "distinct (tile_ids d)" using assms by (simp add: dashboard_wf_def)
  show "move_tile i k now d = Inr (e, es) \<longrightarrow>
      mset (map tile_content (dsh_tiles e)) = mset (map tile_content (dsh_tiles d)) \<and>
      (\<exists>m. k = of_nat m \<and> m < length (dsh_tiles e) \<and> tile_ids e ! m = i) \<and>
      filter (\<lambda>x. x \<noteq> i) (tile_ids e) = filter (\<lambda>x. x \<noteq> i) (tile_ids d)"
  proof
    assume "move_tile i k now d = Inr (e, es)"
    then obtain origin m where f: "tile_index (\<lambda>t. t_id t = i) (dsh_tiles d) = Some origin"
      and m: "k = of_nat m" "m < length (dsh_tiles d)"
      and e: "e = d\<lparr>dsh_tiles := map without_layout (moved_list origin m (dsh_tiles d))\<rparr>"
      unfolding move_tile_Inr by blast
    have o: "origin < length (dsh_tiles d)" "t_id (dsh_tiles d ! origin) = i"
      using tile_index_Some [OF f] by blast+
    have ids: "tile_ids e = moved_list origin m (tile_ids d)"
      using o(1) by (simp add: e moved_list_map [symmetric])
    have "mset (moved_list origin m (dsh_tiles d)) = mset (dsh_tiles d)"
      using o(1) by (rule moved_list_mset)
    then have "mset (map tile_content (moved_list origin m (dsh_tiles d))) = mset (map tile_content (dsh_tiles d))"
      by (metis mset_map)
    moreover have "map tile_content (dsh_tiles e) = map tile_content (moved_list origin m (dsh_tiles d))"
      by (simp add: e)
    moreover have "tile_ids e ! m = i"
      using o m(2) moved_list_nth [of origin "tile_ids d" m] unfolding ids by simp
    moreover have "length (tile_ids e) = length (dsh_tiles d)"
      using o(1) moved_list_mset [of origin "tile_ids d" m] unfolding ids
      by (metis length_map mset_eq_length)
    moreover have "filter (\<lambda>x. x \<noteq> i) (tile_ids e) = filter (\<lambda>x. x \<noteq> i) (tile_ids d)"
      unfolding ids using o by (intro moved_list_others) simp_all
    ultimately show "mset (map tile_content (dsh_tiles e)) = mset (map tile_content (dsh_tiles d)) \<and>
        (\<exists>m. k = of_nat m \<and> m < length (dsh_tiles e) \<and> tile_ids e ! m = i) \<and>
        filter (\<lambda>x. x \<noteq> i) (tile_ids e) = filter (\<lambda>x. x \<noteq> i) (tile_ids d)"
      using m by auto
  qed
  show "(\<exists>e es. reorder_tiles order now d = Inr (e, es)) \<longleftrightarrow>
      mset order = mset (tile_ids d) \<and> order \<noteq> tile_ids d"
    by (auto simp: reorder_tiles_Inr [OF dist])
  show "reorder_tiles order now d = Inr (e, es) \<longrightarrow>
      tile_ids e = order \<and>
      mset (map tile_content (dsh_tiles e)) = mset (map tile_content (dsh_tiles d))"
  proof
    assume "reorder_tiles order now d = Inr (e, es)"
    then have perm: "mset order = mset (tile_ids d)"
      and e: "e = d\<lparr>dsh_tiles := map (\<lambda>i. without_layout (the (dashboard_tile d i))) order\<rparr>"
      by (simp_all add: reorder_tiles_Inr [OF dist])
    let ?ts = "map (\<lambda>i. the (dashboard_tile d i)) order"
    have "mset ?ts = mset (dsh_tiles d)"
      using dist perm by (rule mset_lookup_all) (rule dashboard_tile_mem [OF dist])
    then have "mset (map tile_content ?ts) = mset (map tile_content (dsh_tiles d))" by (metis mset_map)
    moreover have "t_id (the (dashboard_tile d i)) = i" if "i \<in> set order" for i
    proof -
      have "i \<in> t_id ` set (dsh_tiles d)" using that mset_eq_setD [OF perm] by simp
      then show ?thesis using dashboard_tile_mem [OF dist] by auto
    qed
    ultimately show "tile_ids e = order \<and>
        mset (map tile_content (dsh_tiles e)) = mset (map tile_content (dsh_tiles d))"
      by (simp add: e comp_def map_idI)
  qed
qed

theorem rearranging_keeps_every_tile_witness:
  "let t = (\<lambda>i. tile_of i ''T'' ''p'' () ViewNumber 6);
       d = \<lparr> dsh_id = ''d'', dsh_workspace = ''w'', dsh_name = ''D'', dsh_tiles = [t ''a'', t ''b'', t ''c''],
             dsh_is_default = False, dsh_share = None \<rparr>
   in (\<exists>e es. reorder_tiles [''c'', ''a'', ''b''] 1 d = Inr (e, es)) \<and>
      \<not> (\<exists>e es. reorder_tiles [''c'', ''a''] 1 d = Inr (e, es)) \<and>
      (\<exists>e es. move_tile ''a'' 2 1 d = Inr (e, es) \<and> filter (\<lambda>x. x \<noteq> ''a'') (tile_ids e) = [''b'', ''c''])"
proof -
  let ?t = "\<lambda>i. tile_of i ''T'' ''p'' () ViewNumber 6"
  let ?d = "\<lparr> dsh_id = ''d'', dsh_workspace = ''w'', dsh_name = ''D'', dsh_tiles = [?t ''a'', ?t ''b'', ?t ''c''],
             dsh_is_default = False, dsh_share = None \<rparr>"
  have wf: "dashboard_wf ?d" by code_simp
  note facts = rearranging_keeps_every_tile [OF wf]
  have "is_ok (move_tile ''a'' 2 1 ?d)" by code_simp
  then obtain e es where m: "move_tile ''a'' 2 1 ?d = Inr (e, es)"
    by (auto simp: is_ok_def split: sum.splits)
  then have "filter (\<lambda>x. x \<noteq> ''a'') (tile_ids e) = filter (\<lambda>x. x \<noteq> ''a'') (tile_ids ?d)"
    using facts by blast
  then have "filter (\<lambda>x. x \<noteq> ''a'') (tile_ids e) = [''b'', ''c'']" by (simp add: tile_of_def)
  moreover have "\<exists>e es. reorder_tiles [''c'', ''a'', ''b''] 1 ?d = Inr (e, es)"
    using facts [of "''a''" 1 1 ?d "[]" "[''c'', ''a'', ''b'']"] by (simp add: tile_of_def)
  moreover have "\<not> (\<exists>e es. reorder_tiles [''c'', ''a''] 1 ?d = Inr (e, es))"
    using facts [of "''a''" 1 1 ?d "[]" "[''c'', ''a'']"] by (simp add: tile_of_def)
  ultimately show ?thesis using m unfolding Let_def by blast
qed

text \<open>
  A layout is all or nothing and means what it says: it is accepted exactly when it places
  every tile once, inside the grid and over no other; then each tile stands at its placement, in
  reading order, asking what it asked; and sending it again changes nothing and publishes nothing.
\<close>

theorem layout_is_exact:
  assumes "dashboard_wf d"
  shows "((\<exists>e es. set_layout ps now d = Inr (e, es)) \<longleftrightarrow> layout_ok d ps) \<and>
         (set_layout ps now d = Inr (e, es) \<longrightarrow>
            mset (map tile_content (dsh_tiles e)) = mset (map tile_content (dsh_tiles d)) \<and>
            map (\<lambda>t. (t_id t, t_width t, t_layout t)) (dsh_tiles e) =
              map (\<lambda>p. (pl_id p, pl_width p, Some (pl_layout p))) (sort_key reading_key ps) \<and>
            set_layout ps later e = Inr (e, []))"
proof (intro conjI impI)
  have dist: "distinct (tile_ids d)" using assms by (simp add: dashboard_wf_def)
  show "(\<exists>e es. set_layout ps now d = Inr (e, es)) \<longleftrightarrow> layout_ok d ps"
    by (simp add: set_layout_Inr [OF dist])
  assume "set_layout ps now d = Inr (e, es)"
  then have layout: "layout_ok d ps" and e: "e = d\<lparr>dsh_tiles := arranged d ps\<rparr>"
    by (simp_all add: set_layout_Inr [OF dist])
  have perm: "mset (map pl_id ps) = mset (tile_ids d)" using layout by (simp add: layout_ok_def)
  let ?at = "\<lambda>p. place_tile p (the (dashboard_tile d (pl_id p)))"
  have tiles: "dsh_tiles e = map ?at (sort_key reading_key ps)" by (simp add: e arranged_map [OF perm])
  show "mset (map tile_content (dsh_tiles e)) = mset (map tile_content (dsh_tiles d))"
    using arranged_contents [OF dist perm] by (simp add: e)
  have id: "t_id (?at p) = pl_id p" if "p \<in> set ps" for p
    by (rule arranged_tile [OF perm that]) (simp add: place_tile_def)
  then show "map (\<lambda>t. (t_id t, t_width t, t_layout t)) (dsh_tiles e) =
      map (\<lambda>p. (pl_id p, pl_width p, Some (pl_layout p))) (sort_key reading_key ps)"
    by (simp add: tiles) (simp add: place_tile_def)
  have eids: "tile_ids e = map pl_id (sort_key reading_key ps)"
    using arranged_ids [OF perm] by (simp add: e)
  then have perm': "mset (map pl_id ps) = mset (tile_ids e)" by simp
  then have dist': "distinct (tile_ids e)" using dist perm by (metis mset_eq_imp_distinct_iff)
  have "place_tile p (the (dashboard_tile e (pl_id p))) = ?at p" if p: "p \<in> set ps" for p
  proof -
    have "?at p \<in> set (dsh_tiles e)" using p by (simp add: tiles)
    from dashboard_tile_mem [OF dist' this] have "dashboard_tile e (pl_id p) = Some (?at p)"
      unfolding id [OF p] .
    then show ?thesis by (simp add: place_tile_def)
  qed
  then have "arranged e ps = dsh_tiles e" unfolding arranged_map [OF perm'] tiles by simp
  moreover have "layout_ok e ps" using layout perm' by (simp add: layout_ok_def)
  ultimately show "set_layout ps later e = Inr (e, [])" by (simp add: set_layout_Inr [OF dist'])
qed

theorem layout_is_exact_witness:
  "let t = (\<lambda>i. tile_of i ''T'' ''p'' () ViewNumber 6);
       d = \<lparr> dsh_id = ''d'', dsh_workspace = ''w'', dsh_name = ''D'', dsh_tiles = [t ''a'', t ''b''],
             dsh_is_default = False, dsh_share = None \<rparr>;
       at_xy = (\<lambda>i x y. \<lparr> pl_id = i, pl_width = 6, pl_layout = \<lparr> lay_x = x, lay_y = y, lay_height = 4 \<rparr> \<rparr>)
   in (\<exists>e es. set_layout [at_xy ''a'' 6 0, at_xy ''b'' 0 0] 1 d = Inr (e, es) \<and>
              tile_ids e = [''b'', ''a''] \<and>
              set_layout [at_xy ''a'' 6 0, at_xy ''b'' 0 0] 2 e = Inr (e, [])) \<and>
      \<not> (\<exists>e es. set_layout [at_xy ''a'' 5 0, at_xy ''b'' 0 0] 1 d = Inr (e, es))"
proof -
  let ?t = "\<lambda>i. tile_of i ''T'' ''p'' () ViewNumber 6"
  let ?d = "\<lparr> dsh_id = ''d'', dsh_workspace = ''w'', dsh_name = ''D'', dsh_tiles = [?t ''a'', ?t ''b''],
             dsh_is_default = False, dsh_share = None \<rparr>"
  let ?at = "\<lambda>i x y. \<lparr> pl_id = i, pl_width = 6, pl_layout = \<lparr> lay_x = x, lay_y = y, lay_height = 4 \<rparr> \<rparr>"
  let ?good = "[?at ''a'' 6 0, ?at ''b'' 0 0]"
  let ?bad = "[?at ''a'' 5 0, ?at ''b'' 0 0]"
  have wf: "dashboard_wf ?d" by code_simp
  note facts = layout_is_exact [OF wf]
  have run: "case set_layout ?good 1 ?d of Inr (e, es) \<Rightarrow> tile_ids e = [''b'', ''a''] | Inl _ \<Rightarrow> False"
    by code_simp
  then obtain e es where good: "set_layout ?good 1 ?d = Inr (e, es)"
    by (auto split: sum.splits)
  from good have again: "set_layout ?good 2 e = Inr (e, [])" using facts by blast
  have ids: "tile_ids e = [''b'', ''a'']" using run unfolding good by simp
  have "\<not> layout_ok ?d ?bad" by (simp add: layout_ok_def overlap_def)
  then have bad: "\<not> (\<exists>e es. set_layout ?bad 1 ?d = Inr (e, es))" using facts by blast
  show ?thesis unfolding Let_def by (intro conjI exI) (rule good ids again bad)+
qed

text \<open>
  A share link is one, dies with its replacement, its withdrawal and its date, and opens its
  own dashboard only: reading succeeds exactly with the digest of the grant in place before it
  expires; and a digest that is not in place opens nothing after any commands that do not grant
  it again, whatever the instant.
\<close>

theorem share_link_is_one_and_revocable:
  assumes "dashboard_wf d"
  shows "(authorize_share_read digest now d = Inr g \<longleftrightarrow>
            dsh_share d = Some g \<and> sg_digest g = digest \<and> now < sg_expires_at g) \<and>
         (map_option sg_digest (dsh_share d) \<noteq> Some digest \<and>
          (\<forall>g t. (DshShare g, t) \<in> set cs \<longrightarrow> sg_digest g \<noteq> digest) \<and>
          run_cmds exec_dashboard cs d = (e, es) \<longrightarrow>
            authorize_share_read digest later e = Inl NotShared)"
proof (intro conjI impI)
  show "authorize_share_read digest now d = Inr g \<longleftrightarrow>
      dsh_share d = Some g \<and> sg_digest g = digest \<and> now < sg_expires_at g"
    using assms by (auto simp: authorize_share_read_def dashboard_wf_def is_after_def ok_def err_def
        split: option.splits if_splits)
  assume "map_option sg_digest (dsh_share d) \<noteq> Some digest \<and>
      (\<forall>g t. (DshShare g, t) \<in> set cs \<longrightarrow> sg_digest g \<noteq> digest) \<and>
      run_cmds exec_dashboard cs d = (e, es)"
  then have "map_option sg_digest (dsh_share e) \<noteq> Some digest \<and> dashboard_wf e"
    using assms
  proof (induction cs arbitrary: d es)
    case (Cons c cs)
    obtain x t where c: "c = (x, t)" by fastforce
    have g: "\<forall>g t. (DshShare g, t) \<in> set cs \<longrightarrow> sg_digest g \<noteq> digest"
      using Cons.prems(1) by simp
    show ?case
    proof (cases "exec_dashboard (x, t) d")
      case (Inl y)
      then have "run_cmds exec_dashboard cs d = (e, es)" using Cons.prems(1) c by simp
      with Cons.prems g show ?thesis by (intro Cons.IH [OF conjI [OF _ conjI [OF g]]]) blast+
    next
      case (Inr r)
      obtain d' fs where r: "exec_dashboard (x, t) d = Inr (d', fs)" using Inr by (cases r) auto
      have a: "map_option sg_digest (dsh_share d') \<noteq> Some digest"
      proof -
        have now: "map_option sg_digest (dsh_share d) \<noteq> Some digest" using Cons.prems(1) by (rule conjunct1)
        have "sg_digest g \<noteq> digest" if "x = DshShare g" for g
          using Cons.prems(1) c that by simp
        with now exec_dashboard_share [OF r] show ?thesis by (elim disjE exE conjE) simp_all
      qed
      obtain gs where b: "run_cmds exec_dashboard cs d' = (e, gs)"
        using Cons.prems(1) r c by (auto split: prod.splits)
      show ?thesis
        by (rule Cons.IH [OF conjI [OF a conjI [OF g b]] exec_dashboard_wf [OF Cons.prems(2) r]])
    qed
  qed simp
  then show "authorize_share_read digest later e = Inl NotShared"
    by (auto simp: authorize_share_read_def dashboard_wf_def err_def split: option.splits)
qed

theorem share_link_is_one_and_revocable_witness:
  "let d = \<lparr> dsh_id = ''d'', dsh_workspace = ''w'', dsh_name = ''D'',
             dsh_tiles = ([] :: unit tile list), dsh_is_default = False,
             dsh_share = Some \<lparr> sg_dashboard = ''d'', sg_digest = ''old'', sg_expires_at = 100 \<rparr> \<rparr>;
       new = \<lparr> sg_dashboard = ''d'', sg_digest = ''new'', sg_expires_at = 100 \<rparr>
   in \<exists>d' es. grant_share new 5 d = Inr (d', es) \<and>
        (\<exists>g. authorize_share_read ''old'' 5 d = Inr g) \<and>
        (\<exists>e es. run_cmds exec_dashboard [(DshUnshare, 7), (DshRename ''E'', 8)] d' = (e, es) \<and>
             authorize_share_read ''old'' 9 e = Inl NotShared)"
proof -
  let ?d = "\<lparr> dsh_id = ''d'', dsh_workspace = ''w'', dsh_name = ''D'',
             dsh_tiles = ([] :: unit tile list), dsh_is_default = False,
             dsh_share = Some \<lparr> sg_dashboard = ''d'', sg_digest = ''old'', sg_expires_at = 100 \<rparr> \<rparr>"
  let ?g = "\<lparr> sg_dashboard = ''d'', sg_digest = ''new'', sg_expires_at = 100 \<rparr>"
  let ?cs = "[(DshUnshare, 7), (DshRename ''E'', 8)] :: (unit dsh_command \<times> instant) list"
  have wf: "dashboard_wf ?d" "dashboard_wf (?d\<lparr>dsh_share := Some ?g\<rparr>)" by code_simp+
  have new: "grant_share ?g 5 ?d = Inr (?d\<lparr>dsh_share := Some ?g\<rparr>, [DashboardShared ''d'' 100 5])"
    by (simp add: grant_share_def is_after_def ok_def)
  have old: "authorize_share_read ''old'' 5 ?d =
      Inr \<lparr> sg_dashboard = ''d'', sg_digest = ''old'', sg_expires_at = 100 \<rparr>"
    using share_link_is_one_and_revocable [OF wf(1), of "''old''" 5] by simp
  obtain e es where r: "run_cmds exec_dashboard ?cs (?d\<lparr>dsh_share := Some ?g\<rparr>) = (e, es)" by fastforce
  then have dead: "authorize_share_read ''old'' 9 e = Inl NotShared"
    using share_link_is_one_and_revocable [OF wf(2), of "''old''" 5 _ ?cs e es 9] by simp
  show ?thesis unfolding Let_def by (intro exI conjI) (rule new old r dead)+
qed

end
