(* ===== verification/DashboardUse.thy ===== *)
theory DashboardUse
  imports Dashboard
begin

text \<open>
  The dashboard use cases, packages/dashboarding/app/src/dashboards.ts, over the repository of
  packages/dashboarding/ports/src/dashboard-repository.ts. The repository is a parameter: a
  record of its operations on a state of its own; the locale \<open>dashboard_repository\<close> states what
  the use cases rely on, and is interpreted on the in-memory repository of
  packages/dashboarding/app/src/test-support.ts. Instants, ids and tokens drawn from the ports
  are arguments, one for each time the code draws one.
\<close>

section \<open>The repository\<close>

record ('st, 'a) dashboard_repo =
  repo_find :: "dashboard_id \<Rightarrow> 'st \<Rightarrow> 'a dashboard option"
  repo_find_by_digest :: "string \<Rightarrow> 'st \<Rightarrow> 'a dashboard option"
  repo_find_default :: "workspace_id \<Rightarrow> 'st \<Rightarrow> 'a dashboard option"
  repo_save :: "'a dashboard \<Rightarrow> dashboard_event list \<Rightarrow> 'st \<Rightarrow> 'st"
  repo_delete :: "dashboard_id \<Rightarrow> 'st \<Rightarrow> 'st"

section \<open>The use cases\<close>

definition load_dashboard ::
  "('st, 'a) dashboard_repo \<Rightarrow> dashboard_id \<Rightarrow> 'st \<Rightarrow> dashboard_error + 'a dashboard" where
  "load_dashboard repo i st =
     (case repo_find repo i st of None \<Rightarrow> err (NoSuchDashboard i) | Some d \<Rightarrow> ok d)"

definition commit_dashboard ::
  "('st, 'a) dashboard_repo \<Rightarrow> dashboard_error + 'a dashboard_applied \<Rightarrow> 'st \<Rightarrow>
     'st \<times> (dashboard_error + 'a dashboard)" where
  "commit_dashboard repo applied st =
     (case applied of
        Inl e \<Rightarrow> (st, Inl e)
      | Inr (d, es) \<Rightarrow> (repo_save repo d es st, ok d))"

text \<open>Load, run one command, save: the shape of every use case on one dashboard.\<close>

definition on_dashboard ::
  "('st, 'a) dashboard_repo \<Rightarrow> dashboard_id \<Rightarrow>
     ('a dashboard \<Rightarrow> dashboard_error + 'a dashboard_applied) \<Rightarrow> 'st \<Rightarrow>
     'st \<times> (dashboard_error + 'a dashboard)" where
  "on_dashboard repo i command st =
     (case load_dashboard repo i st of
        Inl e \<Rightarrow> (st, Inl e)
      | Inr d \<Rightarrow> commit_dashboard repo (command d) st)"

definition clear_existing_default ::
  "('st, 'a) dashboard_repo \<Rightarrow> workspace_id \<Rightarrow> instant \<Rightarrow> 'st \<Rightarrow> 'st \<times> (dashboard_error + unit)" where
  "clear_existing_default repo w now st =
     (case repo_find_default repo w st of
        None \<Rightarrow> (st, ok ())
      | Some current \<Rightarrow>
          (case clear_default now current of
             Inl e \<Rightarrow> (st, Inl e)
           | Inr (d, es) \<Rightarrow> (repo_save repo d es st, ok ())))"

definition create_dashboard ::
  "('st, 'a) dashboard_repo \<Rightarrow> dashboard_id \<Rightarrow> workspace_id \<Rightarrow> string \<Rightarrow> bool \<Rightarrow> instant \<Rightarrow> instant \<Rightarrow>
     'st \<Rightarrow> 'st \<times> (dashboard_error + 'a dashboard)" where
  "create_dashboard repo fresh w name make_default now later st =
     (case dashboard_create fresh w name now make_default of
        Inl e \<Rightarrow> (st, Inl e)
      | Inr (d, es) \<Rightarrow>
          (if make_default
           then (case clear_existing_default repo w later st of
                   (st', Inl e) \<Rightarrow> (st', Inl e)
                 | (st', Inr _) \<Rightarrow> (repo_save repo d es st', ok d))
           else (repo_save repo d es st, ok d)))"

definition rename_dashboard_use where
  "rename_dashboard_use repo i name now = on_dashboard repo i (rename_dashboard name now)"

definition delete_dashboard ::
  "('st, 'a) dashboard_repo \<Rightarrow> dashboard_id \<Rightarrow> 'st \<Rightarrow> 'st \<times> (dashboard_error + unit)" where
  "delete_dashboard repo i st =
     (case load_dashboard repo i st of
        Inl e \<Rightarrow> (st, Inl e)
      | Inr _ \<Rightarrow> (repo_delete repo i st, ok ()))"

definition set_default_dashboard ::
  "('st, 'a) dashboard_repo \<Rightarrow> dashboard_id \<Rightarrow> instant \<Rightarrow> instant \<Rightarrow> 'st \<Rightarrow>
     'st \<times> (dashboard_error + 'a dashboard)" where
  "set_default_dashboard repo i now later st =
     (case load_dashboard repo i st of
        Inl e \<Rightarrow> (st, Inl e)
      | Inr d \<Rightarrow>
          if dsh_is_default d then (st, err DefaultUnchanged)
          else (case clear_existing_default repo (dsh_workspace d) now st of
                  (st', Inl e) \<Rightarrow> (st', Inl e)
                | (st', Inr _) \<Rightarrow> commit_dashboard repo (mark_default later d) st'))"

definition add_tile_use ::
  "('st, 'a) dashboard_repo \<Rightarrow> dashboard_id \<Rightarrow> tile_id \<Rightarrow> string \<Rightarrow> project_id \<Rightarrow> 'a \<Rightarrow> tile_view \<Rightarrow>
     rat \<Rightarrow> instant \<Rightarrow> 'st \<Rightarrow> 'st \<times> (dashboard_error + 'a dashboard)" where
  "add_tile_use repo i fresh title project analysis view width now =
     on_dashboard repo i (add_tile (tile_of fresh title project analysis view width) now)"

record 'a tile_patch =
  patch_title :: "string option"
  patch_project :: "project_id option"
  patch_analysis :: "'a option"
  patch_view :: "tile_view option"
  patch_width :: "rat option"

definition patched :: "'a tile_patch \<Rightarrow> 'a tile \<Rightarrow> 'a tile" where
  "patched p t =
     t\<lparr>t_title := (case patch_title p of None \<Rightarrow> t_title t | Some x \<Rightarrow> x),
       t_project := (case patch_project p of None \<Rightarrow> t_project t | Some x \<Rightarrow> x),
       t_analysis := (case patch_analysis p of None \<Rightarrow> t_analysis t | Some x \<Rightarrow> x),
       t_view := (case patch_view p of None \<Rightarrow> t_view t | Some x \<Rightarrow> x),
       t_width := (case patch_width p of None \<Rightarrow> t_width t | Some x \<Rightarrow> x)\<rparr>"

definition update_tile_use ::
  "('st, 'a) dashboard_repo \<Rightarrow> dashboard_id \<Rightarrow> tile_id \<Rightarrow> 'a tile_patch \<Rightarrow> instant \<Rightarrow> 'st \<Rightarrow>
     'st \<times> (dashboard_error + 'a dashboard)" where
  "update_tile_use repo i tile p now =
     on_dashboard repo i
       (\<lambda>d. case dashboard_tile d tile of
              None \<Rightarrow> err (NoSuchTile tile)
            | Some existing \<Rightarrow> update_tile (patched p existing) now d)"

definition resize_tile_use where
  "resize_tile_use repo i tile width now = on_dashboard repo i (resize_tile tile width now)"

definition move_tile_use where
  "move_tile_use repo i tile position now = on_dashboard repo i (move_tile tile position now)"

definition reorder_tiles_use where
  "reorder_tiles_use repo i order now = on_dashboard repo i (reorder_tiles order now)"

definition remove_tile_use where
  "remove_tile_use repo i tile now = on_dashboard repo i (remove_tile tile now)"

definition set_dashboard_layout where
  "set_dashboard_layout repo i placements now = on_dashboard repo i (set_layout placements now)"

definition share_dashboard ::
  "('st, 'a) dashboard_repo \<Rightarrow> dashboard_id \<Rightarrow> duration \<Rightarrow> instant \<Rightarrow> string \<times> string \<Rightarrow> 'st \<Rightarrow>
     'st \<times> (dashboard_error + 'a dashboard \<times> string)" where
  "share_dashboard repo i ttl now minted st =
     (case load_dashboard repo i st of
        Inl e \<Rightarrow> (st, Inl e)
      | Inr d \<Rightarrow>
          (let (token, digest) = minted;
               g = \<lparr> sg_dashboard = i, sg_digest = digest, sg_expires_at = instant_plus now ttl \<rparr>
           in case grant_share g now d of
                Inl e \<Rightarrow> (st, Inl e)
              | Inr (d', es) \<Rightarrow> (repo_save repo d' es st, ok (d', token))))"

definition unshare_dashboard where
  "unshare_dashboard repo i now = on_dashboard repo i (unshare now)"

definition resolve_share ::
  "('st, 'a) dashboard_repo \<Rightarrow> (string \<Rightarrow> string) \<Rightarrow> string \<Rightarrow> instant \<Rightarrow> 'st \<Rightarrow>
     dashboard_error + 'a dashboard" where
  "resolve_share repo digest token now st =
     (case repo_find_by_digest repo (digest token) st of
        None \<Rightarrow> err NotShared
      | Some found \<Rightarrow>
          (case authorize_share_read (digest token) now found of
             Inl e \<Rightarrow> Inl e
           | Inr _ \<Rightarrow> ok found))"

lemmas dashboard_use_defs =
  rename_dashboard_use_def add_tile_use_def update_tile_use_def resize_tile_use_def
  move_tile_use_def reorder_tiles_use_def remove_tile_use_def set_dashboard_layout_def
  unshare_dashboard_def

section \<open>The in-memory repository\<close>

text \<open>
  \<open>rows\<close> is a \<open>Map\<close> in insertion order: setting a key that is present keeps its place. The
  misfiled digests of its tests point a digest at any dashboard.
\<close>

record 'a memory_dashboards =
  mem_rows :: "(dashboard_id \<times> 'a dashboard) list"
  mem_digests :: "(string \<times> dashboard_id) list"
  mem_saved :: "(dashboard_id \<times> dashboard_event list) list"

definition memory_repo :: "('a memory_dashboards, 'a) dashboard_repo" where
  "memory_repo =
     \<lparr> repo_find = (\<lambda>i st. map_of (mem_rows st) i),
       repo_find_by_digest = (\<lambda>digest st.
         case map_of (mem_digests st) digest of
           Some misfiled \<Rightarrow> map_of (mem_rows st) misfiled
         | None \<Rightarrow> find (\<lambda>d. map_option sg_digest (dsh_share d) = Some digest) (map snd (mem_rows st))),
       repo_find_default = (\<lambda>w st. find (\<lambda>d. dsh_workspace d = w \<and> dsh_is_default d) (map snd (mem_rows st))),
       repo_save = (\<lambda>d es st. st\<lparr>mem_rows := map_put (dsh_id d) d (mem_rows st),
                                mem_saved := mem_saved st @ [(dsh_id d, es)]\<rparr>),
       repo_delete = (\<lambda>i st. st\<lparr>mem_rows := filter (\<lambda>(k, v). k \<noteq> i) (mem_rows st)\<rparr>) \<rparr>"

text \<open>What the rows of a \<open>Map\<close> keyed by the dashboards' ids satisfy.\<close>

definition memory_wf :: "'a memory_dashboards \<Rightarrow> bool" where
  "memory_wf st \<longleftrightarrow>
     distinct (map fst (mem_rows st)) \<and> list_all (\<lambda>(k, d). k = dsh_id d) (mem_rows st)"

section \<open>What the use cases rely on\<close>

text \<open>
  Reading back what was saved, deletion, and a default that is one of the workspace's. Nothing
  is assumed of the lookup by digest: the aggregate checks its answer.
\<close>

locale dashboard_repository =
  fixes repo :: "('st, 'a) dashboard_repo" and wf :: "'st \<Rightarrow> bool"
  assumes wf_save: "wf st \<Longrightarrow> wf (repo_save repo d es st)"
    and wf_delete: "wf st \<Longrightarrow> wf (repo_delete repo i st)"
    and find_save: "wf st \<Longrightarrow>
          repo_find repo i (repo_save repo d es st) = (if i = dsh_id d then Some d else repo_find repo i st)"
    and find_delete: "wf st \<Longrightarrow>
          repo_find repo i (repo_delete repo j st) = (if i = j then None else repo_find repo i st)"
    and find_ident: "wf st \<Longrightarrow> repo_find repo i st = Some d \<Longrightarrow> dsh_id d = i"
    and default_Some: "wf st \<Longrightarrow> repo_find_default repo w st = Some d \<Longrightarrow>
          repo_find repo (dsh_id d) st = Some d \<and> dsh_workspace d = w \<and> dsh_is_default d"
    and default_None: "wf st \<Longrightarrow> repo_find_default repo w st = None \<Longrightarrow>
          repo_find repo i st = Some d \<Longrightarrow> dsh_workspace d = w \<Longrightarrow> \<not> dsh_is_default d"

interpretation mem: dashboard_repository memory_repo memory_wf
proof unfold_locales
  fix st :: "'a memory_dashboards"
  assume wf: "memory_wf st"
  have row: "map_of (mem_rows st) i = Some d \<longleftrightarrow> d \<in> snd ` set (mem_rows st) \<and> dsh_id d = i" for i d
  proof -
    have "distinct (map fst (mem_rows st))" using wf by (simp add: memory_wf_def)
    then have "map_of (mem_rows st) i = Some d \<longleftrightarrow> (i, d) \<in> set (mem_rows st)"
      by (rule map_of_eq_Some_iff)
    also have "\<dots> \<longleftrightarrow> d \<in> snd ` set (mem_rows st) \<and> dsh_id d = i"
    proof -
      have key: "k = dsh_id v" if "(k, v) \<in> set (mem_rows st)" for k v
        using wf that by (auto simp: memory_wf_def list_all_iff)
      show ?thesis
      proof
        assume m: "(i, d) \<in> set (mem_rows st)"
        then have "d \<in> snd ` set (mem_rows st)" by (metis image_eqI snd_conv)
        with key [OF m] show "d \<in> snd ` set (mem_rows st) \<and> dsh_id d = i" by simp
      next
        assume "d \<in> snd ` set (mem_rows st) \<and> dsh_id d = i"
        then obtain k where m: "(k, d) \<in> set (mem_rows st)" and i: "dsh_id d = i" by auto
        from m key [OF m] i show "(i, d) \<in> set (mem_rows st)" by simp
      qed
    qed
    finally show ?thesis .
  qed
  show "memory_wf (repo_save memory_repo d es st)" for d es
    using wf by (simp add: memory_repo_def memory_wf_def distinct_map_put list_all_map_put)
  show "memory_wf (repo_delete memory_repo i st)" for i
    using wf by (simp add: memory_repo_def memory_wf_def list_all_iff distinct_map_filter)
  show "repo_find memory_repo i (repo_save memory_repo d es st) =
      (if i = dsh_id d then Some d else repo_find memory_repo i st)" for i d es
    by (simp add: memory_repo_def map_of_map_put)
  show "repo_find memory_repo i (repo_delete memory_repo j st) =
      (if i = j then None else repo_find memory_repo i st)" for i j
  proof -
    have "map_of (filter (\<lambda>(k, v). k \<noteq> j) kvs) i = (if i = j then None else map_of kvs i)"
      for kvs :: "(dashboard_id \<times> 'a dashboard) list"
      by (induction kvs) auto
    then show ?thesis by (simp add: memory_repo_def)
  qed
  show "dsh_id d = i" if "repo_find memory_repo i st = Some d" for i d
    using that row by (simp add: memory_repo_def)
  show "repo_find memory_repo (dsh_id d) st = Some d \<and> dsh_workspace d = w \<and> dsh_is_default d"
    if "repo_find_default memory_repo w st = Some d" for w d
    using that row find_Some_iff_mem [of _ "map snd (mem_rows st)" d] by (fastforce simp: memory_repo_def)
  show "\<not> dsh_is_default d"
    if "repo_find_default memory_repo w st = None" "repo_find memory_repo i st = Some d"
      "dsh_workspace d = w" for w i d
    using that row by (auto simp: memory_repo_def find_None_iff_all)
qed

section \<open>The grid\<close>

text \<open>Tiles that stand on the grid stand inside it and over no other.\<close>

definition placement_of :: "'a tile \<Rightarrow> tile_layout \<Rightarrow> tile_placement" where
  "placement_of t l = \<lparr> pl_id = t_id t, pl_width = t_width t, pl_layout = l \<rparr>"

definition tiles_overlap :: "'a tile \<Rightarrow> 'a tile \<Rightarrow> bool" where
  "tiles_overlap t u =
     (case (t_layout t, t_layout u) of
        (Some l, Some k) \<Rightarrow> overlap (placement_of t l) (placement_of u k)
      | _ \<Rightarrow> False)"

definition inside_grid :: "'a tile \<Rightarrow> bool" where
  "inside_grid t = (case t_layout t of None \<Rightarrow> True | Some l \<Rightarrow> valid_tile_layout l (t_width t))"

definition grid_ok :: "'a tile list \<Rightarrow> bool" where
  "grid_ok ts = (list_all inside_grid ts \<and> sorted_wrt (\<lambda>t u. \<not> tiles_overlap t u) ts)"

text \<open>Taking tiles off the grid, where they stand otherwise as before, leaves it sound.\<close>

definition lifted :: "'a tile \<Rightarrow> 'a tile \<Rightarrow> bool" where
  "lifted t u = (t_layout u = None \<or> (t_layout u = t_layout t \<and> t_width u = t_width t))"

lemma grid_ok_map:
  assumes "grid_ok ts" and f: "\<And>t. t \<in> set ts \<Longrightarrow> lifted t (f t)"
  shows "grid_ok (map f ts)"
proof -
  have inside: "inside_grid t \<Longrightarrow> lifted t u \<Longrightarrow> inside_grid u" for t u :: "'a tile"
    unfolding inside_grid_def lifted_def by (cases "t_layout u"; cases "t_layout t") simp_all
  have apart: "\<not> tiles_overlap t' u'"
    if "\<not> tiles_overlap t u" and t: "lifted t t'" and u: "lifted u u'" for t u t' u' :: "'a tile"
  proof
    assume "tiles_overlap t' u'"
    then obtain l k where l: "t_layout t' = Some l" and k: "t_layout u' = Some k"
      and o: "overlap (placement_of t' l) (placement_of u' k)"
      by (auto simp: tiles_overlap_def split: option.splits)
    from t u l k have "t_layout t = Some l" "t_width t' = t_width t" "t_layout u = Some k" "t_width u' = t_width u"
      by (auto simp: lifted_def)
    with o that(1) show False by (simp add: tiles_overlap_def placement_of_def overlap_def)
  qed
  show ?thesis
    using assms(1) f
  proof (induction ts)
    case (Cons t ts)
    then have "grid_ok (map f ts)" by (simp add: grid_ok_def)
    moreover have "\<not> tiles_overlap (f t) (f u)" if "u \<in> set ts" for u
      by (rule apart [of t u]) (use Cons.prems that in \<open>simp_all add: grid_ok_def\<close>)
    moreover have "inside_grid (f t)"
      by (rule inside [of t]) (use Cons.prems in \<open>simp_all add: grid_ok_def\<close>)
    ultimately show ?case by (auto simp: grid_ok_def)
  qed (simp add: grid_ok_def)
qed

lemma sorted_wrt_filter_keeps: "sorted_wrt R xs \<Longrightarrow> sorted_wrt R (filter P xs)"
  by (induction xs) auto

lemma grid_ok_filter: "grid_ok ts \<Longrightarrow> grid_ok (filter P ts)"
  by (simp add: grid_ok_def list_all_iff sorted_wrt_filter_keeps)

lemma grid_ok_without_layout [simp]: "grid_ok (map without_layout ts)"
proof -
  have none: "t_layout (without_layout t) = None" for t :: "'a tile"
    by (simp add: without_layout_def)
  then have "list_all inside_grid (map without_layout ts)" by (simp add: list_all_iff inside_grid_def)
  moreover have "sorted_wrt (\<lambda>t u. \<not> tiles_overlap t u) (map without_layout ts)"
    by (rule sorted_wrt_mono_rel [of _ "\<lambda>t u. True"]) (auto simp: tiles_overlap_def none)
  ultimately show ?thesis by (simp add: grid_ok_def)
qed

lemma sorted_wrt_symmetric_perm:
  assumes sym: "\<And>x y. R x y \<Longrightarrow> R y x"
  shows "mset xs = mset ys \<Longrightarrow> sorted_wrt R xs \<Longrightarrow> sorted_wrt R ys"
proof (induction xs arbitrary: ys)
  case (Cons x xs)
  then have "x \<in> set ys" by (metis list.set_intros(1) mset_eq_setD)
  then obtain as bs where ys: "ys = as @ x # bs" by (meson split_list)
  then have m: "mset xs = mset (as @ bs)" using Cons.prems(1) by simp
  then have "sorted_wrt R (as @ bs)" using Cons.IH Cons.prems(2) by simp
  moreover have "\<forall>y \<in> set as \<union> set bs. R x y"
    using Cons.prems(2) mset_eq_setD [OF m] by auto
  ultimately show ?case unfolding ys by (auto simp: sorted_wrt_append intro: sym)
qed simp

lemma grid_ok_arranged:
  assumes "layout_ok d ps"
  shows "grid_ok (arranged d ps)"
proof -
  have perm: "mset (map pl_id ps) = mset (tile_ids d)" using assms by (simp add: layout_ok_def)
  let ?at = "\<lambda>p. place_tile p (the (dashboard_tile d (pl_id p)))"
  have "sorted_wrt (\<lambda>a b. \<not> overlap a b) (sort_key reading_key ps)"
    by (rule sorted_wrt_symmetric_perm [of _ ps])
      (use assms overlap_commute in \<open>auto simp: layout_ok_def\<close>)
  moreover have at: "tiles_overlap (?at p) (?at q) \<longleftrightarrow> overlap p q" for p q
    by (simp add: tiles_overlap_def place_tile_def placement_of_def overlap_def)
  ultimately have "sorted_wrt (\<lambda>t u. \<not> tiles_overlap t u) (map ?at (sort_key reading_key ps))"
    by (simp only: sorted_wrt_map at)
  moreover have "list_all inside_grid (map ?at (sort_key reading_key ps))"
    using assms by (simp add: list_all_iff inside_grid_def place_tile_def layout_ok_def)
  ultimately show ?thesis by (simp add: grid_ok_def arranged_map [OF perm])
qed

text \<open>The commands as the use cases issue them: new tiles unplaced, edited ones where they stood.\<close>

definition issued :: "'a dashboard \<Rightarrow> 'a dsh_command \<Rightarrow> bool" where
  "issued d c =
     (case c of
        DshAdd t \<Rightarrow> t_layout t = None
      | DshUpdate t \<Rightarrow> (\<exists>x. dashboard_tile d (t_id t) = Some x \<and> t_layout t = t_layout x)
      | _ \<Rightarrow> True)"

lemma exec_dashboard_grid:
  assumes "exec_dashboard (c, now) d = Inr (e, es)" and wf: "dashboard_wf d"
    and grid: "grid_ok (dsh_tiles d)" and "issued d c"
  shows "grid_ok (dsh_tiles e)"
proof (cases c)
  case (DshAdd t)
  then have e: "dsh_tiles e = dsh_tiles d @ [t]" and t: "t_layout t = None"
    using assms(1,4) by (auto simp: dashboard_op_defs issued_def split: if_splits)
  show ?thesis
    unfolding e using grid t by (simp add: grid_ok_def sorted_wrt_append inside_grid_def tiles_overlap_def split: option.split)
next
  case (DshUpdate t)
  have dist: "distinct (tile_ids d)" using wf by (simp add: dashboard_wf_def)
  obtain x where x: "dashboard_tile d (t_id t) = Some x" "t_layout t = t_layout x"
    using DshUpdate assms(4) by (auto simp: issued_def)
  have e: "dsh_tiles e =
      map (\<lambda>x. if t_id x = t_id t then (if t_width x = t_width t then t else without_layout t) else x)
        (dsh_tiles d)"
    using DshUpdate assms(1) by (auto simp: dashboard_op_defs split: if_splits)
  have "u = x" if "u \<in> set (dsh_tiles d)" "t_id u = t_id t" for u
    using dashboard_tile_mem [OF dist that(1)] that(2) x(1) by simp
  then show ?thesis
    unfolding e using x(2) by (intro grid_ok_map [OF grid]) (auto simp: lifted_def without_layout_def)
next
  case (DshResize i w)
  then have e: "dsh_tiles e = map (\<lambda>x. if t_id x = i then with_width x w else x) (dsh_tiles d)"
    using assms(1) by (auto simp: dashboard_op_defs split: if_splits option.splits)
  show ?thesis unfolding e by (rule grid_ok_map [OF grid]) (simp add: lifted_def with_width_def)
next
  case (DshLayout ps)
  have dist: "distinct (tile_ids d)" using wf by (simp add: dashboard_wf_def)
  from DshLayout assms(1) show ?thesis by (auto simp: set_layout_Inr [OF dist] intro: grid_ok_arranged)
next
  case (DshMove i k)
  with assms(1) have "move_tile i k now d = Inr (e, es)" by simp
  then show ?thesis unfolding move_tile_Inr by auto
next
  case (DshReorder order)
  have dist: "distinct (tile_ids d)" using wf by (simp add: dashboard_wf_def)
  from DshReorder assms(1) have
    "dsh_tiles e = map without_layout (map (\<lambda>i. the (dashboard_tile d i)) order)"
    by (simp add: reorder_tiles_Inr [OF dist])
  then show ?thesis by (simp del: map_map)
next
  case (DshRemove i)
  with assms(1) grid show ?thesis by (auto simp: dashboard_op_defs grid_ok_filter split: if_splits)
qed (use assms in \<open>auto simp: dashboard_op_defs split: if_splits\<close>)

text \<open>Which fields a command may touch.\<close>

lemma exec_dashboard_frame:
  assumes "exec_dashboard (c, now) d = Inr (e, es)"
  shows "dsh_workspace e = dsh_workspace d \<and>
         (c \<noteq> DshMarkDefault \<and> c \<noteq> DshClearDefault \<longrightarrow> dsh_is_default e = dsh_is_default d)"
proof (cases c)
  case (DshMove i k)
  with assms have "move_tile i k now d = Inr (e, es)" by simp
  then show ?thesis unfolding move_tile_Inr by auto
next
  case (DshLayout ps)
  with assms show ?thesis by (auto simp: set_layout_def dashboard_op_defs split: if_splits)
next
  case (DshReorder order)
  with assms show ?thesis
    by (auto simp: reorder_tiles_def dashboard_op_defs split: if_splits option.splits)
qed (use assms in \<open>auto simp: dashboard_op_defs split: if_splits option.splits\<close>)

section \<open>The store the use cases leave\<close>

text \<open>
  Every dashboard found is well formed, with a sound grid, and no workspace has two defaults.
\<close>

definition one_default :: "(dashboard_id \<Rightarrow> 'a dashboard option) \<Rightarrow> bool" where
  "one_default m \<longleftrightarrow>
     (\<forall>i j d e. m i = Some d \<and> m j = Some e \<and> dsh_workspace d = dsh_workspace e \<and>
        dsh_is_default d \<and> dsh_is_default e \<longrightarrow> i = j)"

definition store_ok :: "(dashboard_id \<Rightarrow> 'a dashboard option) \<Rightarrow> bool" where
  "store_ok m \<longleftrightarrow>
     (\<forall>i d. m i = Some d \<longrightarrow> dashboard_wf d \<and> grid_ok (dsh_tiles d)) \<and> one_default m"

text \<open>One request of each kind, with what the ports hand to it.\<close>

datatype 'a dsh_request =
    ReqCreate dashboard_id workspace_id string bool instant instant
  | ReqRename dashboard_id string instant
  | ReqDelete dashboard_id
  | ReqSetDefault dashboard_id instant instant
  | ReqAddTile dashboard_id tile_id string project_id 'a tile_view rat instant
  | ReqUpdateTile dashboard_id tile_id "'a tile_patch" instant
  | ReqResizeTile dashboard_id tile_id rat instant
  | ReqMoveTile dashboard_id tile_id rat instant
  | ReqReorder dashboard_id "tile_id list" instant
  | ReqRemoveTile dashboard_id tile_id instant
  | ReqLayout dashboard_id "tile_placement list" instant
  | ReqShare dashboard_id duration instant "string \<times> string"
  | ReqUnshare dashboard_id instant

fun serve :: "('st, 'a) dashboard_repo \<Rightarrow> 'a dsh_request \<Rightarrow> 'st \<Rightarrow> 'st" where
  "serve repo (ReqCreate i w n b t u) st = fst (create_dashboard repo i w n b t u st)"
| "serve repo (ReqRename i n t) st = fst (rename_dashboard_use repo i n t st)"
| "serve repo (ReqDelete i) st = fst (delete_dashboard repo i st)"
| "serve repo (ReqSetDefault i t u) st = fst (set_default_dashboard repo i t u st)"
| "serve repo (ReqAddTile i k n p a v x t) st = fst (add_tile_use repo i k n p a v x t st)"
| "serve repo (ReqUpdateTile i k p t) st = fst (update_tile_use repo i k p t st)"
| "serve repo (ReqResizeTile i k x t) st = fst (resize_tile_use repo i k x t st)"
| "serve repo (ReqMoveTile i k x t) st = fst (move_tile_use repo i k x t st)"
| "serve repo (ReqReorder i ks t) st = fst (reorder_tiles_use repo i ks t st)"
| "serve repo (ReqRemoveTile i k t) st = fst (remove_tile_use repo i k t st)"
| "serve repo (ReqLayout i ps t) st = fst (set_dashboard_layout repo i ps t st)"
| "serve repo (ReqShare i ttl t m) st = fst (share_dashboard repo i ttl t m st)"
| "serve repo (ReqUnshare i t) st = fst (unshare_dashboard repo i t st)"

text \<open>The id generator never repeats an id that is in use.\<close>

definition fresh_request :: "('st, 'a) dashboard_repo \<Rightarrow> 'st \<Rightarrow> 'a dsh_request \<Rightarrow> bool" where
  "fresh_request repo st r =
     (case r of ReqCreate i w n b t u \<Rightarrow> repo_find repo i st = None | _ \<Rightarrow> True)"

inductive served :: "('st, 'a) dashboard_repo \<Rightarrow> 'st \<Rightarrow> 'st \<Rightarrow> bool"
  for repo :: "('st, 'a) dashboard_repo" and start :: 'st where
  served_start: "served repo start start"
| served_step: "served repo start st \<Longrightarrow> fresh_request repo st r \<Longrightarrow> served repo start (serve repo r st)"

definition make_default :: "dashboard_id \<Rightarrow> workspace_id \<Rightarrow> (dashboard_id \<Rightarrow> 'a dashboard option) \<Rightarrow>
    dashboard_id \<Rightarrow> 'a dashboard option" where
  "make_default i w m =
     (\<lambda>j. map_option (\<lambda>d. if dsh_workspace d = w then d\<lparr>dsh_is_default := (j = i)\<rparr> else d) (m j))"

lemma one_default_upd:
  assumes "one_default m" and "dsh_is_default e \<longrightarrow>
    (\<forall>j d. m j = Some d \<and> dsh_workspace d = dsh_workspace e \<and> dsh_is_default d \<longrightarrow> j = i)"
  shows "one_default (m(i \<mapsto> e))"
  using assms unfolding one_default_def by (metis fun_upd_apply option.inject)

lemma store_ok_upd:
  assumes "store_ok m" "dashboard_wf e" "grid_ok (dsh_tiles e)" and "dsh_is_default e \<longrightarrow>
    (\<forall>j d. m j = Some d \<and> dsh_workspace d = dsh_workspace e \<and> dsh_is_default d \<longrightarrow> j = i)"
  shows "store_ok (m(i \<mapsto> e))"
  using assms one_default_upd [of m e i] by (auto simp: store_ok_def)

text \<open>One command of the aggregate that leaves the default flag alone, written back.\<close>

lemma store_ok_exec:
  assumes st: "store_ok m" and d: "m i = Some d" and ex: "exec_dashboard (c, now) d = Inr (e, es)"
    and c: "issued d c" "c \<noteq> DshMarkDefault" "c \<noteq> DshClearDefault"
  shows "store_ok (m(i \<mapsto> e))"
proof (rule store_ok_upd [OF st])
  have wf: "dashboard_wf d" "grid_ok (dsh_tiles d)" using st d by (auto simp: store_ok_def)
  show "dashboard_wf e" by (rule exec_dashboard_wf [OF wf(1) ex])
  show "grid_ok (dsh_tiles e)" by (rule exec_dashboard_grid [OF ex wf c(1)])
  have same: "dsh_workspace e = dsh_workspace d" "dsh_is_default e = dsh_is_default d"
    using exec_dashboard_frame [OF ex] c by auto
  show "dsh_is_default e \<longrightarrow>
      (\<forall>j f. m j = Some f \<and> dsh_workspace f = dsh_workspace e \<and> dsh_is_default f \<longrightarrow> j = i)"
    using st d unfolding same store_ok_def one_default_def by metis
qed

lemma cleared_store_ok:
  assumes "store_ok m"
  shows "store_ok (\<lambda>j. map_option (\<lambda>d. if dsh_workspace d = w then d\<lparr>dsh_is_default := False\<rparr> else d) (m j))"
proof -
  have "dashboard_wf (d\<lparr>dsh_is_default := False\<rparr>) = dashboard_wf d" for d :: "'a dashboard"
    by (simp add: dashboard_wf_def cong: option.case_cong)
  then show ?thesis
    using assms by (auto simp: store_ok_def one_default_def split: if_splits)
qed

lemma store_ok_make_default:
  assumes "store_ok m"
  shows "store_ok (make_default i w m)"
proof -
  have "dashboard_wf (d\<lparr>dsh_is_default := b\<rparr>) = dashboard_wf d" for d :: "'a dashboard" and b
    by (simp add: dashboard_wf_def cong: option.case_cong)
  moreover have "one_default (make_default i w m)"
    unfolding one_default_def
  proof (intro allI impI)
    fix j k d e
    assume a: "make_default i w m j = Some d \<and> make_default i w m k = Some e \<and>
      dsh_workspace d = dsh_workspace e \<and> dsh_is_default d \<and> dsh_is_default e"
    then obtain d' e' where m: "m j = Some d'" "m k = Some e'"
      and d: "d = (if dsh_workspace d' = w then d'\<lparr>dsh_is_default := (j = i)\<rparr> else d')"
      and e: "e = (if dsh_workspace e' = w then e'\<lparr>dsh_is_default := (k = i)\<rparr> else e')"
      by (auto simp: make_default_def)
    show "j = k"
    proof (cases "dsh_workspace d = w")
      case True
      with a d e have "j = i" "k = i" by (auto split: if_splits)
      then show ?thesis by simp
    next
      case False
      with a d e have "dsh_workspace d' = dsh_workspace e' \<and> dsh_is_default d' \<and> dsh_is_default e'"
        by (auto split: if_splits)
      then show ?thesis using assms m unfolding store_ok_def one_default_def by blast
    qed
  qed
  ultimately show ?thesis
    using assms by (auto simp: store_ok_def make_default_def split: if_splits)
qed

context dashboard_repository begin

abbreviation found :: "'st \<Rightarrow> dashboard_id \<Rightarrow> 'a dashboard option" where
  "found st \<equiv> (\<lambda>i. repo_find repo i st)"

lemma found_save: "wf st \<Longrightarrow> found (repo_save repo d es st) = (found st)(dsh_id d \<mapsto> d)"
  by (auto simp: find_save)

lemma found_delete: "wf st \<Longrightarrow> found (repo_delete repo i st) = (found st)(i := None)"
  by (auto simp: find_delete)

text \<open>Every use case that runs one command saves what the command made, or nothing.\<close>

lemma on_dashboard_found:
  assumes "wf st"
  shows "wf (fst (on_dashboard repo i command st)) \<and>
    (case on_dashboard repo i command st of
       (st', Inl _) \<Rightarrow> st' = st
     | (st', Inr e) \<Rightarrow> \<exists>d es. found st i = Some d \<and> command d = Inr (e, es) \<and> found st' = (found st)(dsh_id e \<mapsto> e))"
  using assms by (auto simp: on_dashboard_def load_dashboard_def commit_dashboard_def ok_def err_def
      found_save wf_save split: option.splits sum.splits)

lemma on_dashboard_ok:
  assumes wf: "wf st" and st: "store_ok (found st)"
    and command: "\<And>d e es. found st i = Some d \<Longrightarrow> command d = Inr (e, es) \<Longrightarrow>
      \<exists>c now. exec_dashboard (c, now) d = Inr (e, es) \<and> issued d c \<and> c \<noteq> DshMarkDefault \<and> c \<noteq> DshClearDefault"
  shows "wf (fst (on_dashboard repo i command st)) \<and> store_ok (found (fst (on_dashboard repo i command st)))"
proof -
  obtain st' r where run: "on_dashboard repo i command st = (st', r)" by fastforce
  note fact = on_dashboard_found [OF wf, of i command, unfolded run]
  show ?thesis
  proof (cases r)
    case (Inl x)
    with fact run st wf show ?thesis by simp
  next
    case (Inr e)
    with fact obtain d es where d: "found st i = Some d" and e: "command d = Inr (e, es)"
      and new: "found st' = (found st)(dsh_id e \<mapsto> e)" by auto
    obtain c now where ex: "exec_dashboard (c, now) d = Inr (e, es)" and c: "issued d c"
      "c \<noteq> DshMarkDefault" "c \<noteq> DshClearDefault" using command [OF d e] by blast
    have "dsh_id e = i" using exec_dashboard_about [OF ex] find_ident [OF wf d] by simp
    then have "store_ok (found st')" unfolding new using store_ok_exec [where i = i, OF st d ex c] by simp
    then show ?thesis using fact run by simp
  qed
qed

text \<open>Clearing the default keeps the store sound and leaves the workspace without one.\<close>

lemma clear_existing_default_found:
  assumes wf: "wf st" and one: "one_default (found st)"
  shows "\<exists>st'. clear_existing_default repo w now st = (st', Inr ()) \<and> wf st' \<and>
    found st' = (\<lambda>j. map_option (\<lambda>d. if dsh_workspace d = w then d\<lparr>dsh_is_default := False\<rparr> else d) (found st j))"
proof (cases "repo_find_default repo w st")
  case None
  have "d\<lparr>dsh_is_default := False\<rparr> = d" if "found st j = Some d" "dsh_workspace d = w" for j d
    using default_None [OF wf None that] by (cases d) simp
  then have "found st = (\<lambda>j. map_option (\<lambda>d. if dsh_workspace d = w then d\<lparr>dsh_is_default := False\<rparr> else d) (found st j))"
    by (intro ext) (auto intro: option.map_ident_strong [symmetric])
  then show ?thesis using None wf by (auto simp: clear_existing_default_def ok_def)
next
  case (Some c)
  then have c: "found st (dsh_id c) = Some c" "dsh_workspace c = w" "dsh_is_default c"
    using default_Some [OF wf] by auto
  let ?c = "c\<lparr>dsh_is_default := False\<rparr>"
  let ?es = "[DashboardDefaultCleared (dsh_id c) now]"
  have "found (repo_save repo ?c ?es st) j =
      map_option (\<lambda>d. if dsh_workspace d = w then d\<lparr>dsh_is_default := False\<rparr> else d) (found st j)" for j
  proof (cases "found st j")
    case None
    then show ?thesis using c wf by (auto simp: find_save)
  next
    case (Some d)
    show ?thesis
    proof (cases "j = dsh_id c")
      case True
      then have "d = c" using Some c(1) by simp
      then show ?thesis using True Some c(2) by (simp add: find_save [OF wf])
    next
      case False
      have "\<not> dsh_is_default d" if "dsh_workspace d = w"
        using one [unfolded one_default_def] c Some that False by metis
      then have "d\<lparr>dsh_is_default := False\<rparr> = d" if "dsh_workspace d = w"
        using that by (cases d) simp
      then show ?thesis using False Some by (simp add: find_save [OF wf])
    qed
  qed
  then show ?thesis
    using Some c wf by (auto simp: clear_existing_default_def clear_default_def ok_def wf_save)
qed

text \<open>Marking a default refines the update that makes it the workspace's only one.\<close>

lemma set_default_found:
  assumes wf: "wf st" and ok: "store_ok (found st)" and d: "found st i = Some d" "\<not> dsh_is_default d"
  shows "\<exists>st'. set_default_dashboard repo i now later st = (st', Inr (d\<lparr>dsh_is_default := True\<rparr>)) \<and> wf st' \<and>
    found st' = make_default i (dsh_workspace d) (found st)"
proof -
  have ident: "dsh_id d = i" using find_ident [OF wf d(1)] .
  have one: "one_default (found st)" using ok by (simp add: store_ok_def)
  obtain st1 where c: "clear_existing_default repo (dsh_workspace d) now st = (st1, Inr ())" "wf st1"
    and m: "found st1 = (\<lambda>j. map_option (\<lambda>e. if dsh_workspace e = dsh_workspace d
      then e\<lparr>dsh_is_default := False\<rparr> else e) (found st j))"
    using clear_existing_default_found [OF wf one, of "dsh_workspace d" now] by blast
  let ?d = "d\<lparr>dsh_is_default := True\<rparr>"
  let ?st = "repo_save repo ?d [DashboardDefaultSet (dsh_id d) later] st1"
  have "found ?st j = make_default i (dsh_workspace d) (found st) j" for j
  proof -
    have "repo_find repo j st1 = map_option (\<lambda>e. if dsh_workspace e = dsh_workspace d
        then e\<lparr>dsh_is_default := False\<rparr> else e) (repo_find repo j st)"
      using fun_cong [OF m, of j] .
    then show ?thesis
      using d ident by (cases "repo_find repo j st") (auto simp: find_save [OF c(2)] make_default_def)
  qed
  moreover have "set_default_dashboard repo i now later st = (?st, Inr ?d)"
    using d c(1) by (simp add: set_default_dashboard_def load_dashboard_def ok_def mark_default_def commit_dashboard_def)
  ultimately show ?thesis using wf_save [OF c(2)] by blast
qed

lemma set_default_ok:
  assumes wf: "wf st" and ok: "store_ok (found st)"
  shows "wf (fst (set_default_dashboard repo i now later st)) \<and>
         store_ok (found (fst (set_default_dashboard repo i now later st)))"
proof (cases "\<exists>d. found st i = Some d \<and> \<not> dsh_is_default d")
  case False
  then have "fst (set_default_dashboard repo i now later st) = st"
    by (auto simp: set_default_dashboard_def load_dashboard_def ok_def err_def split: option.split)
  with assms show ?thesis by simp
next
  case True
  then obtain d where d: "found st i = Some d" "\<not> dsh_is_default d" by blast
  obtain st' where run: "set_default_dashboard repo i now later st = (st', Inr (d\<lparr>dsh_is_default := True\<rparr>))"
    and new: "wf st'" "found st' = make_default i (dsh_workspace d) (found st)"
    using set_default_found [OF wf ok d, of now later] by blast
  have "store_ok (found st')" unfolding new(2) by (rule store_ok_make_default [OF ok])
  then show ?thesis using run new(1) by simp
qed

lemma create_ok:
  assumes wf: "wf st" and ok: "store_ok (found st)" and new: "found st i = None"
  shows "wf (fst (create_dashboard repo i w n b now later st)) \<and>
         store_ok (found (fst (create_dashboard repo i w n b now later st)))"
proof (cases "dashboard_create i w n now b :: dashboard_error + 'a dashboard_applied")
  case (Inl x)
  with assms show ?thesis by (simp add: create_dashboard_def)
next
  case (Inr r)
  obtain d es where r: "dashboard_create i w n now b = Inr (d :: 'a dashboard, es)" using Inr by (cases r) auto
  then have d: "dashboard_wf d" "grid_ok (dsh_tiles d)" "dsh_id d = i" "dsh_workspace d = w"
    "dsh_is_default d = b"
    by (auto simp: dashboard_create_def dashboard_wf_def grid_ok_def ok_def err_def Let_def split: if_splits)
  have run: "create_dashboard repo i w n b now later st =
      (if b then case clear_existing_default repo w later st of
                   (st', Inl e) \<Rightarrow> (st', Inl e) | (st', Inr _) \<Rightarrow> (repo_save repo d es st', ok d)
       else (repo_save repo d es st, ok d))"
    by (simp add: create_dashboard_def r)
  show ?thesis
  proof (cases b)
    case False
    have "store_ok ((found st)(i \<mapsto> d))"
      by (rule store_ok_upd [OF ok d(1,2)]) (use False d(5) in simp)
    then show ?thesis unfolding run using False wf d(3) by (simp add: found_save wf_save)
  next
    case True
    have one: "one_default (found st)" using ok by (simp add: store_ok_def)
    obtain st1 where c: "clear_existing_default repo w later st = (st1, Inr ())" "wf st1"
      and m: "found st1 = (\<lambda>j. map_option (\<lambda>e. if dsh_workspace e = w
        then e\<lparr>dsh_is_default := False\<rparr> else e) (found st j))"
      using clear_existing_default_found [OF wf one, of w later] by blast
    have ok1: "store_ok (found st1)" unfolding m by (rule cleared_store_ok [OF ok])
    have "store_ok ((found st1)(i \<mapsto> d))"
    proof (rule store_ok_upd [OF ok1 d(1,2)], intro impI allI)
      fix j x
      assume x: "found st1 j = Some x \<and> dsh_workspace x = dsh_workspace d \<and> dsh_is_default x"
      then obtain y where "x = (if dsh_workspace y = w then y\<lparr>dsh_is_default := False\<rparr> else y)"
        using fun_cong [OF m, of j] by (cases "found st j") (simp_all, blast)
      with x d(4) show "j = i" by (cases "dsh_workspace y = w") simp_all
    qed
    then show ?thesis unfolding run using True c d(3) by (simp add: found_save wf_save)
  qed
qed

text \<open>Sharing saves a grant on the dashboard itself.\<close>

lemma share_ok:
  assumes wf: "wf st" and ok: "store_ok (found st)"
  shows "wf (fst (share_dashboard repo i ttl now minted st)) \<and>
         store_ok (found (fst (share_dashboard repo i ttl now minted st)))"
proof (cases "found st i")
  case None
  with assms show ?thesis by (simp add: share_dashboard_def load_dashboard_def err_def)
next
  case (Some d)
  let ?g = "\<lparr> sg_dashboard = i, sg_digest = snd minted, sg_expires_at = instant_plus now ttl \<rparr>"
  have run: "share_dashboard repo i ttl now minted st =
      (case grant_share ?g now d of Inl e \<Rightarrow> (st, Inl e)
       | Inr (d', es) \<Rightarrow> (repo_save repo d' es st, ok (d', fst minted)))"
    using Some by (simp add: share_dashboard_def load_dashboard_def ok_def Let_def split_beta)
  show ?thesis
  proof (cases "grant_share ?g now d")
    case (Inl x)
    then show ?thesis unfolding run using assms by simp
  next
    case (Inr r)
    obtain d' es where r: "grant_share ?g now d = Inr (d', es)" using Inr by (cases r) auto
    then have ex: "exec_dashboard (DshShare ?g, now) d = Inr (d', es)" by simp
    have "store_ok ((found st)(i \<mapsto> d'))"
      by (rule store_ok_exec [OF ok Some ex]) (simp_all add: issued_def)
    moreover have "dsh_id d' = i" using exec_dashboard_about [OF ex] find_ident [OF wf Some] by simp
    ultimately show ?thesis unfolding run using r wf by (simp add: found_save wf_save)
  qed
qed

lemma store_ok_delete: "store_ok m \<Longrightarrow> store_ok (m(i := None))"
  by (auto simp: store_ok_def one_default_def)

lemma update_tile_issued:
  assumes "(case dashboard_tile d k of None \<Rightarrow> err (NoSuchTile k)
            | Some x \<Rightarrow> update_tile (patched p x) t d) = Inr (e, es)"
  shows "\<exists>c now. exec_dashboard (c, now) d = Inr (e, es) \<and> issued d c \<and> c \<noteq> DshMarkDefault \<and> c \<noteq> DshClearDefault"
proof -
  obtain x where x: "dashboard_tile d k = Some x" and up: "update_tile (patched p x) t d = Inr (e, es)"
    using assms by (cases "dashboard_tile d k") (simp_all add: err_def)
  have "t_id x = k" using find_tile_Some [OF x [unfolded dashboard_tile_def]] ..
  with x have "issued d (DshUpdate (patched p x))" by (simp add: issued_def patched_def)
  moreover have "exec_dashboard (DshUpdate (patched p x), t) d = Inr (e, es)" using up by simp
  ultimately show ?thesis by blast
qed

lemma serve_ok:
  assumes wf: "wf st" and ok: "store_ok (found st)" and "fresh_request repo st r"
  shows "wf (serve repo r st) \<and> store_ok (found (serve repo r st))"
proof -
  note on = on_dashboard_ok [OF wf ok]
  have same: "\<exists>c' now'. exec_dashboard (c', now') d = Inr (e, es) \<and> issued d c' \<and>
      c' \<noteq> DshMarkDefault \<and> c' \<noteq> DshClearDefault"
    if "exec_dashboard (c, now) d = Inr (e, es)" "issued d c" "c \<noteq> DshMarkDefault" "c \<noteq> DshClearDefault"
    for c now d e es using that by blast
  show ?thesis
  proof (cases r)
    case (ReqCreate i w n b t u)
    with assms show ?thesis using create_ok [OF wf ok] by (simp add: fresh_request_def)
  next
    case (ReqDelete i)
    then show ?thesis
      using wf ok by (auto simp: delete_dashboard_def load_dashboard_def ok_def err_def wf_delete
          found_delete store_ok_delete split: option.split)
  next
    case (ReqSetDefault i t u)
    then show ?thesis using set_default_ok [OF wf ok] by simp
  next
    case (ReqShare i ttl t m)
    then show ?thesis using share_ok [OF wf ok] by simp
  next
    case (ReqUpdateTile i k p t)
    show ?thesis unfolding ReqUpdateTile serve.simps update_tile_use_def
      by (rule on) (rule update_tile_issued)
  next
    case (ReqRename i n t)
    show ?thesis unfolding ReqRename serve.simps rename_dashboard_use_def
      by (rule on, rule same [of "DshRename n" t]) (simp_all add: issued_def)
  next
    case (ReqAddTile i k n p a v x t)
    show ?thesis unfolding ReqAddTile serve.simps add_tile_use_def
      by (rule on, rule same [of "DshAdd (tile_of k n p a v x)" t]) (simp_all add: issued_def tile_of_def)
  next
    case (ReqResizeTile i k x t)
    show ?thesis unfolding ReqResizeTile serve.simps resize_tile_use_def
      by (rule on, rule same [of "DshResize k x" t]) (simp_all add: issued_def)
  next
    case (ReqMoveTile i k x t)
    show ?thesis unfolding ReqMoveTile serve.simps move_tile_use_def
      by (rule on, rule same [of "DshMove k x" t]) (simp_all add: issued_def)
  next
    case (ReqReorder i ks t)
    show ?thesis unfolding ReqReorder serve.simps reorder_tiles_use_def
      by (rule on, rule same [of "DshReorder ks" t]) (simp_all add: issued_def)
  next
    case (ReqRemoveTile i k t)
    show ?thesis unfolding ReqRemoveTile serve.simps remove_tile_use_def
      by (rule on, rule same [of "DshRemove k" t]) (simp_all add: issued_def)
  next
    case (ReqLayout i ps t)
    show ?thesis unfolding ReqLayout serve.simps set_dashboard_layout_def
      by (rule on, rule same [of "DshLayout ps" t]) (simp_all add: issued_def)
  next
    case (ReqUnshare i t)
    show ?thesis unfolding ReqUnshare serve.simps unshare_dashboard_def
      by (rule on, rule same [of DshUnshare t]) (simp_all add: issued_def)
  qed
qed

lemma served_ok:
  assumes "served repo start st" "wf start" "store_ok (found start)"
  shows "wf st \<and> store_ok (found st)"
  using assms by induction (simp_all add: serve_ok)

end

text \<open>
  C17. Whatever requests are served, in whatever order, over any repository that reads back what
  it saved: every dashboard that can be found is well formed (a trimmed name, at most the
  permitted number of titled tiles with distinct ids, a share grant that names it), its placed
  tiles stand inside the grid and over no other, and no workspace has two default dashboards.
\<close>

theorem served_dashboards_are_sound:
  assumes "dashboard_repository repo good" and "good start"
    and empty: "\<forall>i. repo_find repo i start = None" and "served repo start st"
  shows "store_ok (\<lambda>i. repo_find repo i st)"
proof -
  have "store_ok (\<lambda>i. repo_find repo i start)" by (simp add: store_ok_def one_default_def empty)
  then show ?thesis
    using dashboard_repository.served_ok [OF assms(1,4,2)] by simp
qed

abbreviation empty_memory :: "'a memory_dashboards" where
  "empty_memory \<equiv> \<lparr> mem_rows = [], mem_digests = [], mem_saved = [] \<rparr>"

theorem served_dashboards_are_sound_witness:
  "let st0 = empty_memory :: unit memory_dashboards;
       st1 = serve memory_repo (ReqCreate ''d1'' ''w'' ''One'' True 1 2) st0;
       st2 = serve memory_repo (ReqCreate ''d2'' ''w'' ''Two'' True 3 4) st1
   in map_option dsh_is_default (repo_find memory_repo ''d1'' st2) = Some False \<and>
      map_option dsh_is_default (repo_find memory_repo ''d2'' st2) = Some True \<and>
      store_ok (\<lambda>i. repo_find memory_repo i st2)"
proof -
  let ?st0 = "empty_memory :: unit memory_dashboards"
  let ?r1 = "ReqCreate ''d1'' ''w'' ''One'' True 1 2 :: unit dsh_request"
  let ?r2 = "ReqCreate ''d2'' ''w'' ''Two'' True 3 4 :: unit dsh_request"
  have "served memory_repo ?st0 (serve memory_repo ?r1 ?st0)"
    by (rule served_step [OF served_start]) code_simp
  then have "served memory_repo ?st0 (serve memory_repo ?r2 (serve memory_repo ?r1 ?st0))"
    by (rule served_step) code_simp
  moreover have "memory_wf ?st0" by (simp add: memory_wf_def)
  moreover have "\<forall>i. repo_find memory_repo i ?st0 = None" by (simp add: memory_repo_def)
  ultimately have "store_ok (\<lambda>i. repo_find memory_repo i (serve memory_repo ?r2 (serve memory_repo ?r1 ?st0)))"
    using served_dashboards_are_sound [OF mem.dashboard_repository_axioms] by blast
  moreover have
    "map_option dsh_is_default (repo_find memory_repo ''d1'' (serve memory_repo ?r2 (serve memory_repo ?r1 ?st0))) = Some False"
    "map_option dsh_is_default (repo_find memory_repo ''d2'' (serve memory_repo ?r2 (serve memory_repo ?r1 ?st0))) = Some True"
    by code_simp+
  ultimately show ?thesis by (simp only: Let_def simp_thms)
qed

text \<open>
  C21. Setting the default refines the update on the map of dashboards that makes one dashboard the
  only default of its workspace: afterwards that dashboard is the default, every other dashboard
  of its workspace is not, and nothing else about any dashboard has changed. Between the two
  writes the workspace has no default.
\<close>

theorem set_default_refines_make_default:
  assumes "dashboard_repository repo good" and "good st" and "store_ok (\<lambda>i. repo_find repo i st)"
    and "repo_find repo i st = Some d" and "\<not> dsh_is_default d"
  shows "\<exists>st' mid.
    set_default_dashboard repo i now later st = (st', Inr (d\<lparr>dsh_is_default := True\<rparr>)) \<and>
    (\<lambda>j. repo_find repo j st') = make_default i (dsh_workspace d) (\<lambda>j. repo_find repo j st) \<and>
    clear_existing_default repo (dsh_workspace d) now st = (mid, Inr ()) \<and>
    (\<forall>j e. repo_find repo j mid = Some e \<and> dsh_workspace e = dsh_workspace d \<longrightarrow> \<not> dsh_is_default e)"
proof -
  have one: "one_default (\<lambda>i. repo_find repo i st)" using assms(3) by (simp add: store_ok_def)
  obtain mid where mid: "clear_existing_default repo (dsh_workspace d) now st = (mid, Inr ())"
    and m: "(\<lambda>i. repo_find repo i mid) = (\<lambda>j. map_option (\<lambda>e. if dsh_workspace e = dsh_workspace d
      then e\<lparr>dsh_is_default := False\<rparr> else e) (repo_find repo j st))"
    using dashboard_repository.clear_existing_default_found [OF assms(1,2) one, of "dsh_workspace d" now]
    by blast
  have "\<not> dsh_is_default e" if e: "repo_find repo j mid = Some e \<and> dsh_workspace e = dsh_workspace d" for j e
  proof (cases "repo_find repo j st")
    case None
    then show ?thesis using fun_cong [OF m, of j] e by simp
  next
    case (Some x)
    then have "e = (if dsh_workspace x = dsh_workspace d then x\<lparr>dsh_is_default := False\<rparr> else x)"
      using fun_cong [OF m, of j] e by simp
    with e show ?thesis by (cases "dsh_workspace x = dsh_workspace d") simp_all
  qed
  with mid dashboard_repository.set_default_found [OF assms, of now later] show ?thesis by blast
qed

theorem set_default_refines_make_default_witness:
  "let d = \<lparr> dsh_id = ''d1'', dsh_workspace = ''w'', dsh_name = ''D'', dsh_tiles = ([] :: unit tile list),
             dsh_is_default = False, dsh_share = None \<rparr>;
       e = \<lparr> dsh_id = ''d2'', dsh_workspace = ''w'', dsh_name = ''E'', dsh_tiles = [],
             dsh_is_default = True, dsh_share = None \<rparr>;
       st = \<lparr> mem_rows = [(''d1'', d), (''d2'', e)], mem_digests = [], mem_saved = [] \<rparr>
   in \<exists>st'. set_default_dashboard memory_repo ''d1'' 5 6 st = (st', Inr (d\<lparr>dsh_is_default := True\<rparr>)) \<and>
        map_option dsh_is_default (repo_find memory_repo ''d2'' st') = Some False"
proof -
  let ?d = "\<lparr> dsh_id = ''d1'', dsh_workspace = ''w'', dsh_name = ''D'', dsh_tiles = ([] :: unit tile list),
             dsh_is_default = False, dsh_share = None \<rparr>"
  let ?e = "\<lparr> dsh_id = ''d2'', dsh_workspace = ''w'', dsh_name = ''E'', dsh_tiles = [] :: unit tile list,
             dsh_is_default = True, dsh_share = None \<rparr>"
  let ?st = "\<lparr> mem_rows = [(''d1'', ?d), (''d2'', ?e)], mem_digests = [], mem_saved = [] \<rparr>"
  have wf: "memory_wf ?st" by (simp add: memory_wf_def)
  have "dashboard_wf ?d" "dashboard_wf ?e" by code_simp+
  moreover have find: "repo_find memory_repo i ?st =
      (if i = ''d1'' then Some ?d else if i = ''d2'' then Some ?e else None)" for i
    by (simp add: memory_repo_def)
  ultimately have ok: "store_ok (\<lambda>i. repo_find memory_repo i ?st)"
    by (simp add: store_ok_def one_default_def grid_ok_def)
  have d: "repo_find memory_repo ''d1'' ?st = Some ?d" "\<not> dsh_is_default ?d" by (simp_all add: find)
  obtain st' where st': "set_default_dashboard memory_repo ''d1'' 5 6 ?st = (st', Inr (?d\<lparr>dsh_is_default := True\<rparr>))"
    and m: "(\<lambda>j. repo_find memory_repo j st') = make_default ''d1'' (dsh_workspace ?d) (\<lambda>j. repo_find memory_repo j ?st)"
    using set_default_refines_make_default [OF mem.dashboard_repository_axioms wf ok d, of 5 6] by blast
  have "map_option dsh_is_default (repo_find memory_repo ''d2'' st') = Some False"
    using fun_cong [OF m, of "''d2''"] by (simp add: make_default_def find)
  with st' show ?thesis unfolding Let_def by blast
qed

text \<open>
  A token opens one page: resolving it answers with a dashboard only when that dashboard
  itself holds a grant in its own name, for the token's digest, not yet expired, whatever the
  repository's lookup by digest returns; and the token handed out by sharing opens the dashboard
  as saved until the grant's date, when the repository finds it.
\<close>

theorem share_token_opens_one_page:
  shows "(resolve_share repo digest token now st = Inr d \<longrightarrow>
            (\<exists>g. dsh_share d = Some g \<and> sg_dashboard g = dsh_id d \<and> sg_digest g = digest token \<and>
                 now < sg_expires_at g)) \<and>
         (share_dashboard repo i ttl made (token, digest token) st = (st', Inr (d, t)) \<and>
          repo_find_by_digest repo (digest token) later = Some d \<and> dsh_id d = i \<and>
          now < instant_plus made ttl \<longrightarrow>
            resolve_share repo digest token now later = Inr d)"
proof (intro conjI impI)
  assume "resolve_share repo digest token now st = Inr d"
  then show "\<exists>g. dsh_share d = Some g \<and> sg_dashboard g = dsh_id d \<and> sg_digest g = digest token \<and>
      now < sg_expires_at g"
    by (auto simp: resolve_share_def authorize_share_read_def is_after_def ok_def err_def
        split: option.splits sum.splits if_splits)
next
  assume a: "share_dashboard repo i ttl made (token, digest token) st = (st', Inr (d, t)) \<and>
    repo_find_by_digest repo (digest token) later = Some d \<and> dsh_id d = i \<and> now < instant_plus made ttl"
  then have "dsh_share d = Some \<lparr> sg_dashboard = i, sg_digest = digest token, sg_expires_at = instant_plus made ttl \<rparr>"
    by (auto simp: share_dashboard_def load_dashboard_def grant_share_def ok_def err_def Let_def
        split: option.splits sum.splits if_splits)
  with a show "resolve_share repo digest token now later = Inr d"
    by (simp add: resolve_share_def authorize_share_read_def is_after_def ok_def)
qed

theorem share_token_opens_one_page_witness:
  "let digest = (\<lambda>t. ''#'' @ t);
       st = \<lparr> mem_rows = [(''d'', \<lparr> dsh_id = ''d'', dsh_workspace = ''w'', dsh_name = ''D'',
                dsh_tiles = ([] :: unit tile list), dsh_is_default = False, dsh_share = None \<rparr>)],
             mem_digests = [], mem_saved = [] \<rparr>
   in \<exists>st' d t. share_dashboard memory_repo ''d'' 50 10 (''tok'', digest ''tok'') st = (st', Inr (d, t)) \<and>
        resolve_share memory_repo digest ''tok'' 59 st' = Inr d \<and>
        resolve_share memory_repo digest ''tok'' 60 st' = Inl ShareGrantExpired"
proof -
  let ?digest = "\<lambda>t. ''#'' @ t"
  let ?d = "\<lparr> dsh_id = ''d'', dsh_workspace = ''w'', dsh_name = ''D'',
                dsh_tiles = ([] :: unit tile list), dsh_is_default = False, dsh_share = None \<rparr>"
  let ?g = "\<lparr> sg_dashboard = ''d'', sg_digest = ''#tok'', sg_expires_at = 60 \<rparr>"
  let ?e = "?d\<lparr>dsh_share := Some ?g\<rparr>"
  let ?st = "\<lparr> mem_rows = [(''d'', ?d)], mem_digests = [], mem_saved = [] \<rparr>"
  let ?st' = "\<lparr> mem_rows = [(''d'', ?e)], mem_digests = [], mem_saved = [(''d'', [DashboardShared ''d'' 60 10])] \<rparr>"
  have s: "share_dashboard memory_repo ''d'' 50 10 (''tok'', ?digest ''tok'') ?st = (?st', Inr (?e, ''tok''))"
    by code_simp
  have f: "repo_find_by_digest memory_repo (?digest ''tok'') ?st' = Some ?e" by code_simp
  have r: "resolve_share memory_repo ?digest ''tok'' 59 ?st' = Inr ?e"
    using share_token_opens_one_page [of memory_repo ?digest "''tok''" 59 ?st ?e "''d''" 50 10 ?st' "''tok''" ?st'] s f
    by (simp add: instant_plus_def)
  have x: "resolve_share memory_repo ?digest ''tok'' 60 ?st' = Inl ShareGrantExpired" by code_simp
  show ?thesis unfolding Let_def by (intro exI conjI) (rule s r x)+
qed

end
