(* ===== verification/MonitorUse.thy ===== *)
theory MonitorUse
  imports Monitor DashboardUse
begin

text \<open>
  The monitor use cases, packages/dashboarding/app/src/monitors.ts, over the repository of
  packages/dashboarding/ports/src/monitor-repository.ts (a record of its operations, specified by
  the locale \<open>monitor_repository\<close> and interpreted on the in-memory one of test-support.ts) and the
  check of an analysis that the composition root supplies (\<open>AnalysisCheck\<close>), a parameter.
\<close>

section \<open>The repository\<close>

record ('st, 'a) monitor_repo =
  mrepo_find :: "monitor_id \<Rightarrow> 'st \<Rightarrow> 'a monitor option"
  mrepo_list_enabled :: "nat \<Rightarrow> 'st \<Rightarrow> 'a monitor list"
  mrepo_save :: "'a monitor \<Rightarrow> monitor_event list \<Rightarrow> 'st \<Rightarrow> 'st"
  mrepo_delete :: "monitor_id \<Rightarrow> 'st \<Rightarrow> 'st"

type_synonym 'a question_check = "'a \<Rightarrow> monitor_error + 'a"

section \<open>The use cases\<close>

definition load_monitor ::
  "('st, 'a) monitor_repo \<Rightarrow> monitor_id \<Rightarrow> 'st \<Rightarrow> monitor_error + 'a monitor" where
  "load_monitor repo i st =
     (case mrepo_find repo i st of None \<Rightarrow> err (NoSuchMonitor i) | Some m \<Rightarrow> ok m)"

definition commit_monitor ::
  "('st, 'a) monitor_repo \<Rightarrow> monitor_error + 'a monitor_applied \<Rightarrow> 'st \<Rightarrow>
     'st \<times> (monitor_error + 'a monitor)" where
  "commit_monitor repo applied st =
     (case applied of
        Inl e \<Rightarrow> (st, Inl e)
      | Inr (m, es) \<Rightarrow> (mrepo_save repo m es st, ok m))"

definition create_monitor ::
  "('st, 'a) monitor_repo \<Rightarrow> 'a question_check \<Rightarrow> monitor_id \<Rightarrow> workspace_id \<Rightarrow> project_id \<Rightarrow>
     string \<Rightarrow> 'a \<Rightarrow> threshold \<Rightarrow> monitor_settings \<Rightarrow> instant \<Rightarrow> 'st \<Rightarrow>
     'st \<times> (monitor_error + 'a monitor)" where
  "create_monitor repo is_scalar fresh w p name analysis t settings now st =
     (case is_scalar analysis of
        Inl e \<Rightarrow> (st, Inl e)
      | Inr _ \<Rightarrow> commit_monitor repo (monitor_create fresh w p name analysis t now settings) st)"

record 'a monitor_update =
  upd_name :: "string option"
  upd_analysis :: "'a option"
  upd_threshold :: "threshold option"
  upd_cooldown :: "duration option"
  upd_channels :: "channel list option"

text \<open>The three stages of an update; each passes on the monitor and the events so far.\<close>

definition update_name_stage ::
  "'a monitor_update \<Rightarrow> instant \<Rightarrow> 'a monitor_applied \<Rightarrow> monitor_error + 'a monitor_applied" where
  "update_name_stage u now = (\<lambda>(m, es).
     case upd_name u of
       None \<Rightarrow> ok (m, es)
     | Some n \<Rightarrow>
         (case rename_monitor n now m of
            Inl e \<Rightarrow> Inl e | Inr (m', es') \<Rightarrow> ok (m', es @ es')))"

definition update_target_stage ::
  "'a question_check \<Rightarrow> 'a monitor_update \<Rightarrow> instant \<Rightarrow> 'a monitor_applied \<Rightarrow>
     monitor_error + 'a monitor_applied" where
  "update_target_stage is_scalar u now = (\<lambda>(m, es).
     if upd_analysis u = None \<and> upd_threshold u = None then ok (m, es)
     else
       (let analysis = (case upd_analysis u of None \<Rightarrow> mon_analysis m | Some a \<Rightarrow> a);
            t = (case upd_threshold u of None \<Rightarrow> mon_threshold m | Some t \<Rightarrow> t)
        in case is_scalar analysis of
             Inl e \<Rightarrow> Inl e
           | Inr _ \<Rightarrow>
               (case retarget analysis t now m of
                  Inl e \<Rightarrow> Inl e | Inr (m', es') \<Rightarrow> ok (m', es @ es'))))"

definition update_settings_stage ::
  "'a monitor_update \<Rightarrow> instant \<Rightarrow> 'a monitor_applied \<Rightarrow> monitor_error + 'a monitor_applied" where
  "update_settings_stage u now = (\<lambda>(m, es).
     if upd_cooldown u = None \<and> upd_channels u = None then ok (m, es)
     else (case reconfigure \<lparr> set_cooldown = upd_cooldown u, set_channels = upd_channels u \<rparr> now m of
             Inl e \<Rightarrow> Inl e | Inr (m', es') \<Rightarrow> ok (m', es @ es')))"

definition updated_monitor ::
  "'a question_check \<Rightarrow> 'a monitor_update \<Rightarrow> instant \<Rightarrow> 'a monitor \<Rightarrow> monitor_error + 'a monitor_applied" where
  "updated_monitor is_scalar u now m =
     (case update_name_stage u now (m, []) of
        Inl e \<Rightarrow> Inl e
      | Inr a \<Rightarrow>
          (case update_target_stage is_scalar u now a of
             Inl e \<Rightarrow> Inl e
           | Inr b \<Rightarrow> update_settings_stage u now b))"

definition update_monitor ::
  "('st, 'a) monitor_repo \<Rightarrow> 'a question_check \<Rightarrow> monitor_id \<Rightarrow> 'a monitor_update \<Rightarrow> instant \<Rightarrow> 'st \<Rightarrow>
     'st \<times> (monitor_error + 'a monitor)" where
  "update_monitor repo is_scalar i u now st =
     (case load_monitor repo i st of
        Inl e \<Rightarrow> (st, Inl e)
      | Inr m \<Rightarrow>
          (case updated_monitor is_scalar u now m of
             Inl e \<Rightarrow> (st, Inl e)
           | Inr (n, es) \<Rightarrow> if es = [] then (st, ok n) else (mrepo_save repo n es st, ok n)))"

definition enable_monitor ::
  "('st, 'a) monitor_repo \<Rightarrow> monitor_id \<Rightarrow> instant \<Rightarrow> 'st \<Rightarrow> 'st \<times> (monitor_error + 'a monitor)" where
  "enable_monitor repo i now st =
     (case load_monitor repo i st of
        Inl e \<Rightarrow> (st, Inl e) | Inr m \<Rightarrow> commit_monitor repo (enable_mon now m) st)"

definition disable_monitor ::
  "('st, 'a) monitor_repo \<Rightarrow> monitor_id \<Rightarrow> instant \<Rightarrow> 'st \<Rightarrow> 'st \<times> (monitor_error + 'a monitor)" where
  "disable_monitor repo i now st =
     (case load_monitor repo i st of
        Inl e \<Rightarrow> (st, Inl e) | Inr m \<Rightarrow> commit_monitor repo (disable_mon now m) st)"

definition delete_monitor ::
  "('st, 'a) monitor_repo \<Rightarrow> monitor_id \<Rightarrow> 'st \<Rightarrow> 'st \<times> (monitor_error + unit)" where
  "delete_monitor repo i st =
     (case load_monitor repo i st of
        Inl e \<Rightarrow> (st, Inl e) | Inr _ \<Rightarrow> (mrepo_delete repo i st, ok ()))"

definition evaluate_monitor ::
  "('st, 'a) monitor_repo \<Rightarrow> 'a monitor \<Rightarrow> rat \<Rightarrow> instant \<Rightarrow> 'st \<Rightarrow>
     'st \<times> 'a monitor \<times> monitor_decision \<times> monitor_event list" where
  "evaluate_monitor repo m observed now st =
     (let decision = monitor_decide observed now m;
          (n, es) = monitor_apply decision now m
      in (mrepo_save repo n es st, n, decision, es))"

definition due_monitors :: "('st, 'a) monitor_repo \<Rightarrow> nat \<Rightarrow> 'st \<Rightarrow> 'a monitor list" where
  "due_monitors repo limit st = mrepo_list_enabled repo limit st"

section \<open>The in-memory repository\<close>

record 'a memory_monitors =
  mm_rows :: "(monitor_id \<times> 'a monitor) list"
  mm_saved :: "(monitor_id \<times> monitor_event list) list"

definition memory_monitor_repo :: "('a memory_monitors, 'a) monitor_repo" where
  "memory_monitor_repo =
     \<lparr> mrepo_find = (\<lambda>i st. map_of (mm_rows st) i),
       mrepo_list_enabled = (\<lambda>limit st. take limit (filter mon_enabled (map snd (mm_rows st)))),
       mrepo_save = (\<lambda>m es st. st\<lparr>mm_rows := map_put (mon_id m) m (mm_rows st),
                                 mm_saved := mm_saved st @ [(mon_id m, es)]\<rparr>),
       mrepo_delete = (\<lambda>i st. st\<lparr>mm_rows := filter (\<lambda>(k, m). k \<noteq> i) (mm_rows st)\<rparr>) \<rparr>"

section \<open>What the use cases rely on\<close>

locale monitor_repository =
  fixes repo :: "('st, 'a) monitor_repo"
  assumes mfind_save: "mrepo_find repo i (mrepo_save repo m es st) =
        (if i = mon_id m then Some m else mrepo_find repo i st)"
    and mfind_delete: "mrepo_find repo i (mrepo_delete repo j st) =
        (if i = j then None else mrepo_find repo i st)"

interpretation mmem: monitor_repository memory_monitor_repo
proof unfold_locales
  show "mrepo_find memory_monitor_repo i (mrepo_save memory_monitor_repo m es st) =
      (if i = mon_id m then Some m else mrepo_find memory_monitor_repo i st)"
    for i and m :: "'a monitor" and es st
    by (simp add: memory_monitor_repo_def map_of_map_put)
  have "map_of (filter (\<lambda>(k, m). k \<noteq> j) kvs) i = (if i = j then None else map_of kvs i)"
    for kvs :: "(monitor_id \<times> 'a monitor) list" and i j
    by (induction kvs) auto
  then show "mrepo_find memory_monitor_repo i (mrepo_delete memory_monitor_repo j st) =
      (if i = j then None else mrepo_find memory_monitor_repo i st)"
    for i j and st :: "'a memory_monitors"
    by (simp add: memory_monitor_repo_def)
qed

section \<open>Updates\<close>

lemmas monitor_stage_defs =
  update_name_stage_def update_target_stage_def update_settings_stage_def

text \<open>What an accepted update makes of the monitor: its name, its question, its settings.\<close>

definition renamed :: "'a monitor_update \<Rightarrow> 'a monitor \<Rightarrow> 'a monitor" where
  "renamed u m = m\<lparr>mon_name := (case upd_name u of None \<Rightarrow> mon_name m | Some n \<Rightarrow> js_trim n)\<rparr>"

definition aimed :: "'a monitor_update \<Rightarrow> 'a monitor \<Rightarrow> 'a monitor" where
  "aimed u m =
     (if upd_analysis u = None \<and> upd_threshold u = None then m
      else m\<lparr>mon_analysis := (case upd_analysis u of None \<Rightarrow> mon_analysis m | Some a \<Rightarrow> a),
             mon_threshold := (case upd_threshold u of None \<Rightarrow> mon_threshold m | Some t \<Rightarrow> t),
             mon_state := MonOk, last_notified_at := None, last_value := None,
             last_attempt_at := None, last_measured_at := None, evaluation_error := None\<rparr>)"

definition rerouted :: "'a monitor_update \<Rightarrow> 'a monitor \<Rightarrow> 'a monitor" where
  "rerouted u m =
     m\<lparr>mon_cooldown := (case upd_cooldown u of None \<Rightarrow> mon_cooldown m | Some c \<Rightarrow> c),
       mon_channels := (case upd_channels u of None \<Rightarrow> mon_channels m | Some cs \<Rightarrow> cs)\<rparr>"

definition update_result :: "'a monitor_update \<Rightarrow> 'a monitor \<Rightarrow> 'a monitor" where
  "update_result u m = rerouted u (aimed u (renamed u m))"

definition update_events :: "'a monitor_update \<Rightarrow> instant \<Rightarrow> 'a monitor \<Rightarrow> monitor_event list" where
  "update_events u now m =
     (case upd_name u of None \<Rightarrow> [] | Some n \<Rightarrow> [MonitorRenamed (mon_id m) (js_trim n) now]) @
     (if upd_analysis u = None \<and> upd_threshold u = None then [] else [MonitorRetargeted (mon_id m) now]) @
     (if upd_cooldown u = None \<and> upd_channels u = None then [] else [MonitorReconfigured (mon_id m) now])"

text \<open>When it is accepted.\<close>

definition update_allowed :: "'a question_check \<Rightarrow> 'a monitor_update \<Rightarrow> 'a monitor \<Rightarrow> bool" where
  "update_allowed is_scalar u m =
     ((case upd_name u of None \<Rightarrow> True | Some n \<Rightarrow> js_trim n \<noteq> [] \<and> js_trim n \<noteq> mon_name m) \<and>
      (upd_analysis u = None \<and> upd_threshold u = None \<or>
       is_ok (is_scalar (case upd_analysis u of None \<Rightarrow> mon_analysis m | Some a \<Rightarrow> a))) \<and>
      (upd_cooldown u = None \<and> upd_channels u = None \<or>
       0 \<le> (case upd_cooldown u of None \<Rightarrow> mon_cooldown m | Some c \<Rightarrow> c)))"

lemma name_stage_Inr:
  "update_name_stage u now (m, es) = Inr r \<longleftrightarrow>
     (case upd_name u of None \<Rightarrow> True | Some n \<Rightarrow> js_trim n \<noteq> [] \<and> js_trim n \<noteq> mon_name m) \<and>
     r = (renamed u m, es @ (case upd_name u of None \<Rightarrow> [] | Some n \<Rightarrow> [MonitorRenamed (mon_id m) (js_trim n) now]))"
  by (auto simp: update_name_stage_def rename_monitor_def renamed_def ok_def err_def Let_def
      split: option.splits)

lemma target_stage_Inr:
  "update_target_stage is_scalar u now (m, es) = Inr r \<longleftrightarrow>
     (upd_analysis u = None \<and> upd_threshold u = None \<or>
      is_ok (is_scalar (case upd_analysis u of None \<Rightarrow> mon_analysis m | Some a \<Rightarrow> a))) \<and>
     r = (aimed u m, es @ (if upd_analysis u = None \<and> upd_threshold u = None then []
                           else [MonitorRetargeted (mon_id m) now]))"
proof (cases "upd_analysis u = None \<and> upd_threshold u = None")
  case True
  then show ?thesis by (auto simp: update_target_stage_def aimed_def ok_def)
next
  case False
  then show ?thesis
    by (cases "is_scalar (case upd_analysis u of None \<Rightarrow> mon_analysis m | Some a \<Rightarrow> a)")
      (auto simp: update_target_stage_def aimed_def retarget_def is_ok_def ok_def Let_def)
qed

lemma settings_stage_Inr:
  "update_settings_stage u now (m, es) = Inr r \<longleftrightarrow>
     (upd_cooldown u = None \<and> upd_channels u = None \<or>
      0 \<le> (case upd_cooldown u of None \<Rightarrow> mon_cooldown m | Some c \<Rightarrow> c)) \<and>
     r = (rerouted u m, es @ (if upd_cooldown u = None \<and> upd_channels u = None then []
                              else [MonitorReconfigured (mon_id m) now]))"
proof (cases "upd_cooldown u = None \<and> upd_channels u = None")
  case True
  then show ?thesis by (auto simp: update_settings_stage_def rerouted_def ok_def)
next
  case False
  then show ?thesis
    by (auto simp: update_settings_stage_def rerouted_def reconfigure_def time_defs ok_def err_def
        Let_def not_less)
qed

lemma updated_monitor_Inr:
  "updated_monitor is_scalar u now m = Inr r \<longleftrightarrow>
     update_allowed is_scalar u m \<and> r = (update_result u m, update_events u now m)"
proof -
  have fields: "mon_analysis (renamed u m) = mon_analysis m" "mon_id (renamed u m) = mon_id m"
    "mon_id (aimed u x) = mon_id x" "mon_cooldown (aimed u x) = mon_cooldown x"
    "mon_cooldown (renamed u m) = mon_cooldown m" for x
    by (simp_all add: renamed_def aimed_def)
  have "updated_monitor is_scalar u now m = Inr r \<longleftrightarrow>
      (\<exists>a b. update_name_stage u now (m, []) = Inr a \<and> update_target_stage is_scalar u now a = Inr b \<and>
         update_settings_stage u now b = Inr r)"
    by (auto simp: updated_monitor_def split: sum.splits)
  also have "\<dots> \<longleftrightarrow> update_allowed is_scalar u m \<and> r = (update_result u m, update_events u now m)"
    by (simp add: name_stage_Inr target_stage_Inr settings_stage_Inr fields update_result_def
        update_allowed_def update_events_def conj_assoc cong: option.case_cong)
  finally show ?thesis .
qed

section \<open>Every stored monitor is sound\<close>

definition monitors_ok :: "'a question_check \<Rightarrow> (monitor_id \<Rightarrow> 'a monitor option) \<Rightarrow> bool" where
  "monitors_ok is_scalar ms \<longleftrightarrow>
     (\<forall>i m. ms i = Some m \<longrightarrow> mon_id m = i \<and> monitor_wf m \<and> is_ok (is_scalar (mon_analysis m)))"

text \<open>
  The use cases interleaved. An evaluation works on a monitor read in any earlier state: the
  worker holds its batch while other requests are served.
\<close>

inductive monitored ::
  "('st, 'a) monitor_repo \<Rightarrow> 'a question_check \<Rightarrow> 'st \<Rightarrow> 'st \<Rightarrow> bool"
  for repo :: "('st, 'a) monitor_repo" and is_scalar :: "'a question_check" and start :: 'st where
  mon_start: "monitored repo is_scalar start start"
| mon_create: "monitored repo is_scalar start st \<Longrightarrow>
    monitored repo is_scalar start (fst (create_monitor repo is_scalar i w p n a t settings now st))"
| mon_update: "monitored repo is_scalar start st \<Longrightarrow>
    monitored repo is_scalar start (fst (update_monitor repo is_scalar i u now st))"
| mon_enable: "monitored repo is_scalar start st \<Longrightarrow>
    monitored repo is_scalar start (fst (enable_monitor repo i now st))"
| mon_disable: "monitored repo is_scalar start st \<Longrightarrow>
    monitored repo is_scalar start (fst (disable_monitor repo i now st))"
| mon_delete: "monitored repo is_scalar start st \<Longrightarrow>
    monitored repo is_scalar start (fst (delete_monitor repo i st))"
| mon_evaluate: "monitored repo is_scalar start st \<Longrightarrow> monitored repo is_scalar start old \<Longrightarrow>
    mrepo_find repo i old = Some m \<Longrightarrow>
    monitored repo is_scalar start (fst (evaluate_monitor repo m v now st))"

lemma monitors_ok_upd:
  "monitors_ok sc ms \<Longrightarrow> monitor_wf m \<Longrightarrow> is_ok (sc (mon_analysis m)) \<Longrightarrow> monitors_ok sc (ms(mon_id m \<mapsto> m))"
  by (simp add: monitors_ok_def)

lemma exec_monitor_analysis:
  assumes "exec_monitor (c, now) m = Inr (n, es)" and "\<And>a t. c \<noteq> MonRetarget a t"
  shows "mon_analysis n = mon_analysis m"
proof (cases c)
  case (MonEvaluate v)
  with assms have "exec_monitor (MonEvaluate v, now) m = Inr (n, es)" by simp
  then show ?thesis by (cases rule: evaluate_cases) (simp_all add: measured_def)
qed (use assms in \<open>auto simp: monitor_op_defs split: if_splits option.splits\<close>)

lemma update_result_wf:
  assumes "update_allowed sc u m" "monitor_wf m" "is_ok (sc (mon_analysis m))"
  shows "monitor_wf (update_result u m) \<and> is_ok (sc (mon_analysis (update_result u m))) \<and>
         mon_id (update_result u m) = mon_id m"
  using assms
  by (auto simp: update_allowed_def update_result_def rerouted_def aimed_def renamed_def
      monitor_wf_def split: option.splits)

lemma monitor_create_sound:
  assumes "monitor_create i w p n a now t settings = Inr (m, es)"
  shows "mon_id m = i \<and> monitor_wf m \<and> mon_analysis m = a"
  using assms
  by (auto simp: monitor_create_def monitor_wf_def DEFAULT_COOLDOWN_def time_defs ok_def err_def Let_def
      split: if_splits option.splits)

context monitor_repository begin

abbreviation stored :: "'st \<Rightarrow> monitor_id \<Rightarrow> 'a monitor option" where
  "stored st \<equiv> (\<lambda>i. mrepo_find repo i st)"

lemma stored_save: "stored (mrepo_save repo m es st) = (stored st)(mon_id m \<mapsto> m)"
  by (auto simp: mfind_save)

lemma save_ok:
  assumes "monitors_ok sc (stored st)" "monitor_wf m" "is_ok (sc (mon_analysis m))"
  shows "monitors_ok sc (stored (mrepo_save repo m es st))"
  unfolding stored_save by (rule monitors_ok_upd [OF assms])

text \<open>One command that does not retarget, committed.\<close>

lemma commit_ok:
  assumes ok: "monitors_ok sc (stored st)" and m: "stored st i = Some m"
    and c: "\<And>a t. c \<noteq> MonRetarget a t"
  shows "monitors_ok sc (stored (fst (commit_monitor repo (exec_monitor (c, now) m) st)))"
proof (cases "exec_monitor (c, now) m")
  case (Inl e)
  with ok show ?thesis by (simp add: commit_monitor_def)
next
  case (Inr r)
  obtain n es where r: "exec_monitor (c, now) m = Inr (n, es)" using Inr by (cases r) auto
  have "monitor_wf n" using exec_monitor_sound [OF r] ok m by (simp add: monitors_ok_def)
  moreover have "is_ok (sc (mon_analysis n))"
    using exec_monitor_analysis [OF r c] ok m by (simp add: monitors_ok_def)
  ultimately show ?thesis using save_ok [OF ok] by (simp add: commit_monitor_def r)
qed

lemma monitored_ok:
  assumes "monitored repo sc start st" and "monitors_ok sc (stored start)"
  shows "monitors_ok sc (stored st)"
  using assms
proof induction
  case (mon_create st i w p n a t settings now)
  then have ok: "monitors_ok sc (stored st)" by simp
  show ?case
  proof (cases "sc a")
    case (Inl e)
    with ok show ?thesis by (simp add: create_monitor_def)
  next
    case sc: (Inr x)
    show ?thesis
    proof (cases "monitor_create i w p n a t now settings")
      case (Inl e)
      with ok sc show ?thesis by (simp add: create_monitor_def commit_monitor_def)
    next
      case (Inr r)
      obtain m es where r: "monitor_create i w p n a t now settings = Inr (m, es)" using Inr by (cases r) auto
      from monitor_create_sound [OF r] sc have "monitor_wf m" "is_ok (sc (mon_analysis m))"
        by (simp_all add: is_ok_def)
      from save_ok [OF ok this] show ?thesis by (simp add: create_monitor_def commit_monitor_def sc r)
    qed
  qed
next
  case (mon_update st i u now)
  then have ok: "monitors_ok sc (stored st)" by simp
  show ?case
  proof (cases "stored st i")
    case None
    with ok show ?thesis by (simp add: update_monitor_def load_monitor_def err_def)
  next
    case (Some m)
    show ?thesis
    proof (cases "updated_monitor sc u now m")
      case (Inl e)
      with ok Some show ?thesis by (simp add: update_monitor_def load_monitor_def ok_def)
    next
      case (Inr r)
      then have a: "update_allowed sc u m" and r: "r = (update_result u m, update_events u now m)"
        by (simp_all add: updated_monitor_Inr)
      have "monitor_wf (update_result u m) \<and> is_ok (sc (mon_analysis (update_result u m)))"
        using update_result_wf [OF a] ok Some by (simp add: monitors_ok_def)
      with save_ok [OF ok] ok show ?thesis
        by (simp add: update_monitor_def load_monitor_def ok_def Some Inr r)
    qed
  qed
next
  case (mon_enable st i now)
  then show ?case
    using commit_ok [of sc st i _ MonEnable now]
    by (simp add: enable_monitor_def load_monitor_def ok_def err_def split: option.split)
next
  case (mon_disable st i now)
  then show ?case
    using commit_ok [of sc st i _ MonDisable now]
    by (simp add: disable_monitor_def load_monitor_def ok_def err_def split: option.split)
next
  case (mon_delete st i)
  then have ok: "monitors_ok sc (stored st)" by simp
  then have "monitors_ok sc (stored (mrepo_delete repo i st))"
    by (simp add: monitors_ok_def mfind_delete)
  with ok show ?case
    by (simp add: delete_monitor_def load_monitor_def ok_def err_def split: option.split)
next
  case (mon_evaluate st old i m v now)
  have "monitors_ok sc (stored old)" by (rule mon_evaluate.IH(2) [OF mon_evaluate.prems])
  with mon_evaluate.hyps(3) have m: "monitor_wf m" "is_ok (sc (mon_analysis m))"
    unfolding monitors_ok_def by blast+
  obtain n es where r: "monitor_apply (monitor_decide v now m) now m = (n, es)" by fastforce
  then have ex: "exec_monitor (MonEvaluate v, now) m = Inr (n, es)" by simp
  have "monitor_wf n" "is_ok (sc (mon_analysis n))"
    using exec_monitor_sound [OF ex] exec_monitor_analysis [OF ex] m by simp_all
  from save_ok [OF mon_evaluate.IH(1) [OF mon_evaluate.prems] this]
  have "monitors_ok sc (stored (mrepo_save repo n es st))" .
  moreover have "fst (evaluate_monitor repo m v now st) = mrepo_save repo n es st"
    by (simp add: evaluate_monitor_def r)
  ultimately show ?case by (simp only:)
qed

end

text \<open>
  An update of a monitor is all or nothing, and says exactly what changed: it is refused
  without a write, or saved once with one event per kind of change in the order of the stages,
  each named field having its new value and every other field its old one; an update that names
  no field writes nothing; and only a new analysis or threshold forgets a breach, so renaming and
  rerouting a breaching monitor never make it announce the breach again.
\<close>

theorem monitor_update_is_atomic:
  assumes "mrepo_find repo i st = Some m"
  shows "update_monitor repo is_scalar i u now st =
           (if update_allowed is_scalar u m
            then (if update_events u now m = [] then st
                  else mrepo_save repo (update_result u m) (update_events u now m) st,
                  Inr (update_result u m))
            else (st, snd (update_monitor repo is_scalar i u now st))) \<and>
         (is_err (snd (update_monitor repo is_scalar i u now st)) \<longleftrightarrow> \<not> update_allowed is_scalar u m) \<and>
         (update_events u now m = [] \<longrightarrow> update_result u m = m) \<and>
         (upd_analysis u = None \<and> upd_threshold u = None \<longrightarrow>
            monitor_decide v later (update_result (u\<lparr>upd_cooldown := None\<rparr>) m) = monitor_decide v later m)"
proof (intro conjI impI)
  have run: "update_monitor repo is_scalar i u now st =
      (case updated_monitor is_scalar u now m of
         Inl e \<Rightarrow> (st, Inl e)
       | Inr (n, es) \<Rightarrow> if es = [] then (st, ok n) else (mrepo_save repo n es st, ok n))"
    using assms by (simp add: update_monitor_def load_monitor_def ok_def)
  show "update_monitor repo is_scalar i u now st =
      (if update_allowed is_scalar u m
       then (if update_events u now m = [] then st
             else mrepo_save repo (update_result u m) (update_events u now m) st,
             Inr (update_result u m))
       else (st, snd (update_monitor repo is_scalar i u now st)))"
  proof (cases "updated_monitor is_scalar u now m")
    case (Inl e)
    with updated_monitor_Inr [of is_scalar u now m] have "\<not> update_allowed is_scalar u m" by auto
    then show ?thesis by (simp add: run Inl)
  next
    case (Inr r)
    with updated_monitor_Inr [of is_scalar u now m r]
    have a: "update_allowed is_scalar u m" and r: "r = (update_result u m, update_events u now m)" by simp_all
    show ?thesis by (simp add: run Inr r a ok_def)
  qed
  show "is_err (snd (update_monitor repo is_scalar i u now st)) \<longleftrightarrow> \<not> update_allowed is_scalar u m"
  proof (cases "updated_monitor is_scalar u now m")
    case (Inl e)
    with updated_monitor_Inr [of is_scalar u now m] have "\<not> update_allowed is_scalar u m" by auto
    then show ?thesis by (simp add: run Inl is_err_def is_ok_def)
  next
    case (Inr r)
    with updated_monitor_Inr [of is_scalar u now m r]
    have a: "update_allowed is_scalar u m" and r: "r = (update_result u m, update_events u now m)" by simp_all
    show ?thesis by (simp add: run Inr r a ok_def is_err_def is_ok_def)
  qed
  assume "update_events u now m = []"
  then show "update_result u m = m"
    by (auto simp: update_events_def update_result_def rerouted_def aimed_def renamed_def split: option.splits if_splits)
next
  assume "upd_analysis u = None \<and> upd_threshold u = None"
  then show "monitor_decide v later (update_result (u\<lparr>upd_cooldown := None\<rparr>) m) = monitor_decide v later m"
    by (simp add: update_result_def rerouted_def aimed_def renamed_def monitor_decide_def cong: option.case_cong if_cong)
qed

text \<open>
  Whatever use cases run on a store and in whatever order, evaluations of stale copies
  included: every stored monitor is filed under its own id, is named, has no negative cooldown,
  asks a question that passed the scalar check, and is breaching only while it is enabled and has
  announced the breach.
\<close>

theorem stored_monitors_are_sound:
  assumes "monitor_repository repo" and "\<forall>i. mrepo_find repo i start = None"
    and "monitored repo is_scalar start st" and "mrepo_find repo i st = Some m"
  shows "mon_id m = i \<and> monitor_wf m \<and> is_ok (is_scalar (mon_analysis m))"
proof -
  have "monitors_ok is_scalar (\<lambda>i. mrepo_find repo i start)"
    using assms(2) by (simp add: monitors_ok_def)
  from monitor_repository.monitored_ok [OF assms(1,3) this] assms(4)
  show ?thesis by (simp add: monitors_ok_def)
qed

theorem monitor_update_is_atomic_witness:
  "let m = \<lparr> mon_id = ''m'', mon_workspace = ''w'', mon_project = ''p'', mon_name = ''N'', mon_analysis = (),
             mon_threshold = Above 1, mon_cooldown = 100, mon_channels = [], mon_enabled = True,
             mon_state = MonBreaching, last_notified_at = Some 10, last_value = Some 2,
             last_attempt_at = Some 10, last_measured_at = Some 10, evaluation_error = None,
             pending_deliveries = 0, failed_deliveries = 0, delivery_error = None,
             last_delivered_at = None, evaluation_claim = None \<rparr>;
       st = \<lparr> mm_rows = [(''m'', m)], mm_saved = [] \<rparr>;
       u = \<lparr> upd_name = Some ''Renamed'', upd_analysis = None, upd_threshold = None,
             upd_cooldown = None, upd_channels = Some [Email ''a''] \<rparr>
   in map_sum (\<lambda>e. ()) mon_name (snd (update_monitor memory_monitor_repo Inr ''m'' u 20 st)) = Inr ''Renamed'' \<and>
      monitor_decide 5 30 (update_result u m) = Silent CoolingDown 5"
proof -
  let ?m = "\<lparr> mon_id = ''m'', mon_workspace = ''w'', mon_project = ''p'', mon_name = ''N'', mon_analysis = (),
             mon_threshold = Above 1, mon_cooldown = 100, mon_channels = [], mon_enabled = True,
             mon_state = MonBreaching, last_notified_at = Some 10, last_value = Some 2,
             last_attempt_at = Some 10, last_measured_at = Some 10, evaluation_error = None,
             pending_deliveries = 0, failed_deliveries = 0, delivery_error = None,
             last_delivered_at = None, evaluation_claim = None \<rparr>"
  let ?st = "\<lparr> mm_rows = [(''m'', ?m)], mm_saved = [] \<rparr>"
  let ?u = "\<lparr> upd_name = Some ''Renamed'', upd_analysis = None, upd_threshold = None,
             upd_cooldown = None, upd_channels = Some [Email ''a''] \<rparr> :: unit monitor_update"
  have m: "mrepo_find memory_monitor_repo ''m'' ?st = Some ?m" by (simp add: memory_monitor_repo_def)
  have a: "update_allowed Inr ?u ?m" and n: "mon_name (update_result ?u ?m) = ''Renamed''" by code_simp+
  have "snd (update_monitor memory_monitor_repo Inr ''m'' ?u 20 ?st) = Inr (update_result ?u ?m)"
    using monitor_update_is_atomic [OF m, of Inr ?u 20] a by (metis snd_conv)
  moreover have "monitor_decide 5 30 (update_result ?u ?m) = monitor_decide 5 30 ?m"
    using monitor_update_is_atomic [OF m, of Inr ?u 20 5 30] by simp
  moreover have "monitor_decide 5 30 ?m = Silent CoolingDown 5" by code_simp
  ultimately show ?thesis by (simp only: Let_def map_sum.simps n simp_thms)
qed

theorem stored_monitors_are_sound_witness:
  "let st0 = \<lparr> mm_rows = [], mm_saved = [] \<rparr> :: bool memory_monitors;
       check = (\<lambda>a. if a then Inr a else Inl AnalysisMustBeScalar);
       settings = \<lparr> set_cooldown = None, set_channels = None \<rparr>;
       st1 = fst (create_monitor memory_monitor_repo check ''m'' ''w'' ''p'' ''N'' True (Above 1) settings 5 st0);
       u = \<lparr> upd_name = None, upd_analysis = Some False, upd_threshold = None,
             upd_cooldown = None, upd_channels = None \<rparr>;
       st2 = fst (update_monitor memory_monitor_repo check ''m'' u 6 st1)
   in \<exists>m. mrepo_find memory_monitor_repo ''m'' st2 = Some m \<and> is_ok (check (mon_analysis m))"
proof -
  let ?st0 = "\<lparr> mm_rows = [], mm_saved = [] \<rparr> :: bool memory_monitors"
  let ?check = "\<lambda>a. if a then Inr a else Inl AnalysisMustBeScalar"
  let ?settings = "\<lparr> set_cooldown = None, set_channels = None \<rparr>"
  let ?st1 = "fst (create_monitor memory_monitor_repo ?check ''m'' ''w'' ''p'' ''N'' True (Above 1) ?settings 5 ?st0)"
  let ?u = "\<lparr> upd_name = None, upd_analysis = Some False, upd_threshold = None,
             upd_cooldown = None, upd_channels = None \<rparr>"
  let ?st2 = "fst (update_monitor memory_monitor_repo ?check ''m'' ?u 6 ?st1)"
  have empty: "\<forall>i. mrepo_find memory_monitor_repo i ?st0 = None" by (simp add: memory_monitor_repo_def)
  have run: "monitored memory_monitor_repo ?check ?st0 ?st2" by (rule mon_update, rule mon_create, rule mon_start)
  have "map_option mon_name (mrepo_find memory_monitor_repo ''m'' ?st2) = Some ''N''" by code_simp
  then obtain m where m: "mrepo_find memory_monitor_repo ''m'' ?st2 = Some m" by blast
  then have "is_ok (?check (mon_analysis m))"
    using stored_monitors_are_sound [OF mmem.monitor_repository_axioms empty run m] by blast
  with m show ?thesis unfolding Let_def by blast
qed

end
