(* ===== verification/Readouts.thy ===== *)
theory Readouts
  imports Dashboard
begin

text \<open>
  Readouts: what the analytics engine answers (analytics/ports/src/analytics-engine.ts) turned into
  what a tile draws (dashboarding/domain/src/readout.ts, dashboarding/app/src/readouts.ts). Values
  are rational; the engine is a parameter, its outcomes are data.
\<close>

section \<open>The engine's answers\<close>

record bucket =
  bucket_start :: instant
  bucket_value :: rat

record series =
  series_buckets :: "bucket list"
  series_groups :: "(string option \<times> bucket list) list option"

datatype missing_feature = MissingRetention | MissingGroupBy | MissingNestedPredicates

fun feature_name :: "missing_feature \<Rightarrow> string" where
  "feature_name MissingRetention = ''retention''"
| "feature_name MissingGroupBy = ''group_by''"
| "feature_name MissingNestedPredicates = ''nested_predicates''"

datatype engine_failure =
    EngineTimeout duration
  | EngineUnavailable string
  | InvalidQuery string
  | NotImplemented missing_feature

datatype 't engine_outcome = Computed 't instant | EngineFailed engine_failure

section \<open>What a tile draws\<close>

record series_point =
  point_bucket_start :: instant
  point_value :: rat

datatype readout_value =
    ScalarValue rat
  | SeriesValue "series_point list"
  | BreakdownValue "(string \<times> rat) list"
  | FunnelValue "rat list"

datatype failure_code = CodeTimeout | CodeUnsupported | CodeEngineUnavailable | CodeInvalidRequest

record readout_failure =
  fail_code :: failure_code
  fail_detail :: string
  fail_retriable :: bool

datatype readout =
    Answered string readout_value instant
  | Failed string readout_failure

fun readout_id :: "readout \<Rightarrow> string" where
  "readout_id (Answered i _ _) = i"
| "readout_id (Failed i _) = i"

section \<open>The translation\<close>

fun to_readout_failure :: "engine_failure \<Rightarrow> readout_failure" where
  "to_readout_failure (EngineTimeout budget) =
     \<lparr> fail_code = CodeTimeout,
       fail_detail = ''the engine did not answer within '' @ show_int budget @ ''ms'',
       fail_retriable = True \<rparr>"
| "to_readout_failure (EngineUnavailable detail) =
     \<lparr> fail_code = CodeEngineUnavailable, fail_detail = detail, fail_retriable = True \<rparr>"
| "to_readout_failure (InvalidQuery detail) =
     \<lparr> fail_code = CodeInvalidRequest, fail_detail = detail, fail_retriable = False \<rparr>"
| "to_readout_failure (NotImplemented feature) =
     \<lparr> fail_code = CodeUnsupported,
       fail_detail = feature_name feature @ '' is not implemented by the analytics engine'',
       fail_retriable = False \<rparr>"

definition series_total :: "series \<Rightarrow> rat" where
  "series_total s = foldl (\<lambda>sum b. sum + bucket_value b) 0 (series_buckets s)"

fun series_readout :: "string \<Rightarrow> series engine_outcome \<Rightarrow> readout" where
  "series_readout i (Computed s computed) =
     Answered i (SeriesValue (map (\<lambda>b. \<lparr> point_bucket_start = bucket_start b, point_value = bucket_value b \<rparr>)
                   (series_buckets s))) computed"
| "series_readout i (EngineFailed e) = Failed i (to_readout_failure e)"

fun scalar_readout :: "string \<Rightarrow> series engine_outcome \<Rightarrow> readout" where
  "scalar_readout i (Computed s computed) = Answered i (ScalarValue (series_total s)) computed"
| "scalar_readout i (EngineFailed e) = Failed i (to_readout_failure e)"

fun funnel_readout :: "string \<Rightarrow> (rat \<times> rat \<times> rat) engine_outcome \<Rightarrow> readout" where
  "funnel_readout i (Computed (a, b, c) computed) = Answered i (FunnelValue [a, b, c]) computed"
| "funnel_readout i (EngineFailed e) = Failed i (to_readout_failure e)"

fun breakdown_loop ::
  "string \<Rightarrow> (string \<times> rat) list \<Rightarrow> (string \<times> series engine_outcome) list \<Rightarrow> instant \<Rightarrow> readout" where
  "breakdown_loop i rows [] computed = Answered i (BreakdownValue rows) computed"
| "breakdown_loop i rows ((label, EngineFailed e) # parts) computed = Failed i (to_readout_failure e)"
| "breakdown_loop i rows ((label, Computed s t) # parts) computed =
     breakdown_loop i (rows @ [(label, series_total s)]) parts computed"

definition breakdown_readout ::
  "string \<Rightarrow> (string \<times> series engine_outcome) list \<Rightarrow> instant \<Rightarrow> readout" where
  "breakdown_readout i parts computed = breakdown_loop i [] parts computed"

definition readout_id_for :: "'a tile \<Rightarrow> string" where
  "readout_id_for t = t_id t"

section \<open>Never an invented answer\<close>

lemma series_total_sum: "series_total s = sum_list (map bucket_value (series_buckets s))"
proof -
  have "foldl (\<lambda>sum b. sum + bucket_value b) a bs = a + sum_list (map bucket_value bs)" for a and bs :: "bucket list"
    by (induction bs arbitrary: a) (simp_all add: add.assoc)
  then show ?thesis by (simp add: series_total_def)
qed

text \<open>The first failure in the order asked, or the rows of every part.\<close>

definition first_failure :: "(string \<times> series engine_outcome) list \<Rightarrow> engine_failure option" where
  "first_failure parts =
     (case List.map_filter (\<lambda>(label, out). case out of EngineFailed e \<Rightarrow> Some e | _ \<Rightarrow> None) parts of
        [] \<Rightarrow> None | e # _ \<Rightarrow> Some e)"

lemma first_failure_simps [simp]:
  "first_failure [] = None"
  "first_failure ((l, EngineFailed e) # parts) = Some e"
  "first_failure ((l, Computed s t) # parts) = first_failure parts"
  by (simp_all add: first_failure_def List.map_filter_simps)

fun part_row :: "string \<times> series engine_outcome \<Rightarrow> string \<times> rat" where
  "part_row (label, Computed s _) = (label, sum_list (map bucket_value (series_buckets s)))"
| "part_row (label, EngineFailed _) = (label, 0)"

fun computed_part :: "string \<times> series engine_outcome \<Rightarrow> bool" where
  "computed_part (label, Computed s _) = True"
| "computed_part (label, EngineFailed _) = False"

lemma first_failure_None: "first_failure parts = None \<longleftrightarrow> list_all computed_part parts"
proof (induction parts)
  case (Cons p parts)
  then show ?case by (cases p rule: computed_part.cases) simp_all
qed simp

lemma breakdown_loop_eq:
  "breakdown_loop i rows parts computed =
     (case first_failure parts of
        Some e \<Rightarrow> Failed i (to_readout_failure e)
      | None \<Rightarrow> Answered i (BreakdownValue (rows @ map part_row parts)) computed)"
  by (induction i rows parts computed rule: breakdown_loop.induct)
    (simp_all add: series_total_sum split: option.split)

text \<open>
  A broken query never looks like an empty one: a readout is an answer exactly when the
  engine computed every part of it, a breakdown with any failed part fails with the first
  failure asked for and otherwise has one row per part in order with the part's total, a scalar
  is the sum of all buckets, and only timeouts and outages are offered a retry.
\<close>

theorem readouts_never_invent_an_answer:
  shows "breakdown_readout i parts computed =
           (case first_failure parts of
              Some e \<Rightarrow> Failed i (to_readout_failure e)
            | None \<Rightarrow> Answered i (BreakdownValue (map part_row parts)) computed) \<and>
         (first_failure parts = None \<longleftrightarrow> list_all computed_part parts) \<and>
         (scalar_readout i out = (case out of
              EngineFailed e \<Rightarrow> Failed i (to_readout_failure e)
            | Computed s t \<Rightarrow> Answered i (ScalarValue (sum_list (map bucket_value (series_buckets s)))) t)) \<and>
         (series_readout i out = Failed i f \<longleftrightarrow> (\<exists>e. out = EngineFailed e \<and> f = to_readout_failure e)) \<and>
         (fail_retriable (to_readout_failure e) \<longleftrightarrow>
            (\<exists>b. e = EngineTimeout b) \<or> (\<exists>d. e = EngineUnavailable d))"
proof (intro conjI)
  show "breakdown_readout i parts computed =
      (case first_failure parts of
         Some e \<Rightarrow> Failed i (to_readout_failure e)
       | None \<Rightarrow> Answered i (BreakdownValue (map part_row parts)) computed)"
    by (simp add: breakdown_readout_def breakdown_loop_eq split: option.split)
  show "first_failure parts = None \<longleftrightarrow> list_all computed_part parts"
    by (rule first_failure_None)
  show "scalar_readout i out = (case out of
      EngineFailed e \<Rightarrow> Failed i (to_readout_failure e)
    | Computed s t \<Rightarrow> Answered i (ScalarValue (sum_list (map bucket_value (series_buckets s)))) t)"
    by (cases out) (simp_all add: series_total_sum)
  show "series_readout i out = Failed i f \<longleftrightarrow> (\<exists>e. out = EngineFailed e \<and> f = to_readout_failure e)"
    by (cases out) auto
  show "fail_retriable (to_readout_failure e) \<longleftrightarrow> (\<exists>b. e = EngineTimeout b) \<or> (\<exists>d. e = EngineUnavailable d)"
    by (cases e) simp_all
qed

end
