(* ===== verification/Predicates.thy ===== *)
theory Predicates
  imports Kernel "HOL-Library.Multiset" "HOL-Library.Char_ord" "HOL-Library.List_Lexorder"
begin

text \<open>
  The analytics predicate language, packages/analytics/domain/src: dimensions and their catalog
  (dimension.ts), field references (field.ts), predicates (predicate.ts) and how cheaply a
  predicate is served (answerability.ts); and what a predicate means on an event
  (packages/analytics/adapter-litics/src/raw.ts). Numbers in predicates are represented at
  integral values, like those of \<open>json\<close>.
\<close>

section \<open>Dimensions\<close>

record dimension_spec =
  dim_name :: string
  dim_collected :: bool
  dim_label :: string

definition DIMENSIONS :: "dimension_spec list" where
  "DIMENSIONS = map (\<lambda>(n, l). \<lparr> dim_name = n, dim_collected = True, dim_label = l \<rparr>)
     [(''event_type'', ''Event''), (''os_name'', ''OS''), (''os_version'', ''OS version''),
      (''locale'', ''Locale''), (''app_version'', ''App version''), (''device_model'', ''Device''),
      (''sdk_version'', ''SDK version''), (''country'', ''Country'')]"

definition EVENT_TYPE :: string where
  "EVENT_TYPE = ''event_type''"

definition is_dimension_name :: "string \<Rightarrow> bool" where
  "is_dimension_name key = (key \<in> set (map dim_name DIMENSIONS))"

definition dimension_spec_of :: "string \<Rightarrow> dimension_spec option" where
  "dimension_spec_of name = find (\<lambda>d. dim_name d = name) DIMENSIONS"

record dimension_catalog =
  cat_indexed :: "string list"
  cat_planned :: "string list"
  cat_scanned :: "string list"

datatype dimension_status = DimIndexed | DimPlanned | DimScanned | DimUnknown

definition field_catalog :: "string list \<Rightarrow> string list \<Rightarrow> dimension_catalog" where
  "field_catalog indexed planned = \<lparr> cat_indexed = indexed, cat_planned = planned, cat_scanned = [] \<rparr>"

text \<open>The result is built anew from two fields: the \<open>scanned\<close> names are not carried over.\<close>

definition with_indexed :: "dimension_catalog \<Rightarrow> string list \<Rightarrow> dimension_catalog" where
  "with_indexed c extra =
     \<lparr> cat_indexed = set_order [] (cat_indexed c @ extra),
       cat_planned = filter (\<lambda>p. p \<notin> set extra) (cat_planned c), cat_scanned = [] \<rparr>"

definition catalog_status :: "dimension_catalog \<Rightarrow> string \<Rightarrow> dimension_status" where
  "catalog_status c key =
     (if key \<in> set (cat_indexed c) then DimIndexed
      else if key \<in> set (cat_scanned c) then DimScanned
      else if key \<in> set (cat_planned c) then DimPlanned
      else DimUnknown)"

definition catalog_keys :: "dimension_catalog \<Rightarrow> string list" where
  "catalog_keys c = cat_indexed c @ cat_planned c @ cat_scanned c"

definition DEFAULT_CATALOG :: dimension_catalog where
  "DEFAULT_CATALOG =
     field_catalog (map dim_name (filter dim_collected DIMENSIONS))
       (map dim_name (filter (\<lambda>d. \<not> dim_collected d) DIMENSIONS))"

section \<open>Fields\<close>

datatype field_ref = Dim string | Prop string

datatype scalar_value = SStr string | SNum int | SBool bool | SNull

fun field_key :: "field_ref \<Rightarrow> string" where
  "field_key (Dim k) = k"
| "field_key (Prop k) = k"

definition field_parse :: "string \<Rightarrow> field_ref" where
  "field_parse key = (if is_dimension_name key then Dim key else Prop key)"

fun field_to_key :: "field_ref \<Rightarrow> string" where
  "field_to_key (Dim k) = ''dim:'' @ k"
| "field_to_key (Prop k) = ''prop:'' @ k"

definition field_equals :: "field_ref \<Rightarrow> field_ref \<Rightarrow> bool" where
  "field_equals a b = (field_to_key a = field_to_key b)"

fun is_shadowed :: "field_ref \<Rightarrow> bool" where
  "is_shadowed (Prop k) = is_dimension_name k"
| "is_shadowed (Dim k) = False"

section \<open>Predicates\<close>

datatype predicate =
    PEq field_ref scalar_value
  | PNeq field_ref scalar_value
  | PIn field_ref "scalar_value list"
  | PNotIn field_ref "scalar_value list"
  | PContains field_ref string
  | PStartsWith field_ref string
  | PEndsWith field_ref string
  | PGt field_ref int
  | PGte field_ref int
  | PLt field_ref int
  | PLte field_ref int
  | PExists field_ref
  | PNotExists field_ref
  | PAnd "predicate list"
  | POr "predicate list"
  | PNot predicate

fun predicate_op :: "predicate \<Rightarrow> string" where
  "predicate_op (PEq _ _) = ''eq''"
| "predicate_op (PNeq _ _) = ''neq''"
| "predicate_op (PIn _ _) = ''in''"
| "predicate_op (PNotIn _ _) = ''notIn''"
| "predicate_op (PContains _ _) = ''contains''"
| "predicate_op (PStartsWith _ _) = ''startsWith''"
| "predicate_op (PEndsWith _ _) = ''endsWith''"
| "predicate_op (PGt _ _) = ''gt''"
| "predicate_op (PGte _ _) = ''gte''"
| "predicate_op (PLt _ _) = ''lt''"
| "predicate_op (PLte _ _) = ''lte''"
| "predicate_op (PExists _) = ''exists''"
| "predicate_op (PNotExists _) = ''notExists''"
| "predicate_op (PAnd _) = ''and''"
| "predicate_op (POr _) = ''or''"
| "predicate_op (PNot _) = ''not''"

fun scalar_key :: "scalar_value \<Rightarrow> string" where
  "scalar_key SNull = ''null''"
| "scalar_key (SStr s) = ''string:'' @ s"
| "scalar_key (SNum n) = ''number:'' @ show_int n"
| "scalar_key (SBool b) = ''boolean:'' @ (if b then ''true'' else ''false'')"

definition predicate_and :: "predicate list \<Rightarrow> predicate" where
  "predicate_and ps = (case ps of [p] \<Rightarrow> p | _ \<Rightarrow> PAnd ps)"

definition predicate_or :: "predicate list \<Rightarrow> predicate" where
  "predicate_or ps = (case ps of [p] \<Rightarrow> p | _ \<Rightarrow> POr ps)"

fun predicate_fields :: "predicate \<Rightarrow> field_ref list" where
  "predicate_fields (PAnd ps) = concat (map predicate_fields ps)"
| "predicate_fields (POr ps) = concat (map predicate_fields ps)"
| "predicate_fields (PNot p) = predicate_fields p"
| "predicate_fields (PEq f _) = [f]"
| "predicate_fields (PNeq f _) = [f]"
| "predicate_fields (PIn f _) = [f]"
| "predicate_fields (PNotIn f _) = [f]"
| "predicate_fields (PContains f _) = [f]"
| "predicate_fields (PStartsWith f _) = [f]"
| "predicate_fields (PEndsWith f _) = [f]"
| "predicate_fields (PGt f _) = [f]"
| "predicate_fields (PGte f _) = [f]"
| "predicate_fields (PLt f _) = [f]"
| "predicate_fields (PLte f _) = [f]"
| "predicate_fields (PExists f) = [f]"
| "predicate_fields (PNotExists f) = [f]"

fun predicate_conjuncts :: "predicate \<Rightarrow> predicate list" where
  "predicate_conjuncts (PAnd ps) = concat (map predicate_conjuncts ps)"
| "predicate_conjuncts p = [p]"

fun is_numeric_comparison :: "predicate \<Rightarrow> bool" where
  "is_numeric_comparison (PGt _ _) = True"
| "is_numeric_comparison (PGte _ _) = True"
| "is_numeric_comparison (PLt _ _) = True"
| "is_numeric_comparison (PLte _ _) = True"
| "is_numeric_comparison _ = False"

fun predicate_to_key :: "predicate \<Rightarrow> string" where
  "predicate_to_key (PAnd ps) = ''and('' @ join_with '','' (sort (map predicate_to_key ps)) @ '')''"
| "predicate_to_key (POr ps) = ''or('' @ join_with '','' (sort (map predicate_to_key ps)) @ '')''"
| "predicate_to_key (PNot p) = ''not('' @ predicate_to_key p @ '')''"
| "predicate_to_key (PIn f vs) =
     ''in('' @ field_to_key f @ '',['' @ join_with '','' (sort (map scalar_key vs)) @ ''])''"
| "predicate_to_key (PNotIn f vs) =
     ''notIn('' @ field_to_key f @ '',['' @ join_with '','' (sort (map scalar_key vs)) @ ''])''"
| "predicate_to_key (PExists f) = ''exists('' @ field_to_key f @ '')''"
| "predicate_to_key (PNotExists f) = ''notExists('' @ field_to_key f @ '')''"
| "predicate_to_key (PEq f v) = ''eq('' @ field_to_key f @ '','' @ scalar_key v @ '')''"
| "predicate_to_key (PNeq f v) = ''neq('' @ field_to_key f @ '','' @ scalar_key v @ '')''"
| "predicate_to_key (PContains f s) = ''contains('' @ field_to_key f @ '',string:'' @ s @ '')''"
| "predicate_to_key (PStartsWith f s) = ''startsWith('' @ field_to_key f @ '',string:'' @ s @ '')''"
| "predicate_to_key (PEndsWith f s) = ''endsWith('' @ field_to_key f @ '',string:'' @ s @ '')''"
| "predicate_to_key (PGt f n) = ''gt('' @ field_to_key f @ '',number:'' @ show_int n @ '')''"
| "predicate_to_key (PGte f n) = ''gte('' @ field_to_key f @ '',number:'' @ show_int n @ '')''"
| "predicate_to_key (PLt f n) = ''lt('' @ field_to_key f @ '',number:'' @ show_int n @ '')''"
| "predicate_to_key (PLte f n) = ''lte('' @ field_to_key f @ '',number:'' @ show_int n @ '')''"

definition predicate_equals :: "predicate \<Rightarrow> predicate \<Rightarrow> bool" where
  "predicate_equals a b = (predicate_to_key a = predicate_to_key b)"

section \<open>Answerability\<close>

datatype event_restriction = OneEvent string | EventSet "string list"

record indexed_plan =
  plan_event :: "event_restriction option"
  plan_filters :: "(string \<times> string) list"

datatype scan_reason =
    UnsupportedOperator string
  | Disjunction
  | Negation
  | UndeclaredDimension string
  | ShadowedDimension string
  | RepeatedDimension string
  | NonStringValue string

datatype blocker =
    DimensionNotCollected string
  | StepCountUnsupported nat nat
  | StepPredicateUnsupported nat
  | MultiEventStepUnsupported nat

datatype answerability =
    Indexed indexed_plan nat
  | Scan "scan_reason list"
  | Unanswerable "blocker list"

fun is_indexed :: "answerability \<Rightarrow> bool" where
  "is_indexed (Indexed _ _) = True"
| "is_indexed _ = False"

fun is_cheap :: "answerability \<Rightarrow> bool" where
  "is_cheap (Indexed _ queries) = (queries = 1)"
| "is_cheap _ = False"

fun severity :: "answerability \<Rightarrow> nat" where
  "severity (Indexed _ _) = 0"
| "severity (Scan _) = 1"
| "severity (Unanswerable _) = 2"

definition quoted :: "string \<Rightarrow> string" where
  "quoted s = [CHR 0x60] @ s @ [CHR 0x60]"

fun describe_scan_reason :: "scan_reason \<Rightarrow> string" where
  "describe_scan_reason (UnsupportedOperator op) = quoted op @ '' is not an indexed filter''"
| "describe_scan_reason Disjunction = ''an '' @ quoted ''or'' @ '' cannot be expressed as dimension equality''"
| "describe_scan_reason Negation = ''a negation cannot be expressed as dimension equality''"
| "describe_scan_reason (UndeclaredDimension k) = quoted k @ '' is not a declared dimension''"
| "describe_scan_reason (ShadowedDimension k) =
     ''the property '' @ quoted k @ '' shares a name with a Counted dimension''"
| "describe_scan_reason (RepeatedDimension k) = quoted k @ '' is constrained twice''"
| "describe_scan_reason (NonStringValue k) = quoted k @ '' is compared to a non-string value''"

fun describe_blocker :: "blocker \<Rightarrow> string" where
  "describe_blocker (DimensionNotCollected k) = quoted k @ '' is not collected yet''"
| "describe_blocker (StepCountUnsupported n supported) =
     ''the engine funnels exactly '' @ show_nat supported @ '' steps, this one has '' @ show_nat n"
| "describe_blocker (StepPredicateUnsupported i) =
     ''step '' @ show_nat (i + 1) @ '' carries a filter the engine cannot apply per step''"
| "describe_blocker (MultiEventStepUnsupported i) =
     ''step '' @ show_nat (i + 1) @ '' accepts more than one event''"

fun describe_answerability :: "answerability \<Rightarrow> string" where
  "describe_answerability (Indexed plan queries) =
     (if queries = 1 then ''answered from indexed dimensions''
      else ''answered from indexed dimensions, '' @ show_nat queries @ '' queries'')"
| "describe_answerability (Scan reasons) =
     ''raw scan: '' @ join_with ''; '' (map describe_scan_reason reasons)"
| "describe_answerability (Unanswerable reasons) =
     ''not available: '' @ join_with ''; '' (map describe_blocker reasons)"

text \<open>The loop's variables.\<close>

record classification =
  cl_blockers :: "blocker list"
  cl_reasons :: "scan_reason list"
  cl_filters :: "(string \<times> string) list"
  cl_event :: "event_restriction option"

definition because :: "scan_reason \<Rightarrow> classification \<Rightarrow> classification" where
  "because r s = s\<lparr>cl_reasons := cl_reasons s @ [r]\<rparr>"

definition collect_blockers :: "dimension_catalog \<Rightarrow> predicate \<Rightarrow> blocker list" where
  "collect_blockers cat p =
     map (\<lambda>f. DimensionNotCollected (field_key f))
       (filter (\<lambda>f. catalog_status cat (field_key f) = DimPlanned) (predicate_fields p))"

text \<open>
  \<open>filters[key] = value\<close> on an object literal: the inherited setter of \<open>__proto__\<close> ignores a
  string.
\<close>

definition set_filter :: "string \<Rightarrow> string \<Rightarrow> (string \<times> string) list \<Rightarrow> (string \<times> string) list" where
  "set_filter k v fs = (if k = ''__proto__'' then fs else fs @ [(k, v)])"

fun strings_of :: "scalar_value list \<Rightarrow> string list option" where
  "strings_of [] = Some []"
| "strings_of (SStr s # vs) = map_option ((#) s) (strings_of vs)"
| "strings_of (_ # vs) = None"

text \<open>A leaf \<open>in\<close> on the event type, then the rest of the branches, which ask for an \<open>eq\<close>.\<close>

definition classify_events :: "scalar_value list \<Rightarrow> classification \<Rightarrow> classification" where
  "classify_events vs s =
     (case strings_of vs of
        None \<Rightarrow> because (NonStringValue EVENT_TYPE) s
      | Some names \<Rightarrow>
          if vs = [] then because (NonStringValue EVENT_TYPE) s
          else if cl_event s \<noteq> None then because (RepeatedDimension EVENT_TYPE) s
          else s\<lparr>cl_event := Some (EventSet (set_order [] names))\<rparr>)"

definition classify_other ::
  "dimension_catalog \<Rightarrow> predicate \<Rightarrow> field_ref \<Rightarrow> classification \<Rightarrow> classification" where
  "classify_other cat leaf f s =
     (case leaf of
        PEq _ v \<Rightarrow>
          (let key = field_key f
           in if is_shadowed f then because (ShadowedDimension key) s
              else if catalog_status cat key \<in> {DimUnknown, DimScanned}
              then because (UndeclaredDimension key) s
              else (case v of
                      SStr value \<Rightarrow>
                        if key = EVENT_TYPE
                        then (if cl_event s \<noteq> None then because (RepeatedDimension key) s
                              else s\<lparr>cl_event := Some (OneEvent value)\<rparr>)
                        else if map_of (cl_filters s) key \<noteq> None
                        then because (RepeatedDimension key) s
                        else s\<lparr>cl_filters := set_filter key value (cl_filters s)\<rparr>
                    | _ \<Rightarrow> because (NonStringValue key) s))
      | _ \<Rightarrow> because (UnsupportedOperator (predicate_op leaf)) s)"

definition classify_field_leaf ::
  "dimension_catalog \<Rightarrow> predicate \<Rightarrow> field_ref \<Rightarrow> classification \<Rightarrow> classification" where
  "classify_field_leaf cat leaf f s =
     (if catalog_status cat (field_key f) = DimPlanned
      then s\<lparr>cl_blockers := cl_blockers s @ [DimensionNotCollected (field_key f)]\<rparr>
      else (case leaf of
              PIn (Dim k) vs \<Rightarrow>
                if k = EVENT_TYPE then classify_events vs s else classify_other cat leaf f s
            | _ \<Rightarrow> classify_other cat leaf f s))"

text \<open>\<open>conjuncts\<close> never yields a conjunction.\<close>

definition classify_leaf :: "dimension_catalog \<Rightarrow> predicate \<Rightarrow> classification \<Rightarrow> classification" where
  "classify_leaf cat leaf s =
     (case leaf of
        POr _ \<Rightarrow> because Disjunction (s\<lparr>cl_blockers := cl_blockers s @ collect_blockers cat leaf\<rparr>)
      | PNot _ \<Rightarrow> because Negation (s\<lparr>cl_blockers := cl_blockers s @ collect_blockers cat leaf\<rparr>)
      | PAnd _ \<Rightarrow> s
      | _ \<Rightarrow> classify_field_leaf cat leaf (hd (predicate_fields leaf)) s)"

definition classify_predicate :: "dimension_catalog \<Rightarrow> predicate option \<Rightarrow> answerability" where
  "classify_predicate cat predicate =
     (case predicate of
        None \<Rightarrow> Indexed \<lparr> plan_event = None, plan_filters = [] \<rparr> 1
      | Some p \<Rightarrow>
          (let s = foldl (\<lambda>s leaf. classify_leaf cat leaf s)
                     \<lparr> cl_blockers = [], cl_reasons = [], cl_filters = [], cl_event = None \<rparr>
                     (predicate_conjuncts p)
           in if cl_blockers s \<noteq> [] then Unanswerable (cl_blockers s)
              else if cl_reasons s \<noteq> [] then Scan (cl_reasons s)
              else Indexed \<lparr> plan_event = cl_event s, plan_filters = cl_filters s \<rparr> 1))"

text \<open>\<open>Object.assign\<close> onto a fresh object.\<close>

fun assign_filters :: "(string \<times> string) list \<Rightarrow> (string \<times> string) list \<Rightarrow> (string \<times> string) list" where
  "assign_filters fs [] = fs"
| "assign_filters fs ((k, v) # kvs) =
     assign_filters (if map_of fs k = None then fs @ [(k, v)]
                     else map (\<lambda>(k', v'). (k', if k' = k then v else v')) fs) kvs"

definition worst :: "answerability list \<Rightarrow> answerability" where
  "worst parts =
     (let blockers = concat (map (\<lambda>p. case p of Unanswerable rs \<Rightarrow> rs | _ \<Rightarrow> []) parts);
          scans = concat (map (\<lambda>p. case p of Scan rs \<Rightarrow> rs | _ \<Rightarrow> []) parts);
          indexed = List.map_filter (\<lambda>p. case p of Indexed plan q \<Rightarrow> Some (plan, q) | _ \<Rightarrow> None) parts
      in if blockers \<noteq> [] then Unanswerable (set_order [] blockers)
         else if scans \<noteq> [] then Scan (set_order [] scans)
         else
           Indexed
             \<lparr> plan_event = foldl (\<lambda>e (plan, q). if plan_event plan \<noteq> None then plan_event plan else e) None indexed,
               plan_filters = foldl (\<lambda>fs (plan, q). assign_filters fs (plan_filters plan)) [] indexed \<rparr>
             (foldl (\<lambda>n (plan, q). max n q) 1 indexed))"

section \<open>What a predicate means on an event\<close>

record raw_event =
  raw_ts :: int
  raw_actor :: string
  raw_dimensions :: "(string \<times> string option) list"
  raw_properties :: "(string \<times> json) list"

text \<open>What reading a field gives: a value, or a member a parsed object inherits.\<close>

datatype raw_value = RawJson json | RawInherited string

definition property_value :: "(string \<times> json) list \<Rightarrow> string \<Rightarrow> raw_value" where
  "property_value ps k =
     (case map_of ps k of
        Some v \<Rightarrow> RawJson v
      | None \<Rightarrow> if k \<in> set INHERITED_NAMES then RawInherited k else RawJson JUndefined)"

fun field_value :: "raw_event \<Rightarrow> field_ref \<Rightarrow> raw_value" where
  "field_value e (Prop k) =
     (if prefix ''$'' k then RawJson JUndefined else property_value (raw_properties e) k)"
| "field_value e (Dim k) =
     RawJson (case map_of (raw_dimensions e) k of
                None \<Rightarrow> JUndefined | Some None \<Rightarrow> JNull | Some (Some v) \<Rightarrow> JStr v)"

fun scalar_json :: "scalar_value \<Rightarrow> json" where
  "scalar_json (SStr s) = JStr s"
| "scalar_json (SNum n) = JNum n"
| "scalar_json (SBool b) = JBool b"
| "scalar_json SNull = JNull"

text \<open>\<open>===\<close> against a scalar: an object or array is never identical to one.\<close>

definition strict_equal :: "raw_value \<Rightarrow> scalar_value \<Rightarrow> bool" where
  "strict_equal v s = (v = RawJson (scalar_json s))"

definition is_missing :: "raw_value \<Rightarrow> bool" where
  "is_missing v = (v = RawJson JUndefined \<or> v = RawJson JNull)"

definition text_holds :: "(string \<Rightarrow> bool) \<Rightarrow> raw_value \<Rightarrow> bool" where
  "text_holds P v = (case v of RawJson (JStr s) \<Rightarrow> P s | _ \<Rightarrow> False)"

definition number_holds :: "(int \<Rightarrow> bool) \<Rightarrow> bool \<Rightarrow> raw_value \<Rightarrow> bool" where
  "number_holds P inf_ok v = (case v of RawJson (JNum n) \<Rightarrow> P n | RawJson JInfinite \<Rightarrow> inf_ok | _ \<Rightarrow> False)"

fun matches :: "raw_event \<Rightarrow> predicate \<Rightarrow> bool" where
  "matches e (PAnd ps) = list_all (matches e) ps"
| "matches e (POr ps) = list_ex (matches e) ps"
| "matches e (PNot p) = (\<not> matches e p)"
| "matches e (PEq f v) = strict_equal (field_value e f) v"
| "matches e (PNeq f v) = (\<not> strict_equal (field_value e f) v)"
| "matches e (PIn f vs) = list_ex (strict_equal (field_value e f)) vs"
| "matches e (PNotIn f vs) = (\<not> list_ex (strict_equal (field_value e f)) vs)"
| "matches e (PExists f) = (\<not> is_missing (field_value e f))"
| "matches e (PNotExists f) = is_missing (field_value e f)"
| "matches e (PContains f s) = text_holds (sublist s) (field_value e f)"
| "matches e (PStartsWith f s) = text_holds (prefix s) (field_value e f)"
| "matches e (PEndsWith f s) = text_holds (suffix s) (field_value e f)"
| "matches e (PGt f n) = number_holds (\<lambda>m. m > n) True (field_value e f)"
| "matches e (PGte f n) = number_holds (\<lambda>m. m \<ge> n) True (field_value e f)"
| "matches e (PLt f n) = number_holds (\<lambda>m. m < n) False (field_value e f)"
| "matches e (PLte f n) = number_holds (\<lambda>m. m \<le> n) False (field_value e f)"

section \<open>Facts\<close>

fun is_conjunction :: "predicate \<Rightarrow> bool" where
  "is_conjunction (PAnd _) = True"
| "is_conjunction _ = False"

lemma conjuncts_flat: "leaf \<in> set (predicate_conjuncts p) \<Longrightarrow> \<not> is_conjunction leaf"
  by (induction p rule: predicate_conjuncts.induct) auto

lemma matches_conjuncts: "matches e p \<longleftrightarrow> list_all (matches e) (predicate_conjuncts p)"
  by (induction p rule: predicate_conjuncts.induct) (auto simp: list_all_iff)

lemma fields_conjuncts: "set (predicate_fields p) = (\<Union>leaf \<in> set (predicate_conjuncts p). set (predicate_fields leaf))"
  by (induction p rule: predicate_conjuncts.induct) auto

lemma strings_of_Some: "strings_of vs = Some ss \<longleftrightarrow> vs = map SStr ss"
proof (induction vs arbitrary: ss)
  case (Cons v vs)
  then show ?case by (cases v; cases ss) auto
qed auto

text \<open>The shape the index serves, and the dimension it constrains.\<close>

definition leaf_key :: "predicate \<Rightarrow> string" where
  "leaf_key leaf = field_key (hd (predicate_fields leaf))"

fun leaf_served :: "dimension_catalog \<Rightarrow> predicate \<Rightarrow> bool" where
  "leaf_served cat (PEq f v) =
     (\<not> is_shadowed f \<and> catalog_status cat (field_key f) = DimIndexed \<and> (\<exists>s. v = SStr s))"
| "leaf_served cat (PIn f vs) =
     (f = Dim EVENT_TYPE \<and> catalog_status cat EVENT_TYPE \<noteq> DimPlanned \<and> vs \<noteq> [] \<and> strings_of vs \<noteq> None)"
| "leaf_served cat _ = False"

definition served_conjunction :: "dimension_catalog \<Rightarrow> predicate list \<Rightarrow> bool" where
  "served_conjunction cat leaves \<longleftrightarrow> list_all (leaf_served cat) leaves \<and> distinct (map leaf_key leaves)"

text \<open>What an indexed plan selects.\<close>

definition event_holds :: "raw_event \<Rightarrow> event_restriction option \<Rightarrow> bool" where
  "event_holds e r =
     (case r of
        None \<Rightarrow> True
      | Some (OneEvent v) \<Rightarrow> field_value e (Dim EVENT_TYPE) = RawJson (JStr v)
      | Some (EventSet vs) \<Rightarrow> list_ex (\<lambda>v. field_value e (Dim EVENT_TYPE) = RawJson (JStr v)) vs)"

definition filters_hold :: "raw_event \<Rightarrow> (string \<times> string) list \<Rightarrow> bool" where
  "filters_hold e fs = list_all (\<lambda>(k, v). field_value e (Dim k) = RawJson (JStr v)) fs"

abbreviation classify_start :: classification where
  "classify_start \<equiv> \<lparr> cl_blockers = [], cl_reasons = [], cl_filters = [], cl_event = None \<rparr>"

definition classify_all :: "dimension_catalog \<Rightarrow> predicate list \<Rightarrow> classification" where
  "classify_all cat leaves = foldl (\<lambda>s leaf. classify_leaf cat leaf s) classify_start leaves"

definition clean :: "classification \<Rightarrow> bool" where
  "clean s \<longleftrightarrow> cl_blockers s = [] \<and> cl_reasons s = []"

lemma classify_all_snoc: "classify_all cat (ls @ [l]) = classify_leaf cat l (classify_all cat ls)"
  by (simp add: classify_all_def)

lemmas classify_leaf_defs =
  classify_leaf_def classify_field_leaf_def classify_other_def classify_events_def because_def Let_def

text \<open>Blockers: one for every field that is planned, in any place.\<close>

lemma classify_leaf_blockers:
  assumes "\<not> is_conjunction leaf"
  shows "cl_blockers (classify_leaf cat leaf s) = cl_blockers s @ collect_blockers cat leaf"
proof -
  have other: "cl_blockers (classify_other cat l f s) = cl_blockers s" for l f
    by (auto simp: classify_other_def because_def Let_def split: predicate.split scalar_value.split)
  have events: "cl_blockers (classify_events vs s) = cl_blockers s" for vs
    by (auto simp: classify_events_def because_def split: option.split)
  have field: "cl_blockers (classify_field_leaf cat l f s) =
      cl_blockers s @ (if catalog_status cat (field_key f) = DimPlanned then [DimensionNotCollected (field_key f)] else [])"
    for l f
    by (auto simp: classify_field_leaf_def other events split: predicate.split field_ref.split)
  show ?thesis
    using assms by (cases leaf) (simp_all add: classify_leaf_def because_def field collect_blockers_def)
qed

lemma classify_all_blockers:
  assumes "\<And>l. l \<in> set ls \<Longrightarrow> \<not> is_conjunction l"
  shows "cl_blockers (classify_all cat ls) = concat (map (collect_blockers cat) ls)"
  using assms
proof (induction ls rule: rev_induct)
  case (snoc l ls)
  then show ?case by (simp add: classify_all_snoc classify_leaf_blockers)
qed (simp add: classify_all_def)

text \<open>One leaf on a clean state.\<close>

lemma classify_leaf_keeps: "clean (classify_leaf cat leaf s) \<Longrightarrow> clean s"
  by (cases leaf)
    (auto simp: clean_def classify_leaf_defs split: if_splits option.splits scalar_value.splits field_ref.splits)

text \<open>The keys the loop has constrained so far.\<close>

definition tracks :: "classification \<Rightarrow> string set \<Rightarrow> bool" where
  "tracks s K \<longleftrightarrow>
     (cl_event s = None \<longleftrightarrow> EVENT_TYPE \<notin> K) \<and>
     (\<forall>k. k \<noteq> EVENT_TYPE \<longrightarrow> (map_of (cl_filters s) k = None \<longleftrightarrow> k \<notin> K))"

lemma because_not_clean [simp]: "\<not> clean (because r s)"
  by (simp add: clean_def because_def)

lemma status_cases: "catalog_status cat k \<noteq> DimPlanned \<Longrightarrow>
    catalog_status cat k \<notin> {DimUnknown, DimScanned} \<longleftrightarrow> catalog_status cat k = DimIndexed"
  by (cases "catalog_status cat k") simp_all

lemma classify_eq_clean:
  assumes "clean s" "tracks s K"
  shows "clean (classify_leaf cat (PEq f v) s) \<longleftrightarrow> leaf_served cat (PEq f v) \<and> field_key f \<notin> K"
proof (cases "catalog_status cat (field_key f)")
  case DimIndexed
  with assms show ?thesis
    by (cases v) (auto simp: classify_leaf_def classify_field_leaf_def classify_other_def Let_def tracks_def clean_def
        because_def split: if_splits)
qed (auto simp: classify_leaf_def classify_field_leaf_def classify_other_def Let_def clean_def because_def)

lemma classify_in_clean:
  assumes "clean s" "tracks s K"
  shows "clean (classify_leaf cat (PIn f vs) s) \<longleftrightarrow> leaf_served cat (PIn f vs) \<and> field_key f \<notin> K"
proof (cases "f = Dim EVENT_TYPE \<and> catalog_status cat EVENT_TYPE \<noteq> DimPlanned")
  case True
  with assms show ?thesis
    by (cases "strings_of vs")
      (auto simp: classify_leaf_def classify_field_leaf_def classify_events_def tracks_def clean_def because_def)
next
  case False
  then show ?thesis
    by (cases f) (auto simp: classify_leaf_def classify_field_leaf_def classify_other_def clean_def because_def)
qed

lemma classify_leaf_clean:
  assumes "\<not> is_conjunction leaf" "clean s" "tracks s K"
  shows "clean (classify_leaf cat leaf s) \<longleftrightarrow> leaf_served cat leaf \<and> leaf_key leaf \<notin> K"
proof (cases leaf)
  case (PEq f v)
  then show ?thesis using classify_eq_clean [OF assms(2,3)] by (simp add: leaf_key_def)
next
  case (PIn f vs)
  then show ?thesis using classify_in_clean [OF assms(2,3)] by (simp add: leaf_key_def)
qed (use assms in \<open>auto simp: classify_leaf_def classify_field_leaf_def classify_other_def clean_def because_def\<close>)

text \<open>The state after a leaf that is served.\<close>

lemma classify_served:
  assumes "leaf_served cat leaf" "leaf_key leaf \<notin> K" "tracks s K"
  shows "(\<exists>f v. leaf = PEq f (SStr v) \<and> field_key f \<noteq> EVENT_TYPE \<and> leaf_key leaf = field_key f \<and>
            classify_leaf cat leaf s = s\<lparr>cl_filters := set_filter (field_key f) v (cl_filters s)\<rparr>) \<or>
         (\<exists>f v. leaf = PEq f (SStr v) \<and> field_key f = EVENT_TYPE \<and> leaf_key leaf = EVENT_TYPE \<and>
            classify_leaf cat leaf s = s\<lparr>cl_event := Some (OneEvent v)\<rparr>) \<or>
         (\<exists>names. leaf = PIn (Dim EVENT_TYPE) (map SStr names) \<and> leaf_key leaf = EVENT_TYPE \<and>
            classify_leaf cat leaf s = s\<lparr>cl_event := Some (EventSet (set_order [] names))\<rparr>)"
proof (cases leaf)
  case (PEq f v)
  then obtain s' where v: "v = SStr s'" and st: "\<not> is_shadowed f" "catalog_status cat (field_key f) = DimIndexed"
    using assms(1) by auto
  show ?thesis
    using assms(2,3) st unfolding PEq v
    by (cases "field_key f = EVENT_TYPE")
      (auto simp: leaf_key_def classify_leaf_def classify_field_leaf_def classify_other_def tracks_def Let_def)
next
  case (PIn f vs)
  then obtain names where vs: "f = Dim EVENT_TYPE" "vs = map SStr names" "catalog_status cat EVENT_TYPE \<noteq> DimPlanned" "names \<noteq> []"
    using assms(1) by (auto simp: strings_of_Some)
  have "strings_of vs = Some names" using vs(2) by (simp add: strings_of_Some)
  then show ?thesis
    using assms(2,3) vs unfolding PIn
    by (auto simp: leaf_key_def classify_leaf_def classify_field_leaf_def classify_events_def tracks_def)
qed (use assms(1) in auto)

lemma tracks_served:
  assumes "leaf_served cat leaf" "leaf_key leaf \<notin> K" "tracks s K" "leaf_key leaf \<noteq> ''__proto__''"
  shows "tracks (classify_leaf cat leaf s) (insert (leaf_key leaf) K)"
  using classify_served [OF assms(1-3)]
proof (elim disjE exE conjE)
  fix f v
  assume leaf: "leaf = PEq f (SStr v)" "field_key f \<noteq> EVENT_TYPE" "leaf_key leaf = field_key f"
    "classify_leaf cat leaf s = s\<lparr>cl_filters := set_filter (field_key f) v (cl_filters s)\<rparr>"
  have "map_of (cl_filters s @ [(field_key f, v)]) k = None \<longleftrightarrow> k \<notin> insert (field_key f) K"
    if "k \<noteq> EVENT_TYPE" for k
    using assms(3) that by (auto simp: tracks_def map_add_def split: option.split)
  then show ?thesis using leaf assms(3,4) by (simp add: tracks_def set_filter_def)
qed (use assms(3) in \<open>simp_all add: tracks_def\<close>)

text \<open>The loop as a whole.\<close>

lemma classify_all_clean:
  assumes "\<And>l. l \<in> set ls \<Longrightarrow> \<not> is_conjunction l" and "''__proto__'' \<notin> set (cat_indexed cat)"
  shows "(clean (classify_all cat ls) \<longleftrightarrow> served_conjunction cat ls) \<and>
         (served_conjunction cat ls \<longrightarrow> tracks (classify_all cat ls) (leaf_key ` set ls))"
  using assms(1)
proof (induction ls rule: rev_induct)
  case Nil
  show ?case by (simp add: classify_all_def clean_def served_conjunction_def tracks_def)
next
  case (snoc l ls)
  have l: "\<not> is_conjunction l" using snoc.prems by simp
  have ih: "clean (classify_all cat ls) \<longleftrightarrow> served_conjunction cat ls"
    "served_conjunction cat ls \<Longrightarrow> tracks (classify_all cat ls) (leaf_key ` set ls)"
    using snoc by auto
  have split: "served_conjunction cat (ls @ [l]) \<longleftrightarrow>
      served_conjunction cat ls \<and> leaf_served cat l \<and> leaf_key l \<notin> leaf_key ` set ls"
    by (auto simp: served_conjunction_def)
  have proto: "leaf_key l \<noteq> ''__proto__''" if "leaf_served cat l"
    using that assms(2)
    by (cases l) (auto simp: leaf_key_def catalog_status_def EVENT_TYPE_def split: if_splits)
  show ?case
  proof (cases "served_conjunction cat ls")
    case True
    note tr = ih(2) [OF True]
    have "clean (classify_all cat (ls @ [l])) \<longleftrightarrow> leaf_served cat l \<and> leaf_key l \<notin> leaf_key ` set ls"
      unfolding classify_all_snoc using classify_leaf_clean [OF l _ tr] ih(1) True by blast
    moreover have "tracks (classify_all cat (ls @ [l])) (leaf_key ` set (ls @ [l]))"
      if "leaf_served cat l" "leaf_key l \<notin> leaf_key ` set ls"
      using tracks_served [OF that tr proto [OF that(1)]] by (simp add: classify_all_snoc)
    ultimately show ?thesis using split True by blast
  next
    case False
    then have "\<not> clean (classify_all cat (ls @ [l]))"
      unfolding classify_all_snoc using ih(1) classify_leaf_keeps by blast
    then show ?thesis using split False by blast
  qed
qed

lemma classify_predicate_all:
  "classify_predicate cat (Some p) =
     (let s = classify_all cat (predicate_conjuncts p)
      in if cl_blockers s \<noteq> [] then Unanswerable (cl_blockers s)
         else if cl_reasons s \<noteq> [] then Scan (cl_reasons s)
         else Indexed \<lparr> plan_event = cl_event s, plan_filters = cl_filters s \<rparr> 1)"
  by (simp add: classify_predicate_def classify_all_def)

text \<open>An indexed plan selects what the predicate selects.\<close>

lemma classify_all_meaning:
  assumes "\<And>l. l \<in> set ls \<Longrightarrow> \<not> is_conjunction l"
    and dims: "\<forall>k \<in> set (cat_indexed cat). is_dimension_name k"
    and "served_conjunction cat ls"
  shows "event_holds e (cl_event (classify_all cat ls)) \<and> filters_hold e (cl_filters (classify_all cat ls)) \<longleftrightarrow>
         list_all (matches e) ls"
  using assms(1,3)
proof (induction ls rule: rev_induct)
  case Nil
  show ?case by (simp add: classify_all_def event_holds_def filters_hold_def)
next
  case (snoc l ls)
  have proto: "''__proto__'' \<notin> set (cat_indexed cat)"
  proof -
    have "\<not> is_dimension_name ''__proto__''" by code_simp
    then show ?thesis using dims by blast
  qed
  have ls: "served_conjunction cat ls" and l: "leaf_served cat l" "leaf_key l \<notin> leaf_key ` set ls"
    using snoc.prems(2) by (auto simp: served_conjunction_def)
  have tr: "tracks (classify_all cat ls) (leaf_key ` set ls)"
    using classify_all_clean [OF _ proto] snoc.prems(1) ls by auto
  have ih: "event_holds e (cl_event (classify_all cat ls)) \<and> filters_hold e (cl_filters (classify_all cat ls)) \<longleftrightarrow>
      list_all (matches e) ls"
    using snoc.IH snoc.prems(1) ls by auto
  have dim: "f = Dim (field_key f)" if "l = PEq f v" for f v
  proof (cases f)
    case (Prop k)
    with that l(1) dims show ?thesis by (auto simp: catalog_status_def split: if_splits)
  qed simp
  have fresh: "event_holds e None \<longleftrightarrow> event_holds e (cl_event (classify_all cat ls))"
    if "leaf_key l = EVENT_TYPE" using tr l(2) that by (simp add: tracks_def)
  show ?case
    using classify_served [OF l tr]
  proof (elim disjE exE conjE)
    fix f v
    assume eq: "l = PEq f (SStr v)" "leaf_key l = field_key f"
      "classify_leaf cat l (classify_all cat ls) =
         (classify_all cat ls)\<lparr>cl_filters := set_filter (field_key f) v (cl_filters (classify_all cat ls))\<rparr>"
    have "field_key f \<noteq> ''__proto__''"
      using l(1) eq(1) proto by (auto simp: catalog_status_def split: if_splits)
    moreover have "matches e l \<longleftrightarrow> field_value e (Dim (field_key f)) = RawJson (JStr v)"
      using dim [OF eq(1)] eq(1) by (metis matches.simps(4) scalar_json.simps(1) strict_equal_def)
    ultimately show ?thesis
      using ih eq(3) by (auto simp: classify_all_snoc set_filter_def filters_hold_def)
  next
    fix f v
    assume eq: "l = PEq f (SStr v)" "field_key f = EVENT_TYPE" "leaf_key l = EVENT_TYPE"
      "classify_leaf cat l (classify_all cat ls) = (classify_all cat ls)\<lparr>cl_event := Some (OneEvent v)\<rparr>"
    have "matches e l \<longleftrightarrow> field_value e (Dim EVENT_TYPE) = RawJson (JStr v)"
      using dim [OF eq(1)] eq(1,2) by (metis matches.simps(4) scalar_json.simps(1) strict_equal_def)
    then show ?thesis
      using ih fresh [OF eq(3)] eq(4) by (auto simp: classify_all_snoc event_holds_def)
  next
    fix names
    assume eq: "l = PIn (Dim EVENT_TYPE) (map SStr names)" "leaf_key l = EVENT_TYPE"
      "classify_leaf cat l (classify_all cat ls) =
         (classify_all cat ls)\<lparr>cl_event := Some (EventSet (set_order [] names))\<rparr>"
    have "matches e l \<longleftrightarrow> (\<exists>v \<in> set names. field_value e (Dim EVENT_TYPE) = RawJson (JStr v))"
      unfolding eq(1) by (simp add: list_ex_iff strict_equal_def)
    then show ?thesis
      using ih fresh [OF eq(2)] eq(3) by (auto simp: classify_all_snoc event_holds_def list_ex_iff)
  qed
qed

section \<open>Properties\<close>

text \<open>
  The classification is exact: a predicate is unanswerable just when some field of it, at any
  depth, is a dimension not collected yet, and then it names exactly those; and it is served
  from the index just when its flattened conjunction constrains distinct dimensions, each leaf an
  equality of an indexed, unshadowed field with a string or a set of event names. Everything else
  is a scan with at least one reason.
\<close>

theorem classification_is_exact:
  assumes "''__proto__'' \<notin> set (cat_indexed cat)"
  shows "(case classify_predicate cat (Some p) of
            Unanswerable rs \<Rightarrow> rs \<noteq> [] \<and>
              set rs = {DimensionNotCollected (field_key f) |f. f \<in> set (predicate_fields p) \<and>
                          catalog_status cat (field_key f) = DimPlanned}
          | Scan rs \<Rightarrow> rs \<noteq> [] \<and> \<not> served_conjunction cat (predicate_conjuncts p) \<and>
              (\<nexists>f. f \<in> set (predicate_fields p) \<and> catalog_status cat (field_key f) = DimPlanned)
          | Indexed plan queries \<Rightarrow> queries = 1 \<and> served_conjunction cat (predicate_conjuncts p))"
proof -
  let ?s = "classify_all cat (predicate_conjuncts p)"
  have leaves: "\<And>l. l \<in> set (predicate_conjuncts p) \<Longrightarrow> \<not> is_conjunction l" by (rule conjuncts_flat)
  have b: "set (cl_blockers ?s) = {DimensionNotCollected (field_key f) |f. f \<in> set (predicate_fields p) \<and>
      catalog_status cat (field_key f) = DimPlanned}"
  proof -
    have "cl_blockers ?s = concat (map (collect_blockers cat) (predicate_conjuncts p))"
      by (rule classify_all_blockers) (rule leaves)
    then show ?thesis unfolding fields_conjuncts [of p] by (auto simp: collect_blockers_def)
  qed
  have none: "cl_blockers ?s = [] \<longleftrightarrow>
      (\<nexists>f. f \<in> set (predicate_fields p) \<and> catalog_status cat (field_key f) = DimPlanned)"
    unfolding set_empty [symmetric] b by blast
  have c: "clean ?s \<longleftrightarrow> served_conjunction cat (predicate_conjuncts p)"
    using classify_all_clean [OF leaves assms] by blast
  show ?thesis
    unfolding classify_predicate_all Let_def
    using b none c by (auto simp: clean_def)
qed

theorem classification_is_exact_witness:
  "let cat = field_catalog [''event_type'', ''os_name''] [''region''];
       p = PAnd [PEq (Dim ''os_name'') (SStr ''ios''), PNot (PEq (Prop ''region'') SNull)]
   in classify_predicate cat (Some p) = Unanswerable [DimensionNotCollected ''region''] \<and>
      (\<exists>rs. classify_predicate cat (Some p) = Unanswerable rs \<and> set rs = {DimensionNotCollected ''region''})"
proof -
  let ?cat = "field_catalog [''event_type'', ''os_name''] [''region'']"
  let ?p = "PAnd [PEq (Dim ''os_name'') (SStr ''ios''), PNot (PEq (Prop ''region'') SNull)]"
  have c: "classify_predicate ?cat (Some ?p) = Unanswerable [DimensionNotCollected ''region'']" by code_simp
  have "''__proto__'' \<notin> set (cat_indexed ?cat)" by code_simp
  from classification_is_exact [OF this, of ?p] have "set [DimensionNotCollected ''region''] =
      {DimensionNotCollected (field_key f) |f. f \<in> set (predicate_fields ?p) \<and>
        catalog_status ?cat (field_key f) = DimPlanned}"
    unfolding c by simp
  with c show ?thesis by (auto simp: Let_def)
qed

text \<open>
  Asking the same question twice gives one key: the order of the operands of a conjunction or
  disjunction and of the values of a set does not matter, at the top and, key by key, at every
  depth.
\<close>

theorem predicate_keys_ignore_order:
  assumes "mset (map predicate_to_key ps) = mset (map predicate_to_key qs)" and "mset vs = mset ws"
  shows "predicate_equals (PAnd ps) (PAnd qs) \<and> predicate_equals (POr ps) (POr qs) \<and>
         predicate_equals (PIn f vs) (PIn f ws) \<and> predicate_equals (PNotIn f vs) (PNotIn f ws)"
proof -
  have ps: "sort (map predicate_to_key ps) = sort (map predicate_to_key qs)"
    using assms(1) by (metis mset_sort properties_for_sort sorted_sort)
  have "mset (map scalar_key vs) = mset (map scalar_key ws)" using assms(2) by simp
  then have vs: "sort (map scalar_key vs) = sort (map scalar_key ws)"
    by (metis mset_sort properties_for_sort sorted_sort)
  show ?thesis by (simp add: predicate_equals_def ps vs)
qed

theorem predicate_keys_ignore_order_witness:
  "let a = PExists (Prop ''a''); b = PIn (Prop ''b'') [SStr ''x'', SNum 1]; c = PIn (Prop ''b'') [SNum 1, SStr ''x'']
   in predicate_equals (PAnd [a, b]) (PAnd [c, a])"
proof -
  let ?a = "PExists (Prop ''a'')" and ?b = "PIn (Prop ''b'') [SStr ''x'', SNum 1]"
    and ?c = "PIn (Prop ''b'') [SNum 1, SStr ''x'']"
  have "predicate_to_key ?b = predicate_to_key ?c" by code_simp
  then have m: "mset (map predicate_to_key [?a, ?b]) = mset (map predicate_to_key [?c, ?a])" by simp
  show ?thesis
    unfolding Let_def using predicate_keys_ignore_order [OF m refl] by blast
qed

text \<open>Values that contain the separators collide: two sets with one key, and different meanings.\<close>

lemma predicate_keys_collide:
  "predicate_equals (PIn (Prop ''f'') [SStr ''x,string:y'']) (PIn (Prop ''f'') [SStr ''x'', SStr ''y'']) \<and>
   (let e = \<lparr> raw_ts = 0, raw_actor = ''v'', raw_dimensions = [], raw_properties = [(''f'', JStr ''x'')] \<rparr>
    in matches e (PIn (Prop ''f'') [SStr ''x'', SStr ''y'']) \<and>
       \<not> matches e (PIn (Prop ''f'') [SStr ''x,string:y'']))"
  by code_simp

text \<open>A property named like a member of every object exists on events that never carried it.\<close>

lemma inherited_properties_exist:
  "matches \<lparr> raw_ts = 0, raw_actor = ''v'', raw_dimensions = [], raw_properties = [] \<rparr>
     (PExists (Prop ''constructor''))"
  by code_simp

end
