(* ===== verification/Window.thy ===== *)
theory Window
  imports Calendar
begin

text \<open>
  Observation windows, packages/analytics/domain/src/window.ts: grains, relative and absolute
  windows, their resolution against an instant, the previous window and the conversion window of
  a funnel. Amounts are integers, as the wire contract demands
  (packages/contract/src/schemas/analysis.ts).
\<close>

section \<open>Grains\<close>

datatype grain = GHour | GDay | GWeek | GMonth

fun grain_name :: "grain \<Rightarrow> string" where
  "grain_name GHour = ''hour''"
| "grain_name GDay = ''day''"
| "grain_name GWeek = ''week''"
| "grain_name GMonth = ''month''"

definition GRAINS :: "string list" where
  "GRAINS = [''hour'', ''day'', ''week'', ''month'']"

definition is_grain :: "string \<Rightarrow> bool" where
  "is_grain raw = (raw \<in> set GRAINS)"

fun grain_nominal :: "grain \<Rightarrow> duration" where
  "grain_nominal GHour = duration_hours 1"
| "grain_nominal GDay = duration_days 1"
| "grain_nominal GWeek = duration_days 7"
| "grain_nominal GMonth = duration_days 30"

definition is_coarser_than :: "grain \<Rightarrow> grain \<Rightarrow> bool" where
  "is_coarser_than a b = (grain_nominal a > grain_nominal b)"

fun grain_label :: "grain \<Rightarrow> string" where
  "grain_label GHour = ''Hourly''"
| "grain_label GDay = ''Daily''"
| "grain_label GWeek = ''Weekly''"
| "grain_label GMonth = ''Monthly''"

section \<open>Windows\<close>

datatype relative_unit = UHour | UDay | UWeek | UMonth

fun unit_name :: "relative_unit \<Rightarrow> string" where
  "unit_name UHour = ''hour''"
| "unit_name UDay = ''day''"
| "unit_name UWeek = ''week''"
| "unit_name UMonth = ''month''"

datatype window = Relative int relative_unit | Absolute instant instant

definition MAX_WINDOW :: duration where
  "MAX_WINDOW = duration_days 730"

definition LONGEST_MONTH_MILLIS :: duration where
  "LONGEST_MONTH_MILLIS = duration_days 31"

fun is_relative :: "window \<Rightarrow> bool" where
  "is_relative (Relative _ _) = True"
| "is_relative (Absolute _ _) = False"

fun window_to_key :: "window \<Rightarrow> string" where
  "window_to_key (Relative amount u) = ''rel:'' @ show_int amount @ unit_name u"
| "window_to_key (Absolute since till) = ''abs:'' @ show_int since @ ''-'' @ show_int till"

fun maximum_span :: "window \<Rightarrow> duration" where
  "maximum_span (Absolute since till) = instant_between since till"
| "maximum_span (Relative amount UHour) = duration_hours amount"
| "maximum_span (Relative amount UDay) = duration_days amount"
| "maximum_span (Relative amount UWeek) = duration_days (amount * 7)"
| "maximum_span (Relative amount UMonth) = amount * LONGEST_MONTH_MILLIS"

fun default_grain :: "window \<Rightarrow> grain" where
  "default_grain (Relative amount UHour) = GHour"
| "default_grain (Relative amount UDay) =
     (if amount \<le> 2 then GHour else if amount \<le> 60 then GDay else GWeek)"
| "default_grain (Relative amount UWeek) = (if amount \<le> 12 then GDay else GWeek)"
| "default_grain (Relative amount UMonth) = (if amount \<le> 3 then GDay else GMonth)"
| "default_grain (Absolute since till) =
     (let span = instant_between since till
      in if span \<le> duration_days 2 then GHour
         else if span \<le> duration_days 60 then GDay
         else if span \<le> duration_days 365 then GWeek
         else GMonth)"

section \<open>Resolution\<close>

definition days_in_month :: "int \<Rightarrow> int \<Rightarrow> int" where
  "days_in_month year month = utc_date (date_utc year (month + 1) 0)"

definition minus_months :: "instant \<Rightarrow> int \<Rightarrow> instant" where
  "minus_months d amount =
     (let day = utc_date d;
          d1 = set_utc_date d 1;
          d2 = set_utc_month d1 (utc_month d1 - amount)
      in set_utc_date d2 (min day (days_in_month (utc_year d2) (utc_month d2))))"

fun resolve_window :: "window \<Rightarrow> instant \<Rightarrow> instant \<times> instant" where
  "resolve_window (Absolute since till) now = (since, till)"
| "resolve_window (Relative amount UHour) now = (set_utc_hours now (utc_hours now - amount), now)"
| "resolve_window (Relative amount UDay) now = (set_utc_date now (utc_date now - amount), now)"
| "resolve_window (Relative amount UWeek) now = (set_utc_date now (utc_date now - amount * 7), now)"
| "resolve_window (Relative amount UMonth) now = (minus_months now amount, now)"

definition previous_window :: "window \<Rightarrow> instant \<Rightarrow> window" where
  "previous_window w now =
     (let (since, till) = resolve_window w now
      in case w of
           Absolute _ _ \<Rightarrow> Absolute (since - (till - since)) since
         | Relative _ _ \<Rightarrow> Absolute (fst (resolve_window w since)) since)"

section \<open>Conversion windows\<close>

datatype conversion_window = Within duration

fun conversion_millis :: "conversion_window \<Rightarrow> duration" where
  "conversion_millis (Within d) = d"

definition conversion_is_positive :: "conversion_window \<Rightarrow> bool" where
  "conversion_is_positive c = (conversion_millis c > 0)"

definition conversion_to_key :: "conversion_window \<Rightarrow> string" where
  "conversion_to_key c = ''cw:'' @ show_int (conversion_millis c)"

definition DEFAULT_CONVERSION :: conversion_window where
  "DEFAULT_CONVERSION = Within (duration_days 7)"

section \<open>Months counted from year 0\<close>

text \<open>The first day of a month and its length, by the number of months since year 0.\<close>

definition month_first :: "int \<Rightarrow> int" where
  "month_first n = make_day 0 n 1"

definition month_days :: "int \<Rightarrow> int" where
  "month_days n = month_length (n div 12) (n mod 12)"

definition month_number :: "instant \<Rightarrow> int" where
  "month_number t = 12 * utc_year t + utc_month t"

lemma month_days_bounds: "28 \<le> month_days n" "month_days n \<le> 31"
  by (simp_all add: month_days_def month_length_def)

lemma make_day_first: "make_day y m d = month_first (12 * y + m) + d - 1"
proof -
  have "(12 * y + m) div 12 = y + m div 12" "(12 * y + m) mod 12 = m mod 12" by simp_all
  then show ?thesis by (simp add: month_first_def make_day_def Let_def)
qed

lemma next_month:
  assumes "0 \<le> m" "m \<le> 11"
  shows "make_day y (m + 1) 1 = make_day y m 1 + month_length y m"
  using twelve_months [OF assms]
proof (elim disjE)
  assume "m = 11"
  then show ?thesis
    using day_from_year_Suc [of y] by (simp add: make_day_def month_length_def days_in_year_def Let_def)
qed (simp_all add: make_day_def month_length_def Let_def)

lemma month_first_Suc: "month_first (n + 1) = month_first n + month_days n"
proof -
  have m: "0 \<le> n mod 12" "n mod 12 \<le> 11" by simp_all
  have n: "12 * (n div 12) + n mod 12 = n" "12 * (n div 12) + (n mod 12 + 1) = n + 1" by simp_all
  show ?thesis
    using next_month [OF m, of "n div 12"] unfolding make_day_first n month_days_def by linarith
qed

lemma month_first_bounds:
  assumes "0 \<le> a"
  shows "28 * a \<le> month_first n - month_first (n - a)"
    and "0 < a \<Longrightarrow> month_first n - month_first (n - a) \<le> month_days (n - a) + 31 * (a - 1)"
proof -
  have "28 * a \<le> month_first n - month_first (n - a) \<and>
      (0 < a \<longrightarrow> month_first n - month_first (n - a) \<le> month_days (n - a) + 31 * (a - 1))"
    using assms
  proof (induction a arbitrary: n rule: int_ge_induct)
    case (step a)
    have suc: "month_first (n - a) = month_first (n - (a + 1)) + month_days (n - (a + 1))"
      using month_first_Suc [of "n - (a + 1)"] by simp
    from step.IH [of n] suc month_days_bounds [of "n - (a + 1)"] month_days_bounds [of "n - a"] step.hyps
    show ?case by (cases "a = 0") auto
  qed simp
  then show "28 * a \<le> month_first n - month_first (n - a)"
    and "0 < a \<Longrightarrow> month_first n - month_first (n - a) \<le> month_days (n - a) + 31 * (a - 1)"
    by simp_all
qed

lemma days_in_month_length:
  assumes "0 \<le> m" "m \<le> 11" "y < 0 \<or> 100 \<le> y"
  shows "days_in_month y m = month_length y m"
proof -
  have n: "(12 * y + m) div 12 = y" "(12 * y + m) mod 12 = m" using assms by auto
  have "make_day y (m + 1) 0 = make_day y m (month_length y m)"
    using month_first_Suc [of "12 * y + m"] n
    by (simp add: make_day_first month_days_def add.assoc)
  moreover have "1 \<le> month_length y m" by (simp add: month_length_def)
  ultimately show ?thesis
    using assms fields_of_make_date(3) [of m "month_length y m" y 0]
    by (auto simp: days_in_month_def date_utc_def MS_PER_DAY_def)
qed

lemma month_number_fields: "month_number t div 12 = utc_year t" "month_number t mod 12 = utc_month t"
  using utc_month_bounds [of t] by (auto simp: month_number_def)

lemma day_of_month: "day_of t = month_first (month_number t) + utc_date t - 1"
  using make_day_first [of "utc_year t" "utc_month t" "utc_date t"] by (simp add: month_number_def)

lemma utc_date_in_month: "1 \<le> utc_date t" "utc_date t \<le> month_days (month_number t)"
  using utc_date_bounds [of t] by (simp_all add: month_days_def month_number_fields)

lemma fields_of_month:
  assumes "1 \<le> d" "d \<le> month_days n" "0 \<le> u" "u < MS_PER_DAY"
  shows "utc_year (make_date (month_first n + d - 1) u) = n div 12"
    and "utc_month (make_date (month_first n + d - 1) u) = n mod 12"
    and "utc_date (make_date (month_first n + d - 1) u) = d"
proof -
  have "make_day (n div 12) (n mod 12) d = month_first n + d - 1"
    by (simp add: make_day_first)
  then show "utc_year (make_date (month_first n + d - 1) u) = n div 12"
    and "utc_month (make_date (month_first n + d - 1) u) = n mod 12"
    and "utc_date (make_date (month_first n + d - 1) u) = d"
    using fields_of_make_date [of "n mod 12" d "n div 12" u] assms by (simp_all add: month_days_def)
qed

lemma fields_of_first:
  assumes "0 \<le> u" "u < MS_PER_DAY"
  shows "utc_year (make_date (month_first n) u) = n div 12"
    and "utc_month (make_date (month_first n) u) = n mod 12"
    and "utc_date (make_date (month_first n) u) = 1"
  using fields_of_month [of 1 n u] month_days_bounds [of n] assms by simp_all

text \<open>Going back months keeps the day of the month where the month has it.\<close>

lemma minus_months_eq:
  assumes "100 \<le> (month_number t - a) div 12"
  shows "minus_months t a =
    make_date (month_first (month_number t - a) + min (utc_date t) (month_days (month_number t - a)) - 1)
      (time_within_day t)"
proof -
  let ?n = "month_number t - a"
  let ?d1 = "set_utc_date t 1"
  have d1: "?d1 = make_date (month_first (month_number t)) (time_within_day t)"
    by (simp add: set_utc_date_def make_day_first month_number_def)
  have f1: "utc_year ?d1 = utc_year t" "utc_month ?d1 = utc_month t" "utc_date ?d1 = 1"
    unfolding d1 by (simp_all add: fields_of_first month_number_fields)
  have t1: "time_within_day ?d1 = time_within_day t" unfolding d1 by simp
  let ?d2 = "set_utc_month ?d1 (utc_month ?d1 - a)"
  have d2: "?d2 = make_date (month_first ?n) (time_within_day t)"
    unfolding set_utc_month_def f1 t1 make_day_first by (simp add: month_number_def algebra_simps)
  have f2: "utc_year ?d2 = ?n div 12" "utc_month ?d2 = ?n mod 12"
    unfolding d2 by (simp_all add: fields_of_first)
  have t2: "time_within_day ?d2 = time_within_day t" unfolding d2 by simp
  have "days_in_month (utc_year ?d2) (utc_month ?d2) = month_days ?n"
    unfolding f2 month_days_def using assms by (intro days_in_month_length) simp_all
  then have "minus_months t a =
      make_date (make_day (?n div 12) (?n mod 12) (min (utc_date t) (month_days ?n))) (time_within_day t)"
    by (simp add: minus_months_def Let_def set_utc_date_def [of ?d2] f2 t2)
  then show ?thesis by (simp add: make_day_first)
qed

lemma minus_months_fields:
  assumes "100 \<le> (month_number t - a) div 12"
  shows "month_number (minus_months t a) = month_number t - a"
    and "utc_date (minus_months t a) = min (utc_date t) (month_days (month_number t - a))"
    and "time_within_day (minus_months t a) = time_within_day t"
proof -
  let ?n = "month_number t - a" and ?d = "min (utc_date t) (month_days (month_number t - a))"
  have d: "1 \<le> ?d" "?d \<le> month_days ?n" using utc_date_in_month [of t] month_days_bounds [of ?n] by auto
  note f = fields_of_month [OF d time_within_day_bounds [of t]]
  show "month_number (minus_months t a) = ?n"
    unfolding minus_months_eq [OF assms] month_number_def [of "make_date _ _"] f by simp
  show "utc_date (minus_months t a) = ?d" unfolding minus_months_eq [OF assms] by (rule f(3))
  show "time_within_day (minus_months t a) = time_within_day t"
    unfolding minus_months_eq [OF assms] by simp
qed

lemma minus_months_span:
  assumes "100 \<le> (month_number t - a) div 12" and "0 < a"
  shows "28 * a * MS_PER_DAY \<le> t - minus_months t a" and "t - minus_months t a \<le> 31 * a * MS_PER_DAY"
proof -
  let ?n = "month_number t - a"
  let ?k = "month_first (month_number t) - month_first ?n + utc_date t - min (utc_date t) (month_days ?n)"
  have t: "t = make_date (month_first (month_number t) + utc_date t - 1) (time_within_day t)"
    using make_date_split [of t] unfolding day_of_month by simp
  have span: "t - minus_months t a = ?k * MS_PER_DAY"
    unfolding minus_months_eq [OF assms(1)] by (subst t) (simp add: make_date_def algebra_simps)
  have "28 * a \<le> ?k" "?k \<le> 31 * a"
    using month_first_bounds [of a "month_number t"] assms(2) utc_date_in_month [of t]
      month_days_bounds [of "month_number t"] month_days_bounds [of ?n]
    by (simp_all add: min_def)
  then show "28 * a * MS_PER_DAY \<le> t - minus_months t a" and "t - minus_months t a \<le> 31 * a * MS_PER_DAY"
    unfolding span by (simp_all add: MS_PER_DAY_def)
qed

text \<open>One resolution of a relative window: never empty, never above its ceiling.\<close>

definition resolvable :: "int \<Rightarrow> relative_unit \<Rightarrow> instant \<Rightarrow> bool" where
  "resolvable amount u now = (u = UMonth \<longrightarrow> 100 \<le> (month_number now - amount) div 12)"

lemma resolve_relative:
  assumes "0 < amount" and "resolvable amount u now"
  shows "\<exists>since. resolve_window (Relative amount u) now = (since, now) \<and> since < now \<and>
    now - since \<le> maximum_span (Relative amount u) \<and>
    (u \<noteq> UMonth \<longrightarrow> now - since = maximum_span (Relative amount u)) \<and>
    (u = UMonth \<longrightarrow> month_number since = month_number now - amount)"
proof (cases u)
  case UMonth
  then have a: "100 \<le> (month_number now - amount) div 12" using assms(2) by (simp add: resolvable_def)
  from minus_months_span [OF a assms(1)] minus_months_fields [OF a] assms(1) show ?thesis
    by (auto simp: UMonth LONGEST_MONTH_MILLIS_def duration_days_def MS_PER_DAY_def)
qed (use assms(1) in \<open>simp_all add: set_utc_hours_back set_utc_date_back duration_hours_def
      duration_days_def MS_PER_DAY_def\<close>)

section \<open>Properties\<close>

text \<open>
  A relative window ends now and is never empty nor longer than the ceiling it is checked
  against before a clock is read; hours, days and weeks have exactly that length; and the
  previous window ends where this one starts, obeys the same bounds, and has the same length
  unless it is measured in months. (Months need dates from the year 100 on: \<open>Date.UTC\<close> reads
  earlier years as of the 20th century.)
\<close>

theorem relative_windows_keep_their_ceiling:
  assumes "0 < amount" and "resolvable (2 * amount) u now"
  shows "\<exists>since before.
    resolve_window (Relative amount u) now = (since, now) \<and>
    0 < now - since \<and> now - since \<le> maximum_span (Relative amount u) \<and>
    previous_window (Relative amount u) now = Absolute before since \<and>
    0 < since - before \<and> since - before \<le> maximum_span (Relative amount u) \<and>
    (u \<noteq> UMonth \<longrightarrow> now - since = maximum_span (Relative amount u) \<and> since - before = now - since)"
proof -
  have near: "resolvable amount u now"
    using assms by (auto simp: resolvable_def intro: order_trans [OF _ zdiv_mono1])
  obtain since where s: "resolve_window (Relative amount u) now = (since, now)" "since < now"
    "now - since \<le> maximum_span (Relative amount u)"
    "u \<noteq> UMonth \<longrightarrow> now - since = maximum_span (Relative amount u)"
    "u = UMonth \<longrightarrow> month_number since = month_number now - amount"
    using resolve_relative [OF assms(1) near] by blast
  have far: "resolvable amount u since" using assms(2) s(5) by (auto simp: resolvable_def algebra_simps)
  obtain before where b: "resolve_window (Relative amount u) since = (before, since)" "before < since"
    "since - before \<le> maximum_span (Relative amount u)"
    "u \<noteq> UMonth \<longrightarrow> since - before = maximum_span (Relative amount u)"
    using resolve_relative [OF assms(1) far] by blast
  have "previous_window (Relative amount u) now = Absolute before since"
    by (simp add: previous_window_def s(1) b(1))
  with s b show ?thesis by (intro exI [of _ since] exI [of _ before]) simp
qed

theorem relative_windows_keep_their_ceiling_witness:
  "let now = 1709210096789
   in \<exists>since before. resolve_window (Relative 1 UMonth) now = (since, now) \<and>
        previous_window (Relative 1 UMonth) now = Absolute before since \<and>
        0 < since - before \<and> since - before \<le> duration_days 31"
proof -
  have "resolvable (2 * 1) UMonth 1709210096789" by code_simp
  then obtain since before where s: "resolve_window (Relative 1 UMonth) 1709210096789 = (since, 1709210096789)"
    and b: "previous_window (Relative 1 UMonth) 1709210096789 = Absolute before since"
    and p: "0 < since - before" "since - before \<le> maximum_span (Relative 1 UMonth)"
    using relative_windows_keep_their_ceiling [of 1 UMonth 1709210096789] by auto
  have "maximum_span (Relative 1 UMonth) = duration_days 31" by (simp add: LONGEST_MONTH_MILLIS_def)
  with s b p show ?thesis unfolding Let_def by auto
qed

text \<open>
  Going back months never rolls into another month: the result lies exactly that many
  calendar months earlier, at the same time of the day, on the same day of the month where the
  month has it and on the month's last day where it has not.
\<close>

theorem months_clamp_to_their_last_day:
  assumes "resolvable amount UMonth now"
  shows "let since = fst (resolve_window (Relative amount UMonth) now);
             n = 12 * utc_year now + utc_month now - amount
         in utc_year since = n div 12 \<and> utc_month since = n mod 12 \<and>
            utc_date since = min (utc_date now) (month_length (n div 12) (n mod 12)) \<and>
            since mod MS_PER_DAY = now mod MS_PER_DAY"
proof -
  have a: "100 \<le> (month_number now - amount) div 12" using assms by (simp add: resolvable_def)
  note f = minus_months_fields [OF a]
  have "utc_year (minus_months now amount) = (month_number now - amount) div 12"
    "utc_month (minus_months now amount) = (month_number now - amount) mod 12"
    using month_number_fields [of "minus_months now amount"] f(1) by simp_all
  moreover have "month_number now = 12 * utc_year now + utc_month now" by (rule month_number_def)
  ultimately show ?thesis
    using f(2,3) by (simp add: Let_def month_days_def time_within_day_def)
qed

theorem months_clamp_to_their_last_day_witness:
  "let now = 1711888496789;
       since = fst (resolve_window (Relative 1 UMonth) now)
   in utc_date now = 31 \<and> utc_date since = 29 \<and> utc_month since = 1"
proof -
  let ?now = "1711888496789"
  have r: "resolvable 1 UMonth ?now"
    and n: "12 * utc_year ?now + utc_month ?now - 1 = 24289" and d: "utc_date ?now = 31"
    by code_simp+
  have "month_length 2024 1 = 29" by code_simp
  with months_clamp_to_their_last_day [OF r] d show ?thesis unfolding n Let_def by simp
qed

end
