(* ===== verification/Funnels.thy ===== *)
theory Funnels
  imports Predicates Window
begin

text \<open>
  Measures and their summaries (packages/analytics/domain/src/measure.ts), the defects of a
  question (defect.ts) and funnels (funnel.ts). Values of a series and rates are rational where
  the code has doubles; counts, limits and amounts are integers.
\<close>

section \<open>Measures\<close>

datatype counting_basis = Visit | Person

definition COUNTING_BASES :: "counting_basis list" where
  "COUNTING_BASES = [Visit, Person]"

fun basis_name :: "counting_basis \<Rightarrow> string" where
  "basis_name Visit = ''visit''"
| "basis_name Person = ''person''"

fun basis_label :: "counting_basis \<Rightarrow> string" where
  "basis_label Visit = ''visits''"
| "basis_label Person = ''people''"

definition spans_visits :: "counting_basis \<Rightarrow> bool" where
  "spans_visits b = (b = Person)"

datatype measure = CountEvents | Unique counting_basis | SumOf string

fun measure_label :: "measure \<Rightarrow> string" where
  "measure_label CountEvents = ''Events''"
| "measure_label (Unique basis) = (if basis = Person then ''People'' else ''Visits'')"
| "measure_label (SumOf name) = ''Total '' @ name"

fun is_approximate :: "measure \<Rightarrow> bool" where
  "is_approximate (Unique _) = True"
| "is_approximate _ = False"

fun requires_person :: "measure \<Rightarrow> bool" where
  "requires_person (Unique basis) = (basis = Person)"
| "requires_person _ = False"

fun reads_measure :: "measure \<Rightarrow> string option" where
  "reads_measure (SumOf name) = Some name"
| "reads_measure _ = None"

fun measure_to_key :: "measure \<Rightarrow> string" where
  "measure_to_key CountEvents = ''count''"
| "measure_to_key (Unique basis) = ''unique:'' @ basis_name basis"
| "measure_to_key (SumOf name) = ''sum:'' @ name"

definition measure_equals :: "measure \<Rightarrow> measure \<Rightarrow> bool" where
  "measure_equals a b = (measure_to_key a = measure_to_key b)"

datatype summary_stat = Total | Average | Peak | Low | Latest

definition SUMMARY_STATS :: "summary_stat list" where
  "SUMMARY_STATS = [Total, Average, Peak, Low, Latest]"

fun summary_name :: "summary_stat \<Rightarrow> string" where
  "summary_name Total = ''total''"
| "summary_name Average = ''average''"
| "summary_name Peak = ''peak''"
| "summary_name Low = ''low''"
| "summary_name Latest = ''latest''"

fun summary_apply :: "summary_stat \<Rightarrow> rat list \<Rightarrow> rat option" where
  "summary_apply stat [] = (if stat = Total then Some 0 else None)"
| "summary_apply Total (first # rest) = Some (foldl (+) 0 (first # rest))"
| "summary_apply Average (first # rest) =
     Some (foldl (+) 0 (first # rest) / of_nat (length (first # rest)))"
| "summary_apply Peak (first # rest) = Some (foldl (\<lambda>a b. if b > a then b else a) first (first # rest))"
| "summary_apply Low (first # rest) = Some (foldl (\<lambda>a b. if b < a then b else a) first (first # rest))"
| "summary_apply Latest (first # rest) = Some ((first # rest) ! (length (first # rest) - 1))"

fun summary_label :: "summary_stat \<Rightarrow> string" where
  "summary_label Total = ''Total''"
| "summary_label Average = ''Average''"
| "summary_label Peak = ''Peak''"
| "summary_label Low = ''Low''"
| "summary_label Latest = ''Latest''"

definition is_per_bucket :: "summary_stat \<Rightarrow> bool" where
  "is_per_bucket stat = (stat = Average)"

datatype trend_direction = TrendUp | TrendDown | TrendFlat

record trend =
  trend_current :: rat
  trend_previous :: rat
  absolute_change :: rat
  percent_change :: "rat option"
  trend_direction :: trend_direction

definition trend_between :: "rat \<Rightarrow> rat \<Rightarrow> trend" where
  "trend_between current previous =
     (let change = current - previous
      in \<lparr> trend_current = current, trend_previous = previous, absolute_change = change,
           percent_change = (if previous = 0 then None else Some (change / previous * 100)),
           trend_direction = (if change > 0 then TrendUp else if change < 0 then TrendDown else TrendFlat) \<rparr>)"

definition is_comparable :: "trend \<Rightarrow> bool" where
  "is_comparable t = (percent_change t \<noteq> None)"

definition is_favourable :: "trend \<Rightarrow> bool \<Rightarrow> bool" where
  "is_favourable t higher_is_better =
     (if trend_direction t = TrendFlat then False
      else if higher_is_better then trend_direction t = TrendUp
      else trend_direction t = TrendDown)"

section \<open>Defects\<close>

datatype analysis_defect =
    InvalidGrouping string
  | EmptyEventName
  | EmptyPropertyKey
  | EmptyMeasureName
  | EmptyPredicateGroup string
  | EmptyValueList string
  | LimitOutOfRange int int
  | NonPositiveWindow int
  | InvertedWindow
  | TooFewSteps nat nat
  | TooManySteps nat nat
  | StepWithoutEvents nat
  | NonPositiveConversionWindow

fun describe_defect :: "analysis_defect \<Rightarrow> string" where
  "describe_defect (InvalidGrouping detail) = detail"
| "describe_defect EmptyEventName = ''an event name is blank''"
| "describe_defect EmptyPropertyKey = ''a property name is blank''"
| "describe_defect EmptyMeasureName = ''the measure to sum is unnamed''"
| "describe_defect (EmptyPredicateGroup op) = ''an '' @ quoted op @ '' has no operands''"
| "describe_defect (EmptyValueList op) = ''an '' @ quoted op @ '' has no values''"
| "describe_defect (LimitOutOfRange l m) =
     ''limit '' @ show_int l @ '' is outside 1..'' @ show_int m"
| "describe_defect (NonPositiveWindow n) = ''a window of '' @ show_int n @ '' covers no time''"
| "describe_defect InvertedWindow = ''the window ends before it starts''"
| "describe_defect (TooFewSteps n m) =
     ''a funnel needs at least '' @ show_nat m @ '' steps, this one has '' @ show_nat n"
| "describe_defect (TooManySteps n m) =
     ''a funnel takes at most '' @ show_nat m @ '' steps, this one has '' @ show_nat n"
| "describe_defect (StepWithoutEvents i) = ''step '' @ show_nat (i + 1) @ '' names no events''"
| "describe_defect NonPositiveConversionWindow =
     ''the conversion window gives nobody any time to convert''"

definition describe_defects :: "analysis_defect list \<Rightarrow> string" where
  "describe_defects ds = join_with ''; '' (map describe_defect ds)"

section \<open>Funnels\<close>

record funnel_step =
  step_label :: "string option"
  step_events :: "string list"
  step_where :: "predicate option"

definition step_label_of :: "funnel_step \<Rightarrow> nat \<Rightarrow> string" where
  "step_label_of s i =
     (case step_label s of
        Some l \<Rightarrow> l
      | None \<Rightarrow> if length (step_events s) > 0 then join_with '' or '' (step_events s)
                else ''Step '' @ show_nat (i + 1))"

record funnel =
  fun_steps :: "funnel_step list"
  fun_window :: window
  fun_conversion :: conversion_window
  fun_basis :: counting_basis

definition MIN_FUNNEL_STEPS :: nat where
  "MIN_FUNNEL_STEPS = 2"

definition MAX_FUNNEL_STEPS :: nat where
  "MAX_FUNNEL_STEPS = 10"

definition ENGINE_FUNNEL_STEPS :: nat where
  "ENGINE_FUNNEL_STEPS = 3"

record funnel_step_result =
  result_label :: string
  result_reached :: int
  result_rate :: rat
  result_cumulative :: rat
  result_dropped :: int

record funnel_result =
  result_steps :: "funnel_step_result list"
  overall_rate :: rat

datatype funnel_summary_error = CountMismatch string | NonMonotonicCounts string

definition funnel_labels :: "funnel \<Rightarrow> string list" where
  "funnel_labels f = map (\<lambda>(i, s). step_label_of s i) (enumerate 0 (fun_steps f))"

definition funnel_event_names :: "funnel \<Rightarrow> string list" where
  "funnel_event_names f = set_order [] (concat (map step_events (fun_steps f)))"

definition funnel_to_key :: "funnel \<Rightarrow> string" where
  "funnel_to_key f =
     join_with '';''
       [''steps:'' @ join_with ''>''
          (map (\<lambda>s. join_with ''+'' (sort (step_events s)) @
                 (case step_where s of None \<Rightarrow> [] | Some p \<Rightarrow> ''@'' @ predicate_to_key p))
             (fun_steps f)),
        conversion_to_key (fun_conversion f),
        ''basis:'' @ basis_name (fun_basis f)]"

fun step_defects :: "nat \<Rightarrow> funnel_step list \<Rightarrow> analysis_defect list" where
  "step_defects i [] = []"
| "step_defects i (s # ss) =
     (if step_events s = [] then [StepWithoutEvents i] else []) @
     (if list_ex (\<lambda>name. js_trim name = []) (step_events s) then [EmptyEventName] else []) @
     step_defects (Suc i) ss"

definition funnel_defects :: "funnel \<Rightarrow> analysis_defect list" where
  "funnel_defects f =
     (let n = length (fun_steps f)
      in (if n < MIN_FUNNEL_STEPS then [TooFewSteps n MIN_FUNNEL_STEPS] else []) @
         (if n > MAX_FUNNEL_STEPS then [TooManySteps n MAX_FUNNEL_STEPS] else []) @
         step_defects 0 (fun_steps f) @
         (if \<not> conversion_is_positive (fun_conversion f) then [NonPositiveConversionWindow] else []))"

fun step_blockers :: "nat \<Rightarrow> funnel_step list \<Rightarrow> blocker list" where
  "step_blockers i [] = []"
| "step_blockers i (s # ss) =
     (if step_where s \<noteq> None then [StepPredicateUnsupported i] else []) @
     (if length (step_events s) > 1 then [MultiEventStepUnsupported i] else []) @
     step_blockers (Suc i) ss"

definition funnel_answerability :: "funnel \<Rightarrow> answerability" where
  "funnel_answerability f =
     (let blockers =
            (if length (fun_steps f) \<noteq> ENGINE_FUNNEL_STEPS
             then [StepCountUnsupported (length (fun_steps f)) ENGINE_FUNNEL_STEPS] else []) @
            step_blockers 0 (fun_steps f)
      in if length blockers > 0 then Unanswerable blockers
         else Indexed \<lparr> plan_event = None, plan_filters = [] \<rparr> 1)"

definition percent :: "int \<Rightarrow> int \<Rightarrow> rat" where
  "percent part whole = (if whole = 0 then 0 else (rat_of_int part / rat_of_int whole) * 100)"

text \<open>The first step whose count exceeds the one before it, by index.\<close>

fun first_rise :: "nat \<Rightarrow> int \<Rightarrow> int list \<Rightarrow> funnel_summary_error option" where
  "first_rise i prev [] = None"
| "first_rise i prev (here # counts) =
     (if here > prev
      then Some (NonMonotonicCounts
        (''step '' @ show_nat i @ '' ('' @ show_int here @ '') exceeds step '' @ show_nat (i - 1) @
         '' ('' @ show_int prev @ '')''))
      else first_rise (Suc i) here counts)"

definition counts_rise :: "int list \<Rightarrow> funnel_summary_error option" where
  "counts_rise counts = (case counts of [] \<Rightarrow> None | c # cs \<Rightarrow> first_rise 1 c cs)"

definition step_result :: "funnel \<Rightarrow> int list \<Rightarrow> nat \<Rightarrow> funnel_step_result" where
  "step_result f counts i =
     (let reached = counts ! i;
          prev = (if i = 0 then reached else counts ! (i - 1));
          first = (case counts of [] \<Rightarrow> 0 | c # _ \<Rightarrow> c)
      in \<lparr> result_label = step_label_of (fun_steps f ! i) i,
           result_reached = reached,
           result_rate = (if i = 0 then 100 else percent reached prev),
           result_cumulative = percent reached first,
           result_dropped = (if i = 0 then 0 else max 0 (prev - reached)) \<rparr>)"

definition funnel_summarize :: "funnel \<Rightarrow> int list \<Rightarrow> funnel_summary_error + funnel_result" where
  "funnel_summarize f counts =
     (if length counts \<noteq> length (fun_steps f)
      then err (CountMismatch (show_nat (length counts) @ '' counts for '' @
             show_nat (length (fun_steps f)) @ '' steps''))
      else
        (case counts_rise counts of
           Some e \<Rightarrow> err e
         | None \<Rightarrow>
             ok \<lparr> result_steps = map (step_result f counts) [0..<length counts],
                  overall_rate =
                    (case counts of [] \<Rightarrow> percent 0 0 | first # _ \<Rightarrow> percent (last counts) first) \<rparr>))"

definition biggest_drop_off :: "funnel_result \<Rightarrow> funnel_step_result option" where
  "biggest_drop_off r =
     foldl (\<lambda>worst s.
              if result_dropped s > 0 \<and>
                 (case worst of None \<Rightarrow> True | Some w \<Rightarrow> result_dropped s > result_dropped w)
              then Some s else worst)
       None (result_steps r)"

section \<open>Facts\<close>

text \<open>A summary of a series that is not empty lies within it.\<close>

lemma foldl_max_bounds:
  fixes a :: rat
  shows "foldl (\<lambda>a b. if b > a then b else a) a xs \<in> set (a # xs) \<and>
         (\<forall>x \<in> set (a # xs). x \<le> foldl (\<lambda>a b. if b > a then b else a) a xs)"
proof (induction xs arbitrary: a)
  case (Cons x xs)
  show ?case
    using Cons.IH [of x] Cons.IH [of a] by (cases "x > a") auto
qed simp

lemma foldl_min_bounds:
  fixes a :: rat
  shows "foldl (\<lambda>a b. if b < a then b else a) a xs \<in> set (a # xs) \<and>
         (\<forall>x \<in> set (a # xs). foldl (\<lambda>a b. if b < a then b else a) a xs \<le> x)"
proof (induction xs arbitrary: a)
  case (Cons x xs)
  show ?case
    using Cons.IH [of x] Cons.IH [of a] by (cases "x < a") auto
qed simp

lemma foldl_plus: "foldl (+) (a :: 'a :: comm_monoid_add) xs = a + sum_list xs"
  by (induction xs arbitrary: a) (simp_all add: add.assoc)

lemma sum_list_between:
  fixes xs :: "rat list"
  assumes "\<And>x. x \<in> set xs \<Longrightarrow> lo \<le> x \<and> x \<le> hi"
  shows "lo * of_nat (length xs) \<le> sum_list xs \<and> sum_list xs \<le> hi * of_nat (length xs)"
  using assms by (induction xs) (fastforce simp: algebra_simps)+

lemma summary_within:
  assumes "summary_apply stat xs = Some v" "xs \<noteq> []" "stat \<noteq> Total"
  shows "(\<exists>x \<in> set xs. x \<le> v) \<and> (\<exists>x \<in> set xs. v \<le> x)"
proof -
  obtain f r where xs: "xs = f # r" using assms(2) by (cases xs) auto
  show ?thesis
  proof (cases stat)
    case Peak
    then show ?thesis using assms(1) foldl_max_bounds [of f "f # r"] unfolding xs by auto
  next
    case Low
    then show ?thesis using assms(1) foldl_min_bounds [of f "f # r"] unfolding xs by auto
  next
    case Latest
    have "(f # r) ! length r \<in> set (f # r)" by (rule nth_mem) simp
    then show ?thesis using assms(1) Latest unfolding xs by auto
  next
    case Average
    have v: "v * of_nat (length xs) = sum_list xs"
      using assms(1) Average unfolding xs by (auto simp: foldl_plus)
    have n: "(0 :: rat) < of_nat (length xs)" using assms(2) by simp
    have lo: "Min (set xs) \<in> set xs" and hi: "Max (set xs) \<in> set xs" using assms(2) by simp_all
    have "Min (set xs) * of_nat (length xs) \<le> v * of_nat (length xs)"
      "v * of_nat (length xs) \<le> Max (set xs) * of_nat (length xs)"
      unfolding v using sum_list_between [of xs "Min (set xs)" "Max (set xs)"] by simp_all
    then have "Min (set xs) \<le> v" "v \<le> Max (set xs)" using n by simp_all
    with lo hi show ?thesis by blast
  qed (use assms(3) in simp)
qed

text \<open>The check for a rise accepts exactly the non-increasing counts.\<close>

lemma first_rise_None: "first_rise i p cs = None \<longleftrightarrow> sorted_wrt (\<ge>) (p # cs)"
proof (induction cs arbitrary: i p)
  case (Cons c cs)
  show ?case
  proof (cases "p < c")
    case False
    then have below: "x \<le> p" if "x \<le> c" for x using that by simp
    show ?thesis using Cons.IH [of "Suc i" c] False by (auto intro: below)
  qed simp
qed simp

lemma counts_rise_None: "counts_rise counts = None \<longleftrightarrow> sorted_wrt (\<ge>) counts"
  by (cases counts) (simp_all only: counts_rise_def list.case first_rise_None sorted_wrt.simps(1) simp_thms)

lemma counts_rise_kind: "counts_rise counts = Some e \<Longrightarrow> \<exists>d. e = NonMonotonicCounts d"
proof -
  have "first_rise i p cs = Some e \<Longrightarrow> \<exists>d. e = NonMonotonicCounts d" for i p cs
    by (induction cs arbitrary: i p) (auto split: if_splits)
  then show "counts_rise counts = Some e \<Longrightarrow> \<exists>d. e = NonMonotonicCounts d"
    by (auto simp: counts_rise_def split: list.splits)
qed

lemma percent_bounds: "0 \<le> a \<Longrightarrow> a \<le> b \<Longrightarrow> 0 \<le> percent a b \<and> percent a b \<le> 100"
  by (auto simp: percent_def divide_le_eq)

lemma non_increasing_nth:
  fixes counts :: "int list"
  assumes "sorted_wrt (\<ge>) counts" "i \<le> j" "j < length counts"
  shows "counts ! j \<le> counts ! i"
  using assms by (cases "i = j") (auto simp: sorted_wrt_iff_nth_less)

lemma drops_telescope:
  assumes "sorted_wrt (\<ge>) counts" "n < length counts"
  shows "sum_list (map (\<lambda>i. result_dropped (step_result f counts i)) [0..<Suc n]) = counts ! 0 - counts ! n"
  using assms(2)
proof (induction n)
  case (Suc n)
  have "counts ! Suc n \<le> counts ! n" using non_increasing_nth [OF assms(1), of n "Suc n"] Suc.prems by simp
  then show ?case using Suc by (simp add: step_result_def Let_def)
qed (simp add: step_result_def Let_def)

definition no_better :: "funnel_step_result list \<Rightarrow> funnel_step_result option \<Rightarrow> bool" where
  "no_better ss w \<longleftrightarrow>
     (case w of
        None \<Rightarrow> \<forall>s \<in> set ss. result_dropped s \<le> 0
      | Some b \<Rightarrow> b \<in> set ss \<and> 0 < result_dropped b \<and> (\<forall>s \<in> set ss. result_dropped s \<le> result_dropped b))"

lemma biggest_drop_off_best: "no_better (result_steps r) (biggest_drop_off r)"
proof -
  let ?f = "\<lambda>worst s. if result_dropped s > 0 \<and>
      (case worst of None \<Rightarrow> True | Some w \<Rightarrow> result_dropped s > result_dropped w) then Some s else worst"
  have "no_better ss (foldl ?f None ss)" for ss
  proof (induction ss rule: rev_induct)
    case (snoc s ss)
    then show ?case by (cases "foldl ?f None ss") (auto simp: no_better_def)
  qed (simp add: no_better_def)
  then show ?thesis unfolding biggest_drop_off_def by blast
qed

section \<open>Properties\<close>

text \<open>
  Counts that come back from the engine become a readout exactly when there is one for every
  step and none rises above the one before it, and the refusal says which of the two failed. The
  readout's counts are the engine's, every rate lies between 0 and 100, the losses of the steps
  add up to the difference between the first step and the last, the overall rate is the last
  step's cumulative rate, and the reported drop-off is the largest loss, absent exactly when
  nobody is lost.
\<close>

theorem funnel_rates_are_consistent:
  assumes "list_all (\<lambda>c. 0 \<le> c) counts"
  shows "case funnel_summarize f counts of
           Inl (CountMismatch _) \<Rightarrow> length counts \<noteq> length (fun_steps f)
         | Inl (NonMonotonicCounts _) \<Rightarrow>
             length counts = length (fun_steps f) \<and> \<not> sorted_wrt (\<ge>) counts
         | Inr r \<Rightarrow>
             length counts = length (fun_steps f) \<and> sorted_wrt (\<ge>) counts \<and>
             map result_reached (result_steps r) = counts \<and>
             list_all (\<lambda>s. 0 \<le> result_rate s \<and> result_rate s \<le> 100 \<and>
               0 \<le> result_cumulative s \<and> result_cumulative s \<le> 100 \<and> 0 \<le> result_dropped s)
               (result_steps r) \<and>
             (counts \<noteq> [] \<longrightarrow>
               sum_list (map result_dropped (result_steps r)) = hd counts - last counts \<and>
               overall_rate r = result_cumulative (last (result_steps r))) \<and>
             no_better (result_steps r) (biggest_drop_off r)"
proof (cases "length counts = length (fun_steps f) \<and> sorted_wrt (\<ge>) counts")
  case False
  then show ?thesis
    by (cases "counts_rise counts")
      (auto simp: funnel_summarize_def err_def counts_rise_None dest: counts_rise_kind)
next
  case True
  let ?ss = "map (step_result f counts) [0..<length counts]"
  let ?rate = "case counts of [] \<Rightarrow> percent 0 0 | first # _ \<Rightarrow> percent (last counts) first"
  define r where "r = \<lparr> result_steps = ?ss, overall_rate = ?rate \<rparr>"
  have r: "funnel_summarize f counts = Inr r" and ss: "result_steps r = ?ss" and o: "overall_rate r = ?rate"
    using True counts_rise_None [of counts] by (simp_all add: funnel_summarize_def ok_def r_def)
  have reached: "map result_reached ?ss = counts"
    by (rule nth_equalityI) (simp_all add: step_result_def Let_def)
  have nn: "0 \<le> counts ! i" if "i < length counts" for i using assms that by (simp add: list_all_length)
  have rates: "list_all (\<lambda>s. 0 \<le> result_rate s \<and> result_rate s \<le> 100 \<and>
      0 \<le> result_cumulative s \<and> result_cumulative s \<le> 100 \<and> 0 \<le> result_dropped s) ?ss"
    unfolding list_all_length
  proof (intro allI impI)
    fix i
    assume "i < length ?ss"
    then have i: "i < length counts" by simp
    have "counts ! i \<le> counts ! 0" "counts ! i \<le> counts ! (i - 1)"
      using True i by (auto intro: non_increasing_nth)
    moreover have "(case counts of [] \<Rightarrow> 0 | c # _ \<Rightarrow> c) = counts ! 0" using i by (cases counts) simp_all
    ultimately show "0 \<le> result_rate (?ss ! i) \<and> result_rate (?ss ! i) \<le> 100 \<and>
      0 \<le> result_cumulative (?ss ! i) \<and> result_cumulative (?ss ! i) \<le> 100 \<and> 0 \<le> result_dropped (?ss ! i)"
      using i nn [OF i] by (simp add: step_result_def Let_def percent_bounds)
  qed
  have "sum_list (map result_dropped ?ss) = hd counts - last counts \<and>
      overall_rate r = result_cumulative (last ?ss)" if ne: "counts \<noteq> []"
  proof -
    obtain n where n: "length counts = Suc n" using ne by (cases counts) simp_all
    have "hd counts = counts ! 0" "last counts = counts ! n" using ne n by (simp_all add: hd_conv_nth last_conv_nth)
    moreover have "last ?ss = step_result f counts n" using n by (simp add: last_map)
    ultimately show ?thesis
      using drops_telescope [of counts n f] True n o ne
      by (cases counts) (simp_all add: o_def step_result_def Let_def)
  qed
  then show ?thesis
    unfolding r using True reached rates biggest_drop_off_best [of r] by (simp add: ss)
qed

theorem funnel_rates_are_consistent_witness:
  "let f = \<lparr> fun_steps = map (\<lambda>n. \<lparr> step_label = None, step_events = [n], step_where = None \<rparr>)
                [''view'', ''cart'', ''buy''],
            fun_window = Relative 7 UDay, fun_conversion = DEFAULT_CONVERSION, fun_basis = Visit \<rparr>
   in \<exists>r. funnel_summarize f [40, 10, 5] = Inr r \<and> sum_list (map result_dropped (result_steps r)) = 35"
proof -
  let ?f = "\<lparr> fun_steps = map (\<lambda>n. \<lparr> step_label = None, step_events = [n], step_where = None \<rparr>)
                [''view'', ''cart'', ''buy''],
            fun_window = Relative 7 UDay, fun_conversion = DEFAULT_CONVERSION, fun_basis = Visit \<rparr>"
  have "list_all (\<lambda>c. 0 \<le> c) [40, 10, 5 :: int]" by simp
  from funnel_rates_are_consistent [OF this, of ?f]
  show ?thesis
    unfolding Let_def by (cases "funnel_summarize ?f [40, 10, 5]") (auto split: funnel_summary_error.splits)
qed

end
