(* ===== verification/Analysis.thy ===== *)
theory Analysis
  imports Funnels
begin

text \<open>
  The serialisable definition of a question, packages/analytics/domain/src/analysis.ts: its four
  shapes, structural validation, the check against a project's schema, its key and how it is
  served. Limits are integers, as the wire contract demands.
\<close>

section \<open>Questions\<close>

datatype sort_direction = Asc | Desc

fun direction_name :: "sort_direction \<Rightarrow> string" where
  "direction_name Asc = ''asc''"
| "direction_name Desc = ''desc''"

record metric =
  met_measure :: measure
  met_where :: "predicate option"
  met_window :: window

datatype grouping = ByOne field_ref | ByMany "field_ref list"

datatype analysis =
    ScalarOf metric summary_stat
  | SeriesOf metric grain "field_ref option" "int option"
  | BreakdownOf metric grouping sort_direction int
  | FunnelOf funnel

datatype analysis_error =
    InvalidAnalysis string
  | WindowTooLarge duration
  | UnknownDimension string
  | UnknownMeasure string

definition MAX_BREAKDOWN_LIMIT :: int where
  "MAX_BREAKDOWN_LIMIT = 100"

definition MAX_BREAKDOWN_FIELDS :: nat where
  "MAX_BREAKDOWN_FIELDS = 3"

definition MAX_SERIES_GROUPS :: int where
  "MAX_SERIES_GROUPS = 3"

fun breakdown_fields :: "grouping \<Rightarrow> field_ref list" where
  "breakdown_fields (ByOne f) = [f]"
| "breakdown_fields (ByMany fs) = fs"

fun grouped_fields :: "analysis \<Rightarrow> field_ref list" where
  "grouped_fields (BreakdownOf _ by _ _) = breakdown_fields by"
| "grouped_fields (SeriesOf _ _ (Some f) _) = [f]"
| "grouped_fields _ = []"

record project_schema =
  schema_dimensions :: dimension_catalog
  schema_measures :: "string list"

definition count_over_window :: "window \<Rightarrow> summary_stat \<Rightarrow> analysis" where
  "count_over_window w summary =
     ScalarOf \<lparr> met_measure = CountEvents, met_where = None, met_window = w \<rparr> summary"

definition time_series :: "measure \<Rightarrow> window \<Rightarrow> grain option \<Rightarrow> analysis" where
  "time_series m w g =
     SeriesOf \<lparr> met_measure = m, met_where = None, met_window = w \<rparr>
       (case g of Some x \<Rightarrow> x | None \<Rightarrow> default_grain w) None None"

definition breakdown :: "measure \<Rightarrow> grouping \<Rightarrow> window \<Rightarrow> int option \<Rightarrow> analysis" where
  "breakdown m by w l =
     BreakdownOf \<lparr> met_measure = m, met_where = None, met_window = w \<rparr> by Desc
       (case l of Some x \<Rightarrow> x | None \<Rightarrow> 10)"

fun is_scalar :: "analysis \<Rightarrow> bool" where
  "is_scalar (ScalarOf _ _) = True"
| "is_scalar _ = False"

fun metric_of :: "analysis \<Rightarrow> metric option" where
  "metric_of (ScalarOf m _) = Some m"
| "metric_of (SeriesOf m _ _ _) = Some m"
| "metric_of (BreakdownOf m _ _ _) = Some m"
| "metric_of (FunnelOf _) = None"

fun analysis_window :: "analysis \<Rightarrow> window" where
  "analysis_window (FunnelOf f) = fun_window f"
| "analysis_window (ScalarOf m _) = met_window m"
| "analysis_window (SeriesOf m _ _ _) = met_window m"
| "analysis_window (BreakdownOf m _ _ _) = met_window m"

definition analysis_where :: "analysis \<Rightarrow> predicate option" where
  "analysis_where a = Option.bind (metric_of a) met_where"

fun with_window :: "analysis \<Rightarrow> window \<Rightarrow> analysis" where
  "with_window (FunnelOf f) w = FunnelOf (f\<lparr>fun_window := w\<rparr>)"
| "with_window (ScalarOf m s) w = ScalarOf (m\<lparr>met_window := w\<rparr>) s"
| "with_window (SeriesOf m g by l) w = SeriesOf (m\<lparr>met_window := w\<rparr>) g by l"
| "with_window (BreakdownOf m by d l) w = BreakdownOf (m\<lparr>met_window := w\<rparr>) by d l"

definition analysis_requires_person :: "analysis \<Rightarrow> bool" where
  "analysis_requires_person a =
     (case a of FunnelOf f \<Rightarrow> fun_basis f = Person
      | _ \<Rightarrow> (case metric_of a of Some m \<Rightarrow> requires_person (met_measure m) | None \<Rightarrow> False))"

definition analysis_is_approximate :: "analysis \<Rightarrow> bool" where
  "analysis_is_approximate a =
     (case metric_of a of Some m \<Rightarrow> is_approximate (met_measure m) | None \<Rightarrow> False)"

text \<open>Keep the first reference of each key.\<close>

fun first_refs :: "string list \<Rightarrow> field_ref list \<Rightarrow> field_ref list" where
  "first_refs seen [] = []"
| "first_refs seen (f # fs) =
     (if field_to_key f \<in> set seen then first_refs seen fs
      else f # first_refs (field_to_key f # seen) fs)"

fun predicate_refs :: "predicate option \<Rightarrow> field_ref list" where
  "predicate_refs None = []"
| "predicate_refs (Some p) = predicate_fields p"

definition analysis_fields :: "analysis \<Rightarrow> field_ref list" where
  "analysis_fields a =
     first_refs []
       (case a of
          FunnelOf f \<Rightarrow>
            Dim EVENT_TYPE # concat (map (\<lambda>s. predicate_refs (step_where s)) (fun_steps f))
        | _ \<Rightarrow> predicate_refs (analysis_where a) @ grouped_fields a)"

definition metric_key :: "string \<Rightarrow> metric \<Rightarrow> string list" where
  "metric_key shape m =
     [shape, measure_to_key (met_measure m),
      ''wh:'' @ (case met_where m of None \<Rightarrow> [] | Some p \<Rightarrow> predicate_to_key p),
      ''wn:'' @ window_to_key (met_window m)]"

fun analysis_to_key :: "analysis \<Rightarrow> string" where
  "analysis_to_key (FunnelOf f) =
     ''funnel;'' @ funnel_to_key f @ '';wn:'' @ window_to_key (fun_window f)"
| "analysis_to_key (ScalarOf m summary) =
     join_with '';'' (metric_key ''scalar'' m @ [''sm:'' @ summary_name summary])"
| "analysis_to_key (SeriesOf m g by l) =
     join_with '';'' (metric_key ''series'' m @ [''gr:'' @ grain_name g] @
       (case by of
          None \<Rightarrow> []
        | Some f \<Rightarrow>
            [''by:'' @ field_to_key f,
             ''li:'' @ show_int (case l of Some n \<Rightarrow> n | None \<Rightarrow> MAX_SERIES_GROUPS)]))"
| "analysis_to_key (BreakdownOf m by d l) =
     join_with '';'' (metric_key ''breakdown'' m @
       [''by:'' @ join_with '','' (map field_to_key (breakdown_fields by)),
        ''or:'' @ direction_name d, ''li:'' @ show_int l])"

section \<open>Structural validity\<close>

fun window_defects :: "window \<Rightarrow> analysis_defect list" where
  "window_defects (Relative amount _) = (if amount \<le> 0 then [NonPositiveWindow amount] else [])"
| "window_defects (Absolute since till) = (if till \<le> since then [InvertedWindow] else [])"

fun predicate_walk :: "predicate \<Rightarrow> analysis_defect list" where
  "predicate_walk (PAnd ps) =
     (if ps = [] then [EmptyPredicateGroup ''and''] else []) @ concat (map predicate_walk ps)"
| "predicate_walk (POr ps) =
     (if ps = [] then [EmptyPredicateGroup ''or''] else []) @ concat (map predicate_walk ps)"
| "predicate_walk (PNot p) = predicate_walk p"
| "predicate_walk (PIn _ vs) = (if vs = [] then [EmptyValueList ''in''] else [])"
| "predicate_walk (PNotIn _ vs) = (if vs = [] then [EmptyValueList ''notIn''] else [])"
| "predicate_walk _ = []"

fun blank_property :: "field_ref \<Rightarrow> bool" where
  "blank_property (Prop k) = (js_trim k = [])"
| "blank_property (Dim _) = False"

definition predicate_defects :: "predicate \<Rightarrow> analysis_defect list" where
  "predicate_defects p =
     predicate_walk p @
     map (\<lambda>_. EmptyPropertyKey) (filter blank_property (predicate_fields p))"

fun where_defects :: "predicate option \<Rightarrow> analysis_defect list" where
  "where_defects None = []"
| "where_defects (Some p) = predicate_defects p"

fun measure_defects :: "measure \<Rightarrow> analysis_defect list" where
  "measure_defects (SumOf name) = (if js_trim name = [] then [EmptyMeasureName] else [])"
| "measure_defects _ = []"

definition grouping_defects :: "analysis \<Rightarrow> analysis_defect list" where
  "grouping_defects a =
     (let groups = grouped_fields a
      in (case a of
            BreakdownOf _ _ _ _ \<Rightarrow>
              if length groups < 1 \<or> length groups > MAX_BREAKDOWN_FIELDS
              then [InvalidGrouping ''a breakdown needs one to three properties''] else []
          | _ \<Rightarrow> []) @
         (if length (set_order [] (map field_to_key groups)) \<noteq> length groups
          then [InvalidGrouping ''a property cannot be grouped twice''] else []) @
         map (\<lambda>_. EmptyPropertyKey) (filter (\<lambda>f. js_trim (field_key f) = []) groups))"

definition limit_in :: "int \<Rightarrow> int \<Rightarrow> analysis_defect list" where
  "limit_in l m = (if l < 1 \<or> l > m then [LimitOutOfRange l m] else [])"

fun limit_defects :: "analysis \<Rightarrow> analysis_defect list" where
  "limit_defects (BreakdownOf _ _ _ l) = limit_in l MAX_BREAKDOWN_LIMIT"
| "limit_defects (SeriesOf _ _ by (Some l)) =
     limit_in l MAX_SERIES_GROUPS @
     (if by = None then [InvalidGrouping ''a series limit requires a split property''] else [])"
| "limit_defects _ = []"

definition analysis_defects :: "analysis \<Rightarrow> analysis_defect list" where
  "analysis_defects a =
     (case metric_of a of
        None \<Rightarrow>
          (case a of
             FunnelOf f \<Rightarrow>
               funnel_defects f @ concat (map (\<lambda>s. where_defects (step_where s)) (fun_steps f)) @
               window_defects (fun_window f)
           | _ \<Rightarrow> [])
      | Some m \<Rightarrow>
          measure_defects (met_measure m) @ where_defects (met_where m) @ grouping_defects a @
          limit_defects a @ window_defects (met_window m))"

definition analysis_validate :: "analysis \<Rightarrow> analysis_error + analysis" where
  "analysis_validate a =
     (let defects = analysis_defects a
      in if length defects > 0 then err (InvalidAnalysis (describe_defects defects))
         else if maximum_span (analysis_window a) > MAX_WINDOW then err (WindowTooLarge MAX_WINDOW)
         else ok a)"

fun check_fields :: "dimension_catalog \<Rightarrow> field_ref list \<Rightarrow> analysis_error option" where
  "check_fields cat [] = None"
| "check_fields cat (Prop k # fs) =
     (if prefix ''$'' k
      then Some (InvalidAnalysis ''Reserved event metadata cannot be queried as a custom property.'')
      else check_fields cat fs)"
| "check_fields cat (Dim k # fs) =
     (if catalog_status cat k = DimUnknown then Some (UnknownDimension k) else check_fields cat fs)"

definition analysis_check :: "analysis \<Rightarrow> project_schema \<Rightarrow> analysis_error + analysis" where
  "analysis_check a schema =
     (case analysis_validate a of
        Inl e \<Rightarrow> Inl e
      | Inr _ \<Rightarrow>
          (case check_fields (schema_dimensions schema) (analysis_fields a) of
             Some e \<Rightarrow> err e
           | None \<Rightarrow>
               (case Option.bind (metric_of a) (\<lambda>m. reads_measure (met_measure m)) of
                  Some name \<Rightarrow> if name \<notin> set (schema_measures schema) then err (UnknownMeasure name) else ok a
                | None \<Rightarrow> ok a)))"

section \<open>How it is served\<close>

definition group_availability :: "dimension_catalog \<Rightarrow> field_ref \<Rightarrow> answerability list" where
  "group_availability cat f =
     (let status = catalog_status cat (field_key f)
      in if status = DimPlanned then [Unanswerable [DimensionNotCollected (field_key f)]]
         else if status = DimUnknown \<or> status = DimScanned \<or> (case f of Prop _ \<Rightarrow> True | Dim _ \<Rightarrow> False)
         then [Scan [if is_shadowed f then ShadowedDimension (field_key f)
                     else UndeclaredDimension (field_key f)]]
         else [])"

definition analysis_answerability :: "analysis \<Rightarrow> dimension_catalog \<Rightarrow> answerability" where
  "analysis_answerability a cat =
     (case a of
        FunnelOf f \<Rightarrow>
          worst (funnel_answerability f #
                 map (\<lambda>s. classify_predicate cat (step_where s)) (fun_steps f))
      | _ \<Rightarrow>
          (case worst (classify_predicate cat (analysis_where a) #
                       concat (map (group_availability cat) (grouped_fields a))) of
             Indexed plan _ \<Rightarrow>
               Indexed plan (case a of SeriesOf _ _ (Some _) _ \<Rightarrow> 2 | _ \<Rightarrow> 1)
           | r \<Rightarrow> r))"

section \<open>Facts\<close>

lemma field_to_key_inj: "field_to_key g = field_to_key f \<longleftrightarrow> g = f"
  by (cases g; cases f) auto

lemma first_refs_set: "set (first_refs seen fs) = {f \<in> set fs. field_to_key f \<notin> set seen}"
proof (induction fs arbitrary: seen)
  case (Cons f fs)
  show ?case using Cons.IH [of seen] Cons.IH [of "field_to_key f # seen"] by (auto simp: field_to_key_inj)
qed simp

fun all_refs :: "analysis \<Rightarrow> field_ref set" where
  "all_refs (FunnelOf f) = insert (Dim EVENT_TYPE) (\<Union>s \<in> set (fun_steps f). set (predicate_refs (step_where s)))"
| "all_refs a = set (predicate_refs (analysis_where a)) \<union> set (grouped_fields a)"

lemma analysis_fields_set: "set (analysis_fields a) = all_refs a"
  by (cases a) (auto simp: analysis_fields_def first_refs_set simp del: first_refs.simps)

text \<open>What the defects say, as one condition on the question.\<close>

fun predicate_ok :: "predicate \<Rightarrow> bool" where
  "predicate_ok (PAnd ps) = (ps \<noteq> [] \<and> list_all predicate_ok ps)"
| "predicate_ok (POr ps) = (ps \<noteq> [] \<and> list_all predicate_ok ps)"
| "predicate_ok (PNot p) = predicate_ok p"
| "predicate_ok (PIn f vs) = (vs \<noteq> [] \<and> \<not> blank_property f)"
| "predicate_ok (PNotIn f vs) = (vs \<noteq> [] \<and> \<not> blank_property f)"
| "predicate_ok p = list_all (\<lambda>f. \<not> blank_property f) (predicate_fields p)"

fun where_ok :: "predicate option \<Rightarrow> bool" where
  "where_ok None = True"
| "where_ok (Some p) = predicate_ok p"

fun window_ok :: "window \<Rightarrow> bool" where
  "window_ok (Relative amount _) = (0 < amount)"
| "window_ok (Absolute since till) = (since < till)"

definition step_ok :: "funnel_step \<Rightarrow> bool" where
  "step_ok s \<longleftrightarrow>
     step_events s \<noteq> [] \<and> list_all (\<lambda>name. js_trim name \<noteq> []) (step_events s) \<and> where_ok (step_where s)"

definition metric_ok :: "metric \<Rightarrow> bool" where
  "metric_ok m \<longleftrightarrow>
     (\<forall>name. met_measure m = SumOf name \<longrightarrow> js_trim name \<noteq> []) \<and> where_ok (met_where m) \<and>
     window_ok (met_window m)"

definition groups_ok :: "field_ref list \<Rightarrow> bool" where
  "groups_ok fs \<longleftrightarrow> distinct fs \<and> list_all (\<lambda>f. js_trim (field_key f) \<noteq> []) fs"

fun question_ok :: "analysis \<Rightarrow> bool" where
  "question_ok (ScalarOf m _) = metric_ok m"
| "question_ok (SeriesOf m _ by l) =
     (metric_ok m \<and> groups_ok (case by of None \<Rightarrow> [] | Some f \<Rightarrow> [f]) \<and>
      (case l of None \<Rightarrow> True | Some n \<Rightarrow> 1 \<le> n \<and> n \<le> 3 \<and> by \<noteq> None))"
| "question_ok (BreakdownOf m by _ l) =
     (metric_ok m \<and> groups_ok (breakdown_fields by) \<and>
      1 \<le> length (breakdown_fields by) \<and> length (breakdown_fields by) \<le> 3 \<and> 1 \<le> l \<and> l \<le> 100)"
| "question_ok (FunnelOf f) =
     (2 \<le> length (fun_steps f) \<and> length (fun_steps f) \<le> 10 \<and> list_all step_ok (fun_steps f) \<and>
      0 < conversion_millis (fun_conversion f) \<and> window_ok (fun_window f))"

lemma predicate_walk_ok:
  "predicate_walk p = [] \<and> list_all (\<lambda>f. \<not> blank_property f) (predicate_fields p) \<longleftrightarrow> predicate_ok p"
proof (induction p rule: predicate_ok.induct)
  case (1 ps)
  have "predicate_walk (PAnd ps) = [] \<and> list_all (\<lambda>f. \<not> blank_property f) (predicate_fields (PAnd ps)) \<longleftrightarrow>
      ps \<noteq> [] \<and> (\<forall>p \<in> set ps. predicate_walk p = [] \<and> list_all (\<lambda>f. \<not> blank_property f) (predicate_fields p))"
    by (auto simp: list_all_iff)
  also have "\<dots> \<longleftrightarrow> predicate_ok (PAnd ps)" using 1 by (simp add: list_all_iff)
  finally show ?case .
next
  case (2 ps)
  have "predicate_walk (POr ps) = [] \<and> list_all (\<lambda>f. \<not> blank_property f) (predicate_fields (POr ps)) \<longleftrightarrow>
      ps \<noteq> [] \<and> (\<forall>p \<in> set ps. predicate_walk p = [] \<and> list_all (\<lambda>f. \<not> blank_property f) (predicate_fields p))"
    by (auto simp: list_all_iff)
  also have "\<dots> \<longleftrightarrow> predicate_ok (POr ps)" using 2 by (simp add: list_all_iff)
  finally show ?case .
qed simp_all

lemma predicate_defects_ok: "predicate_defects p = [] \<longleftrightarrow> predicate_ok p"
  unfolding predicate_walk_ok [symmetric]
  by (auto simp: predicate_defects_def filter_empty_conv list_all_iff)

lemma where_defects_ok: "where_defects w = [] \<longleftrightarrow> where_ok w"
  by (cases w) (simp_all add: predicate_defects_ok)

lemma window_defects_ok: "window_defects w = [] \<longleftrightarrow> window_ok w"
  by (cases w) auto

lemma measure_defects_ok: "measure_defects m = [] \<longleftrightarrow> (\<forall>name. m = SumOf name \<longrightarrow> js_trim name \<noteq> [])"
  by (cases m) auto

lemma step_defects_ok:
  "step_defects i ss = [] \<longleftrightarrow>
     (\<forall>s \<in> set ss. step_events s \<noteq> [] \<and> list_all (\<lambda>name. js_trim name \<noteq> []) (step_events s))"
  by (induction ss arbitrary: i) (auto simp: list_all_iff list_ex_iff)

lemma length_set_order: "length (set_order [] ks) = length ks \<longleftrightarrow> distinct ks"
proof -
  have "distinct (set_order [] ks)" by (rule distinct_set_order)
  then have "length (set_order [] ks) = card (set ks)" using distinct_card by fastforce
  then show ?thesis using card_distinct [of ks] distinct_card [of ks] by metis
qed

lemma grouping_defects_ok:
  "grouping_defects a = [] \<longleftrightarrow>
     groups_ok (grouped_fields a) \<and>
     (\<forall>m by d l. a = BreakdownOf m by d l \<longrightarrow>
        1 \<le> length (breakdown_fields by) \<and> length (breakdown_fields by) \<le> 3)"
proof -
  have inj: "inj_on field_to_key S" for S by (rule inj_onI) (simp only: field_to_key_inj)
  have "length (set_order [] (map field_to_key fs)) = length fs \<longleftrightarrow> distinct fs" for fs
    using length_set_order [of "map field_to_key fs"] by (simp add: distinct_map inj)
  then show ?thesis
    by (cases a)
      (auto simp: grouping_defects_def Let_def groups_ok_def MAX_BREAKDOWN_FIELDS_def
        filter_empty_conv list_all_iff Suc_le_eq)
qed

lemma defects_ok: "analysis_defects a = [] \<longleftrightarrow> question_ok a"
proof (cases a)
  case (FunnelOf f)
  show ?thesis
    unfolding FunnelOf
    by (auto simp: analysis_defects_def funnel_defects_def Let_def step_defects_ok where_defects_ok
        window_defects_ok conversion_is_positive_def MIN_FUNNEL_STEPS_def MAX_FUNNEL_STEPS_def
        step_ok_def list_all_iff not_less)
next
  case (SeriesOf m g gr l)
  show ?thesis
    unfolding SeriesOf
    by (cases l; cases gr)
      (auto simp: analysis_defects_def measure_defects_ok where_defects_ok window_defects_ok
        grouping_defects_ok metric_ok_def limit_in_def MAX_SERIES_GROUPS_def groups_ok_def)
next
  case (BreakdownOf m gr d l)
  show ?thesis
    unfolding BreakdownOf
    by (auto simp: analysis_defects_def measure_defects_ok where_defects_ok window_defects_ok
        grouping_defects_ok metric_ok_def limit_in_def MAX_BREAKDOWN_LIMIT_def)
qed (auto simp: analysis_defects_def measure_defects_ok where_defects_ok window_defects_ok
    grouping_defects_ok metric_ok_def groups_ok_def)

lemma validate_ok:
  "analysis_validate a = Inr b \<longleftrightarrow> b = a \<and> question_ok a \<and> maximum_span (analysis_window a) \<le> MAX_WINDOW"
  using defects_ok [of a] by (auto simp: analysis_validate_def Let_def ok_def err_def)

lemma check_fields_None:
  "check_fields cat fs = None \<longleftrightarrow>
     (\<forall>k. Prop k \<in> set fs \<longrightarrow> \<not> prefix ''$'' k) \<and> (\<forall>k. Dim k \<in> set fs \<longrightarrow> catalog_status cat k \<noteq> DimUnknown)"
  by (induction cat fs rule: check_fields.induct) auto

lemma check_fields_Some:
  "check_fields cat fs = Some e \<Longrightarrow>
     (\<exists>k d. e = InvalidAnalysis d \<and> Prop k \<in> set fs \<and> prefix ''$'' k) \<or>
     (\<exists>k. e = UnknownDimension k \<and> Dim k \<in> set fs \<and> catalog_status cat k = DimUnknown)"
  by (induction cat fs rule: check_fields.induct) (auto split: if_splits)

text \<open>An indexed answer: its filters name distinct dimensions, and so merging them into a fresh object keeps them.\<close>

lemma assign_fresh:
  "distinct (map fst (fs @ gs)) \<Longrightarrow> assign_filters fs gs = fs @ gs"
proof (induction gs arbitrary: fs)
  case (Cons g gs)
  obtain k v where g: "g = (k, v)" by fastforce
  have "map_of fs k = None" using Cons.prems g by (auto simp: map_of_eq_None_iff)
  then show ?case using Cons g by simp
qed simp

lemma classified_distinct:
  assumes "\<And>l. l \<in> set ls \<Longrightarrow> \<not> is_conjunction l" "''__proto__'' \<notin> set (cat_indexed cat)"
    and "served_conjunction cat ls"
  shows "distinct (map fst (cl_filters (classify_all cat ls)))"
  using assms(1,3)
proof (induction ls rule: rev_induct)
  case (snoc l ls)
  have ls: "served_conjunction cat ls" and l: "leaf_served cat l" "leaf_key l \<notin> leaf_key ` set ls"
    using snoc.prems(2) by (auto simp: served_conjunction_def)
  have tr: "tracks (classify_all cat ls) (leaf_key ` set ls)"
    using classify_all_clean [OF _ assms(2)] snoc.prems(1) ls by auto
  have ih: "distinct (map fst (cl_filters (classify_all cat ls)))" using snoc.IH snoc.prems(1) ls by auto
  show ?case
    using classify_served [OF l tr]
  proof (elim disjE exE conjE)
    fix f v
    assume eq: "leaf_key l = field_key f" "field_key f \<noteq> EVENT_TYPE"
      "classify_leaf cat l (classify_all cat ls) =
         (classify_all cat ls)\<lparr>cl_filters := set_filter (field_key f) v (cl_filters (classify_all cat ls))\<rparr>"
    have "map_of (cl_filters (classify_all cat ls)) (field_key f) = None"
      using tr l(2) eq(1,2) by (auto simp: tracks_def)
    then show ?thesis using ih eq(3) by (auto simp: classify_all_snoc set_filter_def map_of_eq_None_iff)
  qed (use ih in \<open>simp_all add: classify_all_snoc\<close>)
qed (simp add: classify_all_def)

lemma worst_indexed:
  assumes "worst xs = Indexed plan q" "y \<in> set xs"
  shows "is_indexed y \<or> y = Scan [] \<or> y = Unanswerable []"
proof -
  have "concat (map (\<lambda>p. case p of Unanswerable rs \<Rightarrow> rs | _ \<Rightarrow> []) xs) = []"
    "concat (map (\<lambda>p. case p of Scan rs \<Rightarrow> rs | _ \<Rightarrow> []) xs) = []"
    using assms(1) unfolding worst_def Let_def by (simp_all split: if_splits)
  then show ?thesis using assms(2) by (cases y) auto
qed

lemma classify_not_empty:
  "classify_predicate cat p \<noteq> Scan [] \<and> classify_predicate cat p \<noteq> Unanswerable []"
  by (auto simp: classify_predicate_def Let_def split: option.split)

lemma group_available:
  assumes "group_availability cat f = []"
  shows "\<exists>k. f = Dim k \<and> k \<in> set (cat_indexed cat)"
proof (cases f)
  case (Dim k)
  with assms show ?thesis
    by (cases "catalog_status cat k")
      (auto simp: group_availability_def Let_def catalog_status_def split: if_splits)
qed (use assms in \<open>simp add: group_availability_def Let_def split: if_splits\<close>)

lemma groups_served:
  assumes "worst (x # concat (map (group_availability cat) fs)) = Indexed plan q" "f \<in> set fs"
  shows "group_availability cat f = []"
proof (rule ccontr)
  assume "group_availability cat f \<noteq> []"
  then obtain y where y: "y \<in> set (group_availability cat f)" by (cases "group_availability cat f") auto
  then have "is_indexed y \<or> y = Scan [] \<or> y = Unanswerable []"
    using worst_indexed [OF assms(1), of y] assms(2) by auto
  with y show False by (auto simp: group_availability_def Let_def split: if_splits)
qed

lemma plan_means:
  assumes dims: "\<forall>k \<in> set (cat_indexed cat). is_dimension_name k"
    and "classify_predicate cat w = Indexed plan q"
  shows "worst [Indexed plan q] = Indexed plan q \<and>
    (event_holds e (plan_event plan) \<and> filters_hold e (plan_filters plan) \<longleftrightarrow>
       (case w of None \<Rightarrow> True | Some p \<Rightarrow> matches e p))"
proof (cases w)
  case None
  then have "plan = \<lparr> plan_event = None, plan_filters = [] \<rparr>" "q = 1"
    using assms(2) by (simp_all add: classify_predicate_def)
  then show ?thesis
    using None by (simp add: worst_def event_holds_def filters_hold_def List.map_filter_def)
next
  case (Some p)
  let ?ls = "predicate_conjuncts p"
  have leaves: "\<And>l. l \<in> set ?ls \<Longrightarrow> \<not> is_conjunction l" by (rule conjuncts_flat)
  have "\<not> is_dimension_name ''__proto__''" by code_simp
  then have proto: "''__proto__'' \<notin> set (cat_indexed cat)" using dims by blast
  have plan: "plan = \<lparr> plan_event = cl_event (classify_all cat ?ls), plan_filters = cl_filters (classify_all cat ?ls) \<rparr>"
    "q = 1" "clean (classify_all cat ?ls)"
    using assms(2) unfolding Some classify_predicate_all Let_def clean_def by (auto split: if_splits)
  then have served: "served_conjunction cat ?ls" using classify_all_clean [OF leaves proto] by blast
  have "assign_filters [] (plan_filters plan) = plan_filters plan"
    using assign_fresh [of "[]"] classified_distinct [OF leaves proto served] plan(1) by simp
  then have "worst [Indexed plan q] = Indexed plan q"
    using plan(2) by (simp add: worst_def List.map_filter_def)
  moreover have "event_holds e (plan_event plan) \<and> filters_hold e (plan_filters plan) \<longleftrightarrow> matches e p"
    using classify_all_meaning [OF leaves dims served, of e] matches_conjuncts [of e p] plan(1) by simp
  ultimately show ?thesis using Some by simp
qed

section \<open>Properties\<close>

text \<open>
  A question passes its check exactly when it is well formed (every group and set of its
  filters has members, at any depth; limits, step counts and amounts lie in range; nothing it
  names is blank), covers at most two years, reads only fields the project's schema knows and no
  reserved metadata, and sums only a declared measure. A refusal names the first of these that
  failed.
\<close>

theorem check_is_exact:
  "case analysis_check a schema of
     Inr b \<Rightarrow>
       b = a \<and> question_ok a \<and> maximum_span (analysis_window a) \<le> MAX_WINDOW \<and>
       (\<forall>k. Dim k \<in> all_refs a \<longrightarrow> catalog_status (schema_dimensions schema) k \<noteq> DimUnknown) \<and>
       (\<forall>k. Prop k \<in> all_refs a \<longrightarrow> \<not> prefix ''$'' k) \<and>
       (\<forall>m name. metric_of a = Some m \<and> met_measure m = SumOf name \<longrightarrow> name \<in> set (schema_measures schema))
   | Inl (InvalidAnalysis d) \<Rightarrow> \<not> question_ok a \<or> (\<exists>k. Prop k \<in> all_refs a \<and> prefix ''$'' k)
   | Inl (WindowTooLarge m) \<Rightarrow> question_ok a \<and> m = MAX_WINDOW \<and> MAX_WINDOW < maximum_span (analysis_window a)
   | Inl (UnknownDimension k) \<Rightarrow>
       question_ok a \<and> Dim k \<in> all_refs a \<and> catalog_status (schema_dimensions schema) k = DimUnknown
   | Inl (UnknownMeasure name) \<Rightarrow>
       question_ok a \<and> name \<notin> set (schema_measures schema) \<and>
       (\<exists>m. metric_of a = Some m \<and> met_measure m = SumOf name)"
proof (cases "analysis_validate a")
  case (Inl e)
  then show ?thesis
    using defects_ok [of a] by (auto simp: analysis_check_def analysis_validate_def Let_def err_def ok_def split: if_splits)
next
  case (Inr b)
  then have v: "question_ok a" "maximum_span (analysis_window a) \<le> MAX_WINDOW" using validate_ok [of a b] by simp_all
  let ?c = "check_fields (schema_dimensions schema) (analysis_fields a)"
  show ?thesis
  proof (cases ?c)
    case (Some e)
    then show ?thesis
      using check_fields_Some [OF Some] v Inr
      unfolding analysis_check_def analysis_fields_set by (auto simp: err_def)
  next
    case None
    have f: "(\<forall>k. Dim k \<in> all_refs a \<longrightarrow> catalog_status (schema_dimensions schema) k \<noteq> DimUnknown) \<and>
        (\<forall>k. Prop k \<in> all_refs a \<longrightarrow> \<not> prefix ''$'' k)"
      using None unfolding check_fields_None analysis_fields_set by blast
    have reads: "reads_measure x = Some name \<longleftrightarrow> x = SumOf name" for x name by (cases x) simp_all
    show ?thesis
    proof (cases "Option.bind (metric_of a) (\<lambda>m. reads_measure (met_measure m))")
      case (Some name)
      then obtain m where "metric_of a = Some m" "met_measure m = SumOf name"
        by (auto simp: bind_eq_Some_conv reads)
      then show ?thesis using v f Inr None Some by (simp add: analysis_check_def err_def ok_def)
    next
      case N: None
      then have "\<forall>m name. metric_of a = Some m \<and> met_measure m = SumOf name \<longrightarrow> name \<in> set (schema_measures schema)"
        by auto
      then show ?thesis using v f Inr None N by (simp add: analysis_check_def ok_def)
    qed
  qed
qed

theorem check_is_exact_witness:
  "let a = SeriesOf \<lparr> met_measure = SumOf ''revenue'',
             met_where = Some (PAnd [PEq (Dim ''os_name'') (SStr ''ios''), PNot (PExists (Prop ''vip''))]),
             met_window = Relative 30 UDay \<rparr> GDay (Some (Dim ''country'')) (Some 3)
   in analysis_check a \<lparr> schema_dimensions = DEFAULT_CATALOG, schema_measures = [] \<rparr> =
        Inl (UnknownMeasure ''revenue'') \<and> question_ok a"
proof -
  let ?a = "SeriesOf \<lparr> met_measure = SumOf ''revenue'',
             met_where = Some (PAnd [PEq (Dim ''os_name'') (SStr ''ios''), PNot (PExists (Prop ''vip''))]),
             met_window = Relative 30 UDay \<rparr> GDay (Some (Dim ''country'')) (Some 3)"
  let ?s = "\<lparr> schema_dimensions = DEFAULT_CATALOG, schema_measures = [] \<rparr>"
  have c: "analysis_check ?a ?s = Inl (UnknownMeasure ''revenue'')" by code_simp
  have "question_ok ?a" using check_is_exact [of ?a ?s] unfolding c by simp
  with c show ?thesis by (simp add: Let_def)
qed



end
