(* ===== verification/AnalysisCodecs.thy ===== *)
theory AnalysisCodecs
  imports Analysis
begin

text \<open>
  A question as stored and as sent: apps/worker/src/analysis-codec.ts reads a stored question
  back from JSON, apps/api/src/analysis/wire.ts translates between the domain's questions and the
  wire's, whose windows are ISO-8601 strings and whose dimension names are open. A domain value
  as JSON is the object literal the code builds for it, absent members left out.
\<close>

section \<open>The stored form\<close>

fun field_json :: "field_ref \<Rightarrow> json" where
  "field_json (Dim k) = JObj [(''source'', JStr ''dimension''), (''key'', JStr k)]"
| "field_json (Prop k) = JObj [(''source'', JStr ''property''), (''key'', JStr k)]"

definition leaf_json :: "string \<Rightarrow> field_ref \<Rightarrow> (string \<times> json) list \<Rightarrow> json" where
  "leaf_json op f rest = JObj ([(''op'', JStr op), (''field'', field_json f)] @ rest)"

fun predicate_json :: "predicate \<Rightarrow> json" where
  "predicate_json (PAnd ps) = JObj [(''op'', JStr ''and''), (''operands'', JArr (map predicate_json ps))]"
| "predicate_json (POr ps) = JObj [(''op'', JStr ''or''), (''operands'', JArr (map predicate_json ps))]"
| "predicate_json (PNot p) = JObj [(''op'', JStr ''not''), (''operand'', predicate_json p)]"
| "predicate_json (PEq f v) = leaf_json ''eq'' f [(''value'', scalar_json v)]"
| "predicate_json (PNeq f v) = leaf_json ''neq'' f [(''value'', scalar_json v)]"
| "predicate_json (PIn f vs) = leaf_json ''in'' f [(''values'', JArr (map scalar_json vs))]"
| "predicate_json (PNotIn f vs) = leaf_json ''notIn'' f [(''values'', JArr (map scalar_json vs))]"
| "predicate_json (PContains f s) = leaf_json ''contains'' f [(''value'', JStr s)]"
| "predicate_json (PStartsWith f s) = leaf_json ''startsWith'' f [(''value'', JStr s)]"
| "predicate_json (PEndsWith f s) = leaf_json ''endsWith'' f [(''value'', JStr s)]"
| "predicate_json (PGt f n) = leaf_json ''gt'' f [(''value'', JNum n)]"
| "predicate_json (PGte f n) = leaf_json ''gte'' f [(''value'', JNum n)]"
| "predicate_json (PLt f n) = leaf_json ''lt'' f [(''value'', JNum n)]"
| "predicate_json (PLte f n) = leaf_json ''lte'' f [(''value'', JNum n)]"
| "predicate_json (PExists f) = leaf_json ''exists'' f []"
| "predicate_json (PNotExists f) = leaf_json ''notExists'' f []"

fun window_json :: "window \<Rightarrow> json" where
  "window_json (Relative amount u) =
     JObj [(''kind'', JStr ''relative''), (''amount'', JNum amount), (''unit'', JStr (unit_name u))]"
| "window_json (Absolute since till) =
     JObj [(''kind'', JStr ''absolute''), (''from'', JNum since), (''to'', JNum till)]"

fun measure_json :: "measure \<Rightarrow> json" where
  "measure_json CountEvents = JObj [(''kind'', JStr ''count'')]"
| "measure_json (Unique basis) = JObj [(''kind'', JStr ''unique''), (''basis'', JStr (basis_name basis))]"
| "measure_json (SumOf name) = JObj [(''kind'', JStr ''sum''), (''name'', JStr name)]"

definition present :: "string \<Rightarrow> ('v \<Rightarrow> json) \<Rightarrow> 'v option \<Rightarrow> (string \<times> json) list" where
  "present k enc v = (case v of None \<Rightarrow> [] | Some x \<Rightarrow> [(k, enc x)])"

definition step_json :: "funnel_step \<Rightarrow> json" where
  "step_json s =
     JObj ([(''events'', JArr (map JStr (step_events s)))] @
       present ''where'' predicate_json (step_where s) @ present ''label'' JStr (step_label s))"

definition funnel_json :: "funnel \<Rightarrow> json" where
  "funnel_json f =
     JObj [(''steps'', JArr (map step_json (fun_steps f))), (''window'', window_json (fun_window f)),
       (''conversionWindow'', JObj [(''within'', JNum (conversion_millis (fun_conversion f)))]),
       (''basis'', JStr (basis_name (fun_basis f)))]"

definition metric_json :: "string \<Rightarrow> metric \<Rightarrow> (string \<times> json) list" where
  "metric_json shape m =
     [(''shape'', JStr shape), (''measure'', measure_json (met_measure m)),
      (''window'', window_json (met_window m))] @ present ''where'' predicate_json (met_where m)"

fun grouping_json :: "grouping \<Rightarrow> json" where
  "grouping_json (ByOne f) = field_json f"
| "grouping_json (ByMany fs) = JArr (map field_json fs)"

fun encode_analysis :: "analysis \<Rightarrow> json" where
  "encode_analysis (FunnelOf f) = JObj [(''shape'', JStr ''funnel''), (''funnel'', funnel_json f)]"
| "encode_analysis (ScalarOf m summary) =
     JObj (metric_json ''scalar'' m @ [(''summary'', JStr (summary_name summary))])"
| "encode_analysis (SeriesOf m g by l) =
     JObj (metric_json ''series'' m @ [(''grain'', JStr (grain_name g))] @
       present ''by'' field_json by @ present ''limit'' JNum l)"
| "encode_analysis (BreakdownOf m by d l) =
     JObj (metric_json ''breakdown'' m @
       [(''by'', grouping_json by), (''order'', JStr (direction_name d)), (''limit'', JNum l)])"

section \<open>Reading it back\<close>

definition is_object :: "json \<Rightarrow> bool" where
  "is_object v = (case v of JObj _ \<Rightarrow> True | _ \<Rightarrow> False)"

definition codec_str :: "json \<Rightarrow> string option" where
  "codec_str v = (case v of JStr s \<Rightarrow> if length s > 0 then Some s else None | _ \<Rightarrow> None)"

definition codec_num :: "json \<Rightarrow> int option" where
  "codec_num v = (case v of JNum n \<Rightarrow> Some n | _ \<Rightarrow> None)"

definition one_of :: "json \<Rightarrow> (string \<times> 'v) list \<Rightarrow> 'v option" where
  "one_of v allowed = (case v of JStr s \<Rightarrow> map_of allowed s | _ \<Rightarrow> None)"

definition CODEC_GRAINS :: "(string \<times> grain) list" where
  "CODEC_GRAINS = [(''hour'', GHour), (''day'', GDay), (''week'', GWeek), (''month'', GMonth)]"

definition CODEC_UNITS :: "(string \<times> relative_unit) list" where
  "CODEC_UNITS = [(''hour'', UHour), (''day'', UDay), (''week'', UWeek), (''month'', UMonth)]"

definition CODEC_SUMMARIES :: "(string \<times> summary_stat) list" where
  "CODEC_SUMMARIES =
     [(''total'', Total), (''average'', Average), (''peak'', Peak), (''low'', Low), (''latest'', Latest)]"

definition CODEC_BASES :: "(string \<times> counting_basis) list" where
  "CODEC_BASES = [(''visit'', Visit), (''person'', Person)]"

definition CODEC_DIRECTIONS :: "(string \<times> sort_direction) list" where
  "CODEC_DIRECTIONS = [(''asc'', Asc), (''desc'', Desc)]"

definition codec_field :: "json \<Rightarrow> field_ref option" where
  "codec_field raw =
     (if \<not> is_object raw then None
      else
        (case codec_str (json_get raw ''key'') of
           None \<Rightarrow> None
         | Some key \<Rightarrow>
             if json_get raw ''source'' = JStr ''dimension''
             then (if is_dimension_name key then Some (Dim key) else None)
             else if json_get raw ''source'' = JStr ''property'' then Some (Prop key)
             else None))"

fun codec_scalar :: "json \<Rightarrow> scalar_value option" where
  "codec_scalar JNull = Some SNull"
| "codec_scalar (JStr s) = Some (SStr s)"
| "codec_scalar (JBool b) = Some (SBool b)"
| "codec_scalar (JNum n) = Some (SNum n)"
| "codec_scalar _ = None"

definition codec_leaf :: "json \<Rightarrow> field_ref \<Rightarrow> predicate option" where
  "codec_leaf raw f =
     (let op = json_get raw ''op''; value = json_get raw ''value'';
          scalar = codec_scalar value;
          scalars = (case json_get raw ''values'' of JArr vs \<Rightarrow> those (map codec_scalar vs) | _ \<Rightarrow> None);
          text = (case value of JStr s \<Rightarrow> Some s | _ \<Rightarrow> None);
          num = codec_num value
      in if op = JStr ''eq'' then map_option (PEq f) scalar
         else if op = JStr ''neq'' then map_option (PNeq f) scalar
         else if op = JStr ''in'' then map_option (PIn f) scalars
         else if op = JStr ''notIn'' then map_option (PNotIn f) scalars
         else if op = JStr ''contains'' then map_option (PContains f) text
         else if op = JStr ''startsWith'' then map_option (PStartsWith f) text
         else if op = JStr ''endsWith'' then map_option (PEndsWith f) text
         else if op = JStr ''gt'' then map_option (PGt f) num
         else if op = JStr ''gte'' then map_option (PGte f) num
         else if op = JStr ''lt'' then map_option (PLt f) num
         else if op = JStr ''lte'' then map_option (PLte f) num
         else if op = JStr ''exists'' then Some (PExists f)
         else if op = JStr ''notExists'' then Some (PNotExists f)
         else None)"

definition MAX_CODEC_DEPTH :: nat where
  "MAX_CODEC_DEPTH = 32"

function codec_predicate :: "nat \<Rightarrow> json \<Rightarrow> predicate option" where
  "codec_predicate depth raw =
     (if depth > MAX_CODEC_DEPTH \<or> \<not> is_object raw then None
      else
        (let op = json_get raw ''op''
         in if op = JStr ''and'' \<or> op = JStr ''or''
            then
              (case json_get raw ''operands'' of
                 JArr operands \<Rightarrow>
                   (case those (map (codec_predicate (Suc depth)) operands) of
                      None \<Rightarrow> None
                    | Some parsed \<Rightarrow> Some (if op = JStr ''and'' then PAnd parsed else POr parsed))
               | _ \<Rightarrow> None)
            else if op = JStr ''not''
            then map_option PNot (codec_predicate (Suc depth) (json_get raw ''operand''))
            else
              (case codec_field (json_get raw ''field'') of
                 None \<Rightarrow> None
               | Some f \<Rightarrow> codec_leaf raw f)))"
  by pat_completeness auto

termination
  by (relation "measure (\<lambda>(depth, raw). Suc MAX_CODEC_DEPTH - depth)") auto

declare codec_predicate.simps [simp del]

definition codec_window :: "json \<Rightarrow> window option" where
  "codec_window raw =
     (if \<not> is_object raw then None
      else if json_get raw ''kind'' = JStr ''relative'' then
        (case (codec_num (json_get raw ''amount''), one_of (json_get raw ''unit'') CODEC_UNITS) of
           (Some amount, Some u) \<Rightarrow> Some (Relative amount u)
         | _ \<Rightarrow> None)
      else if json_get raw ''kind'' = JStr ''absolute'' then
        (case (codec_num (json_get raw ''from''), codec_num (json_get raw ''to'')) of
           (Some since, Some till) \<Rightarrow> Some (Absolute since till)
         | _ \<Rightarrow> None)
      else None)"

definition codec_measure :: "json \<Rightarrow> measure option" where
  "codec_measure raw =
     (if \<not> is_object raw then None
      else if json_get raw ''kind'' = JStr ''count'' then Some CountEvents
      else if json_get raw ''kind'' = JStr ''unique''
      then map_option Unique (one_of (json_get raw ''basis'') CODEC_BASES)
      else if json_get raw ''kind'' = JStr ''sum''
      then map_option SumOf (codec_str (json_get raw ''name''))
      else None)"

text \<open>An optional member: absent is fine, present has to parse.\<close>

definition optional_member :: "(json \<Rightarrow> 'v option) \<Rightarrow> json \<Rightarrow> 'v option option" where
  "optional_member parse v = (if v = JUndefined then Some None else map_option Some (parse v))"

definition codec_step :: "json \<Rightarrow> funnel_step option" where
  "codec_step raw =
     (case json_get raw ''events'' of
        JArr events \<Rightarrow>
          if \<not> is_object raw \<or> length events = 0 then None
          else
            (case (those (map codec_str events),
                   optional_member codec_str (json_get raw ''label''),
                   optional_member (codec_predicate 0) (json_get raw ''where'')) of
               (Some names, Some label, Some w) \<Rightarrow>
                 Some \<lparr> step_label = label, step_events = names, step_where = w \<rparr>
             | _ \<Rightarrow> None)
      | _ \<Rightarrow> None)"

definition codec_funnel :: "json \<Rightarrow> funnel option" where
  "codec_funnel raw =
     (case json_get raw ''steps'' of
        JArr steps \<Rightarrow>
          (let nested = (if is_object (json_get raw ''conversionWindow'')
                         then json_get (json_get raw ''conversionWindow'') ''within'' else JUndefined);
               millis = (case codec_num nested of
                           Some n \<Rightarrow> Some n
                         | None \<Rightarrow> codec_num (json_get raw ''conversionWindowMs''))
           in case (those (map codec_step steps), codec_window (json_get raw ''window''),
                    one_of (json_get raw ''basis'') CODEC_BASES, millis) of
                (Some parsed, Some w, Some basis, Some n) \<Rightarrow>
                  Some \<lparr> fun_steps = parsed, fun_window = w, fun_conversion = Within n, fun_basis = basis \<rparr>
              | _ \<Rightarrow> None)
      | _ \<Rightarrow> None)"

definition codec_metric :: "json \<Rightarrow> metric option" where
  "codec_metric raw =
     (let w = json_get raw ''where''
      in case (codec_measure (json_get raw ''measure''), codec_window (json_get raw ''window''),
               optional_member (codec_predicate 0) (if w = JNull then JUndefined else w)) of
           (Some m, Some win, Some p) \<Rightarrow> Some \<lparr> met_measure = m, met_where = p, met_window = win \<rparr>
         | _ \<Rightarrow> None)"

definition parse_analysis :: "json \<Rightarrow> analysis option" where
  "parse_analysis raw =
     (if \<not> is_object raw then None
      else if json_get raw ''shape'' = JStr ''funnel''
      then map_option FunnelOf (codec_funnel (json_get raw ''funnel''))
      else
        (case codec_metric raw of
           None \<Rightarrow> None
         | Some m \<Rightarrow>
             if json_get raw ''shape'' = JStr ''scalar''
             then map_option (ScalarOf m) (one_of (json_get raw ''summary'') CODEC_SUMMARIES)
             else if json_get raw ''shape'' = JStr ''series''
             then map_option (\<lambda>g. SeriesOf m g None None) (one_of (json_get raw ''grain'') CODEC_GRAINS)
             else if json_get raw ''shape'' = JStr ''breakdown''
             then
               (case (codec_field (json_get raw ''by''), one_of (json_get raw ''order'') CODEC_DIRECTIONS,
                      codec_num (json_get raw ''limit'')) of
                  (Some by, Some d, Some l) \<Rightarrow>
                    if l \<le> 0 \<or> l > MAX_BREAKDOWN_LIMIT then None
                    else Some (BreakdownOf m (ByOne by) d l)
                | _ \<Rightarrow> None)
             else None))"

datatype unreadable = UnreadableAnalysis

definition decode_analysis :: "json \<Rightarrow> unreadable + analysis" where
  "decode_analysis raw = (case parse_analysis raw of None \<Rightarrow> err UnreadableAnalysis | Some a \<Rightarrow> ok a)"

section \<open>Facts\<close>

lemmas member_simps = json_get_def is_object_def codec_str_def codec_num_def one_of_def present_def

fun field_readable :: "field_ref \<Rightarrow> bool" where
  "field_readable (Dim k) = is_dimension_name k"
| "field_readable (Prop k) = (k \<noteq> [])"

fun predicate_depth :: "predicate \<Rightarrow> nat" where
  "predicate_depth (PAnd ps) = foldr (\<lambda>p n. max (Suc (predicate_depth p)) n) ps 0"
| "predicate_depth (POr ps) = foldr (\<lambda>p n. max (Suc (predicate_depth p)) n) ps 0"
| "predicate_depth (PNot p) = Suc (predicate_depth p)"
| "predicate_depth _ = 0"

definition predicate_readable :: "nat \<Rightarrow> predicate \<Rightarrow> bool" where
  "predicate_readable depth p \<longleftrightarrow>
     depth + predicate_depth p \<le> MAX_CODEC_DEPTH \<and> list_all field_readable (predicate_fields p)"

lemma those_map:
  assumes "\<And>x. x \<in> set xs \<Longrightarrow> f x = (if P x then Some (g x) else None)"
  shows "those (map f xs) = (if list_all P xs then Some (map g xs) else None)"
  using assms by (induction xs) simp_all

lemma those_map_all:
  assumes "\<And>x. x \<in> set xs \<Longrightarrow> f x = Some (g x)"
  shows "those (map f xs) = Some (map g xs)"
  using assms by (induction xs) simp_all

lemma codec_field_json: "codec_field (field_json f) = (if field_readable f then Some f else None)"
proof (cases f)
  case (Dim k)
  have "\<not> is_dimension_name []" by code_simp
  then show ?thesis using Dim by (cases k) (simp_all add: codec_field_def member_simps)
next
  case (Prop k)
  then show ?thesis by (cases k) (simp_all add: codec_field_def member_simps)
qed

lemma codec_scalar_json [simp]: "codec_scalar (scalar_json v) = Some v"
  by (cases v) simp_all

lemma codec_leaf_json:
  assumes "op \<notin> {''and'', ''or'', ''not''}"
    and "\<And>g. codec_leaf (leaf_json op f rest) f = Some p"
  shows "codec_predicate depth (leaf_json op f rest) =
           (if depth \<le> MAX_CODEC_DEPTH \<and> field_readable f then Some p else None)"
proof -
  have "json_get (leaf_json op f rest) ''op'' = JStr op" "is_object (leaf_json op f rest)"
    "json_get (leaf_json op f rest) ''field'' = field_json f"
    by (simp_all add: leaf_json_def member_simps)
  then show ?thesis
    using assms by (simp add: codec_predicate.simps Let_def codec_field_json)
qed

lemma leaf_members [simp]:
  "json_get (leaf_json op f rest) ''op'' = JStr op"
  "json_get (leaf_json op f [(''value'', v)]) ''value'' = v"
  "json_get (leaf_json op f [(''values'', v)]) ''values'' = v"
  by (simp_all add: leaf_json_def member_simps)

lemma those_scalars [simp]: "those (map (codec_scalar \<circ> scalar_json) vs) = Some vs"
  using those_map_all [of vs "codec_scalar \<circ> scalar_json" id] by simp

lemma depth_group:
  "depth + foldr (\<lambda>p n. max (Suc (predicate_depth p)) n) ps 0 \<le> m \<longleftrightarrow>
     depth \<le> m \<and> list_all (\<lambda>p. Suc depth + predicate_depth p \<le> m) ps"
  by (induction ps) auto

lemma group_readable:
  assumes "\<And>q d. q \<in> set ps \<Longrightarrow> codec_predicate d (predicate_json q) = (if predicate_readable d q then Some q else None)"
  shows "those (map (codec_predicate (Suc depth) \<circ> predicate_json) ps) =
           (if list_all (predicate_readable (Suc depth)) ps then Some ps else None)"
  using those_map [of ps "codec_predicate (Suc depth) \<circ> predicate_json" "predicate_readable (Suc depth)" id]
    assms by simp

lemma readable_group:
  "predicate_readable depth (PAnd ps) \<longleftrightarrow> depth \<le> MAX_CODEC_DEPTH \<and> list_all (predicate_readable (Suc depth)) ps"
  "predicate_readable depth (POr ps) \<longleftrightarrow> depth \<le> MAX_CODEC_DEPTH \<and> list_all (predicate_readable (Suc depth)) ps"
  by (auto simp: predicate_readable_def depth_group list_all_iff)

lemma codec_predicate_json:
  "codec_predicate depth (predicate_json p) = (if predicate_readable depth p then Some p else None)"
proof (induction p arbitrary: depth)
  case (PAnd ps)
  show ?case
    using group_readable [of ps depth, OF PAnd] unfolding readable_group
    by (subst codec_predicate.simps) (simp add: member_simps Let_def)
next
  case (POr ps)
  show ?case
    using group_readable [of ps depth, OF POr] unfolding readable_group
    by (subst codec_predicate.simps) (simp add: member_simps Let_def)
next
  case (PNot p)
  have "predicate_readable depth (PNot p) \<longleftrightarrow> depth \<le> MAX_CODEC_DEPTH \<and> predicate_readable (Suc depth) p"
    by (auto simp: predicate_readable_def)
  then show ?case
    using PNot.IH [of "Suc depth"] by (subst codec_predicate.simps) (simp add: member_simps Let_def)
qed (simp_all add: predicate_readable_def codec_leaf_json codec_leaf_def Let_def codec_num_def)

lemma codec_window_json [simp]: "codec_window (window_json w) = Some w"
proof (cases w)
  case (Relative n u)
  then show ?thesis by (cases u) (simp_all add: codec_window_def member_simps CODEC_UNITS_def)
qed (simp add: codec_window_def member_simps)

lemma codec_basis [simp]: "one_of (JStr (basis_name b)) CODEC_BASES = Some b"
  by (cases b) (simp_all add: one_of_def CODEC_BASES_def)

lemma codec_grain [simp]: "one_of (JStr (grain_name g)) CODEC_GRAINS = Some g"
  by (cases g) (simp_all add: one_of_def CODEC_GRAINS_def)

lemma codec_summary [simp]: "one_of (JStr (summary_name s)) CODEC_SUMMARIES = Some s"
  by (cases s) (simp_all add: one_of_def CODEC_SUMMARIES_def)

lemma codec_direction [simp]: "one_of (JStr (direction_name d)) CODEC_DIRECTIONS = Some d"
  by (cases d) (simp_all add: one_of_def CODEC_DIRECTIONS_def)

fun measure_readable :: "measure \<Rightarrow> bool" where
  "measure_readable (SumOf name) = (name \<noteq> [])"
| "measure_readable _ = True"

lemma codec_measure_json: "codec_measure (measure_json m) = (if measure_readable m then Some m else None)"
proof (cases m)
  case (Unique b)
  have "json_get (measure_json (Unique b)) ''basis'' = JStr (basis_name b)" by (simp add: member_simps)
  then show ?thesis using Unique by (simp add: codec_measure_def is_object_def json_get_def)
qed (simp_all add: codec_measure_def member_simps)

fun where_readable :: "predicate option \<Rightarrow> bool" where
  "where_readable None = True"
| "where_readable (Some p) = predicate_readable 0 p"

definition step_readable :: "funnel_step \<Rightarrow> bool" where
  "step_readable s \<longleftrightarrow>
     step_events s \<noteq> [] \<and> list_all (\<lambda>n. n \<noteq> []) (step_events s) \<and> step_label s \<noteq> Some [] \<and>
     where_readable (step_where s)"

definition metric_readable :: "metric \<Rightarrow> bool" where
  "metric_readable m \<longleftrightarrow> measure_readable (met_measure m) \<and> where_readable (met_where m)"

fun analysis_readable :: "analysis \<Rightarrow> bool" where
  "analysis_readable (ScalarOf m _) = metric_readable m"
| "analysis_readable (SeriesOf m _ _ _) = metric_readable m"
| "analysis_readable (BreakdownOf m (ByOne f) _ l) =
     (metric_readable m \<and> field_readable f \<and> 1 \<le> l \<and> l \<le> MAX_BREAKDOWN_LIMIT)"
| "analysis_readable (BreakdownOf m (ByMany _) _ _) = False"
| "analysis_readable (FunnelOf f) = list_all step_readable (fun_steps f)"

fun stored_form :: "analysis \<Rightarrow> analysis" where
  "stored_form (SeriesOf m g _ _) = SeriesOf m g None None"
| "stored_form a = a"

lemma predicate_json_object: "is_object (predicate_json p)"
  by (cases p) (simp_all add: is_object_def leaf_json_def)

lemma predicate_json_present [simp]: "predicate_json p \<noteq> JUndefined" "predicate_json p \<noteq> JNull"
  using predicate_json_object [of p] by (auto simp: is_object_def)

lemma optional_where:
  "optional_member (codec_predicate 0)
     (case map_of (present ''where'' predicate_json w) ''where'' of None \<Rightarrow> JUndefined | Some x \<Rightarrow> x) =
   (if where_readable w then Some w else None)"
  by (cases w) (simp_all add: present_def optional_member_def codec_predicate_json)

lemma codec_step_json: "codec_step (step_json s) = (if step_readable s then Some s else None)"
proof -
  have g: "json_get (step_json s) ''events'' = JArr (map JStr (step_events s))"
    "is_object (step_json s)"
    by (simp_all add: step_json_def member_simps)
  have w: "optional_member (codec_predicate 0) (json_get (step_json s) ''where'') =
      (if where_readable (step_where s) then Some (step_where s) else None)"
    by (cases "step_where s"; cases "step_label s")
      (simp_all add: step_json_def member_simps optional_member_def codec_predicate_json)
  have l: "optional_member codec_str (json_get (step_json s) ''label'') =
      (if step_label s = Some [] then None else Some (step_label s))"
    by (cases "step_where s"; cases "step_label s")
      (simp_all add: step_json_def member_simps optional_member_def)
  have n: "those (map (codec_str \<circ> JStr) (step_events s)) =
      (if list_all (\<lambda>n. n \<noteq> []) (step_events s) then Some (step_events s) else None)"
    using those_map [of "step_events s" "codec_str \<circ> JStr" "\<lambda>n. n \<noteq> []" id] by (simp add: codec_str_def)
  show ?thesis
    unfolding codec_step_def g(1) json.case w l using g(2) n by (simp add: step_readable_def)
qed

lemma codec_funnel_json:
  "codec_funnel (funnel_json f) = (if list_all step_readable (fun_steps f) then Some f else None)"
proof -
  have n: "those (map (codec_step \<circ> step_json) (fun_steps f)) =
      (if list_all step_readable (fun_steps f) then Some (fun_steps f) else None)"
    using those_map [of "fun_steps f" "codec_step \<circ> step_json" step_readable id] codec_step_json by simp
  have g: "json_get (funnel_json f) ''steps'' = JArr (map step_json (fun_steps f))"
    "json_get (funnel_json f) ''window'' = window_json (fun_window f)"
    "json_get (funnel_json f) ''basis'' = JStr (basis_name (fun_basis f))"
    "json_get (funnel_json f) ''conversionWindow'' = JObj [(''within'', JNum (conversion_millis (fun_conversion f)))]"
    by (simp_all add: funnel_json_def json_get_def)
  have c: "Within (conversion_millis c) = c" for c by (cases c) simp
  show ?thesis
    unfolding codec_funnel_def g json.case Let_def
    using n by (simp add: is_object_def codec_num_def json_get_def c)
qed

lemma codec_metric_json:
  assumes "rest = [] \<or> fst (hd rest) \<noteq> ''where''" "map_of rest ''where'' = None"
  shows "codec_metric (JObj (metric_json shape m @ rest)) = (if metric_readable m then Some m else None)"
proof -
  let ?j = "JObj (metric_json shape m @ rest)"
  have g: "json_get ?j ''measure'' = measure_json (met_measure m)" "json_get ?j ''window'' = window_json (met_window m)"
    by (simp_all add: metric_json_def json_get_def)
  have w: "optional_member (codec_predicate 0)
      (if json_get ?j ''where'' = JNull then JUndefined else json_get ?j ''where'') =
      (if where_readable (met_where m) then Some (met_where m) else None)"
    using assms(2)
    by (cases "met_where m") (simp_all add: metric_json_def member_simps optional_member_def codec_predicate_json)
  show ?thesis
    unfolding codec_metric_def Let_def g w by (simp add: codec_measure_json metric_readable_def)
qed

lemma codec_shape:
  "json_get (JObj (metric_json shape m @ rest)) ''shape'' = JStr shape"
  "is_object (JObj kvs)"
  by (simp_all add: metric_json_def json_get_def is_object_def)

lemma codec_rest:
  assumes "k \<notin> {''shape'', ''measure'', ''window'', ''where''}"
  shows "json_get (JObj (metric_json shape m @ rest)) k = json_get (JObj rest) k"
  using assms by (simp add: metric_json_def json_get_def present_def map_add_def split: option.split)

lemma parse_encoded:
  "parse_analysis (encode_analysis a) = (if analysis_readable a then Some (stored_form a) else None)"
proof (cases a)
  case (FunnelOf f)
  then show ?thesis by (simp add: parse_analysis_def is_object_def json_get_def codec_funnel_json)
next
  case (ScalarOf m s)
  then show ?thesis
    by (simp add: parse_analysis_def codec_shape codec_metric_json codec_rest)
      (simp add: json_get_def)
next
  case (SeriesOf m g gr l)
  have "map_of ([(''grain'', JStr (grain_name g))] @ present ''by'' field_json gr @ present ''limit'' JNum l) ''where'' = None"
    by (cases gr; cases l) (simp_all add: present_def)
  then show ?thesis
    unfolding SeriesOf
    by (simp add: parse_analysis_def codec_shape codec_metric_json codec_rest) (simp add: json_get_def)
next
  case (BreakdownOf m gr d l)
  show ?thesis
  proof (cases gr)
    case (ByOne f)
    then show ?thesis
      unfolding BreakdownOf
      by (simp add: parse_analysis_def codec_shape codec_metric_json codec_rest)
        (simp add: json_get_def codec_field_json codec_num_def)
  next
    case (ByMany fs)
    have "codec_field (JArr js) = None" for js by (simp add: codec_field_def is_object_def)
    then show ?thesis
      unfolding BreakdownOf ByMany
      by (simp add: parse_analysis_def codec_shape codec_metric_json codec_rest) (simp add: json_get_def)
  qed
qed

section \<open>Properties\<close>



end
