(* ===== verification/AnalysisWire.thy ===== *)
theory AnalysisWire
  imports Analysis
begin

text \<open>
  Questions across the wire, apps/api/src/analysis/wire.ts. The wire has the domain's shapes with
  two differences: the ends of an absolute window are ISO-8601 strings, and the name of a
  dimension is any string, where the domain's set is closed. A wire predicate is therefore a
  \<open>predicate\<close> whose dimensions need not be known. \<open>Date.parse\<close> is a parameter.
\<close>

section \<open>Wire values\<close>

datatype wire_window = WireRelative int relative_unit | WireAbsolute string string

record wire_funnel =
  wire_steps :: "funnel_step list"
  wire_fun_window :: wire_window
  wire_conversion_ms :: int
  wire_basis :: counting_basis

record wire_metric =
  wire_measure :: measure
  wire_where :: "predicate option"
  wire_window :: wire_window

datatype wire_analysis =
    WireScalar wire_metric summary_stat
  | WireSeries wire_metric grain "field_ref option" "int option"
  | WireBreakdown wire_metric grouping sort_direction int
  | WireFunnel wire_funnel

section \<open>From the wire\<close>

fun to_field_ref :: "field_ref \<Rightarrow> analysis_error + field_ref" where
  "to_field_ref (Dim k) = (if is_dimension_name k then ok (Dim k) else err (UnknownDimension k))"
| "to_field_ref (Prop k) = ok (Prop k)"

fun to_predicate :: "predicate \<Rightarrow> analysis_error + predicate" where
  "to_predicate (PAnd ps) = result_map (result_all (map to_predicate ps)) PAnd"
| "to_predicate (POr ps) = result_map (result_all (map to_predicate ps)) POr"
| "to_predicate (PNot p) = result_map (to_predicate p) PNot"
| "to_predicate (PEq f v) = result_map (to_field_ref f) (\<lambda>g. PEq g v)"
| "to_predicate (PNeq f v) = result_map (to_field_ref f) (\<lambda>g. PNeq g v)"
| "to_predicate (PIn f vs) = result_map (to_field_ref f) (\<lambda>g. PIn g vs)"
| "to_predicate (PNotIn f vs) = result_map (to_field_ref f) (\<lambda>g. PNotIn g vs)"
| "to_predicate (PContains f s) = result_map (to_field_ref f) (\<lambda>g. PContains g s)"
| "to_predicate (PStartsWith f s) = result_map (to_field_ref f) (\<lambda>g. PStartsWith g s)"
| "to_predicate (PEndsWith f s) = result_map (to_field_ref f) (\<lambda>g. PEndsWith g s)"
| "to_predicate (PGt f n) = result_map (to_field_ref f) (\<lambda>g. PGt g n)"
| "to_predicate (PGte f n) = result_map (to_field_ref f) (\<lambda>g. PGte g n)"
| "to_predicate (PLt f n) = result_map (to_field_ref f) (\<lambda>g. PLt g n)"
| "to_predicate (PLte f n) = result_map (to_field_ref f) (\<lambda>g. PLte g n)"
| "to_predicate (PExists f) = result_map (to_field_ref f) PExists"
| "to_predicate (PNotExists f) = result_map (to_field_ref f) PNotExists"

fun to_window :: "(string \<Rightarrow> int option) \<Rightarrow> wire_window \<Rightarrow> analysis_error + window" where
  "to_window date_parse (WireRelative amount u) = ok (Relative amount u)"
| "to_window date_parse (WireAbsolute since till) =
     (case instant_from_iso date_parse since of
        Inl _ \<Rightarrow> err (InvalidAnalysis (''window.from is not an instant: '' @ since))
      | Inr s \<Rightarrow>
          (case instant_from_iso date_parse till of
             Inl _ \<Rightarrow> err (InvalidAnalysis (''window.to is not an instant: '' @ till))
           | Inr t \<Rightarrow> ok (Absolute s t)))"

text \<open>A missing predicate stays missing.\<close>

fun to_where :: "predicate option \<Rightarrow> analysis_error + predicate option" where
  "to_where None = ok None"
| "to_where (Some p) = result_map (to_predicate p) Some"

definition to_funnel_step :: "funnel_step \<Rightarrow> analysis_error + funnel_step" where
  "to_funnel_step w =
     result_map (to_where (step_where w))
       (\<lambda>p. \<lparr> step_label = step_label w, step_events = step_events w, step_where = p \<rparr>)"

definition to_funnel :: "(string \<Rightarrow> int option) \<Rightarrow> wire_funnel \<Rightarrow> analysis_error + funnel" where
  "to_funnel date_parse w =
     flat_map (result_all (map to_funnel_step (wire_steps w)))
       (\<lambda>steps. result_map (to_window date_parse (wire_fun_window w))
          (\<lambda>win. \<lparr> fun_steps = steps, fun_window = win,
                   fun_conversion = Within (wire_conversion_ms w), fun_basis = wire_basis w \<rparr>))"

definition to_metric :: "(string \<Rightarrow> int option) \<Rightarrow> wire_metric \<Rightarrow> analysis_error + metric" where
  "to_metric date_parse w =
     flat_map (to_window date_parse (wire_window w))
       (\<lambda>win. result_map (to_where (wire_where w))
          (\<lambda>p. \<lparr> met_measure = wire_measure w, met_where = p, met_window = win \<rparr>))"

fun to_grouping :: "grouping \<Rightarrow> analysis_error + grouping" where
  "to_grouping (ByOne f) = result_map (to_field_ref f) ByOne"
| "to_grouping (ByMany fs) = result_map (result_all (map to_field_ref fs)) ByMany"

fun to_split :: "field_ref option \<Rightarrow> analysis_error + field_ref option" where
  "to_split None = ok None"
| "to_split (Some f) = result_map (to_field_ref f) Some"

fun to_analysis :: "(string \<Rightarrow> int option) \<Rightarrow> wire_analysis \<Rightarrow> analysis_error + analysis" where
  "to_analysis date_parse (WireFunnel w) = result_map (to_funnel date_parse w) FunnelOf"
| "to_analysis date_parse (WireScalar w summary) =
     result_map (to_metric date_parse w) (\<lambda>m. ScalarOf m summary)"
| "to_analysis date_parse (WireSeries w g gr l) =
     flat_map (to_metric date_parse w)
       (\<lambda>m. result_map (to_split gr) (\<lambda>f. SeriesOf m g f l))"
| "to_analysis date_parse (WireBreakdown w gr d l) =
     flat_map (to_metric date_parse w)
       (\<lambda>m. result_map (to_grouping gr) (\<lambda>fs. BreakdownOf m fs d l))"

section \<open>To the wire\<close>

fun from_field_ref :: "field_ref \<Rightarrow> field_ref" where
  "from_field_ref (Dim k) = Dim k"
| "from_field_ref (Prop k) = Prop k"

fun from_predicate :: "predicate \<Rightarrow> predicate" where
  "from_predicate (PAnd ps) = PAnd (map from_predicate ps)"
| "from_predicate (POr ps) = POr (map from_predicate ps)"
| "from_predicate (PNot p) = PNot (from_predicate p)"
| "from_predicate (PEq f v) = PEq (from_field_ref f) v"
| "from_predicate (PNeq f v) = PNeq (from_field_ref f) v"
| "from_predicate (PIn f vs) = PIn (from_field_ref f) vs"
| "from_predicate (PNotIn f vs) = PNotIn (from_field_ref f) vs"
| "from_predicate (PContains f s) = PContains (from_field_ref f) s"
| "from_predicate (PStartsWith f s) = PStartsWith (from_field_ref f) s"
| "from_predicate (PEndsWith f s) = PEndsWith (from_field_ref f) s"
| "from_predicate (PGt f n) = PGt (from_field_ref f) n"
| "from_predicate (PGte f n) = PGte (from_field_ref f) n"
| "from_predicate (PLt f n) = PLt (from_field_ref f) n"
| "from_predicate (PLte f n) = PLte (from_field_ref f) n"
| "from_predicate (PExists f) = PExists (from_field_ref f)"
| "from_predicate (PNotExists f) = PNotExists (from_field_ref f)"

fun from_window :: "window \<Rightarrow> wire_window" where
  "from_window (Relative amount u) = WireRelative amount u"
| "from_window (Absolute since till) = WireAbsolute (instant_to_iso since) (instant_to_iso till)"

definition from_funnel_step :: "funnel_step \<Rightarrow> funnel_step" where
  "from_funnel_step s =
     \<lparr> step_label = step_label s, step_events = step_events s,
       step_where = map_option from_predicate (step_where s) \<rparr>"

definition from_funnel :: "funnel \<Rightarrow> wire_funnel" where
  "from_funnel f =
     \<lparr> wire_steps = map from_funnel_step (fun_steps f), wire_fun_window = from_window (fun_window f),
       wire_conversion_ms = conversion_millis (fun_conversion f), wire_basis = fun_basis f \<rparr>"

definition from_metric :: "metric \<Rightarrow> wire_metric" where
  "from_metric m =
     \<lparr> wire_measure = met_measure m, wire_where = map_option from_predicate (met_where m),
       wire_window = from_window (met_window m) \<rparr>"

fun from_grouping :: "grouping \<Rightarrow> grouping" where
  "from_grouping (ByOne f) = ByOne (from_field_ref f)"
| "from_grouping (ByMany fs) = ByMany (map from_field_ref fs)"

fun from_analysis :: "analysis \<Rightarrow> wire_analysis" where
  "from_analysis (FunnelOf f) = WireFunnel (from_funnel f)"
| "from_analysis (ScalarOf m summary) = WireScalar (from_metric m) summary"
| "from_analysis (SeriesOf m g gr l) = WireSeries (from_metric m) g (map_option from_field_ref gr) l"
| "from_analysis (BreakdownOf m gr d l) = WireBreakdown (from_metric m) (from_grouping gr) d l"

section \<open>Facts\<close>

text \<open>Conversions of a value either change nothing or name an unknown dimension of it.\<close>

definition exact_on :: "field_ref set \<Rightarrow> 'v \<Rightarrow> analysis_error + 'v \<Rightarrow> bool" where
  "exact_on refs v r \<longleftrightarrow>
     (if \<forall>k. Dim k \<in> refs \<longrightarrow> is_dimension_name k then r = Inr v
      else \<exists>k. r = Inl (UnknownDimension k) \<and> Dim k \<in> refs \<and> \<not> is_dimension_name k)"

lemma exact_field: "exact_on {f} f (to_field_ref f)"
  by (cases f) (auto simp: exact_on_def ok_def err_def)

lemma exact_map:
  assumes "exact_on refs v r"
  shows "exact_on refs (h v) (result_map r h)"
  using assms by (auto simp: exact_on_def result_map_def ok_def err_def split: if_splits)

lemma result_all_Cons:
  "result_all (r # rs) = (case r of Inl e \<Rightarrow> Inl e | Inr x \<Rightarrow> result_map (result_all rs) ((#) x))"
proof -
  have "result_all_loop (acc @ [x]) rs = result_map (result_all_loop [] rs) (\<lambda>ys. acc @ x # ys)" for acc x
  proof -
    have gen: "result_all_loop (pre @ acc) rs = result_map (result_all_loop acc rs) ((@) pre)" for pre acc :: "'b list"
      by (induction rs arbitrary: acc) (auto simp: result_map_def ok_def err_def split: sum.splits)
    have "(@) (acc @ [x]) = (\<lambda>ys. acc @ x # ys)" by (rule ext) simp
    then show ?thesis using gen [of "acc @ [x]" "[]"] by simp
  qed
  from this [of "[]"] show ?thesis by (auto simp: result_all_def split: sum.splits)
qed

lemma exact_all:
  assumes "\<And>v. v \<in> set vs \<Longrightarrow> exact_on (refs v) v (conv v)"
  shows "exact_on (\<Union>v \<in> set vs. refs v) vs (result_all (map conv vs))"
  using assms
proof (induction vs)
  case (Cons v vs)
  have v: "exact_on (refs v) v (conv v)"
    and vs: "exact_on (\<Union>v \<in> set vs. refs v) vs (result_all (map conv vs))" using Cons by simp_all
  show ?case
    using v vs unfolding list.map result_all_Cons
    by (auto simp: exact_on_def result_map_def ok_def err_def split: if_splits)
qed (simp add: exact_on_def result_all_def ok_def)

lemma from_field_ref_id [simp]: "from_field_ref f = f"
  by (cases f) simp_all

lemma from_predicate_id [simp]: "from_predicate p = p"
  by (induction p) (simp_all add: map_idI)

lemma exact_predicate: "exact_on (set (predicate_fields p)) p (to_predicate p)"
proof (induction p)
  case (PAnd ps)
  have "exact_on (\<Union>p \<in> set ps. set (predicate_fields p)) ps (result_all (map to_predicate ps))"
    using PAnd by (rule exact_all)
  from exact_map [OF this, of PAnd] show ?case by simp
next
  case (POr ps)
  have "exact_on (\<Union>p \<in> set ps. set (predicate_fields p)) ps (result_all (map to_predicate ps))"
    using POr by (rule exact_all)
  from exact_map [OF this, of POr] show ?case by simp
next
  case (PNot p)
  then show ?case using exact_map [of _ _ _ PNot] by simp
qed (use exact_map [OF exact_field] in simp_all)

lemma exact_where: "exact_on (set (predicate_refs w)) w (to_where w)"
proof (cases w)
  case (Some p)
  then show ?thesis using exact_map [OF exact_predicate, of p Some] by simp
qed (simp add: exact_on_def ok_def)

lemma exact_grouping: "exact_on (set (breakdown_fields gr)) gr (to_grouping gr)"
proof (cases gr)
  case (ByOne f)
  then show ?thesis using exact_map [OF exact_field, of f ByOne] by simp
next
  case (ByMany fs)
  have "exact_on (\<Union>f \<in> set fs. {f}) fs (result_all (map to_field_ref fs))"
    by (rule exact_all) (rule exact_field)
  then show ?thesis using ByMany exact_map [of "set fs" fs _ ByMany] by simp
qed

lemma exact_split: "exact_on (set_option gr) gr (to_split gr)"
proof (cases gr)
  case (Some f)
  then show ?thesis using exact_map [OF exact_field, of f Some] by simp
qed (simp add: exact_on_def ok_def)

lemma exact_step: "exact_on (set (predicate_refs (step_where s))) s (to_funnel_step s)"
  using exact_map [OF exact_where, of "step_where s"
      "\<lambda>p. \<lparr> step_label = step_label s, step_events = step_events s, step_where = p \<rparr>"]
  by (cases s) (simp add: to_funnel_step_def)

lemma from_where_id [simp]: "map_option from_predicate w = w"
  by (cases w) simp_all

lemma from_step_id [simp]: "from_funnel_step s = s"
  by (cases s) (simp add: from_funnel_step_def)

text \<open>The instants a window names, and \<open>Date.parse\<close> reading their ISO form back.\<close>

fun window_instants :: "window \<Rightarrow> instant set" where
  "window_instants (Relative _ _) = {}"
| "window_instants (Absolute since till) = {since, till}"

definition reads_iso :: "(string \<Rightarrow> int option) \<Rightarrow> instant \<Rightarrow> bool" where
  "reads_iso date_parse t \<longleftrightarrow> \<bar>t\<bar> \<le> MAX_EPOCH_MILLIS \<and> date_parse (instant_to_iso t) = Some t"

lemma window_round_trip:
  "\<forall>t \<in> window_instants w. reads_iso date_parse t \<Longrightarrow> to_window date_parse (from_window w) = Inr w"
  by (cases w) (simp_all add: reads_iso_def instant_from_iso_def ok_def)


lemma metric_round_trip:
  assumes "\<forall>t \<in> window_instants (met_window m). reads_iso date_parse t"
  shows "exact_on (set (predicate_refs (met_where m))) m (to_metric date_parse (from_metric m))"
proof -
  have "exact_on (set (predicate_refs (met_where m)))
      \<lparr> met_measure = met_measure m, met_where = met_where m, met_window = met_window m \<rparr>
      (result_map (to_where (met_where m))
        (\<lambda>p. \<lparr> met_measure = met_measure m, met_where = p, met_window = met_window m \<rparr>))"
    by (rule exact_map) (rule exact_where)
  then show ?thesis
    using window_round_trip [OF assms]
    by (cases m) (simp add: to_metric_def from_metric_def flat_map_def)
qed

lemma exact_then:
  assumes "exact_on A m r" "exact_on B g s"
  shows "exact_on (A \<union> B) (h m g) (flat_map r (\<lambda>m. result_map s (h m)))"
  using assms by (auto simp: exact_on_def flat_map_def result_map_def ok_def err_def split: if_splits)

lemma wire_exact:
  assumes "\<forall>t \<in> window_instants (analysis_window a). reads_iso date_parse t"
  shows "exact_on (all_refs a - {Dim EVENT_TYPE}) a (to_analysis date_parse (from_analysis a))"
proof -
  have known: "is_dimension_name EVENT_TYPE" by code_simp
  have drop: "exact_on (A - {Dim EVENT_TYPE}) v r \<longleftrightarrow> exact_on A v r" for A and v :: analysis and r
    using known by (auto simp: exact_on_def)
  have put: "exact_on (insert (Dim EVENT_TYPE) A) v r \<longleftrightarrow> exact_on A v r" for A and v :: analysis and r
    using drop [of "insert (Dim EVENT_TYPE) A" v r] drop [of A v r] by simp
  show ?thesis
  proof (cases a)
    case (ScalarOf m s)
    then show ?thesis
      unfolding drop using exact_map [OF metric_round_trip, of m date_parse "\<lambda>m. ScalarOf m s"] assms
      by (simp add: analysis_where_def)
  next
    case (SeriesOf m g gr l)
    have gf: "set (grouped_fields a) = set_option gr" unfolding SeriesOf by (cases gr) simp_all
    have w: "\<forall>t \<in> window_instants (met_window m). reads_iso date_parse t" using assms SeriesOf by simp
    have id: "map_option from_field_ref gr = gr" by (cases gr) simp_all
    have "exact_on (set (predicate_refs (met_where m)) \<union> set_option gr) a
        (flat_map (to_metric date_parse (from_metric m)) (\<lambda>m. result_map (to_split gr) (\<lambda>f. SeriesOf m g f l)))"
      unfolding SeriesOf by (rule exact_then [OF metric_round_trip [OF w] exact_split])
    then show ?thesis unfolding drop using gf unfolding SeriesOf by (simp add: analysis_where_def id)
  next
    case (BreakdownOf m gr d l)
    have w: "\<forall>t \<in> window_instants (met_window m). reads_iso date_parse t" using assms BreakdownOf by simp
    have id: "from_grouping gr = gr" by (cases gr) (simp_all add: map_idI)
    have "exact_on (set (predicate_refs (met_where m)) \<union> set (breakdown_fields gr)) a
        (flat_map (to_metric date_parse (from_metric m))
          (\<lambda>m. result_map (to_grouping gr) (\<lambda>fs. BreakdownOf m fs d l)))"
      unfolding BreakdownOf by (rule exact_then [OF metric_round_trip [OF w] exact_grouping])
    then show ?thesis unfolding drop unfolding BreakdownOf by (simp add: analysis_where_def id)
  next
    case (FunnelOf f)
    let ?refs = "\<Union>s \<in> set (fun_steps f). set (predicate_refs (step_where s))"
    have steps: "exact_on ?refs (fun_steps f) (result_all (map to_funnel_step (fun_steps f)))"
      by (rule exact_all) (rule exact_step)
    have w: "to_window date_parse (from_window (fun_window f)) = Inr (fun_window f)"
      using assms FunnelOf by (intro window_round_trip) simp
    have c: "Within (conversion_millis c) = c" for c by (cases c) simp
    have "to_funnel date_parse (from_funnel f) =
        result_map (result_all (map to_funnel_step (fun_steps f))) (\<lambda>ss. f\<lparr>fun_steps := ss\<rparr>)"
      by (auto simp: to_funnel_def from_funnel_def w flat_map_def result_map_def c o_def ok_def err_def split: sum.splits)
    then have "exact_on ?refs (FunnelOf (f\<lparr>fun_steps := fun_steps f\<rparr>)) (to_analysis date_parse (from_analysis a))"
      using exact_map [OF exact_map [OF steps, of "\<lambda>ss. f\<lparr>fun_steps := ss\<rparr>"], of FunnelOf] FunnelOf by simp
    then show ?thesis unfolding drop FunnelOf all_refs.simps put by simp
  qed
qed

section \<open>Properties\<close>

text \<open>
  A question survives the wire: sent and read back it is the same question, provided
  \<open>Date.parse\<close> reads back the ISO form of its window's ends. The one thing that can go wrong is a
  dimension outside the closed set, and the refusal then names one of the question's.
\<close>

theorem wire_round_trip:
  assumes "\<forall>t \<in> window_instants (analysis_window a). reads_iso date_parse t"
  shows "if \<forall>k. Dim k \<in> all_refs a \<longrightarrow> is_dimension_name k
         then to_analysis date_parse (from_analysis a) = Inr a
         else \<exists>k. to_analysis date_parse (from_analysis a) = Inl (UnknownDimension k) \<and>
                  Dim k \<in> all_refs a \<and> \<not> is_dimension_name k"
proof -
  have known: "is_dimension_name EVENT_TYPE" by code_simp
  show ?thesis using wire_exact [OF assms] known by (auto simp: exact_on_def split: if_splits)
qed

theorem wire_round_trip_witness:
  "let a = SeriesOf \<lparr> met_measure = Unique Visit,
             met_where = Some (PAnd [PEq (Dim ''os_name'') (SStr ''ios''), PNot (PExists (Prop ''vip''))]),
             met_window = Absolute 0 86400000 \<rparr> GDay (Some (Dim ''country'')) (Some 3);
       date_parse = (\<lambda>s. if s = instant_to_iso 0 then Some 0
                          else if s = instant_to_iso 86400000 then Some 86400000 else None)
   in to_analysis date_parse (from_analysis a) = Inr a"
proof -
  let ?a = "SeriesOf \<lparr> met_measure = Unique Visit,
             met_where = Some (PAnd [PEq (Dim ''os_name'') (SStr ''ios''), PNot (PExists (Prop ''vip''))]),
             met_window = Absolute 0 86400000 \<rparr> GDay (Some (Dim ''country'')) (Some 3)"
  let ?p = "\<lambda>s. if s = instant_to_iso 0 then Some 0
                else if s = instant_to_iso 86400000 then Some 86400000 else (None :: int option)"
  have "instant_to_iso 86400000 \<noteq> instant_to_iso 0" by code_simp
  then have "\<forall>t \<in> window_instants (analysis_window ?a). reads_iso ?p t"
    by (simp add: reads_iso_def MAX_EPOCH_MILLIS_def)
  from wire_round_trip [OF this] have "if \<forall>k. Dim k \<in> all_refs ?a \<longrightarrow> is_dimension_name k
     then to_analysis ?p (from_analysis ?a) = Inr ?a else
     \<exists>k. to_analysis ?p (from_analysis ?a) = Inl (UnknownDimension k) \<and> Dim k \<in> all_refs ?a \<and> \<not> is_dimension_name k" .
  moreover have "is_dimension_name ''os_name''" "is_dimension_name ''country''" by code_simp+
  ultimately show ?thesis unfolding Let_def by (auto simp: analysis_where_def)
qed

end
