(* ===== verification/Bucketing.thy ===== *)
theory Bucketing
  imports Window Readouts
begin

text \<open>
  Bucket edges of the analytics adapter, packages/analytics/adapter-litics/src/bucketing.ts: the
  alignment of an instant to a step, the dense grid of a window, the stride that puts a window
  into one bin, the calendar months of a window and the folding of rows onto the grid. A
  step is a \<open>grain\<close> of the domain.
\<close>

section \<open>The calendar operations used\<close>

definition set_utc_minutes_zero :: "instant \<Rightarrow> instant" where
  "set_utc_minutes_zero t = make_date (day_of t) (make_time (utc_hours t) 0 0 0)"

definition set_utc_hours_zero :: "instant \<Rightarrow> instant" where
  "set_utc_hours_zero t = make_date (day_of t) (make_time 0 0 0 0)"

definition utc_weekday :: "instant \<Rightarrow> int" where
  "utc_weekday t = (4 + day_of t) mod 7"

section \<open>Steps\<close>

fun step_interval :: "grain \<Rightarrow> string option" where
  "step_interval GHour = Some ''1 hour''"
| "step_interval GDay = Some ''1 day''"
| "step_interval GWeek = Some ''7 days''"
| "step_interval GMonth = None"

fun step_millis :: "grain \<Rightarrow> int option" where
  "step_millis GHour = Some 3600000"
| "step_millis GDay = Some 86400000"
| "step_millis GWeek = Some 604800000"
| "step_millis GMonth = None"

fun align_floor :: "instant \<Rightarrow> grain \<Rightarrow> instant" where
  "align_floor t GHour = set_utc_minutes_zero t"
| "align_floor t GDay = set_utc_hours_zero t"
| "align_floor t GWeek =
     (let d = set_utc_hours_zero t;
          back = (utc_weekday d + 6) mod 7
      in set_utc_date d (utc_date d - back))"
| "align_floor t GMonth = set_utc_date (set_utc_hours_zero t) 1"

definition advance :: "instant \<Rightarrow> grain \<Rightarrow> instant" where
  "advance start step =
     (case step_millis step of
        Some fixed \<Rightarrow> start + fixed
      | None \<Rightarrow> set_utc_month start (utc_month start + 1))"

section \<open>The grid\<close>

definition MAX_BUCKETS :: nat where
  "MAX_BUCKETS = 20000"

function grid_loop :: "instant list \<Rightarrow> instant \<Rightarrow> instant \<Rightarrow> grain \<Rightarrow> instant list" where
  "grid_loop starts cursor till step =
     (if cursor < till
      then (let starts' = starts @ [cursor]
            in if length starts' > MAX_BUCKETS then starts'
               else (let next = advance cursor step
                     in if next \<le> cursor then starts' else grid_loop starts' next till step))
      else starts)"
  by pat_completeness auto
termination
  by (relation "measure (\<lambda>(starts, cursor, till, step). MAX_BUCKETS + 1 - length starts)") auto

declare grid_loop.simps [simp del]

definition grid_starts :: "instant \<Rightarrow> instant \<Rightarrow> grain \<Rightarrow> instant list" where
  "grid_starts since till step = grid_loop [] (align_floor since step) till step"

text \<open>\<open>Math.ceil\<close> of a quotient of integers.\<close>

definition ceil_div :: "int \<Rightarrow> int \<Rightarrow> int" where
  "ceil_div a b = - ((- a) div b)"

datatype stride = Days int | Hours int

fun stride_interval :: "stride \<Rightarrow> string" where
  "stride_interval (Days n) = show_int n @ '' days''"
| "stride_interval (Hours n) = show_int n @ '' hours''"

definition whole_window_stride :: "instant \<Rightarrow> instant \<Rightarrow> grain \<Rightarrow> (instant \<times> stride) option" where
  "whole_window_stride since till step =
     (let origin = align_floor since step;
          span = till - origin
      in if span \<le> 0 then None
         else if step \<noteq> GHour then Some (origin, Days (ceil_div span 86400000))
         else
           (let hours = max 1 (ceil_div span 3600000);
                day_aligned = origin mod 86400000 = 0
            in Some (origin, Hours (if \<not> day_aligned \<and> hours mod 24 = 0 then hours + 1 else hours))))"

record month_span =
  span_start :: instant
  span_till :: instant
  span_days :: int

definition month_spans :: "instant \<Rightarrow> instant \<Rightarrow> month_span list" where
  "month_spans since till =
     map (\<lambda>start.
            let next = advance start GMonth
            in \<lparr> span_start = start, span_till = instant_min next till,
                 span_days = (next - start) div 86400000 \<rparr>)
       (grid_starts since till GMonth)"

text \<open>\<open>byStart\<close> is a \<open>Map\<close>; a row adds its value to the entry of its position.\<close>

fun add_at :: "instant \<Rightarrow> rat \<Rightarrow> (instant \<times> rat) list \<Rightarrow> (instant \<times> rat) list" where
  "add_at k v [] = [(k, 0 + v)]"
| "add_at k v ((k', w) # kvs) = (if k' = k then (k', w + v) # kvs else (k', w) # add_at k v kvs)"

definition densify :: "instant list \<Rightarrow> grain \<Rightarrow> (instant \<times> rat) list \<Rightarrow> bucket list" where
  "densify starts step rows =
     (let by_start = foldl (\<lambda>m (t, v). add_at (align_floor t step) v m) [] rows
      in map (\<lambda>start. \<lparr> bucket_start = start,
                        bucket_value = (case map_of by_start start of None \<Rightarrow> 0 | Some v \<Rightarrow> v) \<rparr>) starts)"

section \<open>Alignment\<close>

lemma align_hour: "align_floor t GHour = t - t mod 3600000"
proof -
  have "make_date (day_of t) (make_time (utc_hours t) 0 0 0) = t - time_within_day t mod 3600000"
    using make_date_split [of t] minus_mod_eq_div_mult [of "time_within_day t" 3600000]
    by (simp add: make_date_def make_time_def utc_hours_def)
  moreover have "time_within_day t mod 3600000 = t mod 3600000"
    by (simp add: time_within_day_def MS_PER_DAY_def mod_mod_cancel)
  ultimately show ?thesis by (simp add: set_utc_minutes_zero_def)
qed

lemma hours_zero: "set_utc_hours_zero t = day_of t * MS_PER_DAY"
  by (simp add: set_utc_hours_zero_def make_date_def make_time_def)

lemma day_of_start [simp]: "day_of (n * MS_PER_DAY) = n" "time_within_day (n * MS_PER_DAY) = 0"
  by (simp_all add: day_of_def time_within_day_def MS_PER_DAY_def)

lemma align_day: "align_floor t GDay = day_of t * MS_PER_DAY"
  by (simp add: hours_zero)

lemma align_week: "align_floor t GWeek = (day_of t - (day_of t + 3) mod 7) * MS_PER_DAY"
proof -
  have "(utc_weekday (day_of t * MS_PER_DAY) + 6) mod 7 = (day_of t + 3) mod 7"
    by (simp add: utc_weekday_def mod_add_left_eq) presburger
  then show ?thesis
    by (simp add: hours_zero set_utc_date_back Let_def left_diff_distrib)
qed

lemma align_month: "align_floor t GMonth = month_first (month_number t) * MS_PER_DAY"
proof -
  have "utc_year (day_of t * MS_PER_DAY) = utc_year t" "utc_month (day_of t * MS_PER_DAY) = utc_month t"
    by (simp_all add: utc_year_def utc_month_def day_in_year_def)
  then show ?thesis
    by (simp add: hours_zero set_utc_date_def make_day_first month_number_def make_date_def)
qed

lemma advance_month: "advance (month_first n * MS_PER_DAY) GMonth = month_first (n + 1) * MS_PER_DAY"
proof -
  have t: "month_first n * MS_PER_DAY = make_date (month_first n) 0" by (simp add: make_date_def)
  have "utc_year (month_first n * MS_PER_DAY) = n div 12" "utc_month (month_first n * MS_PER_DAY) = n mod 12"
    "utc_date (month_first n * MS_PER_DAY) = 1"
    unfolding t by (simp_all add: fields_of_first MS_PER_DAY_def)
  then show ?thesis
    by (simp add: advance_def set_utc_month_def make_day_first make_date_def add.assoc)
qed

lemma day_of_bounds: "day_of t * MS_PER_DAY \<le> t" "t < (day_of t + 1) * MS_PER_DAY"
proof -
  have "day_of t * MS_PER_DAY + time_within_day t = t"
    using make_date_split [of t] by (simp add: make_date_def)
  with time_within_day_bounds [of t] show "day_of t * MS_PER_DAY \<le> t" "t < (day_of t + 1) * MS_PER_DAY"
    by (simp_all only: distrib_right mult_1_left)
qed

lemma day_of_between:
  assumes "n * MS_PER_DAY \<le> t" "t < (n + k) * MS_PER_DAY"
  shows "n \<le> day_of t \<and> day_of t < n + k"
proof -
  have "n * MS_PER_DAY < (day_of t + 1) * MS_PER_DAY" "day_of t * MS_PER_DAY < (n + k) * MS_PER_DAY"
    using assms day_of_bounds [of t] by linarith+
  then show ?thesis by (simp add: MS_PER_DAY_def)
qed

text \<open>An instant lies in the step that begins at its floor, and steps do not overlap.\<close>

lemma align_floor_bounds: "align_floor t step \<le> t \<and> t < advance (align_floor t step) step"
proof -
  note d = day_of_bounds [of t]
  show ?thesis
  proof (cases step)
    case GHour
    then show ?thesis by (simp add: align_hour advance_def del: align_floor.simps)
  next
    case GDay
    then show ?thesis
      unfolding GDay align_day advance_def using d by (simp add: MS_PER_DAY_def)
  next
    case GWeek
    have "0 \<le> (day_of t + 3) mod 7" "(day_of t + 3) mod 7 \<le> 6" by simp_all
    then show ?thesis
      unfolding GWeek align_week using d by (simp add: advance_def MS_PER_DAY_def)
  next
    case GMonth
    have "month_first (month_number t) \<le> day_of t" "day_of t < month_first (month_number t + 1)"
      using day_of_month [of t] utc_date_in_month [of t] month_first_Suc [of "month_number t"] by simp_all
    then show ?thesis
      unfolding GMonth align_month advance_month using d by (simp add: MS_PER_DAY_def)
  qed
qed

text \<open>Grid positions: what an alignment gives and an advance keeps.\<close>

definition on_grid :: "grain \<Rightarrow> instant \<Rightarrow> bool" where
  "on_grid step t \<longleftrightarrow> align_floor t step = t"

lemma month_first_less: "0 < k \<Longrightarrow> month_first n < month_first (n + k)"
  using month_first_bounds(1) [of k "n + k"] by simp

lemma month_number_first: "month_number (month_first n * MS_PER_DAY) = n"
proof -
  have "month_first n * MS_PER_DAY = make_date (month_first n) 0" by (simp add: make_date_def)
  then show ?thesis by (simp add: month_number_def fields_of_first MS_PER_DAY_def)
qed

lemma on_grid_align [simp]: "on_grid step (align_floor t step)"
proof (cases step)
  case GHour
  then show ?thesis by (simp add: on_grid_def align_hour del: align_floor.simps)
next
  case GDay
  then show ?thesis by (simp add: on_grid_def align_day del: align_floor.simps)
next
  case GWeek
  have "(day_of t - (day_of t + 3) mod 7 + 3) mod 7 = 0" by presburger
  then show ?thesis unfolding GWeek on_grid_def align_week by simp
next
  case GMonth
  show ?thesis unfolding GMonth on_grid_def align_month month_number_first ..
qed

lemma on_grid_advance:
  assumes "on_grid step t"
  shows "on_grid step (advance t step) \<and> t < advance t step"
proof -
  have t: "t = align_floor t step" using assms by (simp add: on_grid_def)
  have "t < advance t step" using align_floor_bounds [of t step] t by simp
  moreover have "on_grid step (advance t step)"
  proof (cases step)
    case GHour
    with t have "t mod 3600000 = 0" by (simp add: align_hour del: align_floor.simps)
    then show ?thesis unfolding GHour on_grid_def align_hour by (simp add: advance_def)
  next
    case GDay
    with t have d: "t = day_of t * MS_PER_DAY" by (simp add: align_day del: align_floor.simps)
    have "advance t GDay = (day_of t + 1) * MS_PER_DAY"
      by (subst d) (simp add: advance_def MS_PER_DAY_def)
    then show ?thesis unfolding GDay on_grid_def align_day by (metis day_of_start(1))
  next
    case GWeek
    let ?d = "day_of t - (day_of t + 3) mod 7"
    from t have d: "t = ?d * MS_PER_DAY" unfolding GWeek align_week .
    have "advance t GWeek = (?d + 7) * MS_PER_DAY"
      by (subst d) (simp add: advance_def MS_PER_DAY_def)
    moreover have "(?d + 7 + 3) mod 7 = 0" by presburger
    ultimately show ?thesis unfolding GWeek on_grid_def align_week by simp
  next
    case GMonth
    from t have d: "t = month_first (month_number t) * MS_PER_DAY" unfolding GMonth align_month .
    have "advance t GMonth = month_first (month_number t + 1) * MS_PER_DAY"
      by (subst d) (rule advance_month)
    then show ?thesis unfolding GMonth on_grid_def align_month by (simp add: month_number_first)
  qed
  ultimately show ?thesis by simp
qed

text \<open>The floor is the only grid position whose step holds the instant.\<close>

lemma align_floor_unique:
  assumes "on_grid step s" "s \<le> t" "t < advance s step"
  shows "align_floor t step = s"
proof (cases step)
  case GHour
  with assms have "s mod 3600000 = 0" by (simp add: on_grid_def align_hour del: align_floor.simps)
  then obtain k where k: "s = 3600000 * k" by (auto simp: mod_eq_0_iff_dvd)
  have "t < s + 3600000" using assms(3) GHour by (simp add: advance_def)
  then have "(t - s) mod 3600000 = t - s" using assms(2) by simp
  moreover have "(t - s) mod 3600000 = t mod 3600000"
    using mod_mult_self2 [of "t - s" 3600000 k] unfolding k by simp
  ultimately show ?thesis unfolding GHour align_hour by simp
next
  case GDay
  with assms have d: "s = day_of s * MS_PER_DAY" by (simp add: on_grid_def align_day del: align_floor.simps)
  have "t < s + 86400000" using assms(3) GDay by (simp add: advance_def)
  with d have "t < (day_of s + 1) * MS_PER_DAY" by (simp add: MS_PER_DAY_def)
  with assms(2) d have "day_of t = day_of s" using day_of_between [of "day_of s" t 1] by simp
  then show ?thesis unfolding GDay align_day using d by simp
next
  case GWeek
  let ?n = "day_of s - (day_of s + 3) mod 7"
  from assms(1) have d: "s = ?n * MS_PER_DAY" unfolding GWeek on_grid_def align_week by simp
  have "t < s + 604800000" using assms(3) GWeek by (simp add: advance_def)
  with d have "t < (?n + 7) * MS_PER_DAY" by (simp add: MS_PER_DAY_def)
  moreover have "?n * MS_PER_DAY \<le> t" using assms(2) d by simp
  ultimately have "day_of t \<ge> ?n" "day_of t < ?n + 7" using day_of_between [of ?n t 7] by auto
  moreover have "(?n + 3) mod 7 = 0" by presburger
  ultimately have "day_of t - (day_of t + 3) mod 7 = ?n" by presburger
  then show ?thesis unfolding GWeek align_week using d by simp
next
  case GMonth
  from assms(1) have d: "s = month_first (month_number s) * MS_PER_DAY"
    unfolding GMonth on_grid_def align_month by simp
  let ?n = "month_number s" and ?m = "month_number t"
  have b: "month_first ?n * MS_PER_DAY \<le> t" "t < month_first (?n + 1) * MS_PER_DAY"
    using assms(2,3) d advance_month [of ?n] GMonth by simp_all
  have f: "month_first ?m * MS_PER_DAY \<le> t" "t < month_first (?m + 1) * MS_PER_DAY"
    using align_floor_bounds [of t GMonth] unfolding align_month advance_month by simp_all
  have "\<not> ?m < ?n"
  proof
    assume "?m < ?n"
    then have "month_first (?m + 1) \<le> month_first ?n"
      using month_first_less [of "?n - (?m + 1)" "?m + 1"] by (cases "?m + 1 = ?n") auto
    with b f show False by (simp add: MS_PER_DAY_def)
  qed
  moreover have "\<not> ?n < ?m"
  proof
    assume "?n < ?m"
    then have "month_first (?n + 1) \<le> month_first ?m"
      using month_first_less [of "?m - (?n + 1)" "?n + 1"] by (cases "?n + 1 = ?m") auto
    with b f show False by (simp add: MS_PER_DAY_def)
  qed
  ultimately show ?thesis unfolding GMonth align_month using d by simp
qed

section \<open>The grid of a window\<close>

lemma next_on_grid:
  assumes "on_grid step c" "on_grid step s" "c \<le> s" "s \<noteq> c"
  shows "advance c step \<le> s"
proof (rule ccontr)
  assume "\<not> advance c step \<le> s"
  then have "align_floor s step = c" using align_floor_unique [OF assms(1,3)] by simp
  with assms(2,4) show False by (simp add: on_grid_def)
qed

lemma grid_loop_facts:
  assumes "on_grid step c" "sorted_wrt (<) starts" "\<forall>s \<in> set starts. s < c" "length starts \<le> MAX_BUCKETS"
  shows "(length (grid_loop starts c till step) \<le> MAX_BUCKETS + 1) \<and>
         sorted_wrt (<) (grid_loop starts c till step) \<and>
         (length (grid_loop starts c till step) \<le> MAX_BUCKETS \<longrightarrow>
            set (grid_loop starts c till step) = set starts \<union> {s. on_grid step s \<and> c \<le> s \<and> s < till}) \<and>
         set (grid_loop starts c till step) \<subseteq> set starts \<union> {s. on_grid step s \<and> c \<le> s \<and> s < till}"
  using assms
proof (induction starts c till step rule: grid_loop.induct)
  case (1 starts c till step)
  let ?starts = "starts @ [c]"
  have sorted: "sorted_wrt (<) ?starts" using 1 by (simp add: sorted_wrt_append)
  show ?case
  proof (cases "c < till")
    case False
    then have "grid_loop starts c till step = starts" by (simp add: grid_loop.simps [of starts])
    with False 1 show ?thesis by auto
  next
    case less: True
    show ?thesis
    proof (cases "length ?starts > MAX_BUCKETS")
      case True
      then have "grid_loop starts c till step = ?starts" using less by (simp add: grid_loop.simps [of starts])
      with True less 1 sorted show ?thesis by auto
    next
      case False
      have adv: "on_grid step (advance c step)" "c < advance c step"
        using on_grid_advance [OF 1(2)] by simp_all
      have run: "grid_loop starts c till step = grid_loop ?starts (advance c step) till step"
        using less False adv by (simp add: grid_loop.simps [of starts])
      have ih: "(length (grid_loop ?starts (advance c step) till step) \<le> MAX_BUCKETS + 1) \<and>
         sorted_wrt (<) (grid_loop ?starts (advance c step) till step) \<and>
         (length (grid_loop ?starts (advance c step) till step) \<le> MAX_BUCKETS \<longrightarrow>
            set (grid_loop ?starts (advance c step) till step) =
              set ?starts \<union> {s. on_grid step s \<and> advance c step \<le> s \<and> s < till}) \<and>
         set (grid_loop ?starts (advance c step) till step) \<subseteq>
           set ?starts \<union> {s. on_grid step s \<and> advance c step \<le> s \<and> s < till}"
      proof (rule 1(1) [OF less refl False refl])
        show "\<not> advance c step \<le> c" using adv(2) by simp
        show "\<forall>s \<in> set ?starts. s < advance c step" using adv(2) 1(4) by fastforce
      qed (use adv(1) sorted False in simp_all)
      have "{s. on_grid step s \<and> c \<le> s \<and> s < till} =
          insert c {s. on_grid step s \<and> advance c step \<le> s \<and> s < till}"
        using next_on_grid [OF 1(2)] adv(2) less 1(2) by auto
      with ih show ?thesis unfolding run by auto
    qed
  qed
qed

lemma grid_length: "length (grid_starts since till step) \<le> MAX_BUCKETS + 1"
  and grid_sorted: "sorted_wrt (<) (grid_starts since till step)"
  and grid_set: "length (grid_starts since till step) \<le> MAX_BUCKETS \<Longrightarrow>
    set (grid_starts since till step) = {s. on_grid step s \<and> align_floor since step \<le> s \<and> s < till}"
  using grid_loop_facts [of step "align_floor since step" "[]" till]
  by (simp_all add: grid_starts_def del: align_floor.simps)

lemma align_floor_mono:
  assumes "s \<le> t"
  shows "align_floor s step \<le> align_floor t step"
proof (rule ccontr)
  assume "\<not> align_floor s step \<le> align_floor t step"
  then have "advance (align_floor t step) step \<le> align_floor s step" by (intro next_on_grid) auto
  with align_floor_bounds [of t step] align_floor_bounds [of s step] assms show False by linarith
qed

lemma floor_in_grid:
  assumes "length (grid_starts since till step) \<le> MAX_BUCKETS" "since \<le> t" "t < till"
  shows "align_floor t step \<in> set (grid_starts since till step)"
  unfolding grid_set [OF assms(1)] using align_floor_mono [OF assms(2), of step] align_floor_bounds [of t step] assms(3)
  by (auto simp del: align_floor.simps)

text \<open>
  C36. A grid tiles its window: unless it was cut off one past the ceiling, its starts are in
  order exactly the positions of the step's calendar grid from the one at or before the window's
  start up to the window's end, so that every instant of the window lies in the step of exactly
  one start, its own floor; the loop always ends, with at most one start more than the ceiling.
\<close>

theorem grid_tiles_the_window:
  shows "length (grid_starts since till step) \<le> MAX_BUCKETS + 1 \<and>
         sorted_wrt (<) (grid_starts since till step) \<and>
         (length (grid_starts since till step) \<le> MAX_BUCKETS \<longrightarrow>
            set (grid_starts since till step) =
              {s. align_floor s step = s \<and> align_floor since step \<le> s \<and> s < till} \<and>
            (\<forall>t. since \<le> t \<and> t < till \<longrightarrow>
               align_floor t step \<in> set (grid_starts since till step) \<and>
               (\<forall>s \<in> set (grid_starts since till step).
                  s \<le> t \<and> t < advance s step \<longleftrightarrow> s = align_floor t step)))"
proof (intro conjI impI grid_length grid_sorted)
  assume len: "length (grid_starts since till step) \<le> MAX_BUCKETS"
  show "set (grid_starts since till step) =
      {s. align_floor s step = s \<and> align_floor since step \<le> s \<and> s < till}"
    unfolding grid_set [OF len] on_grid_def ..
  show "\<forall>t. since \<le> t \<and> t < till \<longrightarrow>
      align_floor t step \<in> set (grid_starts since till step) \<and>
      (\<forall>s \<in> set (grid_starts since till step). s \<le> t \<and> t < advance s step \<longleftrightarrow> s = align_floor t step)"
  proof (intro allI impI conjI ballI)
    fix t
    assume t: "since \<le> t \<and> t < till"
    then show "align_floor t step \<in> set (grid_starts since till step)" using floor_in_grid [OF len] by blast
    fix s
    assume "s \<in> set (grid_starts since till step)"
    then have "on_grid step s" unfolding grid_set [OF len] by simp
    then show "s \<le> t \<and> t < advance s step \<longleftrightarrow> s = align_floor t step"
      using align_floor_unique [of step s t] align_floor_bounds [of t step] by auto
  qed
qed

theorem grid_tiles_the_window_witness:
  "grid_starts 5400000 10800000 GHour = [3600000, 7200000] \<and>
   align_floor 7200001 GHour \<in> set (grid_starts 5400000 10800000 GHour)"
proof -
  have g: "grid_starts 5400000 10800000 GHour = [3600000, 7200000]" by code_simp
  then have "length (grid_starts 5400000 10800000 GHour) \<le> MAX_BUCKETS" by (simp add: MAX_BUCKETS_def)
  then have "\<forall>t. 5400000 \<le> t \<and> t < 10800000 \<longrightarrow> align_floor t GHour \<in> set (grid_starts 5400000 10800000 GHour)"
    using grid_tiles_the_window [of 5400000 10800000 GHour] by blast
  from this [THEN spec, of 7200001] have "align_floor 7200001 GHour \<in> set (grid_starts 5400000 10800000 GHour)"
    by (simp del: align_floor.simps)
  with g show ?thesis by blast
qed

section \<open>Folding rows\<close>

definition sum_at :: "grain \<Rightarrow> (instant \<times> rat) list \<Rightarrow> instant \<Rightarrow> rat" where
  "sum_at step rows start = sum_list (map snd (filter (\<lambda>(t, v). align_floor t step = start) rows))"

definition entry :: "(instant \<times> rat) list \<Rightarrow> instant \<Rightarrow> rat" where
  "entry m k = (case map_of m k of None \<Rightarrow> 0 | Some v \<Rightarrow> v)"

lemma entry_add_at: "entry (add_at k v m) j = entry m j + (if j = k then v else 0)"
  by (induction k v m rule: add_at.induct) (auto simp: entry_def)

lemma entry_fold:
  "entry (foldl (\<lambda>m (t, v). add_at (align_floor t step) v m) m rows) k = entry m k + sum_at step rows k"
proof (induction rows arbitrary: m)
  case (Cons r rows)
  obtain t v where r: "r = (t, v)" by fastforce
  show ?case
    using Cons.IH [of "add_at (align_floor t step) v m"]
    by (simp add: r entry_add_at sum_at_def del: align_floor.simps)
qed (simp add: sum_at_def)

lemma densify_eq:
  "densify starts step rows = map (\<lambda>s. \<lparr> bucket_start = s, bucket_value = sum_at step rows s \<rparr>) starts"
proof -
  have "entry (foldl (\<lambda>m (t, v). add_at (align_floor t step) v m) [] rows) s = sum_at step rows s" for s
    using entry_fold [of step "[]" rows s] by (simp add: entry_def del: align_floor.simps)
  then show ?thesis by (simp add: densify_def entry_def [symmetric] del: align_floor.simps)
qed

lemma sum_over_starts:
  assumes "distinct starts" "\<forall>(t, v) \<in> set rows. align_floor t step \<in> set starts"
  shows "sum_list (map (sum_at step rows) starts) = sum_list (map snd rows)"
  using assms(2)
proof (induction rows)
  case (Cons r rows)
  obtain t v where r: "r = (t, v)" by fastforce
  have mem: "align_floor t step \<in> set starts" using Cons.prems r by simp
  have one: "sum_list (map (\<lambda>s. if align_floor t step = s then v else 0) starts) = v"
    using assms(1) mem by (simp add: sum_list_distinct_conv_sum_set del: align_floor.simps)
  have "sum_at step (r # rows) = (\<lambda>s. (if align_floor t step = s then v else 0) + sum_at step rows s)"
    by (rule ext) (simp add: sum_at_def r del: align_floor.simps)
  then have "sum_list (map (sum_at step (r # rows)) starts) = v + sum_list (map (sum_at step rows) starts)"
    by (simp add: sum_list_addf one del: align_floor.simps)
  with Cons show ?case by (simp add: r del: align_floor.simps)
next
  case Nil
  have "sum_at step [] = (\<lambda>s. 0)" by (rule ext) (simp add: sum_at_def)
  then show ?case by simp
qed

text \<open>
  Folding rows onto a grid loses and invents nothing: there is one bucket per start in order,
  a bucket holds the sum of the rows whose floor it is and zero when there is none, and when the
  rows lie in a grid that was not cut off the buckets add up to the rows.
\<close>

theorem densify_adds_up:
  shows "map bucket_start (densify starts step rows) = starts \<and>
         (\<forall>b \<in> set (densify starts step rows).
            bucket_value b = sum_list (map snd (filter (\<lambda>(t, v). align_floor t step = bucket_start b) rows))) \<and>
         (starts = grid_starts since till step \<and> length starts \<le> MAX_BUCKETS \<and>
          list_all (\<lambda>(t, v). since \<le> t \<and> t < till) rows \<longrightarrow>
            sum_list (map bucket_value (densify starts step rows)) = sum_list (map snd rows))"
proof (intro conjI impI ballI)
  show "map bucket_start (densify starts step rows) = starts"
    by (simp add: densify_eq o_def)
  show "bucket_value b = sum_list (map snd (filter (\<lambda>(t, v). align_floor t step = bucket_start b) rows))"
    if "b \<in> set (densify starts step rows)" for b
    using that by (auto simp: densify_eq sum_at_def simp del: align_floor.simps)
  assume a: "starts = grid_starts since till step \<and> length starts \<le> MAX_BUCKETS \<and>
    list_all (\<lambda>(t, v). since \<le> t \<and> t < till) rows"
  then have "\<forall>(t, v) \<in> set rows. align_floor t step \<in> set starts"
    using floor_in_grid [of since till step] by (auto simp: list_all_iff simp del: align_floor.simps)
  moreover have "distinct starts" using a grid_sorted [of since till step] by (simp add: strict_sorted_iff)
  ultimately have "sum_list (map (sum_at step rows) starts) = sum_list (map snd rows)"
    by (intro sum_over_starts)
  then show "sum_list (map bucket_value (densify starts step rows)) = sum_list (map snd rows)"
    by (simp add: densify_eq o_def)
qed

section \<open>One bin, and calendar months\<close>

lemma ceil_div_bounds:
  assumes "0 < b"
  shows "a \<le> ceil_div a b * b" and "(ceil_div a b - 1) * b < a"
proof -
  obtain q r where q: "q = (- a) div b" "r = (- a) mod b" by blast
  have "b * q + r = - a" unfolding q by (rule mult_div_mod_eq)
  moreover have "0 \<le> r" "r < b" using assms by (simp_all add: q)
  ultimately show "a \<le> ceil_div a b * b" and "(ceil_div a b - 1) * b < a"
    by (simp_all add: ceil_div_def q(1) [symmetric] algebra_simps)
qed

lemma hours_off_the_day:
  fixes k :: int
  assumes "k mod 24 \<noteq> 0"
  shows "(k * 3600000) mod 86400000 \<noteq> 0"
proof -
  have "(k * 3600000) mod (24 * 3600000) = (k mod 24) * 3600000" by (rule mod_mult_mult2)
  moreover have "24 * 3600000 = (86400000 :: int)" by simp
  moreover have "(k mod 24) * 3600000 \<noteq> 0" using assms by linarith
  ultimately show ?thesis by metis
qed
lemma off_day_hours: "(if h mod 24 = 0 then h + 1 else h) mod 24 \<noteq> (0 :: int)"
  by presburger

fun stride_millis :: "stride \<Rightarrow> int" where
  "stride_millis (Days n) = n * 86400000"
| "stride_millis (Hours n) = n * 3600000"

text \<open>
  The stride of a whole window puts every instant of it into the first bin from the window's
  floor, wastes less than two units, and on an hourly grid that does not start at midnight is
  never a whole number of days.
\<close>

lemma whole_window_parts:
  assumes "whole_window_stride since till step = Some (origin, n)"
  obtains "origin = align_floor since step" "origin < till" "step \<noteq> GHour"
      "n = Days (ceil_div (till - origin) 86400000)"
    | h where "origin = align_floor since step" "origin < till" "step = GHour"
      "n = Hours h" "ceil_div (till - origin) 3600000 \<le> h"
      "origin mod 86400000 \<noteq> 0 \<longrightarrow> h mod 24 \<noteq> 0"
proof -
  define a where "a = align_floor since step"
  define k where "k = max 1 (ceil_div (till - a) 3600000)"
  have r: "(if till - a \<le> 0 then None
     else if step \<noteq> GHour then Some (a, Days (ceil_div (till - a) 86400000))
     else Some (a, Hours (if \<not> a mod 86400000 = 0 \<and> k mod 24 = 0 then k + 1 else k))) = Some (origin, n)"
    using assms unfolding whole_window_stride_def a_def [symmetric] Let_def k_def by simp
  then have pos: "a < till" by (auto split: if_splits)
  show thesis
  proof (cases "step = GHour")
    case False
    have "\<not> till - a \<le> 0" using pos by simp
    then have "Some (a, Days (ceil_div (till - a) 86400000)) = Some (origin, n)"
      using r False by (simp only: if_False if_True simp_thms)
    then have oa: "origin = a" and n: "n = Days (ceil_div (till - a) 86400000)"
      unfolding option.inject prod.inject by (iprover elim: conjE intro: sym)+
    show thesis
    proof (rule that(1))
      show "origin = align_floor since step" unfolding oa a_def ..
      show "origin < till" unfolding oa by (rule pos)
      show "n = Days (ceil_div (till - origin) 86400000)" unfolding oa by (rule n)
    qed (rule False)
  next
    case True
    define h where "h = (if \<not> a mod 86400000 = 0 \<and> k mod 24 = 0 then k + 1 else k)"
    have "\<not> till - a \<le> 0" using pos by simp
    then have "Some (a, Hours h) = Some (origin, n)"
      using r True unfolding h_def by (simp only: if_False if_True simp_thms)
    then have on: "origin = a" "n = Hours h"
      unfolding option.inject prod.inject by (iprover elim: conjE intro: sym)+
    have "ceil_div (till - a) 3600000 \<le> k" unfolding k_def by (rule max.cobounded2)
    then have le: "ceil_div (till - a) 3600000 \<le> h" by (simp add: h_def)
    have off: "a mod 86400000 \<noteq> 0 \<longrightarrow> h mod 24 \<noteq> 0"
      using off_day_hours [of k] by (simp add: h_def)
    show thesis by (rule that(2) [OF _ _ True, of h]) (use on le off pos in \<open>simp_all add: a_def\<close>)
  qed
qed

lemma in_one_bin:
  assumes "till - origin \<le> (w :: int)"
  shows "\<forall>t. origin \<le> t \<and> t < till \<longrightarrow> (t - origin) div w = 0"
proof (intro allI impI)
  fix t
  assume "origin \<le> t \<and> t < till"
  with assms show "(t - origin) div w = 0" by (intro div_pos_pos_trivial) linarith+
qed

lemma whole_window_is_one_bin:
  assumes "whole_window_stride since till step = Some (origin, n)"
  shows "origin = align_floor since step \<and>
         (\<forall>t. origin \<le> t \<and> t < till \<longrightarrow> (t - origin) div stride_millis n = 0) \<and>
         (origin mod 86400000 \<noteq> 0 \<longrightarrow> stride_millis n mod 86400000 \<noteq> 0 \<or> step \<noteq> GHour)"
  using assms
proof (cases rule: whole_window_parts)
  case 1
  have "till - origin \<le> stride_millis n"
    unfolding 1(4) stride_millis.simps by (rule ceil_div_bounds) simp
  then have "\<forall>t. origin \<le> t \<and> t < till \<longrightarrow> (t - origin) div stride_millis n = 0"
    by (rule in_one_bin)
  then show ?thesis using 1(1,3) by blast
next
  case (2 h)
  have "till - origin \<le> ceil_div (till - origin) 3600000 * 3600000" by (rule ceil_div_bounds) simp
  also have "\<dots> \<le> h * 3600000" using 2(5) by simp
  finally have "till - origin \<le> stride_millis n" unfolding 2(4) stride_millis.simps .
  then have "\<forall>t. origin \<le> t \<and> t < till \<longrightarrow> (t - origin) div stride_millis n = 0"
    by (rule in_one_bin)
  moreover have "origin mod 86400000 \<noteq> 0 \<longrightarrow> stride_millis n mod 86400000 \<noteq> 0 \<or> step \<noteq> GHour"
  proof (intro impI disjI1)
    assume "origin mod 86400000 \<noteq> 0"
    then have "h mod 24 \<noteq> 0" using 2(6) by (rule rev_mp)
    then show "stride_millis n mod 86400000 \<noteq> 0"
      unfolding 2(4) stride_millis.simps by (rule hours_off_the_day)
  qed
  ultimately show ?thesis using 2(1) by (intro conjI)
qed

text \<open>Calendar months: whole, contiguous, cut at the window's end only.\<close>

lemma month_spans_cover:
  assumes "s \<in> set (month_spans since till)" and "length (month_spans since till) \<le> MAX_BUCKETS"
  shows "28 \<le> span_days s \<and> span_days s \<le> 31 \<and> span_start s < span_till s \<and>
         span_till s = min (span_start s + span_days s * MS_PER_DAY) till"
proof -
  obtain c where c: "c \<in> set (grid_starts since till GMonth)"
    and s: "s = \<lparr> span_start = c, span_till = instant_min (advance c GMonth) till,
      span_days = (advance c GMonth - c) div 86400000 \<rparr>"
    using assms(1) by (auto simp: month_spans_def Let_def)
  have len: "length (grid_starts since till GMonth) \<le> MAX_BUCKETS" using assms(2) by (simp add: month_spans_def)
  have grid: "on_grid GMonth c" "c < till" using c unfolding grid_set [OF len] by auto
  then have m: "c = month_first (month_number c) * MS_PER_DAY"
    unfolding on_grid_def align_month by simp
  have adv: "advance c GMonth = c + month_days (month_number c) * MS_PER_DAY"
    using advance_month [of "month_number c"] m month_first_Suc [of "month_number c"]
    by (simp add: distrib_right)
  show ?thesis
    unfolding s using adv month_days_bounds [of "month_number c"] grid(2)
    by (auto simp: instant_min_def MS_PER_DAY_def)
qed

end
