(* ===== verification/Plan.thy ===== *)
theory Plan
  imports Analysis Bucketing
begin

text \<open>
  From a port query to the reads of the analytics library: the queries of
  packages/analytics/ports/src/analytics-engine.ts, the constants of
  packages/analytics/adapter-litics/src/config.ts and the planner of plan.ts. The library resolves
  the declared configuration without changing the declared names; a read is the record handed to
  it. Instants are integers, so the checks for an invalid date do not arise.
\<close>

section \<open>Queries\<close>

datatype engine_scope = WorkspaceScope workspace_id | ProjectScope project_id

record engine_query =
  q_scope :: engine_scope
  q_since :: instant
  q_till :: instant
  q_step :: grain
  q_event :: "event_restriction option"
  q_filters :: "(string \<times> string) list"
  q_predicate :: "predicate option"

record series_query = engine_query +
  q_by :: "string option"
  q_whole_window :: bool

datatype by_keys = ByKey string | ByKeys "string list"

record breakdown_query = engine_query +
  bq_by :: by_keys
  bq_order :: sort_direction
  bq_limit :: int

record funnel_query =
  fq_scope :: engine_scope
  fq_since :: instant
  fq_till :: instant
  fq_steps :: "string \<times> string \<times> string"
  fq_within :: "duration option"

section \<open>The configuration\<close>

definition DIMENSION_DEFS :: "string list" where
  "DIMENSION_DEFS =
     [''os_name'', ''os_version'', ''locale'', ''app_version'', ''device_model'', ''sdk_version'', ''country'']"

definition SEGMENT_RETENTION_DAYS :: int where
  "SEGMENT_RETENTION_DAYS = 760"

definition FUNNEL_MAX_DAYS :: int where
  "FUNNEL_MAX_DAYS = 95"

definition INDEXED_DIMENSIONS :: "string list" where
  "INDEXED_DIMENSIONS = ''event_type'' # DIMENSION_DEFS"

definition DECLARED_MEASURES :: "string list" where
  "DECLARED_MEASURES = []"

definition PLANNED_DIMENSIONS :: "string list" where
  "PLANNED_DIMENSIONS =
     map dim_name (filter (\<lambda>d. \<not> dim_collected d \<and> dim_name d \<notin> set INDEXED_DIMENSIONS) DIMENSIONS)"

definition plan_catalog :: dimension_catalog where
  "plan_catalog = field_catalog INDEXED_DIMENSIONS PLANNED_DIMENSIONS"

section \<open>Plans\<close>

record range_query =
  rq_from :: string
  rq_to :: string
  rq_step :: string
  rq_filters :: "(string \<times> event_restriction) list"
  rq_group_by :: "string list"
  rq_scope :: string

record series_plan =
  sp_step :: grain
  sp_starts :: "instant list"
  sp_calls :: "range_query list"
  sp_by :: "string option"

definition refuse :: "string \<Rightarrow> engine_failure + 'p" where
  "refuse detail = err (InvalidQuery detail)"

fun scope_value :: "engine_scope \<Rightarrow> string" where
  "scope_value (WorkspaceScope w) = w"
| "scope_value (ProjectScope p) = p"

text \<open>\<open>{ ...filters, [k]: v }\<close>.\<close>

definition with_member :: "(string \<times> 'v) list \<Rightarrow> string \<Rightarrow> 'v \<Rightarrow> (string \<times> 'v) list" where
  "with_member fs k v =
     (if map_of fs k = None then fs @ [(k, v)]
      else map (\<lambda>(k', w). (k', if k' = k then v else w)) fs)"

definition one_values :: "(string \<times> string) list \<Rightarrow> (string \<times> event_restriction) list" where
  "one_values fs = map (\<lambda>(k, v). (k, OneEvent v)) fs"

fun event_leaf :: "event_restriction \<Rightarrow> predicate" where
  "event_leaf (OneEvent name) = PEq (Dim ''event_type'') (SStr name)"
| "event_leaf (EventSet names) = PIn (Dim ''event_type'') (map SStr names)"

definition plan_filters_of ::
  "event_restriction option \<Rightarrow> (string \<times> string) list \<Rightarrow> engine_failure + (string \<times> event_restriction) list" where
  "plan_filters_of event filters =
     (let leaves = map (\<lambda>(k, v). PEq (field_parse k) (SStr v)) filters
      in if event = Some (EventSet []) then ok (with_member (one_values filters) ''event_type'' (EventSet []))
         else
           (let leaves = (case event of None \<Rightarrow> leaves | Some e \<Rightarrow> event_leaf e # leaves)
            in if leaves = [] then ok []
               else
                 (case classify_predicate plan_catalog (Some (predicate_and leaves)) of
                    Indexed plan _ \<Rightarrow>
                      ok (case plan_event plan of
                            None \<Rightarrow> one_values (plan_filters plan)
                          | Some e \<Rightarrow> with_member (one_values (plan_filters plan)) ''event_type'' e)
                  | answer \<Rightarrow> refuse (describe_answerability answer))))"

definition undeclared_measure :: "string option \<Rightarrow> string option" where
  "undeclared_measure m =
     (case m of
        None \<Rightarrow> None
      | Some name \<Rightarrow>
          if name \<in> set DECLARED_MEASURES then None
          else if length DECLARED_MEASURES = 0
          then Some (''no numeric measure is declared on this deployment, so '' @ [CHR 0x22] @ name @ [CHR 0x22] @
                 '' cannot be summed; measures are can_add facts carried on every event and Counted collects none yet'')
          else Some ([CHR 0x22] @ name @ [CHR 0x22] @ '' is not a declared measure; declared: '' @
                 join_with '', '' DECLARED_MEASURES))"

definition bounds_problem :: "instant \<Rightarrow> instant \<Rightarrow> string option" where
  "bounds_problem since till =
     (if till \<le> since then Some ''the window ends at or before it starts'' else None)"

definition reach :: "instant \<Rightarrow> range_query \<Rightarrow> instant \<Rightarrow> engine_failure + range_query" where
  "reach since query now =
     (let earliest = instant_minus now (duration_days SEGMENT_RETENTION_DAYS)
      in if is_before since earliest
         then refuse (''events are kept '' @ show_int SEGMENT_RETENTION_DAYS @
                '' days and the window starts before that; ask over a shorter window'')
         else ok query)"

definition read_of :: "engine_scope \<Rightarrow> (string \<times> event_restriction) list \<Rightarrow> instant \<Rightarrow> instant \<Rightarrow> string \<Rightarrow> range_query" where
  "read_of scope filters since till step =
     \<lparr> rq_from = instant_to_iso since, rq_to = instant_to_iso till, rq_step = step,
       rq_filters = filters, rq_group_by = [], rq_scope = scope_value scope \<rparr>"

definition plan_series_base :: "'q engine_query_scheme \<Rightarrow> instant \<Rightarrow> bool \<Rightarrow> string option \<Rightarrow> engine_failure + series_plan" where
  "plan_series_base query now can_add m =
     (case bounds_problem (q_since query) (q_till query) of
        Some problem \<Rightarrow> refuse problem
      | None \<Rightarrow>
     (case undeclared_measure m of
        Some problem \<Rightarrow> refuse problem
      | None \<Rightarrow>
     flat_map (plan_filters_of (q_event query) (q_filters query)) (\<lambda>filters.
       let starts = grid_starts (q_since query) (q_till query) (q_step query);
           series = \<lambda>step calls. \<lparr> sp_step = step, sp_starts = starts, sp_calls = calls, sp_by = None \<rparr>;
           call = \<lambda>since till interval. reach since (read_of (q_scope query) filters since till interval) now
       in if length starts > MAX_BUCKETS
          then refuse (''that window at '' @ grain_name (q_step query) @ '' granularity is '' @
                 show_nat (length starts) @ '' buckets, over the '' @ show_nat MAX_BUCKETS @ '' limit'')
          else
            (case starts of
               [] \<Rightarrow> ok (series (q_step query) [])
             | first # _ \<Rightarrow>
                 (case step_interval (q_step query) of
                    Some interval \<Rightarrow>
                      result_map (call first (q_till query) interval) (\<lambda>c. series (q_step query) [c])
                  | None \<Rightarrow>
                      if can_add
                      then result_map (call first (q_till query) ''1 day'') (\<lambda>c. series GMonth [c])
                      else
                        result_map
                          (result_all (map (\<lambda>s. call (span_start s) (span_till s) (show_int (span_days s) @ '' days''))
                             (month_spans (q_since query) (q_till query))))
                          (series GMonth))))))"

definition groupable :: "string \<Rightarrow> string option" where
  "groupable by =
     (case catalog_status plan_catalog by of
        DimPlanned \<Rightarrow> Some (describe_answerability (Unanswerable [DimensionNotCollected by]))
      | DimUnknown \<Rightarrow> Some (describe_answerability (Scan [UndeclaredDimension by]))
      | _ \<Rightarrow> None)"

definition grouped_by :: "string list \<Rightarrow> range_query \<Rightarrow> range_query" where
  "grouped_by keys c = c\<lparr>rq_group_by := keys\<rparr>"

definition split_problem :: "string option \<Rightarrow> string option" where
  "split_problem by = Option.bind by groupable"

text \<open>The one read of a whole window.\<close>

definition whole_window_read :: "'q engine_query_scheme \<Rightarrow> instant \<Rightarrow> engine_failure + instant \<times> range_query" where
  "whole_window_read query now =
     (case whole_window_stride (q_since query) (q_till query) (q_step query) of
        None \<Rightarrow> refuse ''the window ends at or before it starts''
      | Some (origin, n) \<Rightarrow>
          flat_map (plan_filters_of (q_event query) (q_filters query)) (\<lambda>filters.
            result_map
              (reach origin (read_of (q_scope query) filters origin (q_till query) (stride_interval n)) now)
              (Pair origin)))"

definition plan_series :: "'q series_query_scheme \<Rightarrow> instant \<Rightarrow> bool \<Rightarrow> string option \<Rightarrow> engine_failure + series_plan" where
  "plan_series query now can_add m =
     flat_map (plan_series_base query now can_add m) (\<lambda>base.
       case split_problem (q_by query) of
         Some problem \<Rightarrow> refuse problem
       | None \<Rightarrow>
           result_map
             (if q_whole_window query
              then result_map (whole_window_read query now)
                     (\<lambda>(origin, c). \<lparr> sp_step = q_step query, sp_starts = [origin], sp_calls = [c], sp_by = None \<rparr>)
              else ok base)
             (\<lambda>plan. case q_by query of
                None \<Rightarrow> plan
              | Some by \<Rightarrow> plan\<lparr>sp_by := Some by, sp_calls := map (grouped_by [by]) (sp_calls plan)\<rparr>))"

definition plan_sums :: "'q series_query_scheme \<Rightarrow> string \<Rightarrow> instant \<Rightarrow> engine_failure + series_plan" where
  "plan_sums query m now = plan_series query now True (Some m)"

record breakdown_plan =
  bp_by :: "string list"
  bp_order :: sort_direction
  bp_limit :: int
  bp_call :: range_query

fun dimension_names :: "by_keys \<Rightarrow> string list" where
  "dimension_names (ByKey k) = [k]"
| "dimension_names (ByKeys ks) = ks"

definition plan_breakdown :: "'q breakdown_query_scheme \<Rightarrow> instant \<Rightarrow> string option \<Rightarrow> engine_failure + breakdown_plan" where
  "plan_breakdown query now m =
     (case bounds_problem (q_since query) (q_till query) of
        Some problem \<Rightarrow> refuse problem
      | None \<Rightarrow>
     (case undeclared_measure m of
        Some problem \<Rightarrow> refuse problem
      | None \<Rightarrow>
          if bq_limit query < 1
          then refuse (''a breakdown needs a whole-number limit of at least 1, not '' @ show_int (bq_limit query))
          else
            (let keys = dimension_names (bq_by query)
             in if length keys < 1 \<or> length keys > 3 \<or> length (set_order [] keys) \<noteq> length keys
                then refuse ''a breakdown needs one to three distinct properties''
                else
                  (case List.map_filter groupable keys of
                     problem # _ \<Rightarrow> refuse problem
                   | [] \<Rightarrow>
                       flat_map (plan_filters_of (q_event query) (q_filters query)) (\<lambda>_.
                         result_map (whole_window_read query now)
                           (\<lambda>(_, c). \<lparr> bp_by = keys, bp_order = bq_order query, bp_limit = bq_limit query,
                                       bp_call = grouped_by keys c \<rparr>))))))"

record funnel_read =
  fr_from :: string
  fr_to :: string
  fr_within :: "string option"
  fr_scope :: string

definition plan_funnel :: "funnel_query \<Rightarrow> instant \<Rightarrow> engine_failure + (funnel_read \<times> string \<times> string \<times> string)" where
  "plan_funnel query now =
     (case bounds_problem (fq_since query) (fq_till query) of
        Some problem \<Rightarrow> refuse problem
      | None \<Rightarrow>
          (let (a, b, c) = fq_steps query
           in if length (filter (\<lambda>s. length (js_trim s) > 0) [a, b, c]) \<noteq> 3
              then refuse ''a funnel needs three named event types; one of them was blank''
              else if is_before (fq_since query) (instant_minus now (duration_days SEGMENT_RETENTION_DAYS))
              then refuse (''events are kept '' @ show_int SEGMENT_RETENTION_DAYS @
                     '' days and the funnel window starts before that'')
              else if duration_compare (instant_between (fq_since query) (fq_till query)) (duration_days FUNNEL_MAX_DAYS) > 0
              then refuse (''a funnel decodes every event in its window; windows are capped at '' @
                     show_int FUNNEL_MAX_DAYS @ '' days, and this one is longer'')
              else
                ok (\<lparr> fr_from = instant_to_iso (fq_since query), fr_to = instant_to_iso (fq_till query),
                      fr_within =
                        map_option (\<lambda>w. show_int (max 1 ((w + 500) div 1000)) @ '' seconds'') (fq_within query),
                      fr_scope = scope_value (fq_scope query) \<rparr>, a, b, c)))"

section \<open>Facts\<close>

text \<open>The positions of a grid are whole hours, so a window of at most two years has few of them.\<close>

lemma grid_on_hours: "on_grid step t \<Longrightarrow> t mod 3600000 = 0"
proof -
  have days: "(n * MS_PER_DAY) mod 3600000 = 0" for n
  proof -
    have "n * MS_PER_DAY = (24 * n) * 3600000" by (simp add: MS_PER_DAY_def)
    then show ?thesis by (simp only: mod_mult_self2_is_0)
  qed
  assume "on_grid step t"
  then have "t = align_floor t step" by (simp add: on_grid_def)
  then show "t mod 3600000 = 0"
  proof (cases step)
    case GHour
    have "(t - t mod 3600000) mod 3600000 = 0" by (simp add: mod_diff_right_eq)
    then show ?thesis using \<open>t = _\<close> GHour align_hour [of t] by simp
  next
    case GDay
    then show ?thesis using \<open>t = _\<close> align_day [of t] days by metis
  next
    case GWeek
    then show ?thesis using \<open>t = _\<close> align_week [of t] days by metis
  next
    case GMonth
    then show ?thesis using \<open>t = _\<close> align_month [of t] days by metis
  qed
qed

lemma floor_near: "since - 31 * MS_PER_DAY \<le> align_floor since step"
proof -
  have "advance (align_floor since step) step \<le> align_floor since step + 31 * MS_PER_DAY"
  proof (cases step)
    case GMonth
    have "month_first (n + 1) * MS_PER_DAY \<le> month_first n * MS_PER_DAY + 31 * MS_PER_DAY" for n
      using month_first_Suc [of n] month_days_bounds(2) [of n] by (simp add: MS_PER_DAY_def)
    then show ?thesis unfolding GMonth align_month advance_month .
  qed (simp_all add: advance_def MS_PER_DAY_def)
  with align_floor_bounds [of since step] show ?thesis by linarith
qed

lemma card_hours:
  fixes lo hi :: int
  assumes "\<And>t. t \<in> S \<Longrightarrow> t mod 3600000 = 0 \<and> lo \<le> t \<and> t < hi" and "hi \<le> lo + n * 3600000" "0 \<le> n"
  shows "card S \<le> nat (n + 1)"
proof -
  let ?f = "\<lambda>t. t div (3600000 :: int)"
  have q: "t = ?f t * 3600000" if "t \<in> S" for t
    using assms(1) [OF that] div_mult_mod_eq [of t 3600000] by linarith
  then have "inj_on ?f S" by (intro inj_onI) metis
  moreover have "?f ` S \<subseteq> {lo div 3600000 .. lo div 3600000 + n}"
  proof (rule image_subsetI)
    fix t
    assume t: "t \<in> S"
    then have b: "lo \<le> t" "t < lo + n * 3600000" using assms(1) [OF t] assms(2) by auto
    have "lo div 3600000 \<le> t div 3600000" using b(1) by (rule zdiv_mono1) simp
    moreover have "t div 3600000 \<le> (lo + n * 3600000) div 3600000" using b(2) by (intro zdiv_mono1) simp_all
    ultimately show "?f t \<in> {lo div 3600000 .. lo div 3600000 + n}" by simp
  qed
  ultimately have "card S \<le> card {lo div 3600000 .. lo div 3600000 + n}"
    by (intro card_inj_on_le) auto
  then show ?thesis by simp
qed

lemma grid_within: "set (grid_starts since till step) \<subseteq> {s. on_grid step s \<and> align_floor since step \<le> s \<and> s < till}"
  using grid_loop_facts [of step "align_floor since step" "[]" till]
  by (simp add: grid_starts_def del: align_floor.simps)

lemma two_years_fit:
  assumes "till - since \<le> MAX_WINDOW"
  shows "length (grid_starts since till step) \<le> MAX_BUCKETS"
proof -
  let ?S = "set (grid_starts since till step)"
  have "till \<le> align_floor since step + 18264 * 3600000"
    using assms floor_near [of since step]
    by (simp add: MAX_WINDOW_def duration_days_def MS_PER_DAY_def del: align_floor.simps)
  then have "card ?S \<le> nat (18264 + 1)"
    using grid_within [of since till step] grid_on_hours [of step]
    by (intro card_hours [of _ "align_floor since step" till]) (auto simp del: align_floor.simps)
  moreover have "card ?S = length (grid_starts since till step)"
    using grid_sorted [of since till step] by (simp add: distinct_card strict_sorted_iff)
  ultimately show ?thesis by (simp add: MAX_BUCKETS_def)
qed

lemma resolved_span:
  assumes "window_ok w" and "\<forall>amount u. w = Relative amount u \<longrightarrow> resolvable amount u now"
  shows "let (since, till) = resolve_window w now in since < till \<and> till - since \<le> maximum_span w"
proof (cases w)
  case (Relative amount u)
  then show ?thesis using resolve_relative [of amount u now] assms by auto
next
  case (Absolute since till)
  then show ?thesis using assms(1) by (simp add: instant_between_def)
qed

lemma refuse_not [simp]: "refuse d \<noteq> Inr v"
  by (simp add: refuse_def err_def)

lemma result_all_mem: "result_all rs = Inr vs \<Longrightarrow> v \<in> set vs \<Longrightarrow> Inr v \<in> set rs"
proof -
  have "result_all_loop acc rs = Inr vs \<Longrightarrow> v \<in> set vs \<Longrightarrow> v \<in> set acc \<or> Inr v \<in> set rs" for acc
    by (induction acc rs rule: result_all_loop.induct) (auto simp: ok_def err_def split: sum.splits)
  then show "result_all rs = Inr vs \<Longrightarrow> v \<in> set vs \<Longrightarrow> Inr v \<in> set rs"
    by (fastforce simp: result_all_def)
qed

text \<open>What every read of a plan has in common.\<close>

definition sound_read :: "'q engine_query_scheme \<Rightarrow> instant \<Rightarrow> string list \<Rightarrow> range_query \<Rightarrow> bool" where
  "sound_read query now keys c \<longleftrightarrow>
     rq_scope c = scope_value (q_scope query) \<and> rq_group_by c = keys \<and>
     plan_filters_of (q_event query) (q_filters query) = Inr (rq_filters c) \<and>
     (\<exists>t. rq_from c = instant_to_iso t \<and> now - duration_days SEGMENT_RETENTION_DAYS \<le> t)"

lemma reach_sound:
  assumes "reach since (read_of (q_scope query) filters since till interval) now = Inr c"
    and "plan_filters_of (q_event query) (q_filters query) = Inr filters"
  shows "sound_read query now [] c"
  using assms by (auto simp: reach_def read_of_def sound_read_def Let_def time_defs ok_def not_less split: if_splits)

lemma whole_window_sound:
  assumes "whole_window_read query now = Inr (origin, c)"
  shows "sound_read query now [] c"
  using assms reach_sound [where query = query]
  by (auto simp: whole_window_read_def flat_map_Inr result_map_Inr split: option.splits)

lemma base_sound:
  assumes "plan_series_base query now can_add m = Inr plan"
  shows "m = None \<and> q_since query < q_till query \<and> sp_by plan = None \<and>
    sp_starts plan = grid_starts (q_since query) (q_till query) (q_step query) \<and>
    length (sp_starts plan) \<le> MAX_BUCKETS \<and> (\<forall>c \<in> set (sp_calls plan). sound_read query now [] c)"
proof -
  have m: "m = None" and w: "q_since query < q_till query"
    using assms by (auto simp: plan_series_base_def undeclared_measure_def DECLARED_MEASURES_def
        bounds_problem_def split: option.splits if_splits)
  obtain filters where f: "plan_filters_of (q_event query) (q_filters query) = Inr filters"
    using assms by (auto simp: plan_series_base_def flat_map_Inr split: option.splits)
  note sound = reach_sound [where query = query, OF _ f]
  let ?starts = "grid_starts (q_since query) (q_till query) (q_step query)"
  let ?series = "\<lambda>step calls. \<lparr> sp_step = step, sp_starts = ?starts, sp_calls = calls, sp_by = None \<rparr>"
  let ?call = "\<lambda>since till interval. reach since (read_of (q_scope query) filters since till interval) now"
  have len: "length ?starts \<le> MAX_BUCKETS"
    using assms f m w
    by (auto simp: plan_series_base_def flat_map_def bounds_problem_def undeclared_measure_def Let_def split: if_splits)
  have run: "(case ?starts of
               [] \<Rightarrow> ok (?series (q_step query) [])
             | first # _ \<Rightarrow>
                 (case step_interval (q_step query) of
                    Some interval \<Rightarrow>
                      result_map (?call first (q_till query) interval) (\<lambda>c. ?series (q_step query) [c])
                  | None \<Rightarrow>
                      if can_add
                      then result_map (?call first (q_till query) ''1 day'') (\<lambda>c. ?series GMonth [c])
                      else
                        result_map
                          (result_all (map (\<lambda>s. ?call (span_start s) (span_till s) (show_int (span_days s) @ '' days''))
                             (month_spans (q_since query) (q_till query))))
                          (?series GMonth))) = Inr plan"
    using assms f m w len
    by (simp add: plan_series_base_def flat_map_def bounds_problem_def undeclared_measure_def Let_def)
  have "sp_by plan = None \<and> sp_starts plan = ?starts \<and> (\<forall>c \<in> set (sp_calls plan). sound_read query now [] c)"
  proof (cases ?starts)
    case Nil
    then show ?thesis using run by (auto simp: ok_def)
  next
    case (Cons first rest)
    show ?thesis
    proof (cases "step_interval (q_step query)")
      case (Some interval)
      then obtain c where "?call first (q_till query) interval = Inr c" "plan = ?series (q_step query) [c]"
        using run Cons by (auto simp: result_map_Inr)
      then show ?thesis using sound by auto
    next
      case N: None
      show ?thesis
      proof (cases can_add)
        case True
        then obtain c where "?call first (q_till query) ''1 day'' = Inr c" "plan = ?series GMonth [c]"
          using run Cons N by (auto simp: result_map_Inr)
        then show ?thesis using sound by auto
      next
        case False
        then obtain cs where cs: "result_all (map (\<lambda>s. ?call (span_start s) (span_till s) (show_int (span_days s) @ '' days''))
              (month_spans (q_since query) (q_till query))) = Inr cs" and plan: "plan = ?series GMonth cs"
          using run Cons N by (auto simp: result_map_Inr)
        have "sound_read query now [] c" if "c \<in> set cs" for c
          using result_all_mem [OF cs that] sound by auto
        then show ?thesis using plan by simp
      qed
    qed
  qed
  then show ?thesis using m w len by simp
qed

lemma groupable_None: "groupable k = None \<longleftrightarrow> k \<in> set INDEXED_DIMENSIONS"
proof -
  have "cat_scanned plan_catalog = []" "cat_indexed plan_catalog = INDEXED_DIMENSIONS"
    by (simp_all add: plan_catalog_def field_catalog_def)
  then show ?thesis by (auto simp: groupable_def catalog_status_def)
qed

lemma split_problem_None: "split_problem by = None \<longleftrightarrow> (\<forall>k. by = Some k \<longrightarrow> k \<in> set INDEXED_DIMENSIONS)"
  by (cases "by") (simp_all add: split_problem_def groupable_None)

section \<open>Properties\<close>

text \<open>
  C35. A question that passed validation always fits the engine's grid: its window, resolved
  against any instant, is not empty, is no longer than its stated maximum, and at every step has
  at most the ceiling of 20,000 buckets, so the planner's refusal of an oversized grid never
  meets a validated question.
\<close>

theorem validated_questions_fit_the_grid:
  assumes "analysis_validate a = Inr a"
    and "\<forall>amount u. analysis_window a = Relative amount u \<longrightarrow> resolvable amount u now"
  shows "let (since, till) = resolve_window (analysis_window a) now
         in since < till \<and> till - since \<le> maximum_span (analysis_window a) \<and>
            (\<forall>step. length (grid_starts since till step) \<le> MAX_BUCKETS)"
proof -
  have q: "question_ok a" and m: "maximum_span (analysis_window a) \<le> MAX_WINDOW"
    using assms(1) validate_ok [of a a] by simp_all
  have "window_ok (analysis_window a)" using q by (cases a) (simp_all add: metric_ok_def)
  from resolved_span [OF this assms(2)] m two_years_fit show ?thesis
    by (auto simp: Let_def split: prod.splits intro: order_trans)
qed

theorem validated_questions_fit_the_grid_witness:
  "let a = SeriesOf \<lparr> met_measure = CountEvents, met_where = None, met_window = Relative 730 UDay \<rparr> GHour None None
   in \<exists>since. resolve_window (analysis_window a) 1709210096789 = (since, 1709210096789) \<and>
        length (grid_starts since 1709210096789 GHour) \<le> MAX_BUCKETS"
proof -
  let ?a = "SeriesOf \<lparr> met_measure = CountEvents, met_where = None, met_window = Relative 730 UDay \<rparr> GHour None None"
  have "analysis_validate ?a = Inr ?a" by code_simp
  from validated_questions_fit_the_grid [OF this, of 1709210096789] show ?thesis
    by (simp add: Let_def resolvable_def split: prod.splits)
qed

text \<open>
  Every read of a planned series is one the deployment can answer in full: no measure is
  summed, the window is not empty and has at most the ceiling of buckets, each read starts inside
  the retained period and carries the query's own scope, the planned filters and exactly the
  requested split, which is an indexed dimension; a whole-window query is a single read onto a
  single bucket, and every other series that may be added up is at most one read.
\<close>

theorem planned_series_is_answerable:
  assumes "plan_series query now can_add m = Inr plan"
  shows "m = None \<and> q_since query < q_till query \<and> length (sp_starts plan) \<le> MAX_BUCKETS \<and>
         (\<forall>k. q_by query = Some k \<longrightarrow> k \<in> set INDEXED_DIMENSIONS) \<and>
         (\<forall>c \<in> set (sp_calls plan).
            sound_read query now (case q_by query of None \<Rightarrow> [] | Some k \<Rightarrow> [k]) c) \<and>
         (if q_whole_window query
          then length (sp_calls plan) = 1 \<and> sp_starts plan = [align_floor (q_since query) (q_step query)]
          else sp_starts plan = grid_starts (q_since query) (q_till query) (q_step query))"
proof -
  obtain base where base: "plan_series_base query now can_add m = Inr base"
    and sp: "split_problem (q_by query) = None"
    using assms by (auto simp: plan_series_def flat_map_Inr split: option.splits)
  note b = base_sound [OF base]
  define with_split where "with_split = (\<lambda>plan :: series_plan. case q_by query of None \<Rightarrow> plan
      | Some k \<Rightarrow> plan\<lparr>sp_by := Some k, sp_calls := map (grouped_by [k]) (sp_calls plan)\<rparr>)"
  have grouped: "sound_read query now [k] (grouped_by [k] c)" if "sound_read query now [] c" for k c
    using that by (simp add: sound_read_def grouped_by_def)
  have plan: "result_map (if q_whole_window query
      then result_map (whole_window_read query now)
             (\<lambda>(origin, c). \<lparr> sp_step = q_step query, sp_starts = [origin], sp_calls = [c], sp_by = None \<rparr>)
      else ok base) with_split = Inr plan"
    using assms base sp by (simp add: plan_series_def flat_map_def with_split_def)
  have lift: "sp_starts (with_split p) = sp_starts p \<and> length (sp_calls (with_split p)) = length (sp_calls p) \<and>
      ((\<forall>c \<in> set (sp_calls p). sound_read query now [] c) \<longrightarrow>
       (\<forall>c \<in> set (sp_calls (with_split p)). sound_read query now (case q_by query of None \<Rightarrow> [] | Some k \<Rightarrow> [k]) c))" for p
    using grouped by (cases "q_by query") (auto simp: with_split_def)
  show ?thesis
  proof (cases "q_whole_window query")
    case True
    then obtain origin c where w: "whole_window_read query now = Inr (origin, c)"
      and p: "plan = with_split \<lparr> sp_step = q_step query, sp_starts = [origin], sp_calls = [c], sp_by = None \<rparr>"
      using plan by (auto simp: result_map_Inr)
    have o: "origin = align_floor (q_since query) (q_step query)"
      using w by (auto simp: whole_window_read_def flat_map_Inr result_map_Inr split: option.splits
          dest!: whole_window_is_one_bin)
    show ?thesis
      using b lift [of "\<lparr> sp_step = q_step query, sp_starts = [origin], sp_calls = [c], sp_by = None \<rparr>"]
        whole_window_sound [OF w] sp True
      unfolding p o split_problem_None by (simp add: MAX_BUCKETS_def del: align_floor.simps)
  next
    case False
    then have p: "plan = with_split base" using plan by (simp add: result_map_def ok_def)
    have len: "length (grid_starts (q_since query) (q_till query) (q_step query)) \<le> MAX_BUCKETS"
      using b by metis
    show ?thesis
      using b len lift [of base] sp False unfolding p split_problem_None by simp
  qed
qed

theorem planned_series_is_answerable_witness:
  "let query = \<lparr> q_scope = ProjectScope ''p1'', q_since = 5400000, q_till = 10800000, q_step = GHour,
             q_event = Some (EventSet [''buy'', ''cart'']), q_filters = [(''country'', ''SE'')], q_predicate = None,
             q_by = Some ''os_name'', q_whole_window = False \<rparr>
   in \<exists>plan. plan_series query 86400000 True None = Inr plan \<and> sp_starts plan = [3600000, 7200000] \<and>
        (\<forall>c \<in> set (sp_calls plan). rq_scope c = ''p1'' \<and> rq_group_by c = [''os_name''])"
proof -
  let ?query = "\<lparr> q_scope = ProjectScope ''p1'', q_since = 5400000, q_till = 10800000, q_step = GHour,
             q_event = Some (EventSet [''buy'', ''cart'']), q_filters = [(''country'', ''SE'')], q_predicate = None,
             q_by = Some ''os_name'', q_whole_window = False \<rparr>"
  have g: "grid_starts 5400000 10800000 GHour = [3600000, 7200000]" by code_simp
  have f: "plan_filters_of (Some (EventSet [''buy'', ''cart''])) [(''country'', ''SE'')] =
      Inr [(''country'', OneEvent ''SE''), (''event_type'', EventSet [''buy'', ''cart''])]" by code_simp
  have k: "groupable ''os_name'' = None" by code_simp
  obtain plan where p: "plan_series ?query 86400000 True None = Inr plan"
    by (simp add: plan_series_def plan_series_base_def bounds_problem_def undeclared_measure_def flat_map_def
        split_problem_def f g k reach_def result_map_def ok_def time_defs Let_def
        MAX_BUCKETS_def SEGMENT_RETENTION_DAYS_def)
  from planned_series_is_answerable [OF p] g have "sp_starts plan = [3600000, 7200000] \<and>
      (\<forall>c \<in> set (sp_calls plan). rq_scope c = ''p1'' \<and> rq_group_by c = [''os_name''])"
    by (simp add: sound_read_def)
  with p show ?thesis by (auto simp: Let_def)
qed

end
