(* ===== verification/RawReads.thy ===== *)
theory RawReads
  imports Plan "HOL-Library.Product_Lexorder"
begin

text \<open>
  Exact answers from raw events, packages/analytics/adapter-litics/src/raw.ts: the text of a value,
  which events a query includes, and the series, breakdown and funnel computed from them. Two
  things the language leaves to its host are arguments: \<open>native\<close>, the text of a built-in function,
  and \<open>collate\<close>, the rank \<open>localeCompare\<close> orders by.
\<close>

section \<open>Text of a value\<close>

definition hex_digit :: "nat \<Rightarrow> char" where
  "hex_digit d = (if d < 10 then char_of (48 + d) else char_of (87 + d))"

definition json_escape :: "char \<Rightarrow> string" where
  "json_escape c =
     (let n = of_char c :: nat
      in if c = CHR 0x22 then [CHR 0x5C, CHR 0x22]
         else if c = CHR 0x5C then [CHR 0x5C, CHR 0x5C]
         else if n = 8 then [CHR 0x5C, CHR ''b'']
         else if n = 9 then [CHR 0x5C, CHR ''t'']
         else if n = 10 then [CHR 0x5C, CHR ''n'']
         else if n = 12 then [CHR 0x5C, CHR ''f'']
         else if n = 13 then [CHR 0x5C, CHR ''r'']
         else if n < 32 then [CHR 0x5C, CHR ''u'', CHR ''0'', CHR ''0'', hex_digit (n div 16), hex_digit (n mod 16)]
         else [c])"

definition json_quote :: "string \<Rightarrow> string" where
  "json_quote s = [CHR 0x22] @ concat (map json_escape s) @ [CHR 0x22]"

text \<open>\<open>JSON.stringify\<close>.\<close>

fun json_text :: "json \<Rightarrow> string" where
  "json_text JUndefined = ''null''"
| "json_text JNull = ''null''"
| "json_text (JBool b) = (if b then ''true'' else ''false'')"
| "json_text (JNum n) = show_int n"
| "json_text JInfinite = ''null''"
| "json_text (JStr s) = json_quote s"
| "json_text (JArr vs) = ''['' @ join_with '','' (map json_text vs) @ '']''"
| "json_text (JObj kvs) =
     ''{'' @ join_with '',''
       (map (\<lambda>(k, v). json_quote k @ '':'' @ json_text v) (filter (\<lambda>(k, v). v \<noteq> JUndefined) kvs)) @ ''}''"

text \<open>\<open>String(value)\<close>, with objects through \<open>JSON.stringify\<close>; a missing value has no text.\<close>

fun text_of :: "(string \<Rightarrow> string) \<Rightarrow> raw_value \<Rightarrow> string option" where
  "text_of native (RawInherited k) = Some (if k = ''__proto__'' then ''{}'' else native k)"
| "text_of native (RawJson JUndefined) = None"
| "text_of native (RawJson JNull) = None"
| "text_of native (RawJson (JStr s)) = Some s"
| "text_of native (RawJson JInfinite) = Some ''Infinity''"
| "text_of native (RawJson v) = Some (json_text v)"

definition dimension_value :: "(string \<times> string option) list \<Rightarrow> string \<Rightarrow> raw_value" where
  "dimension_value ds k =
     (case map_of ds k of
        Some (Some v) \<Rightarrow> RawJson (JStr v)
      | Some None \<Rightarrow> RawJson JNull
      | None \<Rightarrow> if k \<in> set INHERITED_NAMES then RawInherited k else RawJson JUndefined)"

definition value_at :: "(string \<Rightarrow> string) \<Rightarrow> raw_event \<Rightarrow> string \<Rightarrow> string option" where
  "value_at native e key =
     text_of native
       (if prefix ''property:'' key then field_value e (Prop (drop 9 key))
        else dimension_value (raw_dimensions e) key)"

section \<open>Which events a query includes\<close>

definition needs_raw :: "'q engine_query_scheme \<Rightarrow> string list \<Rightarrow> bool" where
  "needs_raw query keys = (q_predicate query \<noteq> None \<or> list_ex (prefix ''property:'') keys)"

text \<open>\<open>includes\<close> on the event's type: an absent type is no name.\<close>

definition type_in :: "raw_event \<Rightarrow> event_restriction \<Rightarrow> bool" where
  "type_in e r =
     (let names = (case r of OneEvent n \<Rightarrow> [n] | EventSet ns \<Rightarrow> ns)
      in case map_of (raw_dimensions e) ''event_type'' of
           Some (Some n) \<Rightarrow> n \<in> set names
         | _ \<Rightarrow> False)"

definition included :: "(string \<Rightarrow> string) \<Rightarrow> 'q engine_query_scheme \<Rightarrow> raw_event \<Rightarrow> bool" where
  "included native query e =
     ((case q_predicate query of None \<Rightarrow> True | Some p \<Rightarrow> matches e p) \<and>
      (case q_event query of None \<Rightarrow> True | Some r \<Rightarrow> type_in e r) \<and>
      list_all (\<lambda>(k, v). value_at native e k = Some v) (q_filters query))"

section \<open>Series\<close>

record raw_bucket =
  rb_n :: nat
  rb_actors :: "string set"

definition empty_bucket :: raw_bucket where
  "empty_bucket = \<lparr> rb_n = 0, rb_actors = {} \<rparr>"

text \<open>The binary search: how many edges are at or before an instant.\<close>

function search :: "instant list \<Rightarrow> instant \<Rightarrow> nat \<Rightarrow> nat \<Rightarrow> nat" where
  "search edges ts lo hi =
     (if lo < hi
      then (let mid = (lo + hi) div 2
            in if edges ! mid \<le> ts then search edges ts (mid + 1) hi else search edges ts lo mid)
      else lo)"
  by pat_completeness auto
termination
  by (relation "measure (\<lambda>(edges, ts, lo, hi). hi - lo)") auto

declare search.simps [simp del]

definition hit :: "bool \<Rightarrow> raw_event \<Rightarrow> raw_bucket \<Rightarrow> raw_bucket" where
  "hit uniq e b =
     \<lparr> rb_n = rb_n b + 1,
       rb_actors = (if uniq then insert (raw_actor e) (rb_actors b) else rb_actors b) \<rparr>"

datatype scan_limit = ScanLimit string

definition MAX_CELLS :: nat where
  "MAX_CELLS = 100000"

definition split_key :: "'q series_query_scheme \<Rightarrow> string option" where
  "split_key query = (case q_by query of Some k \<Rightarrow> if k = [] then None else Some k | None \<Rightarrow> None)"

definition series_edges :: "'q series_query_scheme \<Rightarrow> instant list" where
  "series_edges query =
     (let starts = grid_starts (q_since query) (q_till query) (q_step query)
      in if q_whole_window query then take 1 starts else starts)"

definition group_of :: "(string \<Rightarrow> string) \<Rightarrow> 'q series_query_scheme \<Rightarrow> raw_event \<Rightarrow> string option" where
  "group_of native query e =
     (case split_key query of None \<Rightarrow> None | Some k \<Rightarrow> value_at native e k)"

definition series_step ::
  "(string \<Rightarrow> string) \<Rightarrow> 'q series_query_scheme \<Rightarrow> bool \<Rightarrow> instant list \<Rightarrow> raw_event \<Rightarrow>
   (string option \<times> raw_bucket list) list \<Rightarrow> scan_limit + (string option \<times> raw_bucket list) list" where
  "series_step native query uniq edges e groups =
     (if \<not> included native query e then ok groups
      else
        (let key = group_of native query e
         in if map_of groups key = None \<and> (length groups + 1) * length edges > MAX_CELLS
            then err (ScanLimit ''This property split has too many groups and time intervals. Choose a coarser interval or filter the property.'')
            else
              (let buckets = (case map_of groups key of
                                Some bs \<Rightarrow> bs | None \<Rightarrow> replicate (length edges) empty_bucket);
                   lo = search edges (raw_ts e) 0 (length edges)
               in if lo = 0 then ok groups
                  else ok (map_put key (buckets[lo - 1 := hit uniq e (buckets ! (lo - 1))]) groups))))"

fun series_loop ::
  "(string \<Rightarrow> string) \<Rightarrow> 'q series_query_scheme \<Rightarrow> bool \<Rightarrow> instant list \<Rightarrow> raw_event list \<Rightarrow>
   (string option \<times> raw_bucket list) list \<Rightarrow> scan_limit + (string option \<times> raw_bucket list) list" where
  "series_loop native query uniq edges [] groups = ok groups"
| "series_loop native query uniq edges (e # es) groups =
     flat_map (series_step native query uniq edges e groups) (series_loop native query uniq edges es)"

definition bucket_count :: "bool \<Rightarrow> raw_bucket \<Rightarrow> rat" where
  "bucket_count uniq b = of_nat (if uniq then card (rb_actors b) else rb_n b)"

definition drawn :: "bool \<Rightarrow> instant list \<Rightarrow> raw_bucket list \<Rightarrow> bucket list" where
  "drawn uniq edges bs =
     map (\<lambda>(t, b). \<lparr> bucket_start = t, bucket_value = bucket_count uniq b \<rparr>) (zip edges bs)"

definition raw_series ::
  "(string \<Rightarrow> string) \<Rightarrow> raw_event list \<Rightarrow> 'q series_query_scheme \<Rightarrow> bool \<Rightarrow> scan_limit + series" where
  "raw_series native events query uniq =
     (let edges = series_edges query;
          start = (if split_key query = None then [(None, replicate (length edges) empty_bucket)] else [])
      in result_map (series_loop native query uniq edges events start)
           (\<lambda>groups.
              let values = map (\<lambda>(k, bs). (k, drawn uniq edges bs)) groups
              in if split_key query \<noteq> None
                 then \<lparr> series_buckets = [], series_groups = Some values \<rparr>
                 else \<lparr> series_buckets = (case values of [] \<Rightarrow> [] | v # _ \<Rightarrow> snd v), series_groups = None \<rparr>))"

section \<open>Breakdowns\<close>

record breakdown_entry =
  be_key :: "string option"
  be_keys :: "string option list option"
  be_value :: nat

fun key_json :: "string option \<Rightarrow> json" where
  "key_json None = JNull"
| "key_json (Some s) = JStr s"

definition tuple_text :: "string option list \<Rightarrow> string" where
  "tuple_text ks = json_text (JArr (map key_json ks))"

record raw_group =
  rg_keys :: "string option list"
  rg_bucket :: raw_bucket

definition breakdown_step ::
  "(string \<Rightarrow> string) \<Rightarrow> 'q breakdown_query_scheme \<Rightarrow> bool \<Rightarrow> raw_event \<Rightarrow>
   (string \<times> raw_group) list \<Rightarrow> (string \<times> raw_group) list" where
  "breakdown_step native query uniq e groups =
     (if \<not> included native query e then groups
      else
        (let keys = map (value_at native e) (dimension_names (bq_by query));
             key = tuple_text keys;
             g = (case map_of groups key of
                    Some g \<Rightarrow> g | None \<Rightarrow> \<lparr> rg_keys = keys, rg_bucket = empty_bucket \<rparr>)
         in map_put key (g\<lparr>rg_bucket := hit uniq e (rg_bucket g)\<rparr>) groups))"

definition entry_of :: "bool \<Rightarrow> raw_group \<Rightarrow> breakdown_entry" where
  "entry_of uniq g =
     \<lparr> be_key = (if length (rg_keys g) = 1 then hd (rg_keys g) else Some (tuple_text (rg_keys g))),
       be_keys = (if length (rg_keys g) > 1 then Some (rg_keys g) else None),
       be_value = (if uniq then card (rb_actors (rg_bucket g)) else rb_n (rg_bucket g)) \<rparr>"

definition rank_key :: "(string \<Rightarrow> 'k :: linorder) \<Rightarrow> sort_direction \<Rightarrow> breakdown_entry \<Rightarrow> int \<times> 'k" where
  "rank_key collate d b =
     (if d = Desc then - int (be_value b) else int (be_value b),
      collate (case be_key b of None \<Rightarrow> [] | Some k \<Rightarrow> k))"

definition raw_breakdown ::
  "(string \<Rightarrow> string) \<Rightarrow> (string \<Rightarrow> 'k :: linorder) \<Rightarrow> raw_event list \<Rightarrow> 'q breakdown_query_scheme \<Rightarrow> bool \<Rightarrow> breakdown_entry list" where
  "raw_breakdown native collate events query uniq =
     (let groups = fold (breakdown_step native query uniq) events []
      in take (nat (bq_limit query))
           (sort_key (rank_key collate (bq_order query)) (map (entry_of uniq \<circ> snd) groups)))"

section \<open>Funnels\<close>

record funnel_walk =
  fw_actor :: "string option"
  fw_stage :: nat
  fw_previous :: instant
  fw_deadline :: instant
  fw_counts :: "nat list"

fun step_names :: "funnel_query \<Rightarrow> string list" where
  "step_names query = (let (a, b, c) = fq_steps query in [a, b, c])"

definition event_name :: "raw_event \<Rightarrow> string option" where
  "event_name e = (case map_of (raw_dimensions e) ''event_type'' of Some n \<Rightarrow> n | None \<Rightarrow> None)"

definition walk_step :: "funnel_query \<Rightarrow> raw_event \<Rightarrow> funnel_walk \<Rightarrow> funnel_walk" where
  "walk_step query e w =
     (let w = (if fw_actor w \<noteq> Some (raw_actor e)
               then w\<lparr>fw_actor := Some (raw_actor e), fw_stage := 0\<rparr> else w);
          window = (case fq_within query of Some d \<Rightarrow> d | None \<Rightarrow> duration_days 7)
      in if fw_stage w = 3 \<or> event_name e \<noteq> Some (step_names query ! fw_stage w) then w
         else if fw_stage w > 0 \<and> (raw_ts e \<le> fw_previous w \<or> raw_ts e \<ge> fw_deadline w) then w
         else w\<lparr>fw_deadline := (if fw_stage w = 0 then min (fq_till query) (raw_ts e + window) else fw_deadline w),
                 fw_counts := (fw_counts w)[fw_stage w := fw_counts w ! fw_stage w + 1],
                 fw_previous := raw_ts e, fw_stage := fw_stage w + 1\<rparr>)"

definition funnel_events :: "(string \<Rightarrow> 'k :: linorder) \<Rightarrow> raw_event list \<Rightarrow> funnel_query \<Rightarrow> raw_event list" where
  "funnel_events collate events query =
     sort_key (\<lambda>e. (collate (raw_actor e), raw_ts e))
       (filter (\<lambda>e. (case event_name e of None \<Rightarrow> [] | Some n \<Rightarrow> n) \<in> set (step_names query)) events)"

definition raw_funnel :: "(string \<Rightarrow> 'k :: linorder) \<Rightarrow> raw_event list \<Rightarrow> funnel_query \<Rightarrow> nat list" where
  "raw_funnel collate events query =
     fw_counts (fold (walk_step query) (funnel_events collate events query)
       \<lparr> fw_actor = None, fw_stage = 0, fw_previous = 0, fw_deadline = 0, fw_counts = [0, 0, 0] \<rparr>)"

section \<open>Facts: the search and the groups\<close>

lemma search_spec:
  assumes "lo \<le> hi" "hi \<le> length edges" "sorted_wrt (<) edges"
    and "\<forall>i < lo. edges ! i \<le> ts" "\<forall>i. hi \<le> i \<and> i < length edges \<longrightarrow> ts < edges ! i"
  shows "search edges ts lo hi \<le> length edges \<and> (\<forall>i < search edges ts lo hi. edges ! i \<le> ts) \<and>
    (\<forall>i. search edges ts lo hi \<le> i \<and> i < length edges \<longrightarrow> ts < edges ! i)"
  using assms
proof (induction edges ts lo hi rule: search.induct)
  case (1 edges ts lo hi)
  show ?case
  proof (cases "lo < hi")
    case False
    then have "search edges ts lo hi = lo" by (subst search.simps) (rule if_not_P)
    moreover have "lo = hi" using 1(3) False by simp
    ultimately have "search edges ts lo hi = lo" "lo = hi" .
    then show ?thesis using 1(4-7) by simp
  next
    case True
    define mid where "mid = (lo + hi) div 2"
    have mid: "lo \<le> mid" "mid < hi" using True by (auto simp: mid_def)
    have mono: "edges ! i \<le> edges ! j" if "i \<le> j" "j < length edges" for i j
      using 1(5) that by (cases "i = j") (auto simp: sorted_wrt_iff_nth_less less_imp_le)
    show ?thesis
    proof (cases "edges ! mid \<le> ts")
      case le: True
      have run: "search edges ts lo hi = search edges ts (mid + 1) hi"
        using True le by (simp add: search.simps [of edges ts lo] mid_def Let_def)
      have "edges ! i \<le> ts" if "i < mid + 1" for i
        using mono [of i mid] mid le 1(4) that by simp
      then have low: "\<forall>i < mid + 1. edges ! i \<le> ts" by simp
      show ?thesis unfolding run
        by (rule 1(1) [OF True mid_def le _ 1(4) 1(5) low 1(7)]) (use mid in simp)
    next
      case gt: False
      have run: "search edges ts lo hi = search edges ts lo mid"
        using True gt by (simp add: search.simps [of edges ts lo] mid_def Let_def)
      have "ts < edges ! i" if "mid \<le> i" "i < length edges" for i
        using mono [of mid i] gt that by simp
      then have high: "\<forall>i. mid \<le> i \<and> i < length edges \<longrightarrow> ts < edges ! i" by simp
      show ?thesis unfolding run
        by (rule 1(2) [OF True mid_def gt _ _ 1(5) 1(6) high]) (use mid 1(4) in simp_all)
    qed
  qed
qed

abbreviation slot :: "instant list \<Rightarrow> raw_event \<Rightarrow> nat" where
  "slot edges e \<equiv> search edges (raw_ts e) 0 (length edges)"

lemma slot_spec:
  assumes "sorted_wrt (<) edges"
  shows "slot edges e \<le> length edges"
    and "i < length edges \<Longrightarrow> edges ! i \<le> raw_ts e \<longleftrightarrow> i < slot edges e"
proof -
  note f = search_spec [of 0 "length edges" edges "raw_ts e"]
  show "slot edges e \<le> length edges" using f assms by simp
  show "edges ! i \<le> raw_ts e \<longleftrightarrow> i < slot edges e" if "i < length edges"
    using f assms that by (meson le0 not_le order_refl)
qed

declare map_of_map_put [simp]

text \<open>What a bucket holds after some events landed in it.\<close>

definition tally :: "bool \<Rightarrow> raw_event list \<Rightarrow> raw_bucket" where
  "tally uniq es = \<lparr> rb_n = length es, rb_actors = (if uniq then raw_actor ` set es else {}) \<rparr>"

lemma tally_simps [simp]:
  "empty_bucket = tally uniq []" "hit uniq e (tally uniq es) = tally uniq (es @ [e])"
  by (simp_all add: tally_def empty_bucket_def hit_def)

definition landed ::
  "(string \<Rightarrow> string) \<Rightarrow> 'q series_query_scheme \<Rightarrow> instant list \<Rightarrow> raw_event list \<Rightarrow> string option \<Rightarrow> nat \<Rightarrow> raw_event list" where
  "landed native query edges P k i =
     filter (\<lambda>e. included native query e \<and> group_of native query e = k \<and> slot edges e = Suc i) P"

definition tallied ::
  "(string \<Rightarrow> string) \<Rightarrow> 'q series_query_scheme \<Rightarrow> bool \<Rightarrow> instant list \<Rightarrow> raw_event list \<Rightarrow>
   (string option \<times> raw_bucket list) list \<Rightarrow> bool" where
  "tallied native query uniq edges P groups \<longleftrightarrow>
     distinct (map fst groups) \<and>
     (\<forall>k bs. map_of groups k = Some bs \<longrightarrow>
        bs = map (\<lambda>i. tally uniq (landed native query edges P k i)) [0..<length edges]) \<and>
     (\<forall>k. map_of groups k = None \<longrightarrow> (\<forall>i. landed native query edges P k i = [])) \<and>
     (split_key query = None \<longrightarrow> map fst groups = [None]) \<and>
     (split_key query \<noteq> None \<longrightarrow> (\<forall>k. map_of groups k \<noteq> None \<longrightarrow> (\<exists>i. landed native query edges P k i \<noteq> [])))"

lemma series_step_tallied:
  assumes "tallied native query uniq edges P groups" "sorted_wrt (<) edges"
    and "series_step native query uniq edges e groups = Inr groups'"
  shows "tallied native query uniq edges (P @ [e]) groups'"
proof (cases "included native query e \<and> slot edges e \<noteq> 0")
  case False
  have "landed native query edges (P @ [e]) k i = landed native query edges P k i" for k i
    using False by (auto simp: landed_def)
  moreover have "groups' = groups"
    using assms(3) False by (auto simp: series_step_def Let_def ok_def err_def split: if_splits)
  ultimately show ?thesis using assms(1) by (simp add: tallied_def)
next
  case True
  let ?k = "group_of native query e"
  obtain j where j: "slot edges e = Suc j" using True by (cases "slot edges e") auto
  then have jn: "j < length edges" using slot_spec(1) [OF assms(2), of e] by simp
  define bs where "bs = (case map_of groups ?k of Some bs \<Rightarrow> bs | None \<Rightarrow> replicate (length edges) empty_bucket)"
  have bs: "bs = map (\<lambda>i. tally uniq (landed native query edges P ?k i)) [0..<length edges]"
  proof (cases "map_of groups ?k")
    case None
    then have "\<forall>i. landed native query edges P ?k i = []" using assms(1) by (simp add: tallied_def)
    then show ?thesis using None by (simp add: bs_def map_replicate_const tally_simps(1) [of uniq])
  next
    case (Some b)
    then show ?thesis using assms(1) by (simp add: bs_def tallied_def)
  qed
  have g': "groups' = map_put ?k (bs[j := hit uniq e (bs ! j)]) groups"
    using assms(3) True j by (auto simp: series_step_def Let_def ok_def err_def bs_def split: if_splits)
  have new: "landed native query edges (P @ [e]) k i =
      (if k = ?k \<and> i = j then landed native query edges P k i @ [e] else landed native query edges P k i)" for k i
    using True j by (auto simp: landed_def)
  have upd: "bs[j := hit uniq e (bs ! j)] =
      map (\<lambda>i. tally uniq (landed native query edges (P @ [e]) ?k i)) [0..<length edges]"
    unfolding bs using jn by (intro nth_equalityI) (auto simp: new nth_list_update)
  have unsplit: "?k = None" if "split_key query = None" using that by (simp add: group_of_def)
  have keys: "fst ` set groups = {k. map_of groups k \<noteq> None}" by (simp add: dom_map_of_conv_image_fst [symmetric] dom_def)
  show ?thesis
    using assms(1) unfolding g' upd tallied_def
    by (auto simp: new keys_map_put keys unsplit)
qed

lemma series_loop_tallied:
  assumes "tallied native query uniq edges P groups" "sorted_wrt (<) edges"
    and "series_loop native query uniq edges es groups = Inr groups'"
  shows "tallied native query uniq edges (P @ es) groups'"
  using assms(1,3)
proof (induction es arbitrary: P groups)
  case (Cons e es)
  then obtain mid where "series_step native query uniq edges e groups = Inr mid"
    "series_loop native query uniq edges es mid = Inr groups'"
    by (auto simp: flat_map_Inr)
  then show ?case
    using Cons.IH [of "P @ [e]" mid] series_step_tallied [OF Cons.prems(1) assms(2)] by simp
qed (simp add: ok_def)

lemma series_loop_unsplit:
  assumes "split_key query = None" "map fst groups = [None]"
  shows "\<exists>g. series_loop native query uniq edges es groups = Inr g"
  using assms(2)
proof (induction es arbitrary: groups)
  case (Cons e es)
  have k: "group_of native query e = None" using assms(1) by (simp add: group_of_def)
  obtain bs where g: "groups = [(None, bs)]" using Cons.prems by (cases groups) auto
  have step: "series_step native query uniq edges e groups =
      Inr (if included native query e \<and> slot edges e \<noteq> 0
           then [(None, bs[slot edges e - 1 := hit uniq e (bs ! (slot edges e - 1))])] else groups)"
    unfolding g series_step_def k Let_def ok_def by simp
  show ?case unfolding series_loop.simps step flat_map_def sum.case by (rule Cons.IH) (simp add: g)
qed (simp add: ok_def)

section \<open>Facts: what the planner sends and what a scan includes\<close>

text \<open>The documented meaning of a read's filter: the stored dimension is one of the names.\<close>

definition selects :: "raw_event \<Rightarrow> string \<Rightarrow> event_restriction \<Rightarrow> bool" where
  "selects e k r =
     (\<exists>v \<in> set (case r of OneEvent n \<Rightarrow> [n] | EventSet ns \<Rightarrow> ns). map_of (raw_dimensions e) k = Some (Some v))"

lemma field_value_is: "field_value e (Dim k) = RawJson (JStr v) \<longleftrightarrow> map_of (raw_dimensions e) k = Some (Some v)"
  by (auto split: option.splits)

lemma selects_simps:
  "selects e k (OneEvent v) \<longleftrightarrow> map_of (raw_dimensions e) k = Some (Some v)"
  "selects e k (EventSet []) \<longleftrightarrow> False"
  by (simp_all add: selects_def)

lemma one_values_selects: "(\<forall>(k, r) \<in> set (one_values fs). selects e k r) \<longleftrightarrow> filters_hold e fs"
  by (auto simp: one_values_def filters_hold_def list_all_iff selects_simps field_value_is simp del: field_value.simps)

lemma event_selects: "selects e ''event_type'' r \<longleftrightarrow> event_holds e (Some r)"
  by (cases r) (simp_all add: selects_def event_holds_def field_value_is EVENT_TYPE_def list_ex_iff del: field_value.simps)

lemma with_member_selects:
  assumes "k \<notin> fst ` set fs"
  shows "(\<forall>(j, r) \<in> set (with_member fs k v). selects e j r) \<longleftrightarrow>
    (\<forall>(j, r) \<in> set fs. selects e j r) \<and> selects e k v"
  using assms by (auto simp: with_member_def map_of_eq_None_iff)

lemma type_in_holds: "type_in e r \<longleftrightarrow> event_holds e (Some r)"
  by (cases r) (auto simp: type_in_def event_holds_def field_value_is EVENT_TYPE_def list_ex_iff
      simp del: field_value.simps split: option.splits)

lemma classify_leaf_event_free:
  "EVENT_TYPE \<notin> fst ` set (cl_filters s) \<Longrightarrow> EVENT_TYPE \<notin> fst ` set (cl_filters (classify_leaf cat leaf s))"
  by (cases leaf)
    (auto simp: classify_leaf_def classify_field_leaf_def classify_events_def classify_other_def Let_def
      because_def set_filter_def split: if_splits option.splits scalar_value.splits field_ref.splits)

lemma classify_all_event_free: "EVENT_TYPE \<notin> fst ` set (cl_filters (classify_all cat ls))"
proof (induction ls rule: rev_induct)
  case (snoc l ls)
  then show ?case unfolding classify_all_snoc by (rule classify_leaf_event_free)
qed (simp add: classify_all_def)

lemma dimension_value_at:
  assumes "k \<in> set INDEXED_DIMENSIONS"
  shows "value_at native e k = Some v \<longleftrightarrow> map_of (raw_dimensions e) k = Some (Some v)"
proof -
  have "list_all (\<lambda>k. \<not> prefix ''property:'' k \<and> k \<notin> set INHERITED_NAMES) INDEXED_DIMENSIONS" by code_simp
  then have "\<not> prefix ''property:'' k" "k \<notin> set INHERITED_NAMES" using assms by (auto simp: list_all_iff)
  then show ?thesis by (auto simp: value_at_def dimension_value_def split: option.splits)
qed

section \<open>Facts: funnels\<close>

definition walk_sound :: "funnel_walk \<Rightarrow> bool" where
  "walk_sound w \<longleftrightarrow>
     length (fw_counts w) = 3 \<and> fw_stage w \<le> 3 \<and>
     fw_counts w ! 1 + (if fw_stage w = 1 then 1 else 0) \<le> fw_counts w ! 0 \<and>
     fw_counts w ! 2 + (if fw_stage w = 2 then 1 else 0) \<le> fw_counts w ! 1"

lemma walk_step_sound:
  assumes "walk_sound w"
  shows "walk_sound (walk_step query e w)"
proof -
  have "fw_stage w = 0 \<or> fw_stage w = 1 \<or> fw_stage w = 2 \<or> fw_stage w = 3"
    using assms by (auto simp: walk_sound_def)
  then show ?thesis
    using assms by (elim disjE) (auto simp: walk_sound_def walk_step_def Let_def nth_list_update)
qed

lemma walk_sound_fold: "walk_sound w \<Longrightarrow> walk_sound (fold (walk_step query) es w)"
  by (induction es arbitrary: w) (simp_all add: walk_step_sound)

lemma raw_funnel_shape:
  "\<exists>a b c. raw_funnel collate events query = [a, b, c] \<and> c \<le> b \<and> b \<le> a"
proof -
  let ?w = "fold (walk_step query) (funnel_events collate events query)
       \<lparr> fw_actor = None, fw_stage = 0, fw_previous = 0, fw_deadline = 0, fw_counts = [0, 0, 0] \<rparr>"
  have "walk_sound ?w" by (rule walk_sound_fold) (simp add: walk_sound_def)
  moreover obtain a b c where "fw_counts ?w = [a, b, c]"
    using calculation by (auto simp: walk_sound_def length_Suc_conv numeral_eq_Suc)
  ultimately show ?thesis by (auto simp: raw_funnel_def walk_sound_def)
qed

text \<open>The first stage counts each actor once: the events of an actor stand together.\<close>

definition walk_counts_actors :: "funnel_query \<Rightarrow> raw_event list \<Rightarrow> funnel_walk \<Rightarrow> bool" where
  "walk_counts_actors query P w \<longleftrightarrow>
     length (fw_counts w) = 3 \<and> fw_stage w \<le> 3 \<and>
     fw_actor w = (if P = [] then None else Some (raw_actor (last P))) \<and>
     (fw_stage w = 0 \<longleftrightarrow>
        \<not> (\<exists>e \<in> set P. fw_actor w = Some (raw_actor e) \<and> event_name e = Some (step_names query ! 0))) \<and>
     fw_counts w ! 0 = card (raw_actor ` {e \<in> set P. event_name e = Some (step_names query ! 0)})"

lemma walk_step_counts_actors:
  assumes "walk_counts_actors query P w"
    and "P \<noteq> [] \<Longrightarrow> raw_actor (last P) \<noteq> raw_actor e \<Longrightarrow> raw_actor e \<notin> raw_actor ` set P"
  shows "walk_counts_actors query (P @ [e]) (walk_step query e w)"
proof -
  let ?A = "raw_actor ` {e \<in> set P. event_name e = Some (step_names query ! 0)}"
  define s where "s = (if fw_actor w \<noteq> Some (raw_actor e) then 0 else fw_stage w)"
  have s0: "s = 0 \<longleftrightarrow> raw_actor e \<notin> ?A"
    using assms by (cases "P = []") (auto simp: s_def walk_counts_actors_def)
  have sz: "length (fw_counts w) = 3" "s \<le> 3" "fw_counts w ! 0 = card ?A"
    using assms(1) by (auto simp: walk_counts_actors_def s_def)
  let ?first = "event_name e = Some (step_names query ! 0)"
  have A: "raw_actor ` {x \<in> set (P @ [e]). event_name x = Some (step_names query ! 0)} =
      (if ?first then insert (raw_actor e) ?A else ?A)" by auto
  have actor: "fw_actor (walk_step query e w) = Some (raw_actor e)"
    by (simp add: walk_step_def Let_def)
  have len: "length (fw_counts (walk_step query e w)) = 3"
    using sz by (simp add: walk_step_def Let_def)
  have stage: "fw_stage (walk_step query e w) \<le> 3 \<and> (fw_stage (walk_step query e w) = 0 \<longleftrightarrow> s = 0 \<and> \<not> ?first)"
    using sz(2) by (cases "fw_stage w = 0") (auto simp: walk_step_def Let_def s_def)
  have cnt: "fw_counts (walk_step query e w) ! 0 = card ?A + (if s = 0 \<and> ?first then 1 else 0)"
    using sz by (cases "fw_stage w = 0") (auto simp: walk_step_def Let_def s_def nth_list_update)
  have "card (if ?first then insert (raw_actor e) ?A else ?A) = card ?A + (if s = 0 \<and> ?first then 1 else 0)"
    using s0 by (auto simp: insert_absorb)
  moreover have "(\<exists>x \<in> set (P @ [e]). Some (raw_actor e) = Some (raw_actor x) \<and> event_name x = Some (step_names query ! 0))
      \<longleftrightarrow> \<not> (s = 0 \<and> \<not> ?first)"
    using s0 by auto
  ultimately show ?thesis
    using len stage cnt actor A by (simp add: walk_counts_actors_def)
qed

lemma sorted_upto_last: "sorted (map f P) \<Longrightarrow> x \<in> set P \<Longrightarrow> f x \<le> f (last P)"
  by (induction P) auto

lemma walk_counts_actors_fold:
  assumes "walk_counts_actors query P w" "sorted (map collate (map raw_actor (P @ es)))" "inj (collate :: string \<Rightarrow> 'k :: linorder)"
  shows "walk_counts_actors query (P @ es) (fold (walk_step query) es w)"
  using assms(1,2)
proof (induction es arbitrary: P w)
  case (Cons e es)
  have fresh: "raw_actor e \<notin> raw_actor ` set P" if ne: "P \<noteq> []" "raw_actor (last P) \<noteq> raw_actor e"
  proof
    assume "raw_actor e \<in> raw_actor ` set P"
    then obtain x where x: "x \<in> set P" "raw_actor x = raw_actor e" by auto
    have sorted: "sorted (map (\<lambda>x. collate (raw_actor x)) (P @ e # es))"
      using Cons.prems(2) by (simp add: comp_def)
    then have le: "collate (raw_actor (last P)) \<le> collate (raw_actor e)"
      using ne(1) by (simp add: sorted_append)
    have "collate (raw_actor x) \<le> collate (raw_actor (last P))"
      by (rule sorted_upto_last [of "\<lambda>x. collate (raw_actor x)"]) (use sorted x(1) in \<open>simp_all add: sorted_append\<close>)
    with le x(2) have "collate (raw_actor (last P)) = collate (raw_actor e)" by simp
    then show False using ne(2) assms(3) by (simp add: inj_eq)
  qed
  show ?case
    using Cons.IH [OF walk_step_counts_actors [OF Cons.prems(1) fresh]] Cons.prems(2) by simp
qed simp

lemma sorted_actors: "sorted (map collate (map raw_actor (funnel_events collate events query)))"
proof -
  let ?key = "\<lambda>e. (collate (raw_actor e), raw_ts e)"
  have "sorted (map ?key (funnel_events collate events query))"
    unfolding funnel_events_def by (rule sorted_sort_key)
  then show ?thesis
    by (auto simp: sorted_map sorted_wrt_map comp_def less_eq_prod_def elim!: sorted_wrt_mono_rel [rotated])
qed

lemma raw_funnel_first:
  assumes "inj collate"
  shows "raw_funnel collate events query ! 0 =
    card (raw_actor ` {e \<in> set events. event_name e = Some (fst (fq_steps query))})"
proof -
  let ?w = "\<lparr> fw_actor = None, fw_stage = 0, fw_previous = 0, fw_deadline = 0, fw_counts = [0, 0, 0] \<rparr>"
  have "walk_counts_actors query [] ?w" by (simp add: walk_counts_actors_def)
  then have "walk_counts_actors query ([] @ funnel_events collate events query)
      (fold (walk_step query) (funnel_events collate events query) ?w)"
    by (rule walk_counts_actors_fold) (use assms sorted_actors [of collate events query] in simp_all)
  moreover have "step_names query ! 0 = fst (fq_steps query)" by (cases "fq_steps query") simp
  moreover have "{e \<in> set (funnel_events collate events query). event_name e = Some (fst (fq_steps query))} =
      {e \<in> set events. event_name e = Some (fst (fq_steps query))}"
    by (cases "fq_steps query") (auto simp: funnel_events_def)
  ultimately show ?thesis by (simp add: raw_funnel_def walk_counts_actors_def)
qed

section \<open>Facts: a series is a histogram\<close>

definition falls_in :: "instant list \<Rightarrow> nat \<Rightarrow> raw_event \<Rightarrow> bool" where
  "falls_in edges i e \<longleftrightarrow> edges ! i \<le> raw_ts e \<and> (Suc i < length edges \<longrightarrow> raw_ts e < edges ! Suc i)"

definition counted :: "bool \<Rightarrow> raw_event list \<Rightarrow> rat" where
  "counted uniq es = of_nat (if uniq then card (raw_actor ` set es) else length es)"

definition histogram ::
  "(string \<Rightarrow> string) \<Rightarrow> 'q series_query_scheme \<Rightarrow> bool \<Rightarrow> raw_event list \<Rightarrow> string option \<Rightarrow> bucket list" where
  "histogram native query uniq events k =
     (let edges = series_edges query
      in map (\<lambda>i. \<lparr> bucket_start = edges ! i,
                    bucket_value = counted uniq
                      (filter (\<lambda>e. included native query e \<and> group_of native query e = k \<and> falls_in edges i e) events) \<rparr>)
           [0..<length edges])"

lemma slot_falls_in:
  assumes "sorted_wrt (<) edges" "i < length edges"
  shows "slot edges e = Suc i \<longleftrightarrow> falls_in edges i e"
  using slot_spec(1) [OF assms(1), of e] slot_spec(2) [OF assms(1), of i e]
    slot_spec(2) [OF assms(1), of "Suc i" e] assms(2)
  by (cases "Suc i < length edges") (auto simp: falls_in_def not_le [symmetric])

lemma bucket_count_tally: "bucket_count uniq (tally uniq es) = counted uniq es"
  by (simp add: bucket_count_def tally_def counted_def)

lemma drawn_tallied:
  assumes "sorted_wrt (<) (series_edges query)"
  shows "drawn uniq (series_edges query)
           (map (\<lambda>i. tally uniq (landed native query (series_edges query) events k i)) [0..<length (series_edges query)]) =
         histogram native query uniq events k"
proof (rule nth_equalityI)
  fix i
  assume "i < length (drawn uniq (series_edges query)
           (map (\<lambda>i. tally uniq (landed native query (series_edges query) events k i)) [0..<length (series_edges query)]))"
  then have i: "i < length (series_edges query)" by (simp add: drawn_def)
  have "landed native query (series_edges query) events k i =
      filter (\<lambda>e. included native query e \<and> group_of native query e = k \<and> falls_in (series_edges query) i e) events"
    by (simp add: landed_def slot_falls_in [OF assms i])
  then show "drawn uniq (series_edges query)
           (map (\<lambda>i. tally uniq (landed native query (series_edges query) events k i)) [0..<length (series_edges query)]) ! i =
         histogram native query uniq events k ! i"
    using i by (simp add: drawn_def histogram_def Let_def bucket_count_tally)
qed (simp add: drawn_def histogram_def Let_def)

lemma series_edges_sorted: "sorted_wrt (<) (series_edges query)"
  unfolding series_edges_def Let_def using grid_sorted [of "q_since query" "q_till query" "q_step query"]
  by (auto intro: sorted_wrt_take)

text \<open>The groups of a scan are groups of included events, so few groups never exceed the ceiling.\<close>

lemma series_loop_small:
  assumes "finite G" "card G * length edges \<le> MAX_CELLS"
    and "\<forall>e \<in> set es. included native query e \<longrightarrow> group_of native query e \<in> G"
    and "distinct (map fst groups)" "fst ` set groups \<subseteq> G"
  shows "\<exists>g. series_loop native query uniq edges es groups = Inr g"
  using assms(3-5)
proof (induction es arbitrary: groups)
  case (Cons e es)
  let ?k = "group_of native query e"
  have step: "\<exists>g. series_step native query uniq edges e groups = Inr g \<and> distinct (map fst g) \<and> fst ` set g \<subseteq> G"
  proof (cases "included native query e")
    case True
    have room: "(length groups + 1) * length edges \<le> MAX_CELLS" if "map_of groups ?k = None"
    proof -
      have "insert ?k (fst ` set groups) \<subseteq> G" using Cons.prems True by simp
      then have "card (insert ?k (fst ` set groups)) \<le> card G" by (rule card_mono [OF assms(1)])
      moreover have "?k \<notin> fst ` set groups" using that by (simp add: map_of_eq_None_iff)
      moreover have "card (fst ` set groups) = length groups"
        using distinct_card [OF Cons.prems(2)] by simp
      ultimately have "length groups + 1 \<le> card G" by simp
      then show ?thesis using assms(2) mult_le_mono1 [of "length groups + 1" "card G" "length edges"] by linarith
    qed
    have new: "distinct (map fst (map_put ?k v groups)) \<and> fst ` set (map_put ?k v groups) \<subseteq> G" for v
    proof -
      have "set (map fst (map_put ?k v groups)) = insert ?k (fst ` set groups)" unfolding keys_map_put by auto
      then have "fst ` set (map_put ?k v groups) = insert ?k (fst ` set groups)" by simp
      then show ?thesis using Cons.prems True by (auto simp: keys_map_put)
    qed
    have fits: "(map_of groups ?k = None \<and> (length groups + 1) * length edges > MAX_CELLS) = False"
      using room by (metis not_less)
    have "\<exists>v. series_step native query uniq edges e groups =
        (if slot edges e = 0 then ok groups else ok (map_put ?k v groups))"
      by (simp only: series_step_def Let_def True fits not_True_eq_False if_False) blast
    then obtain v where "series_step native query uniq edges e groups =
        Inr (if slot edges e = 0 then groups else map_put ?k v groups)"
      unfolding ok_def if_distrib [of Inr] by blast
    then show ?thesis using new [of v] Cons.prems(2,3) by (cases "slot edges e = 0") simp_all
  qed (use Cons.prems in \<open>simp add: series_step_def ok_def\<close>)
  then obtain g where g: "series_step native query uniq edges e groups = Inr g" "distinct (map fst g)" "fst ` set g \<subseteq> G"
    by blast
  show ?case unfolding series_loop.simps g(1) flat_map_def sum.case
    by (rule Cons.IH [OF _ g(2,3)]) (use Cons.prems(1) in simp)
qed (simp add: ok_def)

text \<open>The groups a scan starts from and ends with.\<close>

abbreviation series_start :: "'q series_query_scheme \<Rightarrow> (string option \<times> raw_bucket list) list" where
  "series_start query \<equiv>
     (if split_key query = None then [(None, replicate (length (series_edges query)) empty_bucket)] else [])"

lemma series_scan_tallied:
  assumes "series_loop native query uniq (series_edges query) events (series_start query) = Inr g"
  shows "tallied native query uniq (series_edges query) events g"
proof -
  have "landed native query (series_edges query) [] k i = []" for k i by (simp add: landed_def)
  then have "tallied native query uniq (series_edges query) [] (series_start query)"
    by (auto simp: tallied_def map_replicate_const tally_simps(1) [of uniq])
  from series_loop_tallied [OF this series_edges_sorted assms] show ?thesis by simp
qed

lemma raw_series_unsplit:
  assumes u: "split_key query = None"
  shows "raw_series native events query uniq =
      Inr \<lparr> series_buckets = histogram native query uniq events None, series_groups = None \<rparr>"
proof -
  let ?edges = "series_edges query" and ?start = "series_start query"
  have "\<exists>g. series_loop native query uniq ?edges events ?start = Inr g"
    by (rule series_loop_unsplit [OF u]) (simp add: u)
  then obtain g where g: "series_loop native query uniq ?edges events ?start = Inr g" by blast
  have "map fst g = [None]" using series_scan_tallied [OF g] u by (simp add: tallied_def)
  then obtain bs where bs: "g = [(None, bs)]" by (cases g) auto
  have "drawn uniq ?edges bs = histogram native query uniq events None"
    using series_scan_tallied [OF g] drawn_tallied [OF series_edges_sorted, of uniq query native events None] by (simp add: bs tallied_def)
  moreover have "series_loop native query uniq ?edges events
      [(None, replicate (length ?edges) empty_bucket)] = Inr [(None, bs)]"
    using g u bs by simp
  ultimately show ?thesis by (simp add: raw_series_def Let_def u result_map_def ok_def)
qed

text \<open>Which groups a split scan reports, and what it reports of them.\<close>

lemma has_landed:
  "(\<exists>i. landed native query (series_edges query) events k i \<noteq> []) \<longleftrightarrow>
   (\<exists>i < length (series_edges query). \<exists>e \<in> set events.
      included native query e \<and> group_of native query e = k \<and> falls_in (series_edges query) i e)"
proof -
  have "i < length (series_edges query)" if "slot (series_edges query) e = Suc i" for i e
    using slot_spec(1) [OF series_edges_sorted, of query e] that by simp
  then show ?thesis
    unfolding landed_def filter_empty_conv using slot_falls_in [OF series_edges_sorted] by blast
qed

lemma raw_series_split:
  assumes u: "split_key query = Some key" and r: "raw_series native events query uniq = Inr s"
  shows "series_buckets s = [] \<and>
      (\<exists>gs. series_groups s = Some gs \<and> distinct (map fst gs) \<and>
        (\<forall>k bs. (k, bs) \<in> set gs \<longleftrightarrow>
           bs = histogram native query uniq events k \<and>
           (\<exists>i < length (series_edges query). \<exists>e \<in> set events.
              included native query e \<and> group_of native query e = k \<and> falls_in (series_edges query) i e)))"
proof -
  let ?edges = "series_edges query" and ?start = "series_start query"
  obtain g where g: "series_loop native query uniq ?edges events ?start = Inr g"
    and s: "s = \<lparr> series_buckets = [], series_groups = Some (map (\<lambda>(k, bs). (k, drawn uniq ?edges bs)) g) \<rparr>"
    using r u by (auto simp: raw_series_def Let_def result_map_Inr)
  note t = series_scan_tallied [OF g]
  have d: "distinct (map fst g)" using t by (simp add: tallied_def)
  have mem: "(k, bs) \<in> set g \<longleftrightarrow> map_of g k = Some bs" for k bs using d by (simp add: map_of_eq_Some_iff)
  have keys: "map_of g k \<noteq> None \<longleftrightarrow> (\<exists>i. landed native query ?edges events k i \<noteq> [])" for k
    using t u unfolding tallied_def by (metis option.distinct(1))
  have val: "drawn uniq ?edges bs = histogram native query uniq events k" if "map_of g k = Some bs" for k bs
    using t that drawn_tallied [OF series_edges_sorted, of uniq query native events k] by (simp add: tallied_def)
  have "(k, bs) \<in> (\<lambda>(k, bs). (k, drawn uniq ?edges bs)) ` set g \<longleftrightarrow>
      bs = histogram native query uniq events k \<and> (\<exists>i. landed native query ?edges events k i \<noteq> [])" for k bs
  proof
    assume "(k, bs) \<in> (\<lambda>(k, bs). (k, drawn uniq ?edges bs)) ` set g"
    then obtain b where "(k, b) \<in> set g" and bs: "bs = drawn uniq ?edges b" by auto
    then have b: "map_of g k = Some b" by (simp only: mem)
    show "bs = histogram native query uniq events k \<and> (\<exists>i. landed native query ?edges events k i \<noteq> [])"
      unfolding bs using val [OF b] keys [of k] b by (metis option.distinct(1))
  next
    assume h: "bs = histogram native query uniq events k \<and> (\<exists>i. landed native query ?edges events k i \<noteq> [])"
    then obtain b where b: "map_of g k = Some b" using keys [of k] by (metis not_None_eq)
    then have "(k, drawn uniq ?edges b) \<in> (\<lambda>(k, bs). (k, drawn uniq ?edges bs)) ` set g"
      by (metis (no_types, lifting) case_prod_conv image_eqI mem)
    then show "(k, bs) \<in> (\<lambda>(k, bs). (k, drawn uniq ?edges bs)) ` set g"
      using val [OF b] h by simp
  qed
  moreover have "map fst (map (\<lambda>(k, bs). (k, drawn uniq ?edges bs)) g) = map fst g" by (simp add: case_prod_unfold)
  then have "distinct (map fst (map (\<lambda>(k, bs). (k, drawn uniq ?edges bs)) g))" by (simp only: d)
  ultimately show ?thesis unfolding s has_landed [symmetric] by (simp del: map_map)
qed

lemma raw_series_small:
  assumes c: "card (group_of native query ` {e \<in> set events. included native query e}) * length (series_edges query) \<le> MAX_CELLS"
  shows "\<exists>s. raw_series native events query uniq = Inr s"
proof (cases "split_key query")
  case (Some key)
  have "\<exists>g. series_loop native query uniq (series_edges query) events [] = Inr g"
    by (rule series_loop_small [OF _ c]) auto
  then show ?thesis using Some by (auto simp: raw_series_def Let_def result_map_def ok_def)
qed (use raw_series_unsplit in blast)

section \<open>Facts: the planned filters\<close>

lemma with_member_mem: "(k, v) \<in> set (with_member fs k v)"
  by (auto simp: with_member_def map_of_eq_None_iff image_iff split: prod.splits)

lemma one_values_keys: "fst ` set (one_values fs) = fst ` set fs"
  by (force simp: one_values_def)

lemma event_holds_none: "event_holds e None"
  by (simp add: event_holds_def)

lemma conjuncts_of_and:
  assumes "ls \<noteq> []" "\<And>l. l \<in> set ls \<Longrightarrow> predicate_conjuncts l = [l]"
  shows "predicate_conjuncts (predicate_and ls) = ls"
proof -
  have "predicate_conjuncts (PAnd ls) = ls" using assms(2) by (induction ls) simp_all
  then show ?thesis using assms by (auto simp: predicate_and_def split: list.splits)
qed

lemma conjuncts_event_leaf: "predicate_conjuncts (event_leaf r) = [event_leaf r]"
  by (cases r) simp_all

lemma event_leaf_type: "matches e (event_leaf r) \<longleftrightarrow> type_in e r"
  unfolding type_in_holds
  by (cases r) (simp_all add: event_holds_def strict_equal_def list_ex_iff EVENT_TYPE_def del: field_value.simps)

lemma indexed_clean:
  assumes "classify_predicate cat (Some p) = Indexed plan n"
  shows "clean (classify_all cat (predicate_conjuncts p)) \<and>
         plan_filters plan = cl_filters (classify_all cat (predicate_conjuncts p))"
  using assms by (auto simp: classify_predicate_all Let_def clean_def split: if_splits)

lemma plan_event_free:
  "classify_predicate cat (Some p) = Indexed plan n \<Longrightarrow> ''event_type'' \<notin> fst ` set (plan_filters plan)"
  using indexed_clean classify_all_event_free [of cat "predicate_conjuncts p"] by (simp add: EVENT_TYPE_def)

lemma indexed_served:
  assumes "classify_predicate plan_catalog (Some p) = Indexed plan n"
  shows "served_conjunction plan_catalog (predicate_conjuncts p)"
proof -
  have "''__proto__'' \<notin> set (cat_indexed plan_catalog)" by code_simp
  then show ?thesis
    using classify_all_clean [of "predicate_conjuncts p" plan_catalog] indexed_clean [OF assms] conjuncts_flat by blast
qed

lemma filter_leaf:
  assumes "leaf_served plan_catalog (PEq (field_parse k) (SStr v))"
  shows "matches e (PEq (field_parse k) (SStr v)) \<longleftrightarrow> value_at native e k = Some v"
proof -
  have cat: "cat_indexed plan_catalog = INDEXED_DIMENSIONS" "cat_scanned plan_catalog = []"
    by (simp_all add: plan_catalog_def field_catalog_def)
  have dims: "\<forall>k \<in> set (cat_indexed plan_catalog). is_dimension_name k" by code_simp
  have "k \<in> set INDEXED_DIMENSIONS"
    using assms cat by (auto simp: field_parse_def catalog_status_def split: if_splits)
  moreover from this dims have "field_parse k = Dim k" by (simp add: field_parse_def cat)
  ultimately show ?thesis
    by (simp add: dimension_value_at strict_equal_def field_value_is del: field_value.simps)
qed

lemma planned_leaves_agree:
  fixes query :: "'q engine_query_scheme"
  defines "leaves \<equiv> map (\<lambda>(k, v). PEq (field_parse k) (SStr v)) (q_filters query)"
  assumes "plan_filters_of (q_event query) (q_filters query) = Inr fs" and "q_predicate query = None"
    and "q_event query \<noteq> Some (EventSet [])"
    and "(case q_event query of None \<Rightarrow> leaves | Some r \<Rightarrow> event_leaf r # leaves) \<noteq> []"
  shows "(\<forall>(k, r) \<in> set fs. selects e k r) \<longleftrightarrow> included native query e"
proof -
  let ?all = "(case q_event query of None \<Rightarrow> leaves | Some r \<Rightarrow> event_leaf r # leaves)"
  define p where "p = predicate_and ?all"
  have "plan_filters_of (q_event query) (q_filters query) =
      (case classify_predicate plan_catalog (Some p) of
         Indexed plan _ \<Rightarrow>
           ok (case plan_event plan of
                 None \<Rightarrow> one_values (plan_filters plan)
               | Some r \<Rightarrow> with_member (one_values (plan_filters plan)) ''event_type'' r)
       | answer \<Rightarrow> refuse (describe_answerability answer))"
    unfolding plan_filters_of_def Let_def p_def leaves_def
    by (simp only: assms(4) assms(5) [unfolded leaves_def] if_False)
  then obtain plan n where plan: "classify_predicate plan_catalog (Some p) = Indexed plan n"
    and fs: "fs = (case plan_event plan of
                        None \<Rightarrow> one_values (plan_filters plan)
                      | Some r \<Rightarrow> with_member (one_values (plan_filters plan)) ''event_type'' r)"
    using assms(2) by (cases "classify_predicate plan_catalog (Some p)") (simp_all add: ok_def refuse_def err_def)
  have dims: "\<forall>k \<in> set (cat_indexed plan_catalog). is_dimension_name k" by code_simp
  have flat: "predicate_conjuncts p = ?all"
    unfolding p_def by (rule conjuncts_of_and) (use assms(5) in \<open>auto split: option.splits simp: conjuncts_event_leaf leaves_def\<close>)
  have sel: "(\<forall>(k, r) \<in> set fs. selects e k r) \<longleftrightarrow> matches e p"
    using plan_means [OF dims plan, of e] plan_event_free [OF plan]
    unfolding fs by (auto simp: one_values_selects with_member_selects event_selects event_holds_none
        one_values_keys split: option.splits)
  have served: "list_all (leaf_served plan_catalog) ?all"
    using indexed_served [OF plan] unfolding flat by (simp add: served_conjunction_def)
  have leaf: "matches e (PEq (field_parse k) (SStr v)) \<longleftrightarrow> value_at native e k = Some v"
    if "(k, v) \<in> set (q_filters query)" for k v
    using served that by (intro filter_leaf) (auto simp: list_all_iff leaves_def split: option.splits)
  have "list_all (matches e) leaves \<longleftrightarrow> list_all (\<lambda>(k, v). value_at native e k = Some v) (q_filters query)"
    using leaf by (auto simp: list_all_iff leaves_def)
  then show ?thesis
    unfolding sel matches_conjuncts [of e p] flat included_def using assms(3)
    by (cases "q_event query") (simp_all add: event_leaf_type)
qed

section \<open>Properties\<close>

text \<open>
  C11. An exact series is the histogram of the events its query includes: without a split it never
  fails, has one bucket per start of the grid, and each holds the number of included events (or of
  their distinct actors) from its start to the next; with a split every group that has an event on
  the grid is reported exactly once with its own histogram; and the scan is never refused while
  the number of groups times the number of buckets stays within the ceiling.
\<close>

theorem raw_series_counts_exactly:
  "(split_key query = None \<longrightarrow>
      raw_series native events query uniq =
        Inr \<lparr> series_buckets = histogram native query uniq events None, series_groups = None \<rparr>) \<and>
   (\<forall>key s. split_key query = Some key \<and> raw_series native events query uniq = Inr s \<longrightarrow>
      series_buckets s = [] \<and>
      (\<exists>gs. series_groups s = Some gs \<and> distinct (map fst gs) \<and>
        (\<forall>k bs. (k, bs) \<in> set gs \<longleftrightarrow>
           bs = histogram native query uniq events k \<and>
           (\<exists>i < length (series_edges query). \<exists>e \<in> set events.
              included native query e \<and> group_of native query e = k \<and> falls_in (series_edges query) i e)))) \<and>
   (card (group_of native query ` {e \<in> set events. included native query e}) * length (series_edges query) \<le> MAX_CELLS \<longrightarrow>
      (\<exists>s. raw_series native events query uniq = Inr s))"
proof (intro conjI impI allI)
  fix key s
  assume "split_key query = Some key \<and> raw_series native events query uniq = Inr s"
  note f = raw_series_split [OF this [THEN conjunct1] this [THEN conjunct2]]
  from f show "series_buckets s = []" ..
  from f show "\<exists>gs. series_groups s = Some gs \<and> distinct (map fst gs) \<and>
      (\<forall>k bs. (k, bs) \<in> set gs \<longleftrightarrow>
         bs = histogram native query uniq events k \<and>
         (\<exists>i < length (series_edges query). \<exists>e \<in> set events.
            included native query e \<and> group_of native query e = k \<and> falls_in (series_edges query) i e))" ..
qed (fact raw_series_unsplit, fact raw_series_small)

theorem raw_series_counts_exactly_witness:
  "let ev = (\<lambda>t a. \<lparr> raw_ts = t, raw_actor = a, raw_dimensions = [(''event_type'', Some ''buy'')],
               raw_properties = [] \<rparr>);
       query = \<lparr> q_scope = WorkspaceScope ''w'', q_since = 0, q_till = 7200000, q_step = GHour,
                 q_event = Some (OneEvent ''buy''), q_filters = [], q_predicate = None,
                 q_by = None, q_whole_window = False \<rparr>
   in raw_series (\<lambda>k. k) [ev 5 ''a'', ev 3600000 ''a'', ev 6 ''b''] query False =
        Inr \<lparr> series_buckets = [\<lparr> bucket_start = 0, bucket_value = 2 \<rparr>, \<lparr> bucket_start = 3600000, bucket_value = 1 \<rparr>],
              series_groups = None \<rparr>"
proof -
  let ?ev = "\<lambda>t a. \<lparr> raw_ts = t, raw_actor = a, raw_dimensions = [(''event_type'', Some ''buy'')],
               raw_properties = [] \<rparr>"
  let ?q = "\<lparr> q_scope = WorkspaceScope ''w'', q_since = 0, q_till = 7200000, q_step = GHour,
                 q_event = Some (OneEvent ''buy''), q_filters = [], q_predicate = None,
                 q_by = None, q_whole_window = False \<rparr>"
  let ?es = "[?ev 5 ''a'', ?ev 3600000 ''a'', ?ev 6 ''b'']"
  have g: "grid_starts 0 7200000 GHour = [0, 3600000]" by code_simp
  have inc: "included (\<lambda>k. k) ?q (?ev t a)" for t a by (simp add: included_def type_in_def)
  have none: "split_key ?q = None" by (simp add: split_key_def)
  have "series_edges ?q = [0, 3600000]" by (simp add: series_edges_def g)
  then have "histogram (\<lambda>k. k) ?q False ?es None =
      [\<lparr> bucket_start = 0, bucket_value = 2 \<rparr>, \<lparr> bucket_start = 3600000, bucket_value = 1 \<rparr>]"
    by (simp add: histogram_def counted_def falls_in_def group_of_def none inc upt_rec)
  then show ?thesis
    unfolding Let_def using raw_series_counts_exactly [of ?q "\<lambda>k. k" ?es False] none by simp
qed

text \<open>
  C37. The read the planner sends and the scan of raw events agree on which events a question
  covers: when the event restriction and filters are accepted, an event satisfies every filter of
  the planned read exactly when the scan includes it.
\<close>

theorem planned_filters_agree_with_scan:
  assumes "plan_filters_of (q_event query) (q_filters query) = Inr fs" and "q_predicate query = None"
  shows "(\<forall>(k, r) \<in> set fs. selects e k r) \<longleftrightarrow> included native query e"
proof -
  let ?leaves = "map (\<lambda>(k, v). PEq (field_parse k) (SStr v)) (q_filters query)"
  let ?all = "(case q_event query of None \<Rightarrow> ?leaves | Some r \<Rightarrow> event_leaf r # ?leaves)"
  show ?thesis
  proof (cases "q_event query = Some (EventSet [])")
    case True
    have "\<not> selects e ''event_type'' (EventSet [])" by (simp add: selects_simps)
    moreover have "(''event_type'', EventSet []) \<in> set fs"
      using assms(1) True by (auto simp: plan_filters_of_def ok_def with_member_mem)
    ultimately have "\<not> (\<forall>(k, r) \<in> set fs. selects e k r)" by blast
    moreover have "\<not> included native query e" using True by (simp add: included_def type_in_def split: option.split)
    ultimately show ?thesis by blast
  next
    case ne: False
    show ?thesis
    proof (cases "?all = []")
      case True
      then have "fs = []" "q_event query = None" "q_filters query = []"
        using assms(1) ne by (auto simp: plan_filters_of_def ok_def Let_def split: option.splits)
      then show ?thesis using assms(2) by (simp add: included_def)
    next
      case False
      then show ?thesis by (rule planned_leaves_agree [OF assms ne])
    qed
  qed
qed

theorem planned_filters_agree_with_scan_witness:
  "let query = \<lparr> q_scope = WorkspaceScope ''w'', q_since = 0, q_till = 7200000, q_step = GHour,
                 q_event = Some (EventSet [''buy'', ''cart'']), q_filters = [(''country'', ''SE'')],
                 q_predicate = None \<rparr>;
       e = \<lparr> raw_ts = 5, raw_actor = ''a'',
              raw_dimensions = [(''event_type'', Some ''cart''), (''country'', Some ''SE'')], raw_properties = [] \<rparr>
   in included (\<lambda>k. k) query e"
proof -
  let ?q = "\<lparr> q_scope = WorkspaceScope ''w'', q_since = 0, q_till = 7200000, q_step = GHour,
                 q_event = Some (EventSet [''buy'', ''cart'']), q_filters = [(''country'', ''SE'')],
                 q_predicate = None \<rparr>"
  let ?e = "\<lparr> raw_ts = 5, raw_actor = ''a'',
              raw_dimensions = [(''event_type'', Some ''cart''), (''country'', Some ''SE'')], raw_properties = [] \<rparr>"
  have f: "plan_filters_of (q_event ?q) (q_filters ?q) =
      Inr [(''country'', OneEvent ''SE''), (''event_type'', EventSet [''buy'', ''cart''])]" by code_simp
  have "\<forall>(k, r) \<in> set [(''country'', OneEvent ''SE''), (''event_type'', EventSet [''buy'', ''cart''])]. selects ?e k r"
    by (simp add: selects_def)
  then show ?thesis
    unfolding Let_def using planned_filters_agree_with_scan [OF f, of ?e "\<lambda>k. k"] by simp
qed

text \<open>
  What a scan counts for a funnel can always be summarised: there is one count per step, no
  step is reached more often than the one before it, so the summary is never an error and reports
  the counts as they are; and the first count is the number of distinct actors that did the first
  step, each actor being counted once whatever the order of the events.
\<close>

theorem scanned_funnels_summarise:
  assumes "length (fun_steps f) = 3" and "inj collate"
  shows "(\<exists>r. funnel_summarize f (map int (raw_funnel collate events query)) = Inr r \<and>
            map result_reached (result_steps r) = map int (raw_funnel collate events query)) \<and>
         raw_funnel collate events query ! 0 =
           card (raw_actor ` {e \<in> set events. event_name e = Some (fst (fq_steps query))})"
proof -
  obtain a b c where abc: "raw_funnel collate events query = [a, b, c]" "c \<le> b" "b \<le> a"
    using raw_funnel_shape by blast
  have "counts_rise [int a, int b, int c] = None" using abc by (simp add: counts_rise_None)
  then have "\<exists>r. funnel_summarize f [int a, int b, int c] = Inr r \<and>
      map result_reached (result_steps r) = [int a, int b, int c]"
    using assms(1) by (simp add: funnel_summarize_def ok_def step_result_def Let_def upt_rec)
  then show ?thesis using raw_funnel_first [OF assms(2), of events query] abc(1) by simp
qed

theorem scanned_funnels_summarise_witness:
  "let ev = (\<lambda>t a n. \<lparr> raw_ts = t, raw_actor = a, raw_dimensions = [(''event_type'', Some n)], raw_properties = [] \<rparr>);
       query = \<lparr> fq_scope = WorkspaceScope ''w'', fq_since = 0, fq_till = 100,
                 fq_steps = (''view'', ''cart'', ''buy''), fq_within = None \<rparr>
   in raw_funnel (\<lambda>s. s) [ev 3 ''a'' ''cart'', ev 1 ''a'' ''view'', ev 2 ''b'' ''view'', ev 4 ''a'' ''view''] query ! 0 = 2"
proof -
  let ?ev = "\<lambda>t a n. \<lparr> raw_ts = t, raw_actor = a, raw_dimensions = [(''event_type'', Some n)], raw_properties = [] \<rparr>"
  let ?q = "\<lparr> fq_scope = WorkspaceScope ''w'', fq_since = 0, fq_till = 100,
                 fq_steps = (''view'', ''cart'', ''buy''), fq_within = None \<rparr>"
  let ?es = "[?ev 3 ''a'' ''cart'', ?ev 1 ''a'' ''view'', ?ev 2 ''b'' ''view'', ?ev 4 ''a'' ''view'']"
  let ?f = "\<lparr> fun_steps = map (\<lambda>n. \<lparr> step_label = None, step_events = [n], step_where = None \<rparr>)
                [''view'', ''cart'', ''buy''],
            fun_window = Relative 7 UDay, fun_conversion = DEFAULT_CONVERSION, fun_basis = Visit \<rparr>"
  have "length (fun_steps ?f) = 3" "inj (\<lambda>s :: string. s)" by (simp_all add: inj_on_def)
  note f = scanned_funnels_summarise [OF this, of ?es ?q, THEN conjunct2]
  have "raw_funnel (\<lambda>s. s) ?es ?q ! 0 = card (raw_actor ` {e \<in> set ?es. event_name e = Some ''view''})"
    using f unfolding funnel_query.simps fst_conv .
  also have "raw_actor ` {e \<in> set ?es. event_name e = Some ''view''} =
      set (map raw_actor (filter (\<lambda>e. event_name e = Some ''view'') ?es))"
    by (simp only: set_map set_filter)
  also have "map raw_actor (filter (\<lambda>e. event_name e = Some ''view'') ?es) = [''a'', ''b'', ''a'']"
  proof -
    have "event_name (?ev t a n) = Some n" for t a n by (simp add: event_name_def)
    then show ?thesis by simp
  qed
  also have "card (set [''a'', ''b'', ''a'']) = 2" unfolding List.card_set by simp
  finally show ?thesis unfolding Let_def .
qed

text \<open>
  The walk is greedy from an actor's first event of the first step: a chain that completes within
  the window is missed when an earlier first event opened a window that has lapsed.
\<close>

lemma later_chain_is_missed:
  "let ev = (\<lambda>t n. \<lparr> raw_ts = t, raw_actor = ''a'', raw_dimensions = [(''event_type'', Some n)], raw_properties = [] \<rparr>)
   in raw_funnel (\<lambda>s. s) [ev 0 ''view'', ev 100 ''view'', ev 101 ''cart'', ev 102 ''buy'']
        \<lparr> fq_scope = WorkspaceScope ''w'', fq_since = 0, fq_till = 1000,
          fq_steps = (''view'', ''cart'', ''buy''), fq_within = Some 10 \<rparr> = [1, 0, 0]"
  by code_simp

end
