(* ===== verification/EventText.thy ===== *)
theory EventText
  imports Kernel
begin

text \<open>
  The text an event carries, packages/ingestion/domain/src: country codes (country.ts),
  the operating system name (os-name.ts), the system properties (system-properties.ts),
  person ids (person.ts), event names and the agent vocabulary (event-name.ts,
  gen/vocabulary.ts), and the errors of admission (errors.ts). Everything here is total:
  it reads an untrusted value and returns a canonical one or the reason it may not.
\<close>

section \<open>Errors\<close>

datatype batch_admission_error =
    BatchTooLarge nat nat
  | PayloadTooLarge int int
  | PlanExceeded int int
  | RateLimited int
  | SinkUnavailable string

datatype event_admission_error =
    MalformedEvent nat string
  | UnknownEventName string
  | ClockSkew int int
  | PersonIdRequired
  | PersonIdTooLong nat nat
  | PersonIdLooksLikeEmail

datatype rejected_event = RejectedEvent nat event_admission_error

section \<open>Country\<close>

definition is_country_shape :: "nat list \<Rightarrow> bool" where
  "is_country_shape cs = (length cs = 2 \<and> list_all (\<lambda>c. 65 \<le> c \<and> c \<le> 90) cs)"

definition admit_country :: "json \<Rightarrow> string option" where
  "admit_country raw =
     (case raw of
        JStr s \<Rightarrow>
          (let folded = js_upper (js_trim s)
           in if is_country_shape folded then Some (map char_of folded) else None)
      | _ \<Rightarrow> None)"

definition is_country_code :: "json \<Rightarrow> bool" where
  "is_country_code v = (case v of JStr s \<Rightarrow> is_country_shape (map of_char s) | _ \<Rightarrow> False)"

section \<open>Operating system\<close>

definition OS_NAMES :: "string list" where
  "OS_NAMES =
     [''macos'', ''windows'', ''linux'', ''ios'', ''ipados'', ''android'', ''tvos'', ''watchos'',
      ''visionos'', ''chromeos'', ''freebsd'', ''other'']"

text \<open>
  What \<open>OS_ALIASES[k]\<close> may hold: a name of the table, or, the table being an object
  literal, a member it inherits from \<open>Object.prototype\<close>.
\<close>

datatype os_value = OsName string | InheritedMember string

definition is_os_name :: "os_value \<Rightarrow> bool" where
  "is_os_name v = (case v of OsName s \<Rightarrow> s \<in> set OS_NAMES | InheritedMember _ \<Rightarrow> False)"

definition OS_ALIASES :: "(string \<times> string) list" where
  "OS_ALIASES =
     [(''macos'', ''macos''), (''macosx'', ''macos''), (''mac'', ''macos''),
      (''darwin'', ''macos''), (''osx'', ''macos''), (''windows'', ''windows''),
      (''win'', ''windows''), (''win32'', ''windows''), (''win64'', ''windows''),
      (''winnt'', ''windows''), (''linux'', ''linux''), (''gnulinux'', ''linux''),
      (''ubuntu'', ''linux''), (''debian'', ''linux''), (''fedora'', ''linux''),
      (''arch'', ''linux''), (''ios'', ''ios''), (''iphoneos'', ''ios''), (''iphone'', ''ios''),
      (''ipados'', ''ipados''), (''ipad'', ''ipados''), (''android'', ''android''),
      (''tvos'', ''tvos''), (''appletvos'', ''tvos''), (''watchos'', ''watchos''),
      (''visionos'', ''visionos''), (''xros'', ''visionos''), (''chromeos'', ''chromeos''),
      (''chromiumos'', ''chromeos''), (''cros'', ''chromeos''), (''freebsd'', ''freebsd''),
      (''openbsd'', ''freebsd''), (''netbsd'', ''freebsd''), (''other'', ''other''),
      (''unknown'', ''other'')]"

definition os_alias :: "string \<Rightarrow> os_value option" where
  "os_alias k =
     (case map_of OS_ALIASES k of
        Some v \<Rightarrow> Some (OsName v)
      | None \<Rightarrow> if k \<in> set INHERITED_NAMES then Some (InheritedMember k) else None)"

definition is_separator :: "char \<Rightarrow> bool" where
  "is_separator c = (is_js_space c \<or> c = CHR ''.'' \<or> c = CHR ''_'' \<or> c = CHR ''-'')"

definition fold_os :: "string \<Rightarrow> string" where
  "fold_os raw = filter (\<lambda>c. \<not> is_separator c) (js_lower raw)"

record canonical_os =
  os_name :: os_value
  os_name_raw :: "string option"

definition canonical_os_name :: "string option \<Rightarrow> canonical_os" where
  "canonical_os_name raw =
     (case raw of
        None \<Rightarrow> \<lparr> os_name = OsName ''other'', os_name_raw = None \<rparr>
      | Some s \<Rightarrow>
          (let trimmed = js_trim s
           in if length trimmed = 0 then \<lparr> os_name = OsName ''other'', os_name_raw = None \<rparr>
              else
                (let nm = (case os_alias (fold_os trimmed) of
                             Some v \<Rightarrow> v
                           | None \<Rightarrow> OsName ''other'')
                 in \<lparr> os_name = nm,
                      os_name_raw = (if OsName trimmed = nm then None else Some trimmed) \<rparr>)))"

lemma os_alias_range: "os_alias k = Some (OsName v) \<Longrightarrow> v \<in> set OS_NAMES"
proof -
  assume "os_alias k = Some (OsName v)"
  then have "(k, v) \<in> set OS_ALIASES"
    by (auto simp: os_alias_def split: option.splits if_splits dest: map_of_SomeD)
  then have "v \<in> snd ` set OS_ALIASES" by force
  also have "snd ` set OS_ALIASES \<subseteq> set OS_NAMES" by (simp add: OS_ALIASES_def OS_NAMES_def)
  finally show ?thesis .
qed

text \<open>
  Of the inherited names only one is all lower case with no separator, so it alone can be
  the folding of a spelling.
\<close>

lemma fold_os_no_upper: "c \<in> set (fold_os s) \<Longrightarrow> \<not> is_separator c \<and> \<not> (65 \<le> (of_char c :: nat) \<and> (of_char c :: nat) \<le> 90)"
  by (auto simp: fold_os_def js_lower_def js_lower_char_def Let_def split: if_splits)

lemma fold_os_inherited:
  assumes "fold_os s \<in> set INHERITED_NAMES" shows "fold_os s = ''constructor''"
proof -
  have "CHR ''_'' \<notin> set (fold_os s)" "CHR ''P'' \<notin> set (fold_os s)" "CHR ''O'' \<notin> set (fold_os s)"
    "CHR ''E'' \<notin> set (fold_os s)" "CHR ''S'' \<notin> set (fold_os s)"
    using fold_os_no_upper [of _ s] by (force simp: is_separator_def)+
  with assms show ?thesis
    unfolding INHERITED_NAMES_def by (auto simp del: fold_os_def)
qed

section \<open>System properties\<close>

definition MAX_SYSTEM_VALUE_LENGTH :: nat where
  "MAX_SYSTEM_VALUE_LENGTH = 128"

definition as_bounded_string :: "json \<Rightarrow> string option" where
  "as_bounded_string v =
     (case v of
        JStr s \<Rightarrow>
          (let trimmed = js_trim s
           in if length trimmed = 0 then None
              else Some (if length trimmed > MAX_SYSTEM_VALUE_LENGTH
                         then take MAX_SYSTEM_VALUE_LENGTH trimmed else trimmed))
      | _ \<Rightarrow> None)"

record system_properties =
  sys_os_name :: os_value
  sys_os_name_raw :: "string option"
  sys_os_version :: "string option"
  sys_locale :: "string option"
  sys_app_version :: "string option"
  sys_device_model :: "string option"
  sys_sdk_version :: "string option"
  sys_country :: "string option"

definition is_plain_object :: "json \<Rightarrow> bool" where
  "is_plain_object v = (case v of JObj _ \<Rightarrow> True | _ \<Rightarrow> False)"

definition normalise_system_properties :: "json \<Rightarrow> string option \<Rightarrow> system_properties" where
  "normalise_system_properties raw country =
     (let source = (if is_plain_object raw then raw else JObj []);
          os = canonical_os_name (as_bounded_string (json_get source ''os_name''))
      in \<lparr> sys_os_name = os_name os, sys_os_name_raw = os_name_raw os,
           sys_os_version = as_bounded_string (json_get source ''os_version''),
           sys_locale = as_bounded_string (json_get source ''locale''),
           sys_app_version = as_bounded_string (json_get source ''app_version''),
           sys_device_model = as_bounded_string (json_get source ''device_model''),
           sys_sdk_version = as_bounded_string (json_get source ''sdk_version''),
           sys_country = country \<rparr>)"

lemma length_as_bounded_string:
  "as_bounded_string v = Some s \<Longrightarrow> s \<noteq> [] \<and> length s \<le> MAX_SYSTEM_VALUE_LENGTH"
  by (auto simp: as_bounded_string_def MAX_SYSTEM_VALUE_LENGTH_def Let_def
      split: json.splits if_splits)

section \<open>Persons\<close>

definition MAX_PERSON_ID_LENGTH :: nat where
  "MAX_PERSON_ID_LENGTH = 128"

text \<open>
  The regular expression \<open>^[^@\s]+@[^@\s]+\.[^@\s]+$\<close>, run: no white space, one at
  sign with something before it, and after it a dot with something on each side.
\<close>

definition looks_like_email :: "string \<Rightarrow> bool" where
  "looks_like_email s =
     (if has_js_space s then False
      else case index_of CHR 0x40 s of
        None \<Rightarrow> False
      | Some i \<Rightarrow>
          (let d = drop (i + 1) s
           in i > 0 \<and> CHR 0x40 \<notin> set d \<and>
              list_ex (\<lambda>j. d ! j = CHR ''.'') [1..<length d - 1]))"

definition admit_person_id :: "json \<Rightarrow> event_admission_error + person_id" where
  "admit_person_id raw =
     (case raw of
        JStr s \<Rightarrow>
          (let trimmed = js_trim s
           in if length trimmed = 0 then err PersonIdRequired
              else if length trimmed > MAX_PERSON_ID_LENGTH
              then err (PersonIdTooLong (length trimmed) MAX_PERSON_ID_LENGTH)
              else if looks_like_email trimmed then err PersonIdLooksLikeEmail
              else ok trimmed)
      | _ \<Rightarrow> err PersonIdRequired)"

definition admit_optional_person :: "json \<Rightarrow> event_admission_error + person_id option" where
  "admit_optional_person raw =
     (if raw = JUndefined \<or> raw = JNull then ok None
      else result_map (admit_person_id raw) Some)"

lemma index_of_Some:
  "index_of c s = Some i \<longleftrightarrow> (i < length s \<and> s ! i = c \<and> c \<notin> set (take i s))"
proof (induction s arbitrary: i)
  case (Cons x xs)
  show ?case by (cases i) (auto simp: Cons)
qed simp

lemma index_of_append: "c \<notin> set a \<Longrightarrow> index_of c (a @ c # b) = Some (length a)"
  by (simp add: index_of_Some nth_append)

text \<open>The scan decides the language of the expression.\<close>

lemma looks_like_email_iff:
  "looks_like_email s \<longleftrightarrow>
     (\<exists>a b c. s = a @ CHR 0x40 # b @ CHR ''.'' # c \<and> a \<noteq> [] \<and> b \<noteq> [] \<and> c \<noteq> [] \<and>
              CHR 0x40 \<notin> set a \<union> set b \<union> set c \<and> \<not> has_js_space (a @ b @ c))"
proof
  assume l: "looks_like_email s"
  then have ns: "\<not> has_js_space s" by (simp add: looks_like_email_def split: if_splits)
  from l ns obtain i where i: "index_of CHR 0x40 s = Some i"
    by (auto simp: looks_like_email_def split: option.splits)
  let ?d = "drop (i + 1) s"
  from l ns i have d: "i > 0" "CHR 0x40 \<notin> set ?d"
    "list_ex (\<lambda>j. ?d ! j = CHR ''.'') [1..<length ?d - 1]"
    by (simp_all add: looks_like_email_def Let_def)
  from d(3) obtain j where j: "1 \<le> j" "j < length ?d - 1" "?d ! j = CHR ''.''"
    by (auto simp: list_ex_iff)
  from i have at: "i < length s" "s ! i = CHR 0x40" "CHR 0x40 \<notin> set (take i s)"
    by (auto simp: index_of_Some)
  have s: "s = take i s @ CHR 0x40 # ?d"
    using at id_take_nth_drop [of i s] by simp
  have dd: "?d = take j ?d @ CHR ''.'' # drop (Suc j) ?d"
    using j id_take_nth_drop [of j ?d] by simp
  have "s = take i s @ CHR 0x40 # take j ?d @ CHR ''.'' # drop (Suc j) ?d"
    using s dd by metis
  moreover have "take i s \<noteq> []" "take j ?d \<noteq> []" "drop (Suc j) ?d \<noteq> []"
    using d(1) at(1) j by auto
  moreover have "CHR 0x40 \<notin> set (take i s) \<union> set (take j ?d) \<union> set (drop (Suc j) ?d)"
    using at(3) d(2) set_take_subset [of j ?d] set_drop_subset [of "Suc j" ?d] by blast
  moreover have "\<not> has_js_space (take i s @ take j ?d @ drop (Suc j) ?d)"
    using ns by (auto simp: has_js_space_def list_ex_iff dest: in_set_takeD in_set_dropD)
  ultimately show "\<exists>a b c. s = a @ CHR 0x40 # b @ CHR ''.'' # c \<and> a \<noteq> [] \<and> b \<noteq> [] \<and> c \<noteq> [] \<and>
      CHR 0x40 \<notin> set a \<union> set b \<union> set c \<and> \<not> has_js_space (a @ b @ c)" by blast
next
  assume "\<exists>a b c. s = a @ CHR 0x40 # b @ CHR ''.'' # c \<and> a \<noteq> [] \<and> b \<noteq> [] \<and> c \<noteq> [] \<and>
      CHR 0x40 \<notin> set a \<union> set b \<union> set c \<and> \<not> has_js_space (a @ b @ c)"
  then obtain a b c where s: "s = a @ CHR 0x40 # b @ CHR ''.'' # c"
    and ne: "a \<noteq> []" "b \<noteq> []" "c \<noteq> []"
    and na: "CHR 0x40 \<notin> set a" "CHR 0x40 \<notin> set b" "CHR 0x40 \<notin> set c"
    and ns: "\<not> has_js_space (a @ b @ c)" by auto
  have i: "index_of CHR 0x40 s = Some (length a)"
    unfolding s by (rule index_of_append [OF na(1)])
  have d: "drop (length a + 1) s = b @ CHR ''.'' # c" by (simp add: s)
  have "length b \<in> set [1..<length (b @ CHR ''.'' # c) - 1]"
    using ne by (auto simp: Suc_le_eq)
  then have dot: "list_ex (\<lambda>j. (b @ CHR ''.'' # c) ! j = CHR ''.'') [1..<length (b @ CHR ''.'' # c) - 1]"
    by (intro list_ex_iff [THEN iffD2] bexI [of _ "length b"]) simp_all
  have "\<not> is_js_space CHR 0x40" "\<not> is_js_space CHR ''.''" by (simp_all add: is_js_space_def)
  then have "\<not> has_js_space s" using ns by (auto simp: s has_js_space_def)
  with i ne na d dot show "looks_like_email s"
    by (simp add: looks_like_email_def Let_def)
qed

section \<open>Event names and the agent vocabulary\<close>

definition AGENT_EVENT_PREFIX :: string where
  "AGENT_EVENT_PREFIX = ''agent_''"

definition AGENT_EVENTS :: "string list" where
  "AGENT_EVENTS =
     [''agent_session_start'', ''agent_session_end'', ''agent_tool_use'', ''agent_file_edit'',
      ''agent_command_run'']"

definition AGENT_HOSTS :: "string list" where
  "AGENT_HOSTS = [''claude-code'', ''opencode'', ''codex'', ''gemini'', ''generic'']"

text \<open>A field's type, whether it is optional, and its bound.\<close>

datatype field_spec =
    StringField bool "nat option"
  | IntegerField bool "int option"
  | EnumField bool "string list"

fun field_optional :: "field_spec \<Rightarrow> bool" where
  "field_optional (StringField opt _) = opt"
| "field_optional (IntegerField opt _) = opt"
| "field_optional (EnumField opt _) = opt"

definition AGENT_EVENT_FIELDS :: "(string \<times> (string \<times> field_spec) list) list" where
  "AGENT_EVENT_FIELDS =
     [(''agent_session_start'',
        [(''model'', StringField True (Some 120)), (''mode'', StringField True (Some 40)),
         (''host'', EnumField False AGENT_HOSTS)]),
      (''agent_session_end'',
        [(''durationMs'', IntegerField True (Some 0)), (''toolUseCount'', IntegerField True (Some 0)),
         (''fileEditCount'', IntegerField True (Some 0))]),
      (''agent_tool_use'',
        [(''tool'', StringField False (Some 80)),
         (''outcome'', EnumField False [''success'', ''error'', ''denied'']),
         (''durationMs'', IntegerField True (Some 0))]),
      (''agent_file_edit'',
        [(''path'', StringField False (Some 400)),
         (''action'', EnumField False [''create'', ''edit'', ''delete'']),
         (''language'', StringField True (Some 40))]),
      (''agent_command_run'',
        [(''command'', StringField False (Some 64)), (''exitCode'', IntegerField True None)])]"

definition AGENT_CONTEXT_FIELDS :: "(string \<times> field_spec) list" where
  "AGENT_CONTEXT_FIELDS =
     [(''setupHash'', StringField False (Some 64)), (''setupSpec'', StringField False (Some 40)),
      (''setupHostSpec'', StringField False (Some 60)), (''model'', StringField True (Some 120)),
      (''setupLabel'', StringField True (Some 80))]"

definition check_field :: "string \<Rightarrow> field_spec \<Rightarrow> json \<Rightarrow> string option" where
  "check_field name spec v =
     (if v = JUndefined \<or> v = JNull
      then (if field_optional spec then None else Some (name @ '' is required''))
      else case spec of
        IntegerField _ mn \<Rightarrow>
          (case v of
             JNum n \<Rightarrow>
               (case mn of
                  None \<Rightarrow> None
                | Some m \<Rightarrow> if n < m then Some (name @ '' must be at least '' @ show_int m) else None)
           | _ \<Rightarrow> Some (name @ '' must be an integer''))
      | EnumField _ vs \<Rightarrow>
          (case v of
             JStr s \<Rightarrow> if s \<in> set vs then None
                       else Some (name @ '' must be one of '' @ join_with '', '' vs)
           | _ \<Rightarrow> Some (name @ '' must be a string''))
      | StringField _ mx \<Rightarrow>
          (case v of
             JStr s \<Rightarrow>
               (case mx of
                  None \<Rightarrow> None
                | Some m \<Rightarrow> if length s > m
                            then Some (name @ '' must be at most '' @ show_nat m @ '' characters'')
                            else None)
           | _ \<Rightarrow> Some (name @ '' must be a string'')))"

text \<open>
  \<open>name in spec\<close> is true of the specification's own names and of those it inherits from
  \<open>Object.prototype\<close>.
\<close>

definition name_in_spec :: "string \<Rightarrow> (string \<times> field_spec) list \<Rightarrow> bool" where
  "name_in_spec name spec = (name \<in> set (map fst spec) \<or> name \<in> set INHERITED_NAMES)"

fun spec_problems :: "(string \<times> field_spec) list \<Rightarrow> (string \<times> json) list \<Rightarrow> string list" where
  "spec_problems [] ps = []"
| "spec_problems ((name, field) # fs) ps =
     (case check_field name field (json_get (JObj ps) name) of
        None \<Rightarrow> spec_problems fs ps
      | Some problem \<Rightarrow> problem # spec_problems fs ps)"

definition check_against :: "(string \<times> field_spec) list \<Rightarrow> (string \<times> json) list \<Rightarrow> string list" where
  "check_against spec ps =
     spec_problems spec ps @
     map (\<lambda>name. name @ '' is not a property of this event'')
       (filter (\<lambda>name. \<not> name_in_spec name spec) (map fst ps))"

definition is_agent_event_name :: "string \<Rightarrow> bool" where
  "is_agent_event_name name = (name \<in> set AGENT_EVENTS)"

definition claims_agent_vocabulary :: "string \<Rightarrow> bool" where
  "claims_agent_vocabulary name = prefix AGENT_EVENT_PREFIX name"

datatype vocabulary_problem = VocabularyProblem string "string list"

definition event_fields :: "string \<Rightarrow> (string \<times> field_spec) list" where
  "event_fields name = (case map_of AGENT_EVENT_FIELDS name of Some fs \<Rightarrow> fs | None \<Rightarrow> [])"

definition validate_agent_event :: "string \<Rightarrow> (string \<times> json) list \<Rightarrow> vocabulary_problem option" where
  "validate_agent_event name ps =
     (if \<not> claims_agent_vocabulary name then None
      else if \<not> is_agent_event_name name
      then Some (VocabularyProblem name [name @ '' is not in the agent vocabulary''])
      else
        (let problems = check_against (event_fields name) ps
         in if length problems = 0 then None else Some (VocabularyProblem name problems)))"

definition validate_agent_context :: "(string \<times> json) list \<Rightarrow> vocabulary_problem option" where
  "validate_agent_context context =
     (let problems = check_against AGENT_CONTEXT_FIELDS context
      in if length problems = 0 then None else Some (VocabularyProblem ''context'' problems))"

definition MAX_EVENT_NAME_LENGTH :: nat where
  "MAX_EVENT_NAME_LENGTH = 128"

definition is_unusable_in_a_name :: "char \<Rightarrow> bool" where
  "is_unusable_in_a_name c =
     (is_js_space c \<or> (of_char c :: nat) \<le> 31 \<or> (of_char c :: nat) = 127)"

definition CONTEXT_KEYS :: "string list" where
  "CONTEXT_KEYS = map fst AGENT_CONTEXT_FIELDS"

definition check_event_name :: "string \<Rightarrow> nat \<Rightarrow> event_admission_error option" where
  "check_event_name name i =
     (if length name = 0 then Some (MalformedEvent i ''name is required'')
      else if length name > MAX_EVENT_NAME_LENGTH
      then Some (MalformedEvent i
             (''name must be at most '' @ show_nat MAX_EVENT_NAME_LENGTH @ '' characters''))
      else if list_ex is_unusable_in_a_name name
      then Some (MalformedEvent i ''name must not contain whitespace or control characters'')
      else None)"

definition own_properties :: "(string \<times> json) list \<Rightarrow> (string \<times> json) list" where
  "own_properties ps = filter (\<lambda>(k, v). k \<notin> set CONTEXT_KEYS) ps"

definition check_agent_vocabulary ::
  "string \<Rightarrow> (string \<times> json) list \<Rightarrow> nat \<Rightarrow> event_admission_error option" where
  "check_agent_vocabulary name ps i =
     (if \<not> claims_agent_vocabulary name then None
      else if \<not> is_agent_event_name name then Some (UnknownEventName name)
      else
        (case validate_agent_event name (own_properties ps) of
           None \<Rightarrow> None
         | Some (VocabularyProblem _ problems) \<Rightarrow>
             Some (MalformedEvent i (join_with ''; '' problems))))"

lemma spec_problems_Nil:
  "spec_problems fs ps = [] \<longleftrightarrow>
     (\<forall>(name, field) \<in> set fs. check_field name field (json_get (JObj ps) name) = None)"
  by (induction fs) (auto split: option.splits)

lemma check_against_Nil:
  "check_against fs ps = [] \<longleftrightarrow>
     (\<forall>(name, field) \<in> set fs. check_field name field (json_get (JObj ps) name) = None) \<and>
     (\<forall>name \<in> set (map fst ps). name_in_spec name fs)"
  by (auto simp: check_against_def spec_problems_Nil filter_empty_conv)

text \<open>The specification's own lists, with the hole \<open>name in spec\<close> leaves named.\<close>

lemma check_agent_vocabulary_None:
  assumes "claims_agent_vocabulary name"
  shows "check_agent_vocabulary name ps i = None \<longleftrightarrow>
           name \<in> set AGENT_EVENTS \<and>
           (\<forall>(f, spec) \<in> set (event_fields name).
              check_field f spec (json_get (JObj (own_properties ps)) f) = None) \<and>
           (\<forall>k \<in> set (map fst ps).
              k \<in> set CONTEXT_KEYS \<or> k \<in> set (map fst (event_fields name)) \<or> k \<in> set INHERITED_NAMES)"
proof -
  have keys: "(\<forall>k \<in> set (map fst (own_properties ps)). name_in_spec k fs) \<longleftrightarrow>
      (\<forall>k \<in> set (map fst ps). k \<in> set CONTEXT_KEYS \<or> k \<in> set (map fst fs) \<or> k \<in> set INHERITED_NAMES)" for fs
  proof -
    have "set (map fst (own_properties ps)) = set (map fst ps) - set CONTEXT_KEYS"
      by (force simp: own_properties_def)
    then show ?thesis unfolding name_in_spec_def by blast
  qed
  have "check_agent_vocabulary name ps i = None \<longleftrightarrow>
      name \<in> set AGENT_EVENTS \<and> check_against (event_fields name) (own_properties ps) = []"
    using assms
    by (auto simp: check_agent_vocabulary_def validate_agent_event_def is_agent_event_name_def Let_def)
  then show ?thesis by (simp only: check_against_Nil keys)
qed

section \<open>Properties\<close>

text \<open>
  Agent telemetry is held to the generated vocabulary: an accepted \<open>agent_\<close> event has a
  known name, every field of its specification that is not a context key passes the
  field check, and every property is a context key or in the specification, up to the
  names an object literal inherits; any other name is none of the vocabulary's business.
\<close>

theorem agent_vocabulary_enforced:
  "(\<not> claims_agent_vocabulary name \<longrightarrow> check_agent_vocabulary name ps i = None) \<and>
   (claims_agent_vocabulary name \<longrightarrow> check_agent_vocabulary name ps i = None \<longrightarrow>
     name \<in> set AGENT_EVENTS \<and>
     (\<forall>(f, spec) \<in> set (event_fields name). f \<notin> set CONTEXT_KEYS \<longrightarrow>
        check_field f spec (json_get (JObj ps) f) = None) \<and>
     (\<forall>k \<in> set (map fst ps).
        k \<in> set CONTEXT_KEYS \<or> k \<in> set (map fst (event_fields name)) \<or> k \<in> set INHERITED_NAMES))"
proof (intro conjI impI)
  show "\<not> claims_agent_vocabulary name \<Longrightarrow> check_agent_vocabulary name ps i = None"
    by (simp add: check_agent_vocabulary_def)
  have own: "json_get (JObj (own_properties ps)) f = json_get (JObj ps) f" if "f \<notin> set CONTEXT_KEYS" for f
  proof -
    have "map_of (own_properties ps) f = map_of ps f"
      using that by (induction ps) (auto simp: own_properties_def)
    then show ?thesis by (simp add: json_get_def)
  qed
  assume "claims_agent_vocabulary name" "check_agent_vocabulary name ps i = None"
  note facts = this(2) [unfolded check_agent_vocabulary_None [OF this(1)]]
  have "\<forall>(f, spec) \<in> set (event_fields name). f \<notin> set CONTEXT_KEYS \<longrightarrow>
        check_field f spec (json_get (JObj ps) f) = None"
    using facts own by (force simp: split_beta)
  with facts have all: "name \<in> set AGENT_EVENTS \<and>
     (\<forall>(f, spec) \<in> set (event_fields name). f \<notin> set CONTEXT_KEYS \<longrightarrow>
        check_field f spec (json_get (JObj ps) f) = None) \<and>
     (\<forall>k \<in> set (map fst ps).
        k \<in> set CONTEXT_KEYS \<or> k \<in> set (map fst (event_fields name)) \<or> k \<in> set INHERITED_NAMES)"
    by blast
  then show "name \<in> set AGENT_EVENTS"
    and "\<forall>(f, spec) \<in> set (event_fields name). f \<notin> set CONTEXT_KEYS \<longrightarrow>
        check_field f spec (json_get (JObj ps) f) = None"
    and "\<forall>k \<in> set (map fst ps).
        k \<in> set CONTEXT_KEYS \<or> k \<in> set (map fst (event_fields name)) \<or> k \<in> set INHERITED_NAMES"
    by blast+
qed

theorem agent_vocabulary_enforced_witness:
  "check_field ''host'' (EnumField False AGENT_HOSTS) (JStr ''codex'') = None \<and>
   check_agent_vocabulary ''checkout'' [] 0 = None"
proof -
  let ?ps = "[(''host'', JStr ''codex''), (''setupHash'', JStr ''h'')]"
  have c: "claims_agent_vocabulary ''agent_session_start''" by code_simp
  have k: "check_agent_vocabulary ''agent_session_start'' ?ps 0 = None" by code_simp
  have "(''host'', EnumField False AGENT_HOSTS) \<in> set (event_fields ''agent_session_start'')"
    by (simp add: event_fields_def AGENT_EVENT_FIELDS_def)
  moreover have "''host'' \<notin> set CONTEXT_KEYS" by code_simp
  ultimately have "check_field ''host'' (EnumField False AGENT_HOSTS) (json_get (JObj ?ps) ''host'') = None"
    using agent_vocabulary_enforced [THEN conjunct2, THEN mp, THEN mp, OF c k] by blast
  moreover have "\<not> claims_agent_vocabulary ''checkout''" by code_simp
  ultimately show ?thesis
    using agent_vocabulary_enforced [THEN conjunct1] by (simp add: json_get_def)
qed

text \<open>The two holes: an inherited name passes as known, and a context key is never checked.\<close>

lemma inherited_name_accepted:
  "check_agent_vocabulary ''agent_session_end'' [(''toString'', JNum 1)] 0 = None"
  "check_agent_vocabulary ''agent_session_end'' [(''totalUnknown'', JNum 1)] 0 \<noteq> None"
  by code_simp+

lemma model_never_checked:
  "check_agent_vocabulary ''agent_session_start''
     [(''host'', JStr ''codex''), (''model'', JNum 7)] 0 = None"
  "check_field ''model'' (StringField True (Some 120)) (JNum 7) \<noteq> None"
  by code_simp+

text \<open>
  One machine is one operating system name: the name depends only on the letters and
  digits of the spelling, and it is a member of the closed set for every spelling but
  those that fold to \<open>constructor\<close>, which find the member every object inherits.
\<close>

theorem os_name_canonical:
  "(js_trim r \<noteq> [] \<longrightarrow> js_trim s \<noteq> [] \<longrightarrow> fold_os (js_trim r) = fold_os (js_trim s) \<longrightarrow>
     os_name (canonical_os_name (Some r)) = os_name (canonical_os_name (Some s))) \<and>
   (is_os_name (os_name (canonical_os_name raw)) \<longleftrightarrow>
     (\<forall>s. raw = Some s \<longrightarrow> fold_os (js_trim s) \<noteq> ''constructor''))"
proof (intro conjI impI)
  show "js_trim r \<noteq> [] \<Longrightarrow> js_trim s \<noteq> [] \<Longrightarrow> fold_os (js_trim r) = fold_os (js_trim s) \<Longrightarrow>
     os_name (canonical_os_name (Some r)) = os_name (canonical_os_name (Some s))"
    by (simp add: canonical_os_name_def Let_def)
  have other: "''other'' \<in> set OS_NAMES" by (simp add: OS_NAMES_def)
  have con: "os_alias ''constructor'' = Some (InheritedMember ''constructor'')" by code_simp
  have range: "k \<noteq> ''constructor'' \<Longrightarrow> os_alias k = Some (InheritedMember m) \<Longrightarrow>
      k \<in> set INHERITED_NAMES" for k m
    by (auto simp: os_alias_def split: option.splits if_splits)
  show "is_os_name (os_name (canonical_os_name raw)) \<longleftrightarrow>
     (\<forall>s. raw = Some s \<longrightarrow> fold_os (js_trim s) \<noteq> ''constructor'')"
  proof (cases raw)
    case None
    with other show ?thesis by (simp add: canonical_os_name_def is_os_name_def)
  next
    case (Some s)
    show ?thesis
    proof (cases "os_alias (fold_os (js_trim s))")
      case None
      with Some other con show ?thesis
        by (auto simp: canonical_os_name_def is_os_name_def Let_def fold_os_def js_lower_def)
    next
      case found: (Some v)
      show ?thesis
      proof (cases v)
        case (OsName n)
        with found Some other con os_alias_range [of "fold_os (js_trim s)" n] show ?thesis
          by (auto simp: canonical_os_name_def is_os_name_def Let_def fold_os_def js_lower_def)
      next
        case (InheritedMember m)
        with found range [of "fold_os (js_trim s)"] fold_os_inherited [of "js_trim s"]
        have "fold_os (js_trim s) = ''constructor''" by auto
        with found Some InheritedMember show ?thesis
          by (auto simp: canonical_os_name_def is_os_name_def Let_def fold_os_def js_lower_def)
      qed
    qed
  qed
qed

theorem os_name_canonical_witness:
  "os_name (canonical_os_name (Some ''Mac OS X'')) = os_name (canonical_os_name (Some ''mac_os-x'')) \<and>
   \<not> is_os_name (os_name (canonical_os_name (Some ''Constructor'')))"
proof -
  have "js_trim ''Mac OS X'' \<noteq> []" "js_trim ''mac_os-x'' \<noteq> []"
    "fold_os (js_trim ''Mac OS X'') = fold_os (js_trim ''mac_os-x'')"
    "fold_os (js_trim ''Constructor'') = ''constructor''"
    by code_simp+
  then show ?thesis using os_name_canonical by blast
qed

text \<open>
  A country is two upper-case letters and nothing longer is ever shortened into one: an
  accepted code has the shape, and a string of more than two characters after trimming is
  refused whatever it is, an address in particular.
\<close>

theorem country_never_truncated:
  "admit_country raw = Some c \<Longrightarrow> is_country_code (JStr c)"
  "length (js_trim s) > 2 \<Longrightarrow> admit_country (JStr s) = None"
proof -
  have small: "x \<le> 90 \<Longrightarrow> x mod 256 = x" for x :: nat by simp
  show "admit_country raw = Some c \<Longrightarrow> is_country_code (JStr c)"
    by (cases raw)
      (auto simp: small admit_country_def is_country_code_def is_country_shape_def Let_def list_all_iff
        split: if_splits)
  have "length s \<le> length (js_upper s)" for s
  proof (induction s)
    case (Cons c s)
    have "length (js_upper_char c) \<ge> 1" by (simp add: js_upper_char_def Let_def)
    with Cons show ?case by (simp add: js_upper_def)
  qed simp
  then show "length (js_trim s) > 2 \<Longrightarrow> admit_country (JStr s) = None"
    by (auto simp: admit_country_def is_country_shape_def Let_def dest: le_less_trans)
      (metis not_le)
qed

theorem country_never_truncated_witness:
  "is_country_code (JStr ''US'') \<and> admit_country (JStr ''19.0.0.1'') = None"
proof -
  have "admit_country (JStr ''us '') = Some ''US''" by code_simp
  moreover have "length (js_trim ''19.0.0.1'') > 2" by code_simp
  ultimately show ?thesis using country_never_truncated by blast
qed

text \<open>Upper casing can lengthen: one sharp s is read as a code.\<close>

lemma sharp_s_admitted: "admit_country (JStr [char_of (223 :: nat)]) = Some ''SS''"
  by code_simp

end
