(* ===== verification/Faults.thy ===== *)
theory Faults
  imports Authorization ProjectsUse TenancyUse DashboardUse MonitorUse Readouts Analysis EventText
begin

text \<open>
  apps/api/src/faults.ts: every domain error becomes one status code and one machine-readable
  reason. A fault's data is its reason followed by the fields of the error; numbers that may be
  fractional are rational.
\<close>

section \<open>Faults\<close>

datatype fault_code =
    BAD_REQUEST | UNAUTHORIZED | PAYMENT_REQUIRED | FORBIDDEN | NOT_FOUND | CONFLICT | GONE
  | PAYLOAD_TOO_LARGE | UNPROCESSABLE_CONTENT | TOO_MANY_REQUESTS | INTERNAL_SERVER_ERROR
  | NOT_IMPLEMENTED | BAD_GATEWAY | SERVICE_UNAVAILABLE | GATEWAY_TIMEOUT

datatype fault_value = FText string | FNumber rat | FTexts "string list" | FFlag bool

record fault =
  fault_code :: fault_code
  fault_message :: string
  fault_reason :: string
  fault_fields :: "(string \<times> fault_value) list"

definition make_fault :: "fault_code \<Rightarrow> string \<Rightarrow> string \<Rightarrow> (string \<times> fault_value) list \<Rightarrow> fault" where
  "make_fault code message reason details =
     \<lparr> fault_code = code, fault_message = message, fault_reason = reason, fault_fields = details \<rparr>"

definition feature_fault :: "string \<Rightarrow> string \<Rightarrow> fault" where
  "feature_fault feature detail = make_fault NOT_IMPLEMENTED detail ''NotImplemented'' [(''feature'', FText feature)]"

fun role_name :: "role \<Rightarrow> string" where
  "role_name Owner = ''owner''"
| "role_name Admin = ''admin''"
| "role_name Member = ''member''"

text \<open>A limit of \<open>null\<close> or a number of milliseconds, as the wire carries them.\<close>

abbreviation FInt :: "int \<Rightarrow> fault_value" where
  "FInt n \<equiv> FNumber (rat_of_int n)"

abbreviation FNat :: "nat \<Rightarrow> fault_value" where
  "FNat n \<equiv> FNumber (rat_of_nat n)"

section \<open>Authorization\<close>

fun from_denial :: "denial \<Rightarrow> fault" where
  "from_denial NotAuthenticated =
     make_fault UNAUTHORIZED ''No usable credential was presented.'' ''NotAuthenticated'' []"
| "from_denial (NotAMember _) =
     make_fault FORBIDDEN ''The credential does not reach this resource.'' ''NotPermitted''
       [(''required'', FText ''workspace:read'')]"
| "from_denial (NotPermitted p) =
     make_fault FORBIDDEN ''The credential does not reach this resource.'' ''NotPermitted''
       [(''required'', FText (permission_string p))]"
| "from_denial (OutOfBinding _ res _) =
     make_fault FORBIDDEN ''The credential does not reach this resource.'' ''OutOfBinding''
       [(''resource'', FText (resource_type res))]"

datatype verification_failure =
    VerifyUnknown
  | VerifyRevoked instant
  | VerifyExpired instant
  | VerifyRateLimited duration

definition from_verification_failure :: "verification_failure \<Rightarrow> fault" where
  "from_verification_failure failure =
     (case failure of
        VerifyRateLimited d \<Rightarrow>
          make_fault TOO_MANY_REQUESTS ''Too many requests.'' ''RateLimited'' [(''retryAfterMs'', FInt d)]
      | _ \<Rightarrow> make_fault UNAUTHORIZED ''No usable credential was presented.'' ''NotAuthenticated'' [])"

fun from_issue_failure :: "issue_failure \<Rightarrow> fault" where
  "from_issue_failure (IssueNoSuchWorkspace w) =
     make_fault NOT_FOUND ''No such resource.'' ''NoSuchWorkspace'' [(''workspace'', FText w)]"
| "from_issue_failure (IssueNoSuchProject p) =
     make_fault NOT_FOUND ''No such resource.'' ''NoSuchProject'' [(''project'', FText p)]"
| "from_issue_failure (IssuerNotAMember a) =
     make_fault FORBIDDEN ''The credential may not be issued.'' ''IssuerNotAMember'' [(''account'', FText a)]"
| "from_issue_failure (NothingGrantable a) =
     make_fault FORBIDDEN ''The credential may not be issued.'' ''NothingGrantable'' [(''account'', FText a)]"

section \<open>Tenancy\<close>

fun from_workspace_error :: "workspace_error \<Rightarrow> fault" where
  "from_workspace_error NameRequired =
     make_fault BAD_REQUEST ''The request is malformed.'' ''NameRequired'' []"
| "from_workspace_error (NoSuchWorkspace w) =
     make_fault NOT_FOUND ''No such resource.'' ''NoSuchWorkspace'' [(''workspace'', FText w)]"
| "from_workspace_error (AlreadyAMember a) =
     make_fault CONFLICT ''The workspace is not in a state that allows this.'' ''AlreadyAMember'' [(''account'', FText a)]"
| "from_workspace_error (NotAMemberOf a) =
     make_fault NOT_FOUND ''No such resource.'' ''NotAMember'' [(''account'', FText a)]"
| "from_workspace_error (RoleUnchanged a r) =
     make_fault CONFLICT ''The workspace is not in a state that allows this.'' ''RoleUnchanged'' [(''account'', FText a), (''role'', FText (role_name r))]"
| "from_workspace_error (LastOwner a) =
     make_fault CONFLICT ''The workspace is not in a state that allows this.'' ''LastOwner'' [(''account'', FText a)]"
| "from_workspace_error (SeatLimitReached n) =
     make_fault PAYMENT_REQUIRED ''The workspace plan does not allow this.'' ''SeatLimitReached'' [(''limit'', FInt n)]"
| "from_workspace_error (ProjectExists p) =
     make_fault CONFLICT ''The project is not in a state that allows this.'' ''ProjectExists'' [(''project'', FText p)]"
| "from_workspace_error (NoSuchProject p) =
     make_fault NOT_FOUND ''No such resource.'' ''NoSuchProject'' [(''project'', FText p)]"
| "from_workspace_error (ProjectAlreadyArchived p) =
     make_fault CONFLICT ''The project is not in a state that allows this.'' ''ProjectAlreadyArchived'' [(''project'', FText p)]"
| "from_workspace_error (ProjectNotArchived p) =
     make_fault CONFLICT ''The project is not in a state that allows this.'' ''ProjectNotArchived'' [(''project'', FText p)]"
| "from_workspace_error (ProjectLimitReached n) =
     make_fault PAYMENT_REQUIRED ''The workspace plan does not allow another project.'' ''ProjectLimitReached'' [(''limit'', FInt n)]"

fun from_billing_error :: "billing_error \<Rightarrow> fault" where
  "from_billing_error (NoSubscription w) =
     make_fault NOT_FOUND ''No such resource.'' ''NoSubscription'' [(''workspace'', FText w)]"
| "from_billing_error (PlanUnavailable p) =
     make_fault UNPROCESSABLE_CONTENT ''That plan cannot be selected.'' ''PlanUnavailable'' [(''plan'', FText p)]"
| "from_billing_error BadSignature =
     make_fault BAD_REQUEST ''The request is malformed.'' ''BadSignature'' []"
| "from_billing_error (Stale n) =
     make_fault BAD_REQUEST ''The request is malformed.'' ''Stale'' [(''ageSeconds'', FInt n)]"
| "from_billing_error (Malformed d) =
     make_fault BAD_REQUEST ''The request is malformed.'' ''Malformed'' [(''detail'', FText d)]"
| "from_billing_error (ProviderUnavailable d) =
     make_fault BAD_GATEWAY ''The billing provider failed.'' ''ProviderUnavailable'' [(''detail'', FText d)]"

section \<open>Projects\<close>

fun from_project_error :: "project_error \<Rightarrow> fault" where
  "from_project_error ProjectNameRequired =
     make_fault BAD_REQUEST ''The request is malformed.'' ''NameRequired'' []"
| "from_project_error NameUnchanged =
     make_fault CONFLICT ''The project is not in a state that allows this.'' ''NameUnchanged'' []"
| "from_project_error (UnknownProject p) =
     make_fault NOT_FOUND ''No such resource.'' ''NoSuchProject'' [(''project'', FText p)]"
| "from_project_error FirstCredentialMustIngest =
     make_fault UNPROCESSABLE_CONTENT ''The request cannot be carried out.'' ''FirstCredentialMustIngest'' []"
| "from_project_error PermissionsRequired =
     make_fault BAD_REQUEST ''The request is malformed.'' ''PermissionsRequired'' []"
| "from_project_error (PermissionEscalation requested held) =
     make_fault FORBIDDEN ''The credential may not be issued.'' ''PermissionEscalation'' [(''requested'', FTexts (map permission_string requested)), (''held'', FTexts (map permission_string held))]"
| "from_project_error (CredentialExists c) =
     make_fault CONFLICT ''The credential is not in a state that allows this.'' ''CredentialExists'' [(''credential'', FText c)]"
| "from_project_error (UnknownCredential c) =
     make_fault NOT_FOUND ''No such resource.'' ''UnknownCredential'' [(''credential'', FText c)]"
| "from_project_error (CredentialRevokedError c) =
     make_fault GONE ''The credential is no longer usable.'' ''CredentialRevoked'' [(''credential'', FText c)]"
| "from_project_error (CredentialExpiredError c) =
     make_fault GONE ''The credential is no longer usable.'' ''CredentialExpired'' [(''credential'', FText c)]"
| "from_project_error (LastIngestCredential c) =
     make_fault CONFLICT ''The credential is not in a state that allows this.'' ''LastIngestCredential'' [(''credential'', FText c)]"
| "from_project_error RotationKindMismatch =
     make_fault UNPROCESSABLE_CONTENT ''The request cannot be carried out.'' ''RotationKindMismatch'' []"
| "from_project_error AlreadyClaimed =
     make_fault CONFLICT ''The project has already been claimed.'' ''AlreadyClaimed'' []"
| "from_project_error GrantExpired =
     make_fault GONE ''The claim grant has expired.'' ''GrantExpired'' []"
| "from_project_error GrantMismatch =
     make_fault FORBIDDEN ''The claim was refused.'' ''GrantMismatch'' []"
| "from_project_error (ProjectIsArchived p) =
     make_fault CONFLICT ''The project is archived.'' ''ProjectArchived'' [(''project'', FText p)]"
| "from_project_error (ProjectIsNotArchived p) =
     make_fault CONFLICT ''The project is not archived.'' ''ProjectNotArchived'' [(''project'', FText p)]"
| "from_project_error (InvalidRetention d) =
     make_fault BAD_REQUEST ''The request is malformed.'' ''InvalidRetention'' [(''days'', FNumber d)]"
| "from_project_error RetentionUnchanged =
     make_fault CONFLICT ''The project is not in a state that allows this.'' ''RetentionUnchanged'' []"

section \<open>Dashboards and monitors\<close>

fun from_dashboard_error :: "dashboard_error \<Rightarrow> fault" where
  "from_dashboard_error (InvalidLayout d) =
     make_fault BAD_REQUEST ''The dashboard layout is invalid.'' ''InvalidLayout'' [(''detail'', FText d)]"
| "from_dashboard_error DashboardNameRequired =
     make_fault BAD_REQUEST ''The request is malformed.'' ''NameRequired'' []"
| "from_dashboard_error DashboardNameUnchanged =
     make_fault CONFLICT ''The dashboard is not in a state that allows this.'' ''NameUnchanged'' []"
| "from_dashboard_error (NoSuchDashboard d) =
     make_fault NOT_FOUND ''No such resource.'' ''NoSuchDashboard'' [(''dashboard'', FText d)]"
| "from_dashboard_error TileTitleRequired =
     make_fault BAD_REQUEST ''The request is malformed.'' ''TileTitleRequired'' []"
| "from_dashboard_error (TileExists t) =
     make_fault CONFLICT ''The tile is not in a state that allows this.'' ''TileExists'' [(''tile'', FText t)]"
| "from_dashboard_error (NoSuchTile t) =
     make_fault NOT_FOUND ''No such resource.'' ''NoSuchTile'' [(''tile'', FText t)]"
| "from_dashboard_error (TooManyTiles n) =
     make_fault CONFLICT ''The tile is not in a state that allows this.'' ''TooManyTiles'' [(''max'', FNat n)]"
| "from_dashboard_error (InvalidWidth w) =
     make_fault BAD_REQUEST ''The request is malformed.'' ''InvalidWidth'' [(''width'', FNumber w)]"
| "from_dashboard_error (WidthUnchanged t) =
     make_fault CONFLICT ''The tile is not in a state that allows this.'' ''WidthUnchanged'' [(''tile'', FText t)]"
| "from_dashboard_error (IndexOutOfRange i n) =
     make_fault BAD_REQUEST ''The request is malformed.'' ''IndexOutOfRange'' [(''index'', FNumber i), (''size'', FNat n)]"
| "from_dashboard_error (PositionUnchanged t) =
     make_fault CONFLICT ''The tile is not in a state that allows this.'' ''PositionUnchanged'' [(''tile'', FText t)]"
| "from_dashboard_error (NotAPermutation m n) =
     make_fault BAD_REQUEST ''The order must name every tile exactly once.'' ''NotAPermutation'' [(''expected'', FNat m), (''received'', FNat n)]"
| "from_dashboard_error OrderUnchanged =
     make_fault CONFLICT ''The tile is not in a state that allows this.'' ''OrderUnchanged'' []"
| "from_dashboard_error DefaultUnchanged =
     make_fault CONFLICT ''The dashboard is already the default.'' ''DefaultUnchanged'' []"
| "from_dashboard_error ShareGrantExpired =
     make_fault GONE ''The share link has expired.'' ''ShareGrantExpired'' []"
| "from_dashboard_error ShareGrantMismatch =
     make_fault FORBIDDEN ''The share link does not open this dashboard.'' ''ShareGrantMismatch'' []"
| "from_dashboard_error NotShared =
     make_fault NOT_FOUND ''No such share link.'' ''NotShared'' []"

fun from_monitor_error :: "monitor_error \<Rightarrow> fault" where
  "from_monitor_error MonitorNameRequired =
     make_fault BAD_REQUEST ''The request is malformed.'' ''NameRequired'' []"
| "from_monitor_error MonitorNameUnchanged =
     make_fault CONFLICT ''The monitor is already in that state.'' ''NameUnchanged'' []"
| "from_monitor_error (NoSuchMonitor m) =
     make_fault NOT_FOUND ''No such resource.'' ''NoSuchMonitor'' [(''monitor'', FText m)]"
| "from_monitor_error NegativeCooldown =
     make_fault BAD_REQUEST ''The request is malformed.'' ''NegativeCooldown'' []"
| "from_monitor_error AnalysisMustBeScalar =
     make_fault UNPROCESSABLE_CONTENT ''The analysis cannot drive a monitor.'' ''AnalysisMustBeScalar'' []"
| "from_monitor_error (Monitor.InvalidAnalysis d) =
     make_fault UNPROCESSABLE_CONTENT ''The analysis cannot drive a monitor.'' ''InvalidAnalysis'' [(''detail'', FText d)]"
| "from_monitor_error AlreadyEnabled =
     make_fault CONFLICT ''The monitor is already in that state.'' ''AlreadyEnabled'' []"
| "from_monitor_error AlreadyDisabled =
     make_fault CONFLICT ''The monitor is already in that state.'' ''AlreadyDisabled'' []"

section \<open>Analytics\<close>

fun from_analysis_error :: "analysis_error \<Rightarrow> fault" where
  "from_analysis_error (Analysis.InvalidAnalysis d) =
     make_fault UNPROCESSABLE_CONTENT ''The analysis cannot be answered.'' ''InvalidAnalysis'' [(''detail'', FText d)]"
| "from_analysis_error (WindowTooLarge d) =
     make_fault UNPROCESSABLE_CONTENT ''The analysis cannot be answered.'' ''WindowTooLarge'' [(''max'', FInt d)]"
| "from_analysis_error (UnknownDimension d) =
     make_fault UNPROCESSABLE_CONTENT ''The analysis cannot be answered.'' ''UnknownDimension'' [(''dimension'', FText d)]"
| "from_analysis_error (UnknownMeasure m) =
     make_fault UNPROCESSABLE_CONTENT ''The analysis cannot be answered.'' ''UnknownMeasure'' [(''measure'', FText m)]"

fun from_engine_failure :: "engine_failure \<Rightarrow> fault" where
  "from_engine_failure (EngineTimeout d) =
     make_fault GATEWAY_TIMEOUT ''The analytics engine did not answer in time.'' ''Timeout'' [(''budgetMs'', FInt d)]"
| "from_engine_failure (EngineUnavailable d) =
     make_fault SERVICE_UNAVAILABLE ''The analytics engine is unavailable.'' ''Unavailable'' [(''detail'', FText d)]"
| "from_engine_failure (InvalidQuery d) =
     make_fault UNPROCESSABLE_CONTENT ''The analysis cannot be answered.'' ''InvalidQuery'' [(''detail'', FText d)]"
| "from_engine_failure (NotImplemented f) =
     make_fault NOT_IMPLEMENTED ''Not available yet.'' ''NotImplemented'' [(''feature'', FText (feature_name f))]"

section \<open>Ingestion\<close>

fun from_batch_admission_error :: "batch_admission_error \<Rightarrow> fault" where
  "from_batch_admission_error (BatchTooLarge n m) =
     make_fault PAYLOAD_TOO_LARGE ''The batch is too large.'' ''BatchTooLarge'' [(''count'', FNat n), (''max'', FNat m)]"
| "from_batch_admission_error (PayloadTooLarge n m) =
     make_fault PAYLOAD_TOO_LARGE ''The payload is too large.'' ''PayloadTooLarge'' [(''bytes'', FInt n), (''max'', FInt m)]"
| "from_batch_admission_error (PlanExceeded l u) =
     make_fault PAYMENT_REQUIRED ''The workspace plan does not allow this.'' ''PlanExceeded'' [(''limit'', FInt l), (''used'', FInt u)]"
| "from_batch_admission_error (RateLimited d) =
     make_fault TOO_MANY_REQUESTS ''Too many requests.'' ''RateLimited'' [(''retryAfterMs'', FInt d)]"
| "from_batch_admission_error (SinkUnavailable d) =
     make_fault SERVICE_UNAVAILABLE ''The event store is unavailable.'' ''SinkUnavailable'' [(''detail'', FText d)]"

fun describe_event_admission_error :: "event_admission_error \<Rightarrow> (string \<times> fault_value) list" where
  "describe_event_admission_error (MalformedEvent i d) =
     [(''reason'', FText ''MalformedEvent''), (''index'', FNat i), (''detail'', FText d)]"
| "describe_event_admission_error (UnknownEventName n) = [(''reason'', FText ''UnknownEventName''), (''name'', FText n)]"
| "describe_event_admission_error (ClockSkew s m) =
     [(''reason'', FText ''ClockSkew''), (''skewMs'', FInt s), (''max'', FInt m)]"
| "describe_event_admission_error PersonIdRequired = [(''reason'', FText ''PersonIdRequired'')]"
| "describe_event_admission_error (PersonIdTooLong n m) =
     [(''reason'', FText ''PersonIdTooLong''), (''length'', FNat n), (''max'', FNat m)]"
| "describe_event_admission_error PersonIdLooksLikeEmail = [(''reason'', FText ''PersonIdLooksLikeEmail'')]"

lemma from_verification_failure_unauthorized:
  "(\<forall>d. failure \<noteq> VerifyRateLimited d) \<Longrightarrow> from_verification_failure failure = from_denial NotAuthenticated"
  by (cases failure) (simp_all add: from_verification_failure_def)

end
