(* ===== verification/Access.thy ===== *)
theory Access
  imports Faults
begin

text \<open>
  How the API decides a request, apps/api/src/auth: who is asking (principal.ts), where the
  named resource sits (placement.ts), what a caller reaches (reach.ts) and the one place a
  request is allowed or refused (authorize.ts), over the policy of \<open>Authorization\<close>. What the
  server reads is a record of functions: the credential store, the memberships, the session
  provider, the share grants and the placements, as they stand while the request is decided.
\<close>

section \<open>What is read\<close>

type_synonym http_headers = "string \<Rightarrow> string option"

record verified_credential =
  vc_id :: credential_id
  vc_kind :: credential_kind
  vc_workspace :: workspace_id
  vc_project :: "project_id option"
  vc_permissions :: "permission list"
  vc_issued_by :: account_id

record workspace_summary =
  sm_id :: workspace_id
  sm_name :: string
  sm_role :: role

text \<open>\<open>undefined\<close> and \<open>null\<close> differ for the workspace of a project: no such project, and nobody's yet.\<close>

record access_reads =
  rd_verify :: "string \<Rightarrow> instant \<Rightarrow> verification_failure + verified_credential"
  rd_role_of :: "account_id \<Rightarrow> workspace_id \<Rightarrow> role option"
  rd_session :: "http_headers \<Rightarrow> account_id option"
  rd_oauth :: "(string \<Rightarrow> (account_id \<times> permission list) option) option"
  rd_share :: "string \<Rightarrow> (credential_id \<times> dashboard_id \<times> project_id list) option"
  rd_project_workspace :: "project_id \<Rightarrow> workspace_id option option"
  rd_workspace_exists :: "workspace_id \<Rightarrow> bool"
  rd_dashboard_workspace :: "dashboard_id \<Rightarrow> workspace_id option"
  rd_monitor_placement :: "monitor_id \<Rightarrow> (workspace_id \<times> project_id) option"
  rd_workspaces_for :: "account_id \<Rightarrow> workspace_summary list"
  rd_workspace_name :: "workspace_id \<Rightarrow> string option"

section \<open>Secrets\<close>

fun credential_prefix :: "credential_kind \<Rightarrow> string" where
  "credential_prefix IngestKey = ''ck_''"
| "credential_prefix ServiceKey = ''sk_''"

definition credential_kind_of :: "string \<Rightarrow> credential_kind option" where
  "credential_kind_of secret = find (\<lambda>kind. take 3 secret = credential_prefix kind) [IngestKey, ServiceKey]"

definition ascii_lower :: "string \<Rightarrow> string" where
  "ascii_lower s = map (\<lambda>c. if of_char c \<in> {65 .. 90 :: nat} then char_of (of_char c + 32 :: nat) else c) s"

text \<open>\<open>/^Bearer\s+(.+)$/i\<close> on the trimmed header: a dot matches no line terminator.\<close>

definition bearer_match :: "string \<Rightarrow> string option" where
  "bearer_match header =
     (let rest = drop 6 header;
          secret = dropWhile is_js_space rest
      in if ascii_lower (take 6 header) = ''bearer'' \<and> rest \<noteq> [] \<and> is_js_space (hd rest) \<and> secret \<noteq> [] \<and>
            list_all (\<lambda>c. of_char c \<notin> {10, 13 :: nat}) secret
         then Some secret else None)"

definition bearer_token :: "http_headers \<Rightarrow> string option" where
  "bearer_token headers =
     (case headers ''authorization'' of
        None \<Rightarrow> None
      | Some header \<Rightarrow> map_option js_trim (bearer_match (js_trim header)))"

section \<open>Principals\<close>

definition SHARE_PERMISSIONS :: "permission list" where
  "SHARE_PERMISSIONS = [DashboardsRead, QueriesRun]"

definition from_verified :: "access_reads \<Rightarrow> verified_credential \<Rightarrow> principal" where
  "from_verified rd c =
     (if vc_kind c = IngestKey then
        (case vc_project c of
           None \<Rightarrow> Anonymous
         | Some p \<Rightarrow>
             (case rd_project_workspace rd p of
                None \<Rightarrow> Anonymous
              | Some w \<Rightarrow> Ingest (vc_id c) p w (vc_permissions c)))
      else
        Service (vc_id c) (vc_workspace c)
          (case vc_project c of None \<Rightarrow> AllProjects | Some p \<Rightarrow> SomeProjects [p])
          (vc_permissions c) (vc_issued_by c))"

definition from_api_key :: "access_reads \<Rightarrow> string \<Rightarrow> instant \<Rightarrow> fault + principal" where
  "from_api_key rd secret t =
     (case rd_verify rd secret t of
        Inl e \<Rightarrow>
          (case e of
             VerifyRateLimited _ \<Rightarrow> err (from_verification_failure e)
           | _ \<Rightarrow> ok Anonymous)
      | Inr c \<Rightarrow> ok (from_verified rd c))"

definition resolve_principal ::
  "access_reads \<Rightarrow> http_headers \<Rightarrow> instant \<Rightarrow> string option \<Rightarrow> fault + principal" where
  "resolve_principal rd headers t share_token =
     (case share_token of
        Some token \<Rightarrow>
          (case rd_share rd token of
             None \<Rightarrow> ok Anonymous
           | Some (c, d, ps) \<Rightarrow> ok (Share c d ps SHARE_PERMISSIONS))
      | None \<Rightarrow>
     (case bearer_token headers of
        Some secret \<Rightarrow>
          (let key = from_api_key rd secret t
           in case key of
                Inr Anonymous \<Rightarrow>
                  if credential_kind_of secret \<noteq> None then key
                  else (case rd_oauth rd of
                          None \<Rightarrow> ok Anonymous
                        | Some oauth \<Rightarrow>
                            (case oauth secret of
                               None \<Rightarrow> ok Anonymous
                             | Some (a, ceil) \<Rightarrow> ok (Account a None (Some ceil))))
              | _ \<Rightarrow> key)
      | None \<Rightarrow>
          (case rd_session rd headers of
             None \<Rightarrow> ok Anonymous
           | Some a \<Rightarrow> ok (Account a None None))))"

fun standing_in :: "access_reads \<Rightarrow> principal \<Rightarrow> workspace_id option \<Rightarrow> principal" where
  "standing_in rd (Account a standing cap) (Some w) =
     Account a (map_option (\<lambda>r. \<lparr> standing_workspace = w, standing_role = r \<rparr>) (rd_role_of rd a w)) cap"
| "standing_in rd who _ = who"

section \<open>Where a resource sits\<close>

datatype resource_kind = KindWorkspace | KindProject | KindDashboard | KindMonitor | KindCredential

record located =
  lc_resource :: resource
  lc_placement :: placement

definition at_workspace :: "workspace_id \<Rightarrow> placement" where
  "at_workspace w = \<lparr> placed_workspace = Some w, placed_project = None \<rparr>"

fun locate :: "access_reads \<Rightarrow> resource_kind \<Rightarrow> string \<Rightarrow> fault + located" where
  "locate rd KindWorkspace i =
     (if rd_workspace_exists rd i then ok \<lparr> lc_resource = RWorkspace i, lc_placement = at_workspace i \<rparr>
      else err (from_workspace_error (NoSuchWorkspace i)))"
| "locate rd KindProject i =
     (case rd_project_workspace rd i of
        None \<Rightarrow> err (from_project_error (UnknownProject i))
      | Some w \<Rightarrow>
          ok \<lparr> lc_resource = RProject i, lc_placement = \<lparr> placed_workspace = w, placed_project = Some i \<rparr> \<rparr>)"
| "locate rd KindDashboard i =
     (case rd_dashboard_workspace rd i of
        None \<Rightarrow> err (from_dashboard_error (NoSuchDashboard i))
      | Some w \<Rightarrow> ok \<lparr> lc_resource = RDashboard i, lc_placement = at_workspace w \<rparr>)"
| "locate rd KindMonitor i =
     (case rd_monitor_placement rd i of
        None \<Rightarrow> err (from_monitor_error (NoSuchMonitor i))
      | Some (w, p) \<Rightarrow>
          ok \<lparr> lc_resource = RMonitor i, lc_placement = \<lparr> placed_workspace = Some w, placed_project = Some p \<rparr> \<rparr>)"
| "locate rd KindCredential i =
     err (make_fault INTERNAL_SERVER_ERROR ''No route authorizes against a credential.'' ''UnresolvableResource''
            [(''resource'', FText (''credential:'' @ i))])"

section \<open>What a caller reaches\<close>

definition role_covering :: "'ac ac_lib \<Rightarrow> permission list \<Rightarrow> role" where
  "role_covering lib ps =
     (case find (\<lambda>r. set ps \<subseteq> set (permissions_for_role lib r)) (sort_key role_rank ROLES) of
        Some r \<Rightarrow> r
      | None \<Rightarrow> Owner)"

definition key_reach ::
  "'ac ac_lib \<Rightarrow> access_reads \<Rightarrow> workspace_id option \<Rightarrow> account_id option \<Rightarrow> permission list \<Rightarrow> workspace_summary list" where
  "key_reach lib rd workspace issuer ps =
     (case workspace of
        None \<Rightarrow> []
      | Some w \<Rightarrow>
          (case rd_workspace_name rd w of
             None \<Rightarrow> []
           | Some name \<Rightarrow>
               [\<lparr> sm_id = w, sm_name = name,
                  sm_role = (case (case issuer of None \<Rightarrow> None | Some a \<Rightarrow> rd_role_of rd a w) of
                               Some r \<Rightarrow> r
                             | None \<Rightarrow> role_covering lib ps) \<rparr>]))"

fun reach_of :: "'ac ac_lib \<Rightarrow> access_reads \<Rightarrow> principal \<Rightarrow> workspace_summary list" where
  "reach_of lib rd Anonymous = []"
| "reach_of lib rd (Account a _ _) = rd_workspaces_for rd a"
| "reach_of lib rd (Service _ w _ ps a) = key_reach lib rd (Some w) (Some a) ps"
| "reach_of lib rd (Ingest _ _ w ps) = key_reach lib rd w None ps"
| "reach_of lib rd (Share _ _ _ _) = []"

section \<open>The decision on a request\<close>

datatype requirement =
    RequireAnonymous
  | RequireShare
  | RequireAccount
  | RequireCredential
  | RequirePrincipal permission
  | RequireResource permission resource_kind string

record authority =
  au_principal :: principal
  au_located :: "located option"
  au_reach :: "workspace_summary list"
  au_at :: instant

datatype authorization =
    Authorized authority
  | Unauthorized fault "denial option" principal

definition refuse_request :: "principal \<Rightarrow> denial \<Rightarrow> authorization" where
  "refuse_request who denial = Unauthorized (from_denial denial) (Some denial) who"

definition reject_request :: "principal \<Rightarrow> fault \<Rightarrow> authorization" where
  "reject_request who f = Unauthorized f None who"

definition text_field :: "json \<Rightarrow> string \<Rightarrow> string option" where
  "text_field input k = (case json_get input k of JStr s \<Rightarrow> if length s > 0 then Some s else None | _ \<Rightarrow> None)"

definition share_token_of :: "requirement \<Rightarrow> json \<Rightarrow> string option" where
  "share_token_of requirement input =
     (if requirement \<noteq> RequireShare then None else text_field input ''shareToken'')"

definition standings_in :: "workspace_summary list \<Rightarrow> workspace_role list" where
  "standings_in reach = map (\<lambda>s. \<lparr> standing_workspace = sm_id s, standing_role = sm_role s \<rparr>) reach"

definition allow_request ::
  "'ac ac_lib \<Rightarrow> access_reads \<Rightarrow> principal \<Rightarrow> located option \<Rightarrow> instant \<Rightarrow> bool \<Rightarrow> authorization" where
  "allow_request lib rd who place t with_reach =
     Authorized \<lparr> au_principal = who, au_located = place,
                  au_reach = (if with_reach then reach_of lib rd who else []), au_at = t \<rparr>"

definition missing_param :: "string \<Rightarrow> fault" where
  "missing_param param =
     make_fault INTERNAL_SERVER_ERROR ''The route does not carry the field its authorization names.''
       ''MissingAuthorizationParam'' [(''param'', FText param)]"

definition authorize_resource ::
  "'ac ac_lib \<Rightarrow> access_reads \<Rightarrow> principal \<Rightarrow> permission \<Rightarrow> resource_kind \<Rightarrow> string \<Rightarrow> json \<Rightarrow> instant \<Rightarrow> authorization" where
  "authorize_resource lib rd who p kind param input t =
     (case text_field input param of
        None \<Rightarrow> reject_request who (missing_param param)
      | Some raw \<Rightarrow>
     (case locate rd kind raw of
        Inl f \<Rightarrow> reject_request who f
      | Inr place \<Rightarrow>
          (let placed = standing_in rd who (placed_workspace (lc_placement place))
           in case decide lib placed p (lc_placement place) (lc_resource place) of
                Deny d \<Rightarrow> refuse_request placed d
              | Allow \<Rightarrow>
                  Authorized \<lparr> au_principal = placed, au_located = Some place, au_reach = [], au_at = t \<rparr>)))"

definition authorize_principal ::
  "'ac ac_lib \<Rightarrow> access_reads \<Rightarrow> principal \<Rightarrow> requirement \<Rightarrow> json \<Rightarrow> instant \<Rightarrow> authorization" where
  "authorize_principal lib rd who requirement input t =
     (case requirement of
        RequireAnonymous \<Rightarrow> allow_request lib rd who None t False
      | RequireShare \<Rightarrow>
          (case who of
             Share _ _ _ _ \<Rightarrow> allow_request lib rd who None t False
           | _ \<Rightarrow> reject_request who (from_dashboard_error NotShared))
      | RequireAccount \<Rightarrow>
          (case decide_unplaced lib who NeedAccount [] of
             Deny d \<Rightarrow> refuse_request who d
           | Allow \<Rightarrow> allow_request lib rd who None t True)
      | RequireCredential \<Rightarrow>
          (case decide_unplaced lib who NeedCredential [] of
             Deny d \<Rightarrow> refuse_request who d
           | Allow \<Rightarrow> allow_request lib rd who None t False)
      | RequirePrincipal p \<Rightarrow>
          (let reach = reach_of lib rd who
           in case decide_unplaced lib who (NeedPermission p) (standings_in reach) of
                Deny d \<Rightarrow> refuse_request who d
              | Allow \<Rightarrow>
                  Authorized \<lparr> au_principal = who, au_located = None, au_reach = reach, au_at = t \<rparr>)
      | RequireResource p kind param \<Rightarrow> authorize_resource lib rd who p kind param input t)"

definition authorize ::
  "'ac ac_lib \<Rightarrow> access_reads \<Rightarrow> requirement \<Rightarrow> http_headers \<Rightarrow> json \<Rightarrow> instant \<Rightarrow> authorization" where
  "authorize lib rd requirement headers input t =
     (case resolve_principal rd headers t (share_token_of requirement input) of
        Inl f \<Rightarrow> reject_request Anonymous f
      | Inr who \<Rightarrow> authorize_principal lib rd who requirement input t)"

section \<open>Facts\<close>

lemma standing_in_shape:
  "standing_in rd who w = who \<or>
     (\<exists>a standing cap v. who = Account a standing cap \<and> w = Some v \<and>
        standing_in rd who w =
          Account a (map_option (\<lambda>r. \<lparr> standing_workspace = v, standing_role = r \<rparr>) (rd_role_of rd a v)) cap)"
  by (cases "(rd, who, w)" rule: standing_in.cases) auto

text \<open>Nobody arrives with a role: a resolved account has no standing yet.\<close>

lemma resolved_without_standing:
  assumes "resolve_principal rd headers t token = Inr who"
  shows "(\<forall>a standing cap. who = Account a standing cap \<longrightarrow> standing = None) \<and>
    (\<forall>c d ps perms. who = Share c d ps perms \<longrightarrow> perms = SHARE_PERMISSIONS \<and> token \<noteq> None)"
  using assms
  by (auto simp: resolve_principal_def from_api_key_def from_verified_def Let_def ok_def err_def
      split: option.splits sum.splits principal.splits verification_failure.splits if_splits)

section \<open>Properties\<close>


definition sample_reads :: access_reads where
  "sample_reads =
     \<lparr> rd_verify = (\<lambda>s t. if s = ''sk_live'' then Inr \<lparr> vc_id = ''k'', vc_kind = ServiceKey, vc_workspace = ''w'',
                       vc_project = None, vc_permissions = [ProjectsRead], vc_issued_by = ''u'' \<rparr>
                     else if s = ''ck_live'' then Inr \<lparr> vc_id = ''i'', vc_kind = IngestKey, vc_workspace = ''old'',
                       vc_project = Some ''p'', vc_permissions = [EventsWrite], vc_issued_by = ''u'' \<rparr>
                     else if s = ''sk_dead'' then Inl (VerifyRevoked 5) else Inl VerifyUnknown),
       rd_role_of = (\<lambda>a w. if a = ''u'' \<and> w = ''w'' then Some Owner else None),
       rd_session = (\<lambda>h. h ''cookie''), rd_oauth = None,
       rd_share = (\<lambda>token. if token = ''link'' then Some (''s'', ''d'', [''p'']) else None),
       rd_project_workspace = (\<lambda>p. if p = ''p'' then Some (Some ''w'') else None),
       rd_workspace_exists = (\<lambda>w. w = ''w''), rd_dashboard_workspace = (\<lambda>d. if d = ''d'' then Some ''w'' else None),
       rd_monitor_placement = (\<lambda>m. None),
       rd_workspaces_for = (\<lambda>a. [\<lparr> sm_id = ''w'', sm_name = ''Acme'', sm_role = Owner \<rparr>]),
       rd_workspace_name = (\<lambda>w. Some ''Acme'') \<rparr>"


text \<open>
  C13. A machine key does what its row says and no more: on a named resource it is let through only
  with a permission on its row, a service key only in the workspace of its row (and on its project
  when it has one), and an ingest key only on its one project where that project sits now.
\<close>

theorem machine_keys_stay_in_place:
  assumes "authorize lib rd (RequireResource p kind param) headers input t = Authorized a"
    and "bearer_token headers = Some secret" and "rd_verify rd secret t = Inr vc"
    and "rd_oauth rd = None \<or> credential_kind_of secret \<noteq> None"
  shows "p \<in> set (vc_permissions vc) \<and>
    (\<exists>place. au_located a = Some place \<and>
       (vc_kind vc = ServiceKey \<longrightarrow> placed_workspace (lc_placement place) = Some (vc_workspace vc)) \<and>
       (vc_project vc \<noteq> None \<longrightarrow> placed_project (lc_placement place) = vc_project vc) \<and>
       (vc_kind vc = IngestKey \<longrightarrow> vc_project vc \<noteq> None))"
proof -
  obtain who where who: "resolve_principal rd headers t None = Inr who"
    "authorize_resource lib rd who p kind param input t = Authorized a"
    using assms(1) by (auto simp: authorize_def authorize_principal_def share_token_of_def reject_request_def split: sum.splits)
  obtain place where d: "decide lib (standing_in rd who (placed_workspace (lc_placement place))) p (lc_placement place) (lc_resource place) = Allow"
    and a: "au_located a = Some place"
    using who(2) by (auto simp: authorize_resource_def reject_request_def refuse_request_def Let_def
        split: option.splits sum.splits decision.splits)
  have who_is: "who = from_verified rd vc"
    using who(1) assms(2-4)
    by (cases "from_verified rd vc") (auto simp: resolve_principal_def from_api_key_def Let_def ok_def split: if_splits)
  have machine: "from_verified rd vc = Anonymous \<or> (\<forall>b s cap. from_verified rd vc \<noteq> Account b s cap)"
    by (auto simp: from_verified_def split: option.splits)
  then have "decide lib who p (lc_placement place) (lc_resource place) = Allow"
    using d who_is standing_in_shape [of rd who "placed_workspace (lc_placement place)"] by auto
  then show ?thesis using a unfolding who_is
    by (cases "vc_kind vc")
      (auto simp: from_verified_def decide_Allow_iff split: option.splits if_splits)
qed

theorem machine_keys_stay_in_place_witness:
  "\<exists>a place. authorize list_ac sample_reads (RequireResource ProjectsRead KindProject ''project'')
       (\<lambda>h. if h = ''authorization'' then Some ''bearer  sk_live'' else None) (JObj [(''project'', JStr ''p'')]) 9 = Authorized a \<and>
     au_located a = Some place \<and> placed_workspace (lc_placement place) = Some ''w''"
proof -
  let ?headers = "\<lambda>h. if h = ''authorization'' then Some ''bearer  sk_live'' else None"
  let ?run = "authorize list_ac sample_reads (RequireResource ProjectsRead KindProject ''project'')
       ?headers (JObj [(''project'', JStr ''p'')]) 9"
  have "case ?run of Authorized _ \<Rightarrow> True | _ \<Rightarrow> False" by code_simp
  then obtain a where run: "?run = Authorized a" by (auto split: authorization.splits)
  have "bearer_token ?headers = Some ''sk_live''" by code_simp
  from machine_keys_stay_in_place [OF run this, of "\<lparr> vc_id = ''k'', vc_kind = ServiceKey, vc_workspace = ''w'',
      vc_project = None, vc_permissions = [ProjectsRead], vc_issued_by = ''u'' \<rparr>"]
  show ?thesis using run by (auto simp: sample_reads_def)
qed

text \<open>
  A guess learns nothing: two secrets that do not verify, one of them perhaps a real key that was
  revoked or has expired, get the same answer on every route, and it is the answer of a request that
  presents no credential at all.
\<close>

theorem dead_secrets_are_not_told_apart:
  assumes "bearer_token headers = Some secret" and "rd_verify rd secret t = Inl failure"
    and "\<forall>d. failure \<noteq> VerifyRateLimited d"
    and "credential_kind_of secret \<noteq> None \<or> rd_oauth rd = None"
    and "bearer_token bare = None" and "rd_session rd bare = None"
  shows "authorize lib rd requirement headers input t = authorize lib rd requirement bare input t"
proof -
  have "from_api_key rd secret t = ok Anonymous"
    using assms(2,3) by (cases failure) (auto simp: from_api_key_def)
  then have "resolve_principal rd headers t None = ok Anonymous"
    using assms(1,4) by (auto simp: resolve_principal_def Let_def ok_def)
  moreover have "resolve_principal rd bare t None = ok Anonymous"
    using assms(5,6) by (simp add: resolve_principal_def)
  moreover have "resolve_principal rd headers t (Some token) = resolve_principal rd bare t (Some token)" for token
    by (simp add: resolve_principal_def)
  ultimately show ?thesis by (cases "share_token_of requirement input") (simp_all add: authorize_def)
qed

theorem dead_secrets_are_not_told_apart_witness:
  "authorize list_ac sample_reads (RequireResource ProjectsRead KindProject ''project'')
       (\<lambda>h. if h = ''authorization'' then Some ''Bearer sk_dead'' else None) (JObj [(''project'', JStr ''p'')]) 9 =
     authorize list_ac sample_reads (RequireResource ProjectsRead KindProject ''project'') (\<lambda>h. None)
       (JObj [(''project'', JStr ''p'')]) 9"
proof -
  have "bearer_token (\<lambda>h. if h = ''authorization'' then Some ''Bearer sk_dead'' else None) = Some ''sk_dead''" by code_simp
  from dead_secrets_are_not_told_apart [OF this, of sample_reads 9 "VerifyRevoked 5" "\<lambda>h. None"]
  show ?thesis by (simp add: sample_reads_def bearer_token_def)
qed

text \<open>
  A share link opens one page: a link authenticates no route but the share routes, an unknown link
  and a missing one are answered alike, and whatever a link is allowed by the policy is reading its
  own dashboard or running a question on a project its tiles read.
\<close>

theorem share_link_opens_one_page:
  "(authorize lib rd requirement headers input t = Authorized a \<and> au_principal a = Share c d ps perms \<longrightarrow>
      requirement = RequireShare \<and> perms = SHARE_PERMISSIONS \<and> au_reach a = [] \<and>
      (\<exists>token. text_field input ''shareToken'' = Some token \<and> rd_share rd token = Some (c, d, ps))) \<and>
   (decide lib (Share c d ps SHARE_PERMISSIONS) p pl res = Allow \<longrightarrow>
      p \<in> {DashboardsRead, QueriesRun} \<and>
      (res = RDashboard d \<or> (\<exists>q \<in> set ps. placed_project pl = Some q))) \<and>
   (text_field input ''shareToken'' = Some token \<and> rd_share rd token = None \<and>
      text_field input' ''shareToken'' = Some other \<and> rd_share rd other = None \<longrightarrow>
      authorize lib rd RequireShare headers input t = authorize lib rd RequireShare headers input' t)"
proof (intro conjI impI)
  assume h: "authorize lib rd requirement headers input t = Authorized a \<and> au_principal a = Share c d ps perms"
  obtain who where who: "resolve_principal rd headers t (share_token_of requirement input) = Inr who"
    "authorize_principal lib rd who requirement input t = Authorized a"
    using h by (auto simp: authorize_def reject_request_def split: sum.splits)
  have "who = Share c d ps perms"
  proof (cases "\<exists>p kind param. requirement = RequireResource p kind param")
    case True
    then obtain p kind param place where "au_principal a = standing_in rd who place"
      using who(2) by (auto simp: authorize_principal_def authorize_resource_def reject_request_def refuse_request_def Let_def
          split: option.splits sum.splits decision.splits)
    then show ?thesis using h standing_in_shape [of rd who place] by auto
  next
    case False
    then show ?thesis using who(2) h
      by (auto simp: authorize_principal_def allow_request_def reject_request_def refuse_request_def Let_def
          split: requirement.splits principal.splits decision.splits)
  qed
  moreover from this have perms: "perms = SHARE_PERMISSIONS" "share_token_of requirement input \<noteq> None"
    using resolved_without_standing [OF who(1)] by auto
  then have req: "requirement = RequireShare" by (auto simp: share_token_of_def split: if_splits)
  ultimately show "requirement = RequireShare" "perms = SHARE_PERMISSIONS"
    "\<exists>token. text_field input ''shareToken'' = Some token \<and> rd_share rd token = Some (c, d, ps)" "au_reach a = []"
    using who perms by (auto simp: share_token_of_def resolve_principal_def authorize_principal_def allow_request_def ok_def
        split: option.splits)
next
  assume h: "decide lib (Share c d ps SHARE_PERMISSIONS) p pl res = Allow"
  then show "p \<in> {DashboardsRead, QueriesRun}" by (simp add: decide_Allow_iff SHARE_PERMISSIONS_def)
  show "res = RDashboard d \<or> (\<exists>q \<in> set ps. placed_project pl = Some q)"
    using h by (auto simp: decide_Allow_iff split: resource.splits option.splits if_splits)
next
  assume "text_field input ''shareToken'' = Some token \<and> rd_share rd token = None \<and>
      text_field input' ''shareToken'' = Some other \<and> rd_share rd other = None"
  then show "authorize lib rd RequireShare headers input t = authorize lib rd RequireShare headers input' t"
    by (simp add: authorize_def share_token_of_def resolve_principal_def ok_def authorize_principal_def)
qed

theorem share_link_opens_one_page_witness:
  "\<exists>a. authorize list_ac sample_reads RequireShare (\<lambda>h. None) (JObj [(''shareToken'', JStr ''link'')]) 9 = Authorized a \<and>
     au_principal a = Share ''s'' ''d'' [''p''] SHARE_PERMISSIONS \<and> au_reach a = []"
proof -
  let ?run = "authorize list_ac sample_reads RequireShare (\<lambda>h. None) (JObj [(''shareToken'', JStr ''link'')]) 9"
  have "case ?run of Authorized a \<Rightarrow> au_principal a = Share ''s'' ''d'' [''p''] SHARE_PERMISSIONS | _ \<Rightarrow> False"
    by code_simp
  then obtain a where "?run = Authorized a \<and> au_principal a = Share ''s'' ''d'' [''p''] SHARE_PERMISSIONS"
    by (auto split: authorization.splits)
  with share_link_opens_one_page [THEN conjunct1, THEN mp, OF this] show ?thesis by blast
qed

end
