(* ===== verification/Admission.thy ===== *)
theory Admission
  imports EventText
begin

text \<open>
  Admission, packages/ingestion/domain/src: the batch as it arrived (batch.ts), keys that
  recognise a resend (dedup.ts), and the one place an untrusted event becomes one the
  system stores (admission.ts). \<open>Date.parse\<close> is a parameter.
\<close>

section \<open>Deduplication\<close>

definition dedup_key :: "string \<Rightarrow> instant \<Rightarrow> string" where
  "dedup_key idempotency_key occurred_at = idempotency_key @ CHR 0x00 # show_int occurred_at"

fun collapse_loop ::
  "('t \<Rightarrow> string option) \<Rightarrow> string list \<Rightarrow> 't list \<Rightarrow> nat \<Rightarrow> 't list \<Rightarrow> 't list \<times> nat" where
  "collapse_loop key keys unique duplicates [] = (unique, duplicates)"
| "collapse_loop key keys unique duplicates (e # es) =
     (case key e of
        None \<Rightarrow> collapse_loop key keys (unique @ [e]) duplicates es
      | Some k \<Rightarrow>
          if k \<in> set keys then collapse_loop key keys unique (duplicates + 1) es
          else collapse_loop key (k # keys) (unique @ [e]) duplicates es)"

definition collapse_duplicates ::
  "('t \<Rightarrow> string option) \<Rightarrow> 't list \<Rightarrow> string list \<Rightarrow> 't list \<times> nat" where
  "collapse_duplicates key es seen = collapse_loop key seen [] 0 es"

text \<open>The reference: an event stays unless an earlier one, or \<open>seen\<close>, has its key.\<close>

fun first_occurrences :: "('t \<Rightarrow> string option) \<Rightarrow> string set \<Rightarrow> 't list \<Rightarrow> 't list" where
  "first_occurrences key seen [] = []"
| "first_occurrences key seen (e # es) =
     (case key e of
        None \<Rightarrow> e # first_occurrences key seen es
      | Some k \<Rightarrow>
          if k \<in> seen then first_occurrences key seen es
          else e # first_occurrences key (insert k seen) es)"

definition keys_of :: "('t \<Rightarrow> string option) \<Rightarrow> 't list \<Rightarrow> string list" where
  "keys_of key es = List.map_filter key es"

lemma keys_of_simps [simp]:
  "keys_of key [] = []"
  "keys_of key (e # es) = (case key e of None \<Rightarrow> keys_of key es | Some k \<Rightarrow> k # keys_of key es)"
  "keys_of key (es @ fs) = keys_of key es @ keys_of key fs"
  by (auto simp: keys_of_def map_filter_def split: option.splits)

lemma collapse_loop_eq:
  "collapse_loop key keys u d es =
     (u @ first_occurrences key (set keys) es,
      d + (length es - length (first_occurrences key (set keys) es)))
   \<and> length (first_occurrences key (set keys) es) \<le> length es"
proof (induction es arbitrary: keys u d)
  case (Cons e es)
  show ?case
  proof (cases "key e")
    case None
    with Cons [of keys "u @ [e]" d] show ?thesis by simp
  next
    case (Some k)
    with Cons [of keys u "d + 1"] Cons [of "k # keys" "u @ [e]" d] show ?thesis
      by (auto simp: Suc_diff_le)
  qed
qed simp

lemma collapse_duplicates_eq:
  "collapse_duplicates key es seen =
     (first_occurrences key (set seen) es,
      length es - length (first_occurrences key (set seen) es))"
  using collapse_loop_eq [of key seen "[]" 0 es] by (simp add: collapse_duplicates_def)

lemma length_first_occurrences: "length (first_occurrences key seen es) \<le> length es"
  by (induction es arbitrary: seen) (auto split: option.splits intro: le_SucI)

lemma set_first_occurrences: "set (first_occurrences key seen es) \<subseteq> set es"
  by (induction es arbitrary: seen) (auto split: option.splits dest: subsetD)

lemma first_occurrences_distinct:
  "distinct (keys_of key (first_occurrences key seen es)) \<and>
   set (keys_of key (first_occurrences key seen es)) \<inter> seen = {}"
proof (induction es arbitrary: seen)
  case (Cons e es)
  show ?case
  proof (cases "key e")
    case None
    with Cons show ?thesis by simp
  next
    case (Some k)
    with Cons [of seen] Cons [of "insert k seen"] show ?thesis by auto
  qed
qed simp

lemma first_occurrences_keys:
  "set (keys_of key (first_occurrences key seen es)) = set (keys_of key es) - seen"
  by (induction es arbitrary: seen) (auto split: option.splits)

lemma first_occurrences_append:
  "first_occurrences key seen (es @ fs) =
     first_occurrences key seen es @ first_occurrences key (seen \<union> set (keys_of key es)) fs"
  by (induction es arbitrary: seen) (auto split: option.splits simp: insert_absorb)

lemma first_occurrences_all_seen:
  "set (keys_of key es) \<subseteq> seen \<Longrightarrow> first_occurrences key seen es = filter (\<lambda>e. key e = None) es"
  by (induction es arbitrary: seen) (auto split: option.splits)

lemma dedup_key_inj [simp]: "dedup_key k t = dedup_key l u \<longleftrightarrow> k = l \<and> t = u"
  unfolding dedup_key_def
  by (subst append_sep_inj_right) (simp_all add: show_int_no_nul)

section \<open>The batch and the policy\<close>

record ingest_batch =
  batch_workspace :: workspace_id
  batch_project :: project_id
  batch_received_at :: instant
  batch_events :: "json list"
  batch_country :: "string option"
  batch_bytes :: "int option"

record admission_policy =
  max_events_per_batch :: nat
  max_body_bytes :: int
  max_properties :: nat
  max_property_key_length :: nat
  max_property_value_length :: nat
  max_future_skew :: duration
  max_age :: duration

definition DEFAULT_ADMISSION_POLICY :: admission_policy where
  "DEFAULT_ADMISSION_POLICY =
     \<lparr> max_events_per_batch = 250, max_body_bytes = 1048576, max_properties = 64,
       max_property_key_length = 64, max_property_value_length = 1024,
       max_future_skew = duration_minutes 5, max_age = duration_days 30 \<rparr>"

record admitted_event =
  ev_name :: string
  ev_visit :: visit_id
  ev_person :: "person_id option"
  ev_occurred_at :: instant
  ev_received_at :: instant
  ev_dedup_key :: "string option"
  ev_properties :: "(string \<times> json) list"
  ev_system :: system_properties

record admission_outcome =
  admitted :: "admitted_event list"
  rejected :: "rejected_event list"
  duplicates :: nat

section \<open>One event\<close>

definition parse_occurred_at ::
  "(string \<Rightarrow> int option) \<Rightarrow> json \<Rightarrow> instant \<Rightarrow> nat \<Rightarrow> event_admission_error + instant" where
  "parse_occurred_at date_parse raw received_at i =
     (case raw of
        JUndefined \<Rightarrow> ok received_at
      | JNull \<Rightarrow> ok received_at
      | JNum n \<Rightarrow> ok n
      | JInfinite \<Rightarrow> err (MalformedEvent i ''occurredAt is not a timestamp'')
      | JStr s \<Rightarrow>
          (case instant_from_iso date_parse s of
             Inr t \<Rightarrow> ok t
           | Inl _ \<Rightarrow> err (MalformedEvent i (''occurredAt is not a timestamp: '' @ s)))
      | _ \<Rightarrow> err (MalformedEvent i ''occurredAt must be an ISO-8601 string or epoch millis''))"

definition check_skew :: "instant \<Rightarrow> instant \<Rightarrow> admission_policy \<Rightarrow> event_admission_error option" where
  "check_skew occurred_at received_at policy =
     (let skew_ms = instant_between received_at occurred_at
      in if skew_ms > max_future_skew policy then Some (ClockSkew skew_ms (max_future_skew policy))
         else if - skew_ms > max_age policy then Some (ClockSkew skew_ms (max_age policy))
         else None)"

text \<open>
  \<open>properties[key] = value\<close> on an object literal: a fresh own property at the end, except
  that \<open>__proto__\<close> is the inherited accessor, whose setter ignores a primitive and takes
  \<open>null\<close> as the new prototype. The keys of the source object are distinct, so no own
  property is ever overwritten.
\<close>

definition assign_property ::
  "(string \<times> json) list \<Rightarrow> string \<Rightarrow> json \<Rightarrow> (string \<times> json) list" where
  "assign_property ps k v = (if k = ''__proto__'' then ps else ps @ [(k, v)])"

fun admit_properties_loop ::
  "nat \<Rightarrow> admission_policy \<Rightarrow> (string \<times> json) list \<Rightarrow> (string \<times> json) list \<Rightarrow>
     event_admission_error + (string \<times> json) list" where
  "admit_properties_loop i policy ps [] = ok ps"
| "admit_properties_loop i policy ps ((k, v) # kvs) =
     (if length k = 0 \<or> length k > max_property_key_length policy
      then err (MalformedEvent i
             (''property names must be 1-'' @ show_nat (max_property_key_length policy) @ '' characters''))
      else case v of
        JNull \<Rightarrow> admit_properties_loop i policy (assign_property ps k v) kvs
      | JBool _ \<Rightarrow> admit_properties_loop i policy (assign_property ps k v) kvs
      | JInfinite \<Rightarrow> err (MalformedEvent i (k @ '' is not a finite number''))
      | JNum _ \<Rightarrow> admit_properties_loop i policy (assign_property ps k v) kvs
      | JStr s \<Rightarrow>
          if length s > max_property_value_length policy
          then err (MalformedEvent i
                 (k @ '' must be at most '' @ show_nat (max_property_value_length policy) @ '' characters''))
          else admit_properties_loop i policy (assign_property ps k v) kvs
      | _ \<Rightarrow> err (MalformedEvent i (k @ '' must be a string, number, boolean or null'')))"

definition admit_properties ::
  "json \<Rightarrow> nat \<Rightarrow> admission_policy \<Rightarrow> event_admission_error + (string \<times> json) list" where
  "admit_properties raw i policy =
     (case raw of
        JUndefined \<Rightarrow> ok []
      | JNull \<Rightarrow> ok []
      | JObj entries \<Rightarrow>
          if length entries > max_properties policy
          then err (MalformedEvent i
                 (''at most '' @ show_nat (max_properties policy) @ '' properties, got '' @
                  show_nat (length entries)))
          else admit_properties_loop i policy [] entries
      | _ \<Rightarrow> err (MalformedEvent i ''properties must be an object''))"

definition idempotency_key_of :: "json \<Rightarrow> string option" where
  "idempotency_key_of v = (case v of JStr s \<Rightarrow> if length s > 0 then Some s else None | _ \<Rightarrow> None)"

definition is_key_or_absent :: "json \<Rightarrow> bool" where
  "is_key_or_absent v =
     (case v of JUndefined \<Rightarrow> True | JNull \<Rightarrow> True | JStr _ \<Rightarrow> True | _ \<Rightarrow> False)"

definition admit_name :: "json \<Rightarrow> nat \<Rightarrow> event_admission_error + string" where
  "admit_name v i =
     (case v of
        JStr name \<Rightarrow> (case check_event_name name i of Some e \<Rightarrow> err e | None \<Rightarrow> ok name)
      | _ \<Rightarrow> err (MalformedEvent i ''name is required''))"

definition json_str :: "json \<Rightarrow> string" where
  "json_str v = (case v of JStr s \<Rightarrow> s | _ \<Rightarrow> [])"

definition admit_event ::
  "(string \<Rightarrow> int option) \<Rightarrow> json \<Rightarrow> nat \<Rightarrow> ingest_batch \<Rightarrow> admission_policy \<Rightarrow>
     event_admission_error + admitted_event" where
  "admit_event date_parse raw i batch policy =
     (if \<not> is_plain_object raw then err (MalformedEvent i ''event must be an object'')
      else flat_map (admit_name (json_get raw ''name'') i) (\<lambda>name.
        if \<not> is_visit_id (json_get raw ''visitId'')
        then err (MalformedEvent i ''visitId is required and must be a non-empty identifier'')
        else flat_map (admit_optional_person (json_get raw ''userId'')) (\<lambda>person.
        flat_map (parse_occurred_at date_parse (json_get raw ''occurredAt'') (batch_received_at batch) i)
          (\<lambda>occurred_at.
        case check_skew occurred_at (batch_received_at batch) policy of
          Some skew \<Rightarrow> err skew
        | None \<Rightarrow>
        flat_map (admit_properties (json_get raw ''properties'') i policy) (\<lambda>properties.
        case check_agent_vocabulary name properties i of
          Some vocabulary \<Rightarrow> err vocabulary
        | None \<Rightarrow>
        if \<not> is_key_or_absent (json_get raw ''idempotencyKey'')
        then err (MalformedEvent i ''idempotencyKey must be a string'')
        else ok
          \<lparr> ev_name = name, ev_visit = json_str (json_get raw ''visitId''), ev_person = person,
            ev_occurred_at = occurred_at, ev_received_at = batch_received_at batch,
            ev_dedup_key = map_option (\<lambda>key. dedup_key key occurred_at)
                             (idempotency_key_of (json_get raw ''idempotencyKey'')),
            ev_properties = properties,
            ev_system = normalise_system_properties (json_get raw ''systemProperties'')
                          (batch_country batch) \<rparr>)))))"

section \<open>The batch\<close>

fun admit_loop ::
  "(string \<Rightarrow> int option) \<Rightarrow> ingest_batch \<Rightarrow> admission_policy \<Rightarrow> nat \<Rightarrow> json list \<Rightarrow>
     admitted_event list \<times> rejected_event list" where
  "admit_loop date_parse batch policy i [] = ([], [])"
| "admit_loop date_parse batch policy i (raw # raws) =
     (let (passed, refused) = admit_loop date_parse batch policy (Suc i) raws
      in case admit_event date_parse raw i batch policy of
           Inr e \<Rightarrow> (e # passed, refused)
         | Inl e \<Rightarrow> (passed, RejectedEvent i e # refused))"

definition admit ::
  "(string \<Rightarrow> int option) \<Rightarrow> ingest_batch \<Rightarrow> admission_policy \<Rightarrow>
     batch_admission_error + admission_outcome" where
  "admit date_parse batch policy =
     (if length (batch_events batch) > max_events_per_batch policy
      then err (BatchTooLarge (length (batch_events batch)) (max_events_per_batch policy))
      else if (case batch_bytes batch of None \<Rightarrow> False | Some b \<Rightarrow> b > max_body_bytes policy)
      then err (PayloadTooLarge (the (batch_bytes batch)) (max_body_bytes policy))
      else
        (let (passed, refused) = admit_loop date_parse batch policy 0 (batch_events batch);
             (unique, dups) = collapse_duplicates ev_dedup_key passed []
         in ok \<lparr> admitted = unique, rejected = refused, duplicates = dups \<rparr>))"

definition is_primitive :: "json \<Rightarrow> bool" where
  "is_primitive v = (case v of JNull \<Rightarrow> True | JBool _ \<Rightarrow> True | JNum _ \<Rightarrow> True | JStr _ \<Rightarrow> True | _ \<Rightarrow> False)"

definition property_ok :: "admission_policy \<Rightarrow> string \<times> json \<Rightarrow> bool" where
  "property_ok policy = (\<lambda>(k, v).
     0 < length k \<and> length k \<le> max_property_key_length policy \<and> is_primitive v \<and>
     (case v of JStr s \<Rightarrow> length s \<le> max_property_value_length policy | _ \<Rightarrow> True))"

text \<open>The loop checks every entry and keeps all but one key.\<close>

lemma admit_properties_loop_Inr:
  "admit_properties_loop i policy ps kvs = Inr qs \<longleftrightarrow>
     list_all (property_ok policy) kvs \<and> qs = ps @ filter (\<lambda>(k, v). k \<noteq> ''__proto__'') kvs"
proof (induction i policy ps kvs rule: admit_properties_loop.induct)
  case (2 i policy ps k v kvs)
  then show ?case
    by (cases v) (auto simp: property_ok_def is_primitive_def assign_property_def ok_def err_def)
qed (auto simp: ok_def)

lemma admit_properties_Inr:
  "admit_properties raw i policy = Inr ps \<longleftrightarrow>
     (raw = JUndefined \<or> raw = JNull) \<and> ps = [] \<or>
     (\<exists>kvs. raw = JObj kvs \<and> length kvs \<le> max_properties policy \<and>
            list_all (property_ok policy) kvs \<and> ps = filter (\<lambda>(k, v). k \<noteq> ''__proto__'') kvs)"
  by (cases raw) (auto simp: admit_properties_def admit_properties_loop_Inr ok_def err_def)

definition valid_event_name :: "string \<Rightarrow> bool" where
  "valid_event_name n =
     (0 < length n \<and> length n \<le> MAX_EVENT_NAME_LENGTH \<and> \<not> list_ex is_unusable_in_a_name n)"

lemma admit_name_Inr: "admit_name v i = Inr n \<longleftrightarrow> v = JStr n \<and> valid_event_name n"
  by (cases v)
    (auto simp: admit_name_def check_event_name_def valid_event_name_def ok_def err_def)

lemma check_skew_None:
  "check_skew t r policy = None \<longleftrightarrow> t - r \<le> max_future_skew policy \<and> r - t \<le> max_age policy"
  by (auto simp: check_skew_def time_defs Let_def)

lemma admit_optional_person_Inr:
  "admit_optional_person v = Inr (Some p) \<Longrightarrow>
     p \<noteq> [] \<and> length p \<le> MAX_PERSON_ID_LENGTH \<and> \<not> looks_like_email p \<and>
     (\<exists>s. v = JStr s \<and> p = js_trim s)"
  by (cases v)
    (auto simp: admit_optional_person_def admit_person_id_def result_map_def ok_def err_def Let_def
      split: if_splits)

text \<open>What holds of every event that passes, whatever the parser of dates does.\<close>

definition event_wf :: "ingest_batch \<Rightarrow> admission_policy \<Rightarrow> admitted_event \<Rightarrow> bool" where
  "event_wf batch policy e \<longleftrightarrow>
     valid_event_name (ev_name e) \<and>
     is_visit_id (JStr (ev_visit e)) \<and>
     (case ev_person e of
        None \<Rightarrow> True
      | Some p \<Rightarrow> p \<noteq> [] \<and> length p \<le> MAX_PERSON_ID_LENGTH \<and> \<not> looks_like_email p) \<and>
     ev_received_at e = batch_received_at batch \<and>
     ev_occurred_at e - ev_received_at e \<le> max_future_skew policy \<and>
     ev_received_at e - ev_occurred_at e \<le> max_age policy \<and>
     length (ev_properties e) \<le> max_properties policy \<and>
     list_all (property_ok policy) (ev_properties e) \<and>
     check_agent_vocabulary (ev_name e) (ev_properties e) 0 = None \<and>
     sys_country (ev_system e) = batch_country batch"

lemma check_agent_vocabulary_index:
  "check_agent_vocabulary n ps i = None \<longleftrightarrow> check_agent_vocabulary n ps j = None"
  by (auto simp: check_agent_vocabulary_def split: option.splits vocabulary_problem.splits)

lemma admit_event_Inr:
  assumes "admit_event date_parse raw i batch policy = Inr e"
  shows "admit_name (json_get raw ''name'') i = Inr (ev_name e) \<and>
           is_visit_id (json_get raw ''visitId'') \<and>
           admit_optional_person (json_get raw ''userId'') = Inr (ev_person e) \<and>
           parse_occurred_at date_parse (json_get raw ''occurredAt'') (batch_received_at batch) i
             = Inr (ev_occurred_at e) \<and>
           check_skew (ev_occurred_at e) (batch_received_at batch) policy = None \<and>
           admit_properties (json_get raw ''properties'') i policy = Inr (ev_properties e) \<and>
           check_agent_vocabulary (ev_name e) (ev_properties e) i = None \<and>
           ev_visit e = json_str (json_get raw ''visitId'') \<and>
           ev_received_at e = batch_received_at batch \<and>
           ev_dedup_key e = map_option (\<lambda>key. dedup_key key (ev_occurred_at e))
             (idempotency_key_of (json_get raw ''idempotencyKey'')) \<and>
           ev_system e = normalise_system_properties (json_get raw ''systemProperties'') (batch_country batch)"
  using assms
  by (auto simp: admit_event_def flat_map_Inr ok_def err_def split: if_splits option.splits)

lemma admit_event_wf:
  assumes "admit_event date_parse raw i batch policy = Inr e"
  shows "event_wf batch policy e"
proof -
  note facts = admit_event_Inr [OF assms]
  have "valid_event_name (ev_name e)" using facts by (auto simp: admit_name_Inr)
  moreover have "is_visit_id (JStr (ev_visit e))"
    using facts by (cases "json_get raw ''visitId''") (auto simp: json_str_def is_visit_id_def is_id_shape_def)
  moreover have "case ev_person e of None \<Rightarrow> True
      | Some p \<Rightarrow> p \<noteq> [] \<and> length p \<le> MAX_PERSON_ID_LENGTH \<and> \<not> looks_like_email p"
    using facts by (auto split: option.splits dest: admit_optional_person_Inr)
  moreover have "ev_received_at e = batch_received_at batch"
    "ev_occurred_at e - ev_received_at e \<le> max_future_skew policy"
    "ev_received_at e - ev_occurred_at e \<le> max_age policy"
    using facts by (auto simp: check_skew_None)
  moreover have "length (ev_properties e) \<le> max_properties policy"
    "list_all (property_ok policy) (ev_properties e)"
    using facts by (auto simp: admit_properties_Inr list_all_iff intro: le_trans [OF length_filter_le])
  moreover have "check_agent_vocabulary (ev_name e) (ev_properties e) 0 = None"
    using facts check_agent_vocabulary_index [of _ _ i 0] by simp
  moreover have "sys_country (ev_system e) = batch_country batch"
    using facts by (auto simp: normalise_system_properties_def Let_def)
  ultimately show ?thesis by (simp add: event_wf_def)
qed

lemma admit_loop_facts:
  assumes "admit_loop date_parse batch policy i raws = (passed, refused)"
  shows "length passed + length refused = length raws"
    and "e \<in> set passed \<Longrightarrow> \<exists>j < length raws. admit_event date_parse (raws ! j) (i + j) batch policy = Inr e"
    and "RejectedEvent n x \<in> set refused \<longleftrightarrow>
           (\<exists>j < length raws. n = i + j \<and> admit_event date_parse (raws ! j) (i + j) batch policy = Inl x)"
proof -
  show "length passed + length refused = length raws"
    using assms
    by (induction raws arbitrary: i passed refused) (auto split: prod.splits sum.splits)
  show "e \<in> set passed \<Longrightarrow> \<exists>j < length raws. admit_event date_parse (raws ! j) (i + j) batch policy = Inr e"
    using assms
  proof (induction raws arbitrary: i passed refused)
    case (Cons raw raws)
    obtain ps rs where pr: "admit_loop date_parse batch policy (Suc i) raws = (ps, rs)" by fastforce
    show ?case
    proof (cases "e \<in> set ps")
      case True
      then obtain j where "j < length raws"
        "admit_event date_parse (raws ! j) (Suc i + j) batch policy = Inr e"
        using Cons.IH [OF _ pr] by blast
      then show ?thesis by (intro exI [of _ "Suc j"]) simp
    next
      case False
      with Cons.prems pr have "admit_event date_parse raw i batch policy = Inr e"
        by (auto split: sum.splits)
      then show ?thesis by (intro exI [of _ 0]) simp
    qed
  qed simp
  show "RejectedEvent n x \<in> set refused \<longleftrightarrow>
          (\<exists>j < length raws. n = i + j \<and> admit_event date_parse (raws ! j) (i + j) batch policy = Inl x)"
    using assms
  proof (induction raws arbitrary: i passed refused)
    case (Cons raw raws)
    obtain ps rs where pr: "admit_loop date_parse batch policy (Suc i) raws = (ps, rs)" by fastforce
    have split: "(\<exists>j < length (raw # raws). n = i + j \<and>
          admit_event date_parse ((raw # raws) ! j) (i + j) batch policy = Inl x) \<longleftrightarrow>
        (n = i \<and> admit_event date_parse raw i batch policy = Inl x) \<or>
        (\<exists>j < length raws. n = Suc i + j \<and>
          admit_event date_parse (raws ! j) (Suc i + j) batch policy = Inl x)"
      unfolding length_Cons Ex_less_Suc2 by auto
    show ?case
      using Cons.prems pr unfolding split Cons.IH [OF pr, symmetric]
      by (auto split: sum.splits)
  qed simp
qed

section \<open>Properties\<close>

lemma admit_Inr:
  assumes "admit date_parse batch policy = Inr out"
  obtains passed where
    "admit_loop date_parse batch policy 0 (batch_events batch) = (passed, rejected out)"
    and "admitted out = first_occurrences ev_dedup_key {} passed"
    and "duplicates out = length passed - length (admitted out)"
    and "length (admitted out) \<le> length passed"
proof -
  obtain ps rs where pr: "admit_loop date_parse batch policy 0 (batch_events batch) = (ps, rs)"
    by fastforce
  with assms have out: "out = \<lparr> admitted = first_occurrences ev_dedup_key {} ps, rejected = rs,
      duplicates = length ps - length (first_occurrences ev_dedup_key {} ps) \<rparr>"
    by (auto simp: admit_def collapse_duplicates_eq ok_def err_def Let_def split: if_splits)
  show thesis
    by (rule that [of ps]) (simp_all add: pr out length_first_occurrences)
qed

lemma admit_count:
  assumes "admit date_parse batch policy = Inr out"
  shows "length (admitted out) + duplicates out + length (rejected out) = length (batch_events batch)"
proof -
  from assms obtain passed where
    p: "admit_loop date_parse batch policy 0 (batch_events batch) = (passed, rejected out)"
    "duplicates out = length passed - length (admitted out)"
    "length (admitted out) \<le> length passed"
    by (rule admit_Inr)
  show ?thesis using admit_loop_facts(1) [OF p(1)] p(2,3) by simp
qed

text \<open>
  C16. Nothing is lost without being named: a batch is refused as a whole exactly for its
  size; otherwise every event is admitted, counted as a duplicate, or rejected under its
  own index with the error its own admission gave, and the three add up.
\<close>

theorem admit_accounts_for_every_event:
  "((\<exists>e. admit date_parse batch policy = Inl e) \<longleftrightarrow>
     length (batch_events batch) > max_events_per_batch policy \<or>
     (\<exists>b. batch_bytes batch = Some b \<and> b > max_body_bytes policy)) \<and>
   (admit date_parse batch policy = Inr out \<longrightarrow>
     length (admitted out) + duplicates out + length (rejected out) = length (batch_events batch)) \<and>
   (admit date_parse batch policy = Inr out \<longrightarrow>
     RejectedEvent i x \<in> set (rejected out) \<longleftrightarrow>
       i < length (batch_events batch) \<and>
       admit_event date_parse (batch_events batch ! i) i batch policy = Inl x)"
proof (intro conjI impI)
  show "(\<exists>e. admit date_parse batch policy = Inl e) \<longleftrightarrow>
     length (batch_events batch) > max_events_per_batch policy \<or>
     (\<exists>b. batch_bytes batch = Some b \<and> b > max_body_bytes policy)"
    by (auto simp: admit_def ok_def err_def Let_def split: prod.splits option.splits)
  assume "admit date_parse batch policy = Inr out"
  then obtain passed where
    p: "admit_loop date_parse batch policy 0 (batch_events batch) = (passed, rejected out)"
    by (rule admit_Inr)
  show "length (admitted out) + duplicates out + length (rejected out) = length (batch_events batch)"
    by (rule admit_count) fact
  show "RejectedEvent i x \<in> set (rejected out) \<longleftrightarrow>
       i < length (batch_events batch) \<and>
       admit_event date_parse (batch_events batch ! i) i batch policy = Inl x"
    using admit_loop_facts(3) [OF p(1), of i x] by auto
qed

theorem admit_accounts_for_every_event_witness:
  "let ev = (\<lambda>k. JObj [(''name'', JStr ''signup''), (''visitId'', JStr ''v1''), (''idempotencyKey'', JStr k)]);
       batch = \<lparr> batch_workspace = ''w'', batch_project = ''p'', batch_received_at = 1000,
                 batch_events = [ev ''a'', JNum 7, ev ''a'', ev ''b''], batch_country = None,
                 batch_bytes = None \<rparr>
   in \<exists>out. admit (\<lambda>s. None) batch DEFAULT_ADMISSION_POLICY = Inr out \<and>
            length (admitted out) = 2 \<and> duplicates out = 1 \<and>
            RejectedEvent 1 (MalformedEvent 1 ''event must be an object'') \<in> set (rejected out)"
proof -
  let ?ev = "\<lambda>k. JObj [(''name'', JStr ''signup''), (''visitId'', JStr ''v1''), (''idempotencyKey'', JStr k)]"
  let ?batch = "\<lparr> batch_workspace = ''w'', batch_project = ''p'', batch_received_at = 1000,
                 batch_events = [?ev ''a'', JNum 7, ?ev ''a'', ?ev ''b''], batch_country = None,
                 batch_bytes = None \<rparr>"
  let ?r = "admit (\<lambda>s. None) ?batch DEFAULT_ADMISSION_POLICY"
  have "\<not> (\<exists>e. ?r = Inl e)"
    by (simp add: admit_accounts_for_every_event [THEN conjunct1] DEFAULT_ADMISSION_POLICY_def)
  then obtain out where out: "?r = Inr out" by (cases ?r) auto
  have "(case ?r of Inr out \<Rightarrow> length (admitted out) = 2 \<and> length (rejected out) = 1 | Inl _ \<Rightarrow> False)"
    by code_simp
  with out have "length (admitted out) = 2" "length (rejected out) = 1" by auto
  moreover from this out admit_accounts_for_every_event [of "\<lambda>s. None" ?batch DEFAULT_ADMISSION_POLICY out]
  have "duplicates out = 1" by simp
  moreover have "RejectedEvent 1 (MalformedEvent 1 ''event must be an object'') \<in> set (rejected out)"
    using out admit_accounts_for_every_event [of "\<lambda>s. None" ?batch DEFAULT_ADMISSION_POLICY out 1]
    by (simp add: admit_event_def is_plain_object_def err_def)
  ultimately show ?thesis using out by (auto simp: Let_def)
qed



text \<open>
  A resend is recognised: keys agree only when the idempotency key and the instant both
  do; collapsing keeps the first of each key in order and counts the rest; a batch sent
  again behind itself adds only its unkeyed events, and collapsing a collapsed batch
  changes nothing.
\<close>

theorem resend_is_recognised:
  "(dedup_key k t = dedup_key l u \<longleftrightarrow> k = l \<and> t = u) \<and>
   (fst (collapse_duplicates key (es @ es) []) =
     fst (collapse_duplicates key es []) @ filter (\<lambda>e. key e = None) es) \<and>
   (fst (collapse_duplicates key es seen) = first_occurrences key (set seen) es \<and>
   length (fst (collapse_duplicates key es seen)) + snd (collapse_duplicates key es seen) = length es) \<and>
   (collapse_duplicates key (fst (collapse_duplicates key es seen)) seen =
     (fst (collapse_duplicates key es seen), 0))"
proof (intro conjI impI)
  have idem: "first_occurrences key s (first_occurrences key s es) = first_occurrences key s es" for s
    by (induction es arbitrary: s) (auto split: option.splits)
  show "collapse_duplicates key (fst (collapse_duplicates key es seen)) seen =
     (fst (collapse_duplicates key es seen), 0)"
    by (simp add: collapse_duplicates_eq idem)
  show "fst (collapse_duplicates key (es @ es) []) =
     fst (collapse_duplicates key es []) @ filter (\<lambda>e. key e = None) es"
    by (simp add: collapse_duplicates_eq first_occurrences_append first_occurrences_all_seen)
qed (simp_all add: collapse_duplicates_eq length_first_occurrences)

text \<open>
  Properties are checked rather than coerced: an accepted object's own properties are kept
  exactly, key by key and in order, with one exception, the key \<open>__proto__\<close>, which is
  accepted and lost; a nested value is always refused.
\<close>

theorem properties_checked_not_coerced:
  "(admit_properties (JObj kvs) i policy = Inr ps \<longrightarrow>
     ps = filter (\<lambda>(k, v). k \<noteq> ''__proto__'') kvs \<and> list_all (property_ok policy) kvs) \<and>
   ((k, v) \<in> set kvs \<longrightarrow> \<not> is_primitive v \<longrightarrow> (\<exists>e. admit_properties (JObj kvs) i policy = Inl e))"
proof (intro conjI impI)
  show "ps = filter (\<lambda>(k, v). k \<noteq> ''__proto__'') kvs" "list_all (property_ok policy) kvs"
    if "admit_properties (JObj kvs) i policy = Inr ps"
    using that by (auto simp: admit_properties_Inr)
  assume "(k, v) \<in> set kvs" "\<not> is_primitive v"
  then have "\<not> list_all (property_ok policy) kvs"
    by (force simp: list_all_iff property_ok_def)
  then have "\<nexists>ps. admit_properties (JObj kvs) i policy = Inr ps"
    by (auto simp: admit_properties_Inr)
  then show "\<exists>e. admit_properties (JObj kvs) i policy = Inl e"
    by (metis sum.exhaust)
qed

theorem properties_checked_not_coerced_witness:
  "(\<exists>ps. admit_properties (JObj [(''__proto__'', JNum 1), (''plan'', JStr ''pro'')]) 0
            DEFAULT_ADMISSION_POLICY = Inr ps \<and> ps = [(''plan'', JStr ''pro'')]) \<and>
   (\<exists>e. admit_properties (JObj [(''cart'', JArr [])]) 0 DEFAULT_ADMISSION_POLICY = Inl e)"
proof -
  let ?kvs = "[(''__proto__'', JNum 1), (''plan'', JStr ''pro'')]"
  have "\<exists>ps. admit_properties (JObj ?kvs) 0 DEFAULT_ADMISSION_POLICY = Inr ps"
    by (simp add: admit_properties_def DEFAULT_ADMISSION_POLICY_def ok_def)
  then obtain ps where ps: "admit_properties (JObj ?kvs) 0 DEFAULT_ADMISSION_POLICY = Inr ps" ..
  have "(''cart'', JArr []) \<in> set [(''cart'', JArr [])]" "\<not> is_primitive (JArr [])"
    by (simp_all add: is_primitive_def)
  then have "\<exists>e. admit_properties (JObj [(''cart'', JArr [])]) 0 DEFAULT_ADMISSION_POLICY = Inl e"
    using properties_checked_not_coerced by blast
  moreover have "ps = filter (\<lambda>(k, v). k \<noteq> ''__proto__'') ?kvs"
    using ps properties_checked_not_coerced by blast
  ultimately show ?thesis using ps by simp
qed

end
