(* ===== verification/GroupCommit.thy ===== *)
theory GroupCommit
  imports Admission
begin

text \<open>
  The coalescer of packages/ingestion/app/src: when a group commits and when an arrival is
  refused (policy.ts), and the machine that promises one acknowledgement per request, after
  the commit (group-commit.ts). The quota service, the event sink and the clock
  (packages/ingestion/ports/src) answer from outside, so every stretch of code between two
  awaits is one step of a transition system and their answers are its labels.
\<close>

section \<open>The policy\<close>

record group_commit_policy =
  linger :: duration
  max_events :: nat
  max_waiters :: nat
  max_buffered :: int
  max_in_flight :: nat
  retry_after :: duration

definition DEFAULT_GROUP_COMMIT_POLICY :: group_commit_policy where
  "DEFAULT_GROUP_COMMIT_POLICY =
     \<lparr> linger = 20, max_events = 500, max_waiters = 64, max_buffered = 50000,
       max_in_flight = 4, retry_after = duration_seconds 1 \<rparr>"

record pending_group =
  pending_events :: nat
  pending_waiters :: nat
  pending_opened_at :: instant

record commit_state =
  cs_group :: "pending_group option"
  cs_in_flight :: nat
  cs_draining :: bool

datatype flush_reason = FlushSize | FlushWaiters | FlushLinger | FlushDrain

datatype flush_decision = Flush flush_reason | Wait instant | Blocked | Idle

definition deadline :: "pending_group \<Rightarrow> group_commit_policy \<Rightarrow> instant" where
  "deadline g policy = instant_plus (pending_opened_at g) (linger policy)"

definition flush_reason_of ::
  "pending_group \<Rightarrow> commit_state \<Rightarrow> group_commit_policy \<Rightarrow> instant \<Rightarrow> flush_reason option" where
  "flush_reason_of g st policy now =
     (if cs_draining st then Some FlushDrain
      else if pending_events g \<ge> max_events policy then Some FlushSize
      else if pending_waiters g \<ge> max_waiters policy then Some FlushWaiters
      else if \<not> is_before now (deadline g policy) then Some FlushLinger
      else None)"

definition decide_flush :: "commit_state \<Rightarrow> group_commit_policy \<Rightarrow> instant \<Rightarrow> flush_decision" where
  "decide_flush st policy now =
     (case cs_group st of
        None \<Rightarrow> Idle
      | Some g \<Rightarrow>
          (case flush_reason_of g st policy now of
             None \<Rightarrow> Wait (deadline g policy)
           | Some reason \<Rightarrow>
               if cs_in_flight st \<ge> max_in_flight policy then Blocked else Flush reason))"

datatype reception = Accept | Refuse duration

definition receive :: "int \<Rightarrow> nat \<Rightarrow> group_commit_policy \<Rightarrow> reception" where
  "receive buf arriving policy =
     (if buf + int arriving > max_buffered policy then Refuse (retry_after policy) else Accept)"

section \<open>The ports\<close>

datatype quota_verdict =
    QuotaAllowed "int option"
  | QuotaPlanExceeded int int
  | QuotaRateLimited duration

datatype quota_answer = QuotaVerdict quota_verdict | QuotaThrew string

datatype write_failure = SinkDown string | SinkTimeout

record write_receipt =
  receipt_written :: int
  receipt_indices :: "int list"
  receipt_deduplicated :: int

datatype sink_answer = SinkWrote write_receipt | SinkFailed write_failure | SinkThrewError string

datatype record_answer = Recorded | RecordThrew string

section \<open>Acknowledgements and state\<close>

record commit_summary =
  summary_size :: nat
  summary_written :: int
  summary_deduplicated :: int

datatype ack =
    Committed nat nat "rejected_event list" "commit_summary option"
  | Refused batch_admission_error "rejected_event list"

text \<open>How the promise of a request ended: with an acknowledgement, or with an exception.\<close>

datatype settlement = Resolved ack | Raised string

datatype commit_problem =
    QuotaNotRecorded project_id int string
  | SinkThrew project_id nat string

record waiter =
  waiter_request :: nat
  contributed :: nat
  w_offset :: nat
  w_duplicates :: nat
  w_rejected :: "rejected_event list"

record group =
  g_project :: project_id
  g_workspace :: workspace_id
  g_events :: "admitted_event list"
  g_keys :: "string list"
  g_waiters :: "waiter list"
  g_opened_at :: instant

text \<open>Where a commit's asynchronous body stands: at the sink, at the usage counter, done.\<close>

datatype commit_phase =
    AtSink group
  | AtRecord group write_receipt
  | CommitDone

text \<open>
  The object's fields \<open>#groups\<close>, \<open>#commits\<close>, \<open>#buffered\<close>, \<open>#draining\<close>, the submissions
  awaiting their quota verdict, and three histories: every batch submitted (a request is
  its position), every promise settled, and every problem reported; \<open>stored\<close> counts what
  consistent receipts reported as newly written.
\<close>

record gc_state =
  groups :: "group list"
  commits :: "(nat \<times> commit_phase) list"
  buffered :: int
  draining :: bool
  in_check :: "(nat \<times> ingest_batch \<times> admission_outcome) list"
  arrived :: "ingest_batch list"
  settled :: "(nat \<times> settlement) list"
  problems :: "commit_problem list"
  stored :: int
  next_commit :: nat

record gc_config =
  cfg_policy :: group_commit_policy
  cfg_admission :: admission_policy
  cfg_date_parse :: "string \<Rightarrow> int option"

definition gc_init :: gc_state where
  "gc_init =
     \<lparr> groups = [], commits = [], buffered = 0, draining = False, in_check = [], arrived = [],
       settled = [], problems = [], stored = 0, next_commit = 0 \<rparr>"

definition sink_refusal :: "write_failure \<Rightarrow> batch_admission_error" where
  "sink_refusal f =
     (case f of
        SinkDown detail \<Rightarrow> SinkUnavailable detail
      | SinkTimeout \<Rightarrow> SinkUnavailable ''the sink did not answer in time'')"

definition backpressure :: "duration \<Rightarrow> rejected_event list \<Rightarrow> ack" where
  "backpressure retry rej = Refused (RateLimited retry) rej"

definition pending_of :: "group \<Rightarrow> pending_group" where
  "pending_of g =
     \<lparr> pending_events = length (g_events g), pending_waiters = length (g_waiters g),
       pending_opened_at = g_opened_at g \<rparr>"

definition waiting :: "gc_state \<Rightarrow> nat" where
  "waiting s = sum_list (map (\<lambda>g. length (g_waiters g)) (groups s))"

fun earliest_deadline :: "group_commit_policy \<Rightarrow> instant option \<Rightarrow> group list \<Rightarrow> instant option" where
  "earliest_deadline policy earliest [] = earliest"
| "earliest_deadline policy earliest (g # gs) =
     (let t = deadline (pending_of g) policy
      in earliest_deadline policy
           (case earliest of None \<Rightarrow> Some t | Some e \<Rightarrow> Some (instant_min e t)) gs)"

definition next_deadline_at :: "gc_config \<Rightarrow> gc_state \<Rightarrow> instant option" where
  "next_deadline_at cfg s = earliest_deadline (cfg_policy cfg) None (groups s)"

section \<open>The operations\<close>

definition settle :: "nat \<Rightarrow> settlement \<Rightarrow> gc_state \<Rightarrow> gc_state" where
  "settle r x s = s\<lparr>settled := settled s @ [(r, x)]\<rparr>"

text \<open>\<open>#pump\<close>: over a snapshot of the groups, flush each one the policy lets go.\<close>

fun pump_loop :: "gc_config \<Rightarrow> instant \<Rightarrow> group list \<Rightarrow> gc_state \<Rightarrow> gc_state" where
  "pump_loop cfg now [] s = s"
| "pump_loop cfg now (g # gs) s =
     (case decide_flush
             \<lparr> cs_group = Some (pending_of g), cs_in_flight = length (commits s),
               cs_draining = draining s \<rparr> (cfg_policy cfg) now of
        Flush _ \<Rightarrow>
          pump_loop cfg now gs
            (s\<lparr>groups := filter (\<lambda>x. g_project x \<noteq> g_project g) (groups s),
               buffered := buffered s - int (length (g_events g)),
               commits := commits s @ [(next_commit s, AtSink g)],
               next_commit := next_commit s + 1\<rparr>)
      | _ \<Rightarrow> pump_loop cfg now gs s)"

definition pump :: "gc_config \<Rightarrow> instant \<Rightarrow> gc_state \<Rightarrow> gc_state" where
  "pump cfg now s = pump_loop cfg now (groups s) s"

text \<open>\<open>submit\<close> up to the await of the quota.\<close>

definition submit :: "gc_config \<Rightarrow> ingest_batch \<Rightarrow> gc_state \<Rightarrow> gc_state" where
  "submit cfg batch s0 =
     (let r = length (arrived s0);
          s = s0\<lparr>arrived := arrived s0 @ [batch]\<rparr>
      in case admit (cfg_date_parse cfg) batch (cfg_admission cfg) of
           Inl e \<Rightarrow> settle r (Resolved (Refused e [])) s
         | Inr out \<Rightarrow>
             if length (admitted out) = 0
             then settle r (Resolved (Committed 0 (duplicates out) (rejected out) None)) s
             else if draining s
             then settle r (Resolved (Refused (SinkUnavailable ''the server is shutting down'')
                                        (rejected out))) s
             else (case receive (buffered s) (length (admitted out)) (cfg_policy cfg) of
                     Refuse retry \<Rightarrow> settle r (Resolved (backpressure retry (rejected out))) s
                   | Accept \<Rightarrow> s\<lparr>in_check := in_check s @ [(r, batch, out)]\<rparr>))"

text \<open>\<open>#groupFor\<close>: the project's group, opened if there is none.\<close>

definition group_for :: "ingest_batch \<Rightarrow> instant \<Rightarrow> gc_state \<Rightarrow> gc_state \<times> group" where
  "group_for batch now s =
     (case find (\<lambda>g. g_project g = batch_project batch) (groups s) of
        Some existing \<Rightarrow> (s, existing)
      | None \<Rightarrow>
          (let g = \<lparr> g_project = batch_project batch, g_workspace = batch_workspace batch,
                     g_events = [], g_keys = [], g_waiters = [], g_opened_at = now \<rparr>
           in (s\<lparr>groups := groups s @ [g]\<rparr>, g)))"

definition put_group :: "group \<Rightarrow> gc_state \<Rightarrow> gc_state" where
  "put_group g s =
     s\<lparr>groups := map (\<lambda>x. if g_project x = g_project g then g else x) (groups s)\<rparr>"

text \<open>The rest of \<open>submit\<close>: join the group, become a waiter, pump.\<close>

definition join_group ::
  "gc_config \<Rightarrow> nat \<Rightarrow> ingest_batch \<Rightarrow> admission_outcome \<Rightarrow> instant \<Rightarrow> gc_state \<Rightarrow> gc_state" where
  "join_group cfg r batch out now s =
     (let (s1, g) = group_for batch now s;
          (unique, repeats) = collapse_duplicates ev_dedup_key (admitted out) (g_keys g);
          w = \<lparr> waiter_request = r, contributed = length unique, w_offset = length (g_events g),
                w_duplicates = duplicates out + repeats, w_rejected = rejected out \<rparr>;
          g' = g\<lparr>g_events := g_events g @ unique,
                 g_keys := keys_of ev_dedup_key unique @ g_keys g,
                 g_waiters := g_waiters g @ [w]\<rparr>
      in put_group g' (s1\<lparr>buffered := buffered s1 + int (length unique)\<rparr>))"

definition resume_submit ::
  "gc_config \<Rightarrow> nat \<Rightarrow> quota_answer \<Rightarrow> instant \<Rightarrow> gc_state \<Rightarrow> gc_state" where
  "resume_submit cfg r answer now s0 =
     (case map_of (in_check s0) r of
        None \<Rightarrow> s0
      | Some (batch, out) \<Rightarrow>
          (let s = s0\<lparr>in_check := filter (\<lambda>(q, x). q \<noteq> r) (in_check s0)\<rparr>
           in case answer of
                QuotaThrew detail \<Rightarrow> settle r (Raised detail) s
              | QuotaVerdict (QuotaPlanExceeded limit used) \<Rightarrow>
                  settle r (Resolved (Refused (PlanExceeded limit used) (rejected out))) s
              | QuotaVerdict (QuotaRateLimited retry) \<Rightarrow>
                  settle r (Resolved (backpressure retry (rejected out))) s
              | QuotaVerdict (QuotaAllowed _) \<Rightarrow>
                  (case receive (buffered s) (length (admitted out)) (cfg_policy cfg) of
                     Refuse retry \<Rightarrow> settle r (Resolved (backpressure retry (rejected out))) s
                   | Accept \<Rightarrow> pump cfg now (join_group cfg r batch out now s))))"

text \<open>\<open>#commit\<close> after the sink answered.\<close>

definition receipt_consistent :: "write_receipt \<Rightarrow> nat \<Rightarrow> bool" where
  "receipt_consistent w n =
     (\<not> (int (length (remdups (receipt_indices w))) \<noteq> receipt_written w \<or>
         receipt_written w + receipt_deduplicated w \<noteq> int n \<or>
         list_ex (\<lambda>i. i < 0 \<or> i \<ge> int n) (remdups (receipt_indices w))))"

definition settle_all :: "(waiter \<Rightarrow> ack) \<Rightarrow> group \<Rightarrow> gc_state \<Rightarrow> gc_state" where
  "settle_all answer g s =
     s\<lparr>settled := settled s @ map (\<lambda>w. (waiter_request w, Resolved (answer w))) (g_waiters g)\<rparr>"

definition set_phase :: "nat \<Rightarrow> commit_phase \<Rightarrow> gc_state \<Rightarrow> gc_state" where
  "set_phase c ph s = s\<lparr>commits := map (\<lambda>(i, x). if i = c then (i, ph) else (i, x)) (commits s)\<rparr>"

definition report :: "commit_problem \<Rightarrow> gc_state \<Rightarrow> gc_state" where
  "report p s = s\<lparr>problems := problems s @ [p]\<rparr>"

definition commit_threw :: "nat \<Rightarrow> group \<Rightarrow> string \<Rightarrow> gc_state \<Rightarrow> gc_state" where
  "commit_threw c g detail s =
     set_phase c CommitDone
       (settle_all (\<lambda>w. Refused (SinkUnavailable detail) (w_rejected w)) g
         (report (SinkThrew (g_project g) (length (g_events g)) detail) s))"

definition sink_answered :: "nat \<Rightarrow> sink_answer \<Rightarrow> gc_state \<Rightarrow> gc_state" where
  "sink_answered c answer s =
     (case map_of (commits s) c of
        Some (AtSink g) \<Rightarrow>
          (case answer of
             SinkFailed f \<Rightarrow>
               set_phase c CommitDone
                 (settle_all (\<lambda>w. Refused (sink_refusal f) (w_rejected w)) g s)
           | SinkThrewError detail \<Rightarrow> commit_threw c g detail s
           | SinkWrote w \<Rightarrow>
               if \<not> receipt_consistent w (length (g_events g))
               then commit_threw c g ''the sink returned an inconsistent write receipt'' s
               else set_phase c (AtRecord g w) (s\<lparr>stored := stored s + receipt_written w\<rparr>))
      | _ \<Rightarrow> s)"

definition accepted_of :: "write_receipt \<Rightarrow> waiter \<Rightarrow> nat" where
  "accepted_of rc w =
     length (filter (\<lambda>i. int i \<in> set (receipt_indices rc)) [w_offset w ..< w_offset w + contributed w])"

definition summary_of :: "group \<Rightarrow> write_receipt \<Rightarrow> commit_summary" where
  "summary_of g rc =
     \<lparr> summary_size = length (g_events g), summary_written = receipt_written rc,
       summary_deduplicated = receipt_deduplicated rc \<rparr>"

definition committed_ack :: "group \<Rightarrow> write_receipt \<Rightarrow> waiter \<Rightarrow> ack" where
  "committed_ack g rc w =
     (let acc = accepted_of rc w
      in Committed acc (w_duplicates w + contributed w - acc) (w_rejected w) (Some (summary_of g rc)))"

text \<open>\<open>#commit\<close> after the usage counter answered: its failure is reported, not acknowledged.\<close>

definition record_answered :: "nat \<Rightarrow> record_answer \<Rightarrow> gc_state \<Rightarrow> gc_state" where
  "record_answered c answer s =
     (case map_of (commits s) c of
        Some (AtRecord g rc) \<Rightarrow>
          (let s1 = (case answer of
                       Recorded \<Rightarrow> s
                     | RecordThrew detail \<Rightarrow>
                         report (QuotaNotRecorded (g_project g) (receipt_written rc) detail) s)
           in set_phase c CommitDone (settle_all (committed_ack g rc) g s1))
      | _ \<Rightarrow> s)"

text \<open>The \<open>finally\<close> of a commit: free its slot and look again.\<close>

definition commit_finally :: "gc_config \<Rightarrow> nat \<Rightarrow> instant \<Rightarrow> gc_state \<Rightarrow> gc_state" where
  "commit_finally cfg c now s =
     (case map_of (commits s) c of
        Some CommitDone \<Rightarrow>
          pump cfg now (s\<lparr>commits := filter (\<lambda>(i, x). i \<noteq> c) (commits s)\<rparr>)
      | _ \<Rightarrow> s)"

text \<open>\<open>drain\<close>: the flag, then a loop that pumps and awaits while anything is left.\<close>

definition drained :: "gc_state \<Rightarrow> bool" where
  "drained s = (\<not> (length (groups s) > 0 \<or> length (commits s) > 0))"

definition begin_drain :: "gc_config \<Rightarrow> instant \<Rightarrow> gc_state \<Rightarrow> gc_state" where
  "begin_drain cfg now s =
     (let s1 = s\<lparr>draining := True\<rparr> in if drained s1 then s1 else pump cfg now s1)"

datatype gc_label =
    LSubmit ingest_batch
  | LQuota nat quota_answer instant
  | LTick instant
  | LSink nat sink_answer
  | LRecord nat record_answer
  | LFinally nat instant
  | LDrain instant

fun gc_exec :: "gc_config \<Rightarrow> gc_label \<Rightarrow> gc_state \<Rightarrow> gc_state" where
  "gc_exec cfg (LSubmit batch) s = submit cfg batch s"
| "gc_exec cfg (LQuota r answer now) s = resume_submit cfg r answer now s"
| "gc_exec cfg (LTick now) s = pump cfg now s"
| "gc_exec cfg (LSink c answer) s = sink_answered c answer s"
| "gc_exec cfg (LRecord c answer) s = record_answered c answer s"
| "gc_exec cfg (LFinally c now) s = commit_finally cfg c now s"
| "gc_exec cfg (LDrain now) s = begin_drain cfg now s"

text \<open>
  A step happens when what it answers is pending: a verdict for a submission that awaits
  one, an answer to a commit in that phase.
\<close>

inductive gc_step :: "gc_config \<Rightarrow> gc_state \<Rightarrow> gc_label \<Rightarrow> gc_state \<Rightarrow> bool" for cfg where
  step_submit: "gc_step cfg s (LSubmit batch) (submit cfg batch s)"
| step_quota: "map_of (in_check s) r = Some x \<Longrightarrow>
     gc_step cfg s (LQuota r answer now) (resume_submit cfg r answer now s)"
| step_tick: "gc_step cfg s (LTick now) (pump cfg now s)"
| step_sink: "map_of (commits s) c = Some (AtSink g) \<Longrightarrow>
     gc_step cfg s (LSink c answer) (sink_answered c answer s)"
| step_record: "map_of (commits s) c = Some (AtRecord g rc) \<Longrightarrow>
     gc_step cfg s (LRecord c ranswer) (record_answered c ranswer s)"
| step_finally: "map_of (commits s) c = Some CommitDone \<Longrightarrow>
     gc_step cfg s (LFinally c now) (commit_finally cfg c now s)"
| step_drain: "gc_step cfg s (LDrain now) (begin_drain cfg now s)"

inductive gc_reachable :: "gc_config \<Rightarrow> gc_state \<Rightarrow> bool" for cfg where
  reach_init: "gc_reachable cfg gc_init"
| reach_step: "gc_reachable cfg s \<Longrightarrow> gc_step cfg s l s' \<Longrightarrow> gc_reachable cfg s'"

inductive_cases gc_stepE: "gc_step cfg s l s'"

fun gc_run :: "gc_config \<Rightarrow> gc_label list \<Rightarrow> gc_state \<Rightarrow> gc_state" where
  "gc_run cfg [] s = s"
| "gc_run cfg (l # ls) s = gc_run cfg ls (gc_exec cfg l s)"

text \<open>The relation is the function where it is enabled, and elsewhere the function idles.\<close>

lemma gc_step_exec: "gc_step cfg s l s' \<Longrightarrow> s' = gc_exec cfg l s"
  by (erule gc_stepE) simp_all

lemma gc_exec_step: "gc_exec cfg l s = s \<or> gc_step cfg s l (gc_exec cfg l s)"
proof (cases l)
  case (LQuota r answer now)
  show ?thesis
  proof (cases "map_of (in_check s) r")
    case None
    with LQuota show ?thesis by (simp add: resume_submit_def)
  next
    case (Some x)
    then have "gc_step cfg s l (gc_exec cfg l s)"
      unfolding LQuota gc_exec.simps by (rule step_quota)
    then show ?thesis ..
  qed
next
  case (LSink c answer)
  show ?thesis
  proof (cases "\<exists>g. map_of (commits s) c = Some (AtSink g)")
    case True
    then have "gc_step cfg s l (gc_exec cfg l s)"
      unfolding LSink gc_exec.simps by (blast intro: step_sink)
    then show ?thesis ..
  next
    case False
    with LSink show ?thesis
      by (auto simp: sink_answered_def split: option.split commit_phase.split)
  qed
next
  case (LRecord c answer)
  show ?thesis
  proof (cases "\<exists>g rc. map_of (commits s) c = Some (AtRecord g rc)")
    case True
    then have "gc_step cfg s l (gc_exec cfg l s)"
      unfolding LRecord gc_exec.simps by (blast intro: step_record)
    then show ?thesis ..
  next
    case False
    with LRecord show ?thesis
      by (auto simp: record_answered_def split: option.split commit_phase.split)
  qed
next
  case (LFinally c now)
  show ?thesis
  proof (cases "map_of (commits s) c = Some CommitDone")
    case True
    then have "gc_step cfg s l (gc_exec cfg l s)"
      unfolding LFinally gc_exec.simps by (rule step_finally)
    then show ?thesis ..
  next
    case False
    with LFinally show ?thesis
      by (auto simp: commit_finally_def split: option.split commit_phase.split)
  qed
qed (simp_all add: gc_step.intros)

lemma gc_run_reachable: "gc_reachable cfg s \<Longrightarrow> gc_reachable cfg (gc_run cfg ls s)"
proof (induction ls arbitrary: s)
  case (Cons l ls)
  then have "gc_reachable cfg (gc_exec cfg l s)"
    using gc_exec_step [of cfg l s] by (metis gc_reachable.intros(2))
  with Cons show ?case by simp
qed simp

end
