(* ===== verification/GroupCommitInv.thy ===== *)
theory GroupCommitInv
  imports GroupCommit "HOL-Library.Multiset"
begin

text \<open>
  What the coalescer promises, proved over every reachable state of the machine of
  GroupCommit: every request is held in exactly one place or settled exactly once, the
  buffer is what the groups hold and stays under its ceiling, commits stay under theirs,
  each acknowledgement accounts for its request's events, and the accepted counts add up
  to what the sink stored; then progress while draining.
\<close>

section \<open>Lists with keys\<close>

text \<open>Removing, or replacing, the one element with a key, seen as multisets.\<close>

lemma keyed_split:
  fixes f :: "'a \<Rightarrow> 'k"
  assumes "distinct (map f xs)" "x \<in> set xs"
  shows "mset xs = add_mset x (mset (filter (\<lambda>y. f y \<noteq> f x) xs))"
    and "mset (map (\<lambda>y. if f y = f x then x' else y) xs) =
           add_mset x' (mset (filter (\<lambda>y. f y \<noteq> f x) xs))"
proof -
  have none: "filter (\<lambda>y. f y \<noteq> k) ys = ys \<and> map (\<lambda>y. if f y = k then x' else y) ys = ys"
    if "k \<notin> f ` set ys" for k and ys :: "'a list"
    using that by (auto intro!: filter_True map_idI)
  show "mset xs = add_mset x (mset (filter (\<lambda>y. f y \<noteq> f x) xs))"
    using assms by (induction xs) (auto simp: none rev_image_eqI simp del: mset_filter mset_map)
  show "mset (map (\<lambda>y. if f y = f x then x' else y) xs) =
          add_mset x' (mset (filter (\<lambda>y. f y \<noteq> f x) xs))"
    using assms by (induction xs) (auto simp: none rev_image_eqI simp del: mset_filter mset_map)
qed

lemma map_of_split:
  assumes "distinct (map fst xs)" "map_of xs k = Some v"
  shows "mset xs = add_mset (k, v) (mset (filter (\<lambda>(i, x). i \<noteq> k) xs))"
    and "mset (map (\<lambda>(i, x). if i = k then (i, v') else (i, x)) xs) =
           add_mset (k, v') (mset (filter (\<lambda>(i, x). i \<noteq> k) xs))"
proof -
  have mem: "(k, v) \<in> set xs" using assms(2) by (rule map_of_SomeD)
  have f: "filter (\<lambda>(i, x). i \<noteq> k) xs = filter (\<lambda>y. fst y \<noteq> fst (k, v)) xs"
    by (rule filter_cong) auto
  have m: "map (\<lambda>(i, x). if i = k then (i, v') else (i, x)) xs =
      map (\<lambda>y. if fst y = fst (k, v) then (k, v') else y) xs"
    by (rule map_cong) auto
  show "mset xs = add_mset (k, v) (mset (filter (\<lambda>(i, x). i \<noteq> k) xs))"
    unfolding f by (rule keyed_split(1) [OF assms(1) mem])
  show "mset (map (\<lambda>(i, x). if i = k then (i, v') else (i, x)) xs) =
      add_mset (k, v') (mset (filter (\<lambda>(i, x). i \<noteq> k) xs))"
    unfolding f m by (rule keyed_split(2) [OF assms(1) mem])
qed

section \<open>The invariant\<close>

text \<open>The waiters of a group own consecutive segments of its events.\<close>

fun segments :: "nat \<Rightarrow> waiter list \<Rightarrow> nat \<Rightarrow> bool" where
  "segments n [] m = (n = m)"
| "segments n (w # ws) m = (w_offset w = n \<and> segments (n + contributed w) ws m)"

definition batch_size :: "ingest_batch list \<Rightarrow> nat \<Rightarrow> nat" where
  "batch_size arr r = length (batch_events (arr ! r))"

definition waiter_ok :: "ingest_batch list \<Rightarrow> waiter \<Rightarrow> bool" where
  "waiter_ok arr w \<longleftrightarrow>
     waiter_request w < length arr \<and>
     contributed w + w_duplicates w + length (w_rejected w) = batch_size arr (waiter_request w)"

definition group_ok :: "ingest_batch list \<Rightarrow> group \<Rightarrow> bool" where
  "group_ok arr g \<longleftrightarrow>
     g_waiters g \<noteq> [] \<and> segments 0 (g_waiters g) (length (g_events g)) \<and>
     list_all (waiter_ok arr) (g_waiters g) \<and>
     set (g_keys g) = set (keys_of ev_dedup_key (g_events g)) \<and>
     distinct (keys_of ev_dedup_key (g_events g))"

fun phase_ok :: "ingest_batch list \<Rightarrow> commit_phase \<Rightarrow> bool" where
  "phase_ok arr (AtSink g) = group_ok arr g"
| "phase_ok arr (AtRecord g rc) = (group_ok arr g \<and> receipt_consistent rc (length (g_events g)))"
| "phase_ok arr CommitDone = True"

definition check_ok :: "ingest_batch list \<Rightarrow> nat \<times> ingest_batch \<times> admission_outcome \<Rightarrow> bool" where
  "check_ok arr = (\<lambda>(r, b, out).
     r < length arr \<and> b = arr ! r \<and>
     length (admitted out) + duplicates out + length (rejected out) = batch_size arr r)"

fun ack_ok :: "ingest_batch list \<Rightarrow> nat \<Rightarrow> settlement \<Rightarrow> bool" where
  "ack_ok arr r (Resolved (Committed a d rej sm)) = (a + d + length rej = batch_size arr r)"
| "ack_ok arr r _ = True"

definition settled_ok :: "ingest_batch list \<Rightarrow> nat \<times> settlement \<Rightarrow> bool" where
  "settled_ok arr = (\<lambda>(r, x). r < length arr \<and> ack_ok arr r x)"

fun ack_accepted :: "settlement \<Rightarrow> int" where
  "ack_accepted (Resolved (Committed a d rej sm)) = int a"
| "ack_accepted _ = 0"

definition accepted_total :: "(nat \<times> settlement) list \<Rightarrow> int" where
  "accepted_total xs = sum_list (map (ack_accepted \<circ> snd) xs)"

definition requests_of :: "group \<Rightarrow> nat multiset" where
  "requests_of g = mset (map waiter_request (g_waiters g))"

fun phase_requests :: "commit_phase \<Rightarrow> nat multiset" where
  "phase_requests (AtSink g) = requests_of g"
| "phase_requests (AtRecord g rc) = requests_of g"
| "phase_requests CommitDone = {#}"

fun phase_stored :: "commit_phase \<Rightarrow> int" where
  "phase_stored (AtRecord g rc) = receipt_written rc"
| "phase_stored _ = 0"

text \<open>The requests whose promise is still open, wherever they are.\<close>

definition held :: "gc_state \<Rightarrow> nat multiset" where
  "held s =
     mset (map fst (in_check s)) + (\<Sum>g \<in># mset (groups s). requests_of g) +
     (\<Sum>c \<in># mset (commits s). phase_requests (snd c))"

definition group_sizes :: "gc_state \<Rightarrow> int" where
  "group_sizes s = (\<Sum>g \<in># mset (groups s). int (length (g_events g)))"

definition gc_shape :: "gc_config \<Rightarrow> gc_state \<Rightarrow> bool" where
  "gc_shape cfg s \<longleftrightarrow>
     distinct (map g_project (groups s)) \<and> list_all (group_ok (arrived s)) (groups s) \<and>
     distinct (map fst (commits s)) \<and>
     list_all (\<lambda>(c, ph). c < next_commit s \<and> phase_ok (arrived s) ph) (commits s) \<and>
     length (commits s) \<le> max_in_flight (cfg_policy cfg) \<and>
     distinct (map fst (in_check s)) \<and> list_all (check_ok (arrived s)) (in_check s) \<and>
     list_all (settled_ok (arrived s)) (settled s)"

definition gc_sums :: "gc_config \<Rightarrow> gc_state \<Rightarrow> bool" where
  "gc_sums cfg s \<longleftrightarrow>
     buffered s = group_sizes s \<and> buffered s \<le> max_buffered (cfg_policy cfg) \<and>
     held s + mset (map fst (settled s)) = mset [0..<length (arrived s)] \<and>
     stored s = accepted_total (settled s) + (\<Sum>c \<in># mset (commits s). phase_stored (snd c))"

definition gc_inv :: "gc_config \<Rightarrow> gc_state \<Rightarrow> bool" where
  "gc_inv cfg s = (gc_shape cfg s \<and> gc_sums cfg s)"

lemmas gc_inv_defs = gc_inv_def gc_shape_def gc_sums_def held_def group_sizes_def

lemma accepted_total_append [simp]:
  "accepted_total (xs @ ys) = accepted_total xs + accepted_total ys"
  "accepted_total [] = 0"
  "accepted_total [(r, x)] = ack_accepted x"
  by (simp_all add: accepted_total_def)

lemma batch_size_append [simp]: "r < length arr \<Longrightarrow> batch_size (arr @ bs) r = batch_size arr r"
  by (simp add: batch_size_def nth_append)

lemma waiter_ok_append: "waiter_ok arr w \<Longrightarrow> waiter_ok (arr @ bs) w"
  by (auto simp: waiter_ok_def)

lemma group_ok_append: "group_ok arr g \<Longrightarrow> group_ok (arr @ bs) g"
  by (auto simp: group_ok_def list_all_iff waiter_ok_append)

lemma phase_ok_append: "phase_ok arr ph \<Longrightarrow> phase_ok (arr @ bs) ph"
  by (cases ph) (auto simp: group_ok_append)

lemma check_ok_append: "check_ok arr x \<Longrightarrow> check_ok (arr @ bs) x"
  by (auto simp: check_ok_def nth_append)

lemma settled_ok_append: "settled_ok arr x \<Longrightarrow> settled_ok (arr @ bs) x"
proof -
  have "ack_ok arr r y \<Longrightarrow> r < length arr \<Longrightarrow> ack_ok (arr @ bs) r y" for r y
    by (cases "(arr, r, y)" rule: ack_ok.cases) auto
  then show "settled_ok arr x \<Longrightarrow> settled_ok (arr @ bs) x" by (auto simp: settled_ok_def)
qed

section \<open>What a receipt says of each waiter\<close>

lemma accepted_le: "accepted_of rc w \<le> contributed w"
  unfolding accepted_of_def by (rule order_trans [OF length_filter_le]) simp

lemma segments_le: "segments n ws m \<Longrightarrow> n \<le> m"
  by (induction n ws m rule: segments.induct) auto

lemma segments_append [simp]:
  "segments n (ws @ [w]) m \<longleftrightarrow> (\<exists>k. segments n ws k \<and> w_offset w = k \<and> m = k + contributed w)"
  by (induction ws arbitrary: n) auto

lemma segments_accepted:
  "segments n ws m \<Longrightarrow>
     sum_list (map (accepted_of rc) ws) =
       length (filter (\<lambda>i. int i \<in> set (receipt_indices rc)) [n..<m])"
proof (induction n ws m rule: segments.induct)
  case (2 n w ws m)
  then have le: "n + contributed w \<le> m" by (auto dest: segments_le)
  have "[n..<m] = [n..<n + contributed w] @ [n + contributed w..<m]"
    using le by (metis le_add1 upt_add_eq_append le_add_diff_inverse)
  with 2 show ?case by (simp add: accepted_of_def)
qed simp

text \<open>
  A consistent receipt names each newly stored position once, so over the segments of a
  group the accepted counts add up to it exactly.
\<close>

lemma segments_written:
  assumes "segments 0 ws n" "receipt_consistent rc n"
  shows "int (sum_list (map (accepted_of rc) ws)) = receipt_written rc"
proof -
  let ?S = "set (receipt_indices rc)"
  have sub: "\<forall>i \<in> ?S. 0 \<le> i \<and> i < int n"
    using assms(2) by (force simp: receipt_consistent_def list_ex_iff)
  have "length (filter (\<lambda>i. int i \<in> ?S) [0..<n]) = card (set (filter (\<lambda>i. int i \<in> ?S) [0..<n]))"
    by (rule distinct_card [symmetric]) simp
  also have "\<dots> = card {i. i < n \<and> int i \<in> ?S}"
    by (rule arg_cong [of _ _ card]) auto
  also have "\<dots> = card (int ` {i. i < n \<and> int i \<in> ?S})"
    by (rule card_image [symmetric]) (simp add: inj_on_def)
  also have "int ` {i. i < n \<and> int i \<in> ?S} = ?S"
  proof
    show "?S \<subseteq> int ` {i. i < n \<and> int i \<in> ?S}"
    proof
      fix i assume "i \<in> ?S"
      with sub have "i = int (nat i)" "nat i < n" by auto
      with \<open>i \<in> ?S\<close> show "i \<in> int ` {i. i < n \<and> int i \<in> ?S}" by (intro image_eqI [of _ _ "nat i"]) auto
    qed
  qed auto
  also have "card ?S = length (remdups (receipt_indices rc))"
    by (metis distinct_card distinct_remdups set_remdups)
  finally show ?thesis
    using assms(2) segments_accepted [OF assms(1)] by (simp add: receipt_consistent_def)
qed

section \<open>Every step keeps it\<close>

lemma gc_inv_init: "0 \<le> max_buffered (cfg_policy cfg) \<Longrightarrow> gc_inv cfg gc_init"
  by (simp add: gc_inv_defs gc_init_def)

lemma gc_inv_report [simp]: "gc_inv cfg (report p s) = gc_inv cfg s"
  by (simp add: report_def gc_inv_defs)

lemma gc_inv_draining [simp]: "gc_inv cfg (s\<lparr>draining := b\<rparr>) = gc_inv cfg s"
  by (simp add: gc_inv_defs)

text \<open>A new request, settled on the spot or set aside for its verdict.\<close>

lemma gc_inv_settle_new:
  assumes "gc_inv cfg s" "settled_ok (arrived s @ [b]) (length (arrived s), x)" "ack_accepted x = 0"
  shows "gc_inv cfg (settle (length (arrived s)) x (s\<lparr>arrived := arrived s @ [b]\<rparr>))"
  using assms
  by (auto simp: gc_inv_defs settle_def list_all_iff
      intro: group_ok_append phase_ok_append check_ok_append settled_ok_append)

lemma gc_inv_check_new:
  assumes "gc_inv cfg s" "check_ok (arrived s @ [b]) (length (arrived s), b, out)"
  shows "gc_inv cfg (s\<lparr>arrived := arrived s @ [b],
                      in_check := in_check s @ [(length (arrived s), b, out)]\<rparr>)"
proof -
  have "length (arrived s) \<notin> set (map fst (in_check s))"
    using assms(1) by (auto simp: gc_inv_defs list_all_iff check_ok_def)
  with assms show ?thesis
    by (auto simp: gc_inv_defs list_all_iff
        intro: group_ok_append phase_ok_append check_ok_append settled_ok_append)
qed

lemma gc_inv_submit:
  assumes inv: "gc_inv cfg s"
  shows "gc_inv cfg (submit cfg batch s)"
proof (cases "admit (cfg_date_parse cfg) batch (cfg_admission cfg)")
  case (Inl e)
  with gc_inv_settle_new [OF inv, of batch "Resolved (Refused e [])"] show ?thesis
    by (simp add: submit_def settled_ok_def Let_def)
next
  case (Inr out)
  have count: "length (admitted out) + duplicates out + length (rejected out) =
      batch_size (arrived s @ [batch]) (length (arrived s))"
    using admit_count [OF Inr] by (simp add: batch_size_def)
  note new = gc_inv_settle_new [OF inv, of batch]
  have "check_ok (arrived s @ [batch]) (length (arrived s), batch, out)"
    using count by (simp add: check_ok_def)
  note check = gc_inv_check_new [OF inv this]
  show ?thesis
    using count new check
    by (auto simp: submit_def Inr Let_def settled_ok_def backpressure_def split: reception.splits)
qed

text \<open>A submission leaves the check: what holds until its request is placed again.\<close>

definition gc_inv_without :: "nat \<Rightarrow> gc_config \<Rightarrow> gc_state \<Rightarrow> bool" where
  "gc_inv_without r cfg s \<longleftrightarrow>
     gc_shape cfg s \<and> r < length (arrived s) \<and>
     buffered s = group_sizes s \<and> buffered s \<le> max_buffered (cfg_policy cfg) \<and>
     add_mset r (held s + mset (map fst (settled s))) = mset [0..<length (arrived s)] \<and>
     stored s = accepted_total (settled s) + (\<Sum>c \<in># mset (commits s). phase_stored (snd c))"

lemma gc_inv_take:
  assumes "gc_inv cfg s" "map_of (in_check s) r = Some (b, out)"
  shows "gc_inv_without r cfg (s\<lparr>in_check := filter (\<lambda>(q, x). q \<noteq> r) (in_check s)\<rparr>)"
    and "check_ok (arrived s) (r, b, out)"
proof -
  have d: "distinct (map fst (in_check s))" using assms(1) by (simp add: gc_inv_defs)
  have mem: "(r, b, out) \<in> set (in_check s)" using assms(2) by (rule map_of_SomeD)
  then show ok: "check_ok (arrived s) (r, b, out)"
    using assms(1) by (auto simp: gc_inv_defs list_all_iff)
  have "mset (map fst (in_check s)) =
      add_mset r (mset (map fst (filter (\<lambda>(q, x). q \<noteq> r) (in_check s))))"
    using arg_cong [OF map_of_split(1) [OF d assms(2)], of "image_mset fst"] by simp
  moreover have "distinct (map fst (filter (\<lambda>(q, x). q \<noteq> r) (in_check s)))"
    using d by (rule distinct_map_filter)
  ultimately show "gc_inv_without r cfg (s\<lparr>in_check := filter (\<lambda>(q, x). q \<noteq> r) (in_check s)\<rparr>)"
    using assms(1) ok
    by (auto simp: gc_inv_without_def gc_inv_defs list_all_iff check_ok_def)
qed

lemma gc_inv_settle_taken:
  assumes "gc_inv_without r cfg s" "ack_ok (arrived s) r x" "ack_accepted x = 0"
  shows "gc_inv cfg (settle r x s)"
  using assms by (auto simp: gc_inv_without_def gc_inv_defs settle_def settled_ok_def)

text \<open>Joining a group.\<close>

lemma group_ok_join:
  assumes "g_waiters g = [] \<and> g_events g = [] \<and> g_keys g = [] \<or> group_ok arr g"
    and "check_ok arr (r, b, out)"
    and "collapse_duplicates ev_dedup_key (admitted out) (g_keys g) = (unique, repeats)"
  shows "group_ok arr (g\<lparr>g_events := g_events g @ unique,
             g_keys := keys_of ev_dedup_key unique @ g_keys g,
             g_waiters := g_waiters g @
               [\<lparr> waiter_request = r, contributed = length unique, w_offset = length (g_events g),
                  w_duplicates = duplicates out + repeats, w_rejected = rejected out \<rparr>]\<rparr>)"
proof -
  have u: "unique = first_occurrences ev_dedup_key (set (g_keys g)) (admitted out)"
    and rep: "length unique + repeats = length (admitted out)"
    using assms(3) length_first_occurrences [of ev_dedup_key "set (g_keys g)" "admitted out"]
    by (auto simp: collapse_duplicates_eq)
  have dis: "distinct (keys_of ev_dedup_key unique)"
    "set (keys_of ev_dedup_key unique) \<inter> set (g_keys g) = {}"
    unfolding u using first_occurrences_distinct by blast+
  from assms(1,2) rep dis show ?thesis
    by (auto simp: group_ok_def check_ok_def waiter_ok_def)
qed

lemma gc_inv_join:
  assumes inv: "gc_inv_without r cfg s" and ok: "check_ok (arrived s) (r, b, out)"
    and room: "receive (buffered s) (length (admitted out)) (cfg_policy cfg) = Accept"
  shows "gc_inv cfg (join_group cfg r b out now s)"
proof -
  obtain s1 g where g: "group_for b now s = (s1, g)" by fastforce
  obtain unique repeats where
    u: "collapse_duplicates ev_dedup_key (admitted out) (g_keys g) = (unique, repeats)" by fastforce
  let ?g = "g\<lparr>g_events := g_events g @ unique,
             g_keys := keys_of ev_dedup_key unique @ g_keys g,
             g_waiters := g_waiters g @
               [\<lparr> waiter_request = r, contributed = length unique, w_offset = length (g_events g),
                  w_duplicates = duplicates out + repeats, w_rejected = rejected out \<rparr>]\<rparr>"
  have res: "join_group cfg r b out now s = put_group ?g (s1\<lparr>buffered := buffered s1 + int (length unique)\<rparr>)"
    by (simp add: join_group_def g u)
  have less: "length unique \<le> length (admitted out)"
    using u length_first_occurrences [of ev_dedup_key] by (auto simp: collapse_duplicates_eq)
  have fit: "buffered s + int (length unique) \<le> max_buffered (cfg_policy cfg)"
    using room less by (simp add: receive_def split: if_splits)
  have d: "distinct (map g_project (groups s1))" and mem: "g \<in> set (groups s1)"
    and same: "s1 = s\<lparr>groups := groups s1\<rparr>"
    and gok: "g_waiters g = [] \<and> g_events g = [] \<and> g_keys g = [] \<or> group_ok (arrived s) g"
    and others: "\<forall>x \<in> set (groups s1). g_project x \<noteq> g_project g \<longrightarrow> group_ok (arrived s) x"
    and sums: "(\<Sum>g \<in># mset (groups s1). requests_of g) = (\<Sum>g \<in># mset (groups s). requests_of g)"
      "(\<Sum>g \<in># mset (groups s1). int (length (g_events g))) = group_sizes s"
    using g inv
    by (auto simp: group_for_def gc_inv_without_def gc_shape_def Let_def list_all_iff find_None_iff_all
        requests_of_def group_sizes_def dest: find_Some_iff_mem split: option.splits, blast)
  have new: "group_ok (arrived s) ?g" by (rule group_ok_join [OF gok ok u])
  let ?gs = "map (\<lambda>x. if g_project x = g_project g then ?g else x) (groups s1)"
  have grp: "groups (join_group cfg r b out now s) = ?gs"
    by (simp add: res put_group_def)
  have m0: "mset (groups s1) = add_mset g (mset (filter (\<lambda>y. g_project y \<noteq> g_project g) (groups s1)))"
    and m1: "mset ?gs = add_mset ?g (mset (filter (\<lambda>y. g_project y \<noteq> g_project g) (groups s1)))"
    using keyed_split [OF d mem] by blast+
  have proj: "map g_project ?gs = map g_project (groups s1)" by simp
  have rg: "requests_of ?g = add_mset r (requests_of g)" by (simp add: requests_of_def)
  have req: "(\<Sum>g \<in># mset ?gs. requests_of g) = add_mset r (\<Sum>g \<in># mset (groups s). requests_of g)"
    unfolding sums(1) [symmetric] m0 m1 by (simp add: rg)
  have siz: "(\<Sum>g \<in># mset ?gs. int (length (g_events g))) = group_sizes s + int (length unique)"
    unfolding sums(2) [symmetric] m0 m1 by simp
  have "list_all (group_ok (arrived s)) ?gs"
    using new others by (auto simp: list_all_iff)
  moreover have "distinct (map g_project ?gs)" unfolding proj by (rule d)
  moreover have "join_group cfg r b out now s =
      s\<lparr>groups := ?gs, buffered := buffered s + int (length unique)\<rparr>"
    unfolding res put_group_def by (subst same, subst (2) same) simp
  ultimately show ?thesis
    using inv fit req siz
    by (simp add: gc_inv_without_def gc_inv_def gc_shape_def gc_sums_def held_def group_sizes_def
        del: mset_map)
qed

text \<open>Pumping moves whole groups into commits.\<close>

definition flush_group :: "group \<Rightarrow> gc_state \<Rightarrow> gc_state" where
  "flush_group g s =
     s\<lparr>groups := filter (\<lambda>x. g_project x \<noteq> g_project g) (groups s),
       buffered := buffered s - int (length (g_events g)),
       commits := commits s @ [(next_commit s, AtSink g)],
       next_commit := next_commit s + 1\<rparr>"

definition pump_flushes :: "gc_config \<Rightarrow> instant \<Rightarrow> group \<Rightarrow> gc_state \<Rightarrow> bool" where
  "pump_flushes cfg now g s \<longleftrightarrow>
     flush_reason_of (pending_of g)
       \<lparr> cs_group = Some (pending_of g), cs_in_flight = length (commits s), cs_draining = draining s \<rparr>
       (cfg_policy cfg) now \<noteq> None \<and> length (commits s) < max_in_flight (cfg_policy cfg)"

lemma pump_loop_Cons:
  "pump_loop cfg now (g # gs) s =
     pump_loop cfg now gs (if pump_flushes cfg now g s then flush_group g s else s)"
  by (auto simp: decide_flush_def pump_flushes_def flush_group_def split: option.splits)

lemma pump_loop_preserves:
  assumes "P s" "set gs \<subseteq> set (groups s)" "distinct (map g_project gs)"
    and step: "\<And>s g. P s \<Longrightarrow> g \<in> set (groups s) \<Longrightarrow>
                length (commits s) < max_in_flight (cfg_policy cfg) \<Longrightarrow> P (flush_group g s)"
  shows "P (pump_loop cfg now gs s)"
  using assms(1-3)
proof (induction gs arbitrary: s)
  case (Cons g gs)
  show ?case
  proof (cases "pump_flushes cfg now g s")
    case True
    then have "P (flush_group g s)"
      using Cons.prems by (intro step) (auto simp: pump_flushes_def)
    moreover have "set gs \<subseteq> set (groups (flush_group g s))"
      using Cons.prems(2,3) by (auto simp: flush_group_def image_iff)
    ultimately show ?thesis
      using Cons.IH Cons.prems(3) True by (simp add: pump_loop_Cons del: pump_loop.simps)
  next
    case False
    with Cons show ?thesis by (simp add: pump_loop_Cons del: pump_loop.simps)
  qed
qed simp

lemma gc_inv_flush:
  assumes inv: "gc_inv cfg s" and mem: "g \<in> set (groups s)"
    and room: "length (commits s) < max_in_flight (cfg_policy cfg)"
  shows "gc_inv cfg (flush_group g s)"
proof -
  have d: "distinct (map g_project (groups s))" using inv by (simp add: gc_inv_defs)
  let ?gs = "filter (\<lambda>x. g_project x \<noteq> g_project g) (groups s)"
  have m: "mset (groups s) = add_mset g (mset ?gs)"
    by (rule keyed_split(1) [OF d mem])
  have "(\<Sum>g \<in># mset (groups s). requests_of g) = requests_of g + (\<Sum>g \<in># mset ?gs. requests_of g)"
    "(\<Sum>g \<in># mset (groups s). int (length (g_events g))) =
       int (length (g_events g)) + (\<Sum>g \<in># mset ?gs. int (length (g_events g)))"
    unfolding m by simp_all
  moreover have "distinct (map g_project ?gs)" using d by (rule distinct_map_filter)
  moreover have "next_commit s \<notin> set (map fst (commits s))"
    using inv by (auto simp: gc_inv_defs list_all_iff)
  moreover have "group_ok (arrived s) g"
    using inv mem by (simp add: gc_inv_defs list_all_iff)
  ultimately show ?thesis
    using inv room
    by (auto simp: gc_inv_defs flush_group_def list_all_iff ac_simps less_SucI
        simp del: mset_filter)
qed

lemma gc_inv_pump:
  assumes "gc_inv cfg s"
  shows "gc_inv cfg (pump cfg now s)"
  unfolding pump_def
  by (rule pump_loop_preserves) (use assms gc_inv_flush in \<open>auto simp: gc_inv_defs\<close>)

lemma gc_inv_resume:
  assumes inv: "gc_inv cfg s"
  shows "gc_inv cfg (resume_submit cfg r answer now s)"
proof (cases "map_of (in_check s) r")
  case None
  with inv show ?thesis by (simp add: resume_submit_def)
next
  case (Some x)
  obtain b out where x: "x = (b, out)" by fastforce
  let ?s = "s\<lparr>in_check := filter (\<lambda>(q, x). q \<noteq> r) (in_check s)\<rparr>"
  have taken: "gc_inv_without r cfg ?s" and ok: "check_ok (arrived s) (r, b, out)"
    using gc_inv_take [OF inv, of r b out] Some x by auto
  have "gc_inv cfg (settle r y ?s)" if "ack_ok (arrived s) r y" "ack_accepted y = 0" for y
    by (rule gc_inv_settle_taken [OF taken]) (use that in simp_all)
  moreover have "gc_inv cfg (pump cfg now (join_group cfg r b out now ?s))"
    if "receive (buffered s) (length (admitted out)) (cfg_policy cfg) = Accept"
    by (rule gc_inv_pump, rule gc_inv_join [OF taken]) (use ok that in simp_all)
  ultimately show ?thesis
    using Some x
    by (auto simp: resume_submit_def backpressure_def Let_def
        split: quota_answer.splits quota_verdict.splits reception.splits)
qed

text \<open>A commit that ends settles every waiter it carried.\<close>

lemma settle_all_commits:
  assumes inv: "gc_inv cfg s" and c: "map_of (commits s) c = Some ph"
    and g: "phase_requests ph = requests_of g" "group_ok (arrived s) g"
    and acks: "\<forall>w \<in> set (g_waiters g). ack_ok (arrived s) (waiter_request w) (Resolved (answer w))"
    and total: "sum_list (map (\<lambda>w. ack_accepted (Resolved (answer w))) (g_waiters g)) = phase_stored ph"
  shows "gc_inv cfg (set_phase c CommitDone (settle_all answer g s))"
proof -
  have d: "distinct (map fst (commits s))" using inv by (simp add: gc_inv_defs)
  let ?cs = "map (\<lambda>(i, x). if i = c then (i, CommitDone) else (i, x)) (commits s)"
  let ?rest = "mset (filter (\<lambda>(i, x). i \<noteq> c) (commits s))"
  have m: "mset (commits s) = add_mset (c, ph) ?rest" "mset ?cs = add_mset (c, CommitDone) ?rest"
    using map_of_split [OF d c] by blast+
  have ids: "map fst ?cs = map fst (commits s)" by (auto simp: split_beta)
  have "(\<Sum>x \<in># mset (commits s). phase_requests (snd x)) =
        requests_of g + (\<Sum>x \<in># mset ?cs. phase_requests (snd x))"
    "(\<Sum>x \<in># mset (commits s). phase_stored (snd x)) =
        phase_stored ph + (\<Sum>x \<in># mset ?cs. phase_stored (snd x))"
    unfolding m using g(1) by simp_all
  moreover have "list_all (\<lambda>(c, ph). c < next_commit s \<and> phase_ok (arrived s) ph) ?cs"
  proof -
    have "list_all (\<lambda>(c, ph). c < next_commit s \<and> phase_ok (arrived s) ph) (commits s)"
      using inv by (simp add: gc_inv_defs)
    then show ?thesis by (auto simp: list_all_iff split_beta)
  qed
  moreover have "\<forall>w \<in> set (g_waiters g). settled_ok (arrived s) (waiter_request w, Resolved (answer w))"
    using g(2) acks by (auto simp: settled_ok_def group_ok_def waiter_ok_def list_all_iff)
  moreover have "mset (map fst (map (\<lambda>w. (waiter_request w, Resolved (answer w))) (g_waiters g))) = requests_of g"
    by (simp add: requests_of_def image_mset.compositionality comp_def)
  moreover have "accepted_total (map (\<lambda>w. (waiter_request w, Resolved (answer w))) (g_waiters g)) = phase_stored ph"
    using total by (simp add: accepted_total_def comp_def)
  moreover have "distinct (map fst ?cs)" unfolding ids by (rule d)
  ultimately show ?thesis
    using inv
    by (simp add: gc_inv_def gc_shape_def gc_sums_def held_def group_sizes_def set_phase_def settle_all_def
        list_all_iff ball_Un ac_simps del: mset_map)
qed

lemma sum_list_zero_map: "(\<And>w. w \<in> set ws \<Longrightarrow> f w = (0 :: int)) \<Longrightarrow> sum_list (map f ws) = 0"
  by (induction ws) auto

lemma commit_phase_ok:
  assumes "gc_inv cfg s" "map_of (commits s) c = Some ph"
  shows "phase_ok (arrived s) ph"
  using assms map_of_SomeD [OF assms(2)] by (auto simp: gc_inv_defs list_all_iff)

lemma gc_inv_refuse_all:
  assumes "gc_inv cfg s" "map_of (commits s) c = Some (AtSink g)"
  shows "gc_inv cfg (set_phase c CommitDone (settle_all (\<lambda>w. Refused e (w_rejected w)) g s))"
  using commit_phase_ok [OF assms]
  by (intro settle_all_commits [OF assms]) (simp_all add: sum_list_zero_map)

lemma gc_inv_sink:
  assumes inv: "gc_inv cfg s"
  shows "gc_inv cfg (sink_answered c answer s)"
proof (cases "\<exists>g. map_of (commits s) c = Some (AtSink g)")
  case True
  then obtain g where c: "map_of (commits s) c = Some (AtSink g)" ..
  have threw: "gc_inv cfg (commit_threw c g detail s)" for detail
    unfolding commit_threw_def
    by (rule gc_inv_refuse_all) (use inv c in \<open>simp_all add: report_def gc_inv_defs\<close>)
  have wrote: "gc_inv cfg (set_phase c (AtRecord g w) (s\<lparr>stored := stored s + receipt_written w\<rparr>))"
    if ok: "receipt_consistent w (length (g_events g))" for w
  proof -
    have d: "distinct (map fst (commits s))" using inv by (simp add: gc_inv_defs)
    let ?cs = "map (\<lambda>(i, x). if i = c then (i, AtRecord g w) else (i, x)) (commits s)"
    let ?rest = "mset (filter (\<lambda>(i, x). i \<noteq> c) (commits s))"
    have m: "mset (commits s) = add_mset (c, AtSink g) ?rest" "mset ?cs = add_mset (c, AtRecord g w) ?rest"
      using map_of_split [OF d c] by blast+
    have ids: "map fst ?cs = map fst (commits s)" by (auto simp: split_beta)
    have "(\<Sum>x \<in># mset ?cs. phase_requests (snd x)) = (\<Sum>x \<in># mset (commits s). phase_requests (snd x))"
      "(\<Sum>x \<in># mset ?cs. phase_stored (snd x)) =
         receipt_written w + (\<Sum>x \<in># mset (commits s). phase_stored (snd x))"
      unfolding m by simp_all
    moreover have "list_all (\<lambda>(c, ph). c < next_commit s \<and> phase_ok (arrived s) ph) ?cs"
    proof -
      have "list_all (\<lambda>(c, ph). c < next_commit s \<and> phase_ok (arrived s) ph) (commits s)"
        using inv by (simp add: gc_inv_defs)
      then show ?thesis using commit_phase_ok [OF inv c] ok by (auto simp: list_all_iff split_beta)
    qed
    moreover have "distinct (map fst ?cs)" unfolding ids by (rule d)
    ultimately show ?thesis
      using inv
      by (simp add: gc_inv_def gc_shape_def gc_sums_def held_def group_sizes_def set_phase_def ac_simps
          del: mset_map)
  qed
  show ?thesis
    using threw wrote gc_inv_refuse_all [OF inv c]
    by (auto simp: sink_answered_def c split: sink_answer.split)
next
  case False
  with inv show ?thesis by (auto simp: sink_answered_def split: option.split commit_phase.split)
qed

lemma gc_inv_record:
  assumes inv: "gc_inv cfg s"
  shows "gc_inv cfg (record_answered c answer s)"
proof (cases "\<exists>g rc. map_of (commits s) c = Some (AtRecord g rc)")
  case True
  then obtain g rc where c: "map_of (commits s) c = Some (AtRecord g rc)" by blast
  have g: "group_ok (arrived s) g" "receipt_consistent rc (length (g_events g))"
    using commit_phase_ok [OF inv c] by simp_all
  have "gc_inv cfg (set_phase c CommitDone (settle_all (committed_ack g rc) g t))"
    if t: "t = s \<or> (\<exists>p. t = report p s)" for t
  proof (rule settle_all_commits)
    show "gc_inv cfg t" using t inv by auto
    show "map_of (commits t) c = Some (AtRecord g rc)" using t c by (auto simp: report_def)
    have arr: "arrived t = arrived s" using t by (auto simp: report_def)
    then show "group_ok (arrived t) g" using g(1) by simp
    show "\<forall>w \<in> set (g_waiters g). ack_ok (arrived t) (waiter_request w) (Resolved (committed_ack g rc w))"
    proof
      fix w assume "w \<in> set (g_waiters g)"
      then have "waiter_ok (arrived s) w" using g(1) by (simp add: group_ok_def list_all_iff)
      then show "ack_ok (arrived t) (waiter_request w) (Resolved (committed_ack g rc w))"
        using accepted_le [of rc w] arr by (simp add: committed_ack_def Let_def waiter_ok_def)
    qed
    have "sum_list (map (\<lambda>w. ack_accepted (Resolved (committed_ack g rc w))) (g_waiters g)) =
        int (sum_list (map (accepted_of rc) (g_waiters g)))"
      by (simp add: committed_ack_def Let_def flip: sum_list_of_nat) (simp add: comp_def)
    then show "sum_list (map (\<lambda>w. ack_accepted (Resolved (committed_ack g rc w))) (g_waiters g)) =
        phase_stored (AtRecord g rc)"
      using segments_written [of "g_waiters g", OF _ g(2)] g(1) by (simp add: group_ok_def)
  qed simp
  then show ?thesis
    by (auto simp: record_answered_def c Let_def split: record_answer.split)
next
  case False
  with inv show ?thesis by (auto simp: record_answered_def split: option.split commit_phase.split)
qed

lemma gc_inv_remove_done:
  assumes inv: "gc_inv cfg s" and c: "map_of (commits s) c = Some CommitDone"
  shows "gc_inv cfg (s\<lparr>commits := filter (\<lambda>(i, x). i \<noteq> c) (commits s)\<rparr>)"
proof -
  have d: "distinct (map fst (commits s))" using inv by (simp add: gc_inv_defs)
  let ?cs = "filter (\<lambda>(i, x). i \<noteq> c) (commits s)"
  have m: "mset (commits s) = add_mset (c, CommitDone) (mset ?cs)"
    by (rule map_of_split(1) [OF d c])
  have "(\<Sum>x \<in># mset (commits s). phase_requests (snd x)) = (\<Sum>x \<in># mset ?cs. phase_requests (snd x))"
    "(\<Sum>x \<in># mset (commits s). phase_stored (snd x)) = (\<Sum>x \<in># mset ?cs. phase_stored (snd x))"
    unfolding m by simp_all
  moreover have "distinct (map fst ?cs)" using d by (rule distinct_map_filter)
  moreover have "length ?cs \<le> max_in_flight (cfg_policy cfg)"
    by (rule order_trans [OF length_filter_le]) (use inv in \<open>simp add: gc_inv_defs\<close>)
  ultimately show ?thesis
    using inv by (auto simp: gc_inv_defs list_all_iff simp del: mset_filter)
qed

lemma gc_inv_finally:
  assumes inv: "gc_inv cfg s"
  shows "gc_inv cfg (commit_finally cfg c now s)"
proof (cases "map_of (commits s) c = Some CommitDone")
  case True
  then show ?thesis
    by (simp add: commit_finally_def) (rule gc_inv_pump, rule gc_inv_remove_done [OF inv])
next
  case False
  with inv show ?thesis by (auto simp: commit_finally_def split: option.split commit_phase.split)
qed

lemma gc_inv_drain: "gc_inv cfg s \<Longrightarrow> gc_inv cfg (begin_drain cfg now s)"
  by (auto simp: begin_drain_def Let_def intro: gc_inv_pump)

lemmas gc_inv_ops =
  gc_inv_submit gc_inv_resume gc_inv_pump gc_inv_sink gc_inv_record gc_inv_finally gc_inv_drain

lemma gc_inv_exec: "gc_inv cfg s \<Longrightarrow> gc_inv cfg (gc_exec cfg l s)"
  by (cases l) (simp_all add: gc_inv_ops)

lemma gc_inv_step: "gc_inv cfg s \<Longrightarrow> gc_step cfg s l s' \<Longrightarrow> gc_inv cfg s'"
  using gc_inv_exec gc_step_exec by metis

lemma gc_inv_reachable:
  assumes "0 \<le> max_buffered (cfg_policy cfg)"
  shows "gc_reachable cfg s \<Longrightarrow> gc_inv cfg s"
  by (induction rule: gc_reachable.induct) (auto intro: gc_inv_init [OF assms] gc_inv_step)

section \<open>What pumping leaves behind\<close>

lemma pump_loop_draining [simp]: "draining (pump_loop cfg now gs s) = draining s"
  by (induction gs arbitrary: s)
    (simp_all add: pump_loop_Cons flush_group_def del: pump_loop.simps(2))

lemma pump_draining [simp]: "draining (pump cfg now s) = draining s"
  by (simp add: pump_def)

lemma pump_flushes_mono: "pump_flushes cfg now x (flush_group g s) \<Longrightarrow> pump_flushes cfg now x s"
  by (simp add: flush_group_def pump_flushes_def flush_reason_of_def)

lemma pump_loop_complete:
  assumes "\<forall>x \<in> set (groups s). x \<in> set gs \<or> \<not> pump_flushes cfg now x s"
  shows "\<forall>x \<in> set (groups (pump_loop cfg now gs s)). \<not> pump_flushes cfg now x (pump_loop cfg now gs s)"
  using assms
proof (induction gs arbitrary: s)
  case (Cons g gs)
  show ?case
  proof (cases "pump_flushes cfg now g s")
    case True
    have "\<forall>x \<in> set (groups (flush_group g s)).
        x \<in> set gs \<or> \<not> pump_flushes cfg now x (flush_group g s)"
      using Cons.prems pump_flushes_mono [of cfg now _ g s] by (fastforce simp: flush_group_def)
    from Cons.IH [OF this] True show ?thesis by (simp add: pump_loop_Cons del: pump_loop.simps)
  next
    case False
    then have "\<forall>x \<in> set (groups s). x \<in> set gs \<or> \<not> pump_flushes cfg now x s"
      using Cons.prems by auto
    from Cons.IH [OF this] False show ?thesis by (simp add: pump_loop_Cons del: pump_loop.simps)
  qed
qed simp

lemma pump_complete:
  "g \<in> set (groups (pump cfg now s)) \<Longrightarrow> \<not> pump_flushes cfg now g (pump cfg now s)"
  using pump_loop_complete [of s "groups s" cfg now] by (simp add: pump_def)

text \<open>While draining, a group stays behind only because every commit slot is taken.\<close>

definition drain_ok :: "gc_config \<Rightarrow> gc_state \<Rightarrow> bool" where
  "drain_ok cfg s \<longleftrightarrow>
     (draining s \<longrightarrow> groups s = [] \<or> length (commits s) \<ge> max_in_flight (cfg_policy cfg))"

lemma drain_ok_pump: "drain_ok cfg (pump cfg now s)"
proof -
  have "length (commits (pump cfg now s)) \<ge> max_in_flight (cfg_policy cfg)"
    if "draining s" "g \<in> set (groups (pump cfg now s))" for g
    using pump_complete [OF that(2)] that(1) by (auto simp: pump_flushes_def flush_reason_of_def)
  then show ?thesis
    by (auto simp: drain_ok_def) (metis list.set_intros(1) neq_Nil_conv)
qed

lemma drain_ok_cong:
  "groups t = groups s \<Longrightarrow> length (commits t) = length (commits s) \<Longrightarrow> draining t = draining s \<Longrightarrow>
     drain_ok cfg t = drain_ok cfg s"
  by (simp add: drain_ok_def)

lemma drain_ok_exec:
  assumes "drain_ok cfg s"
  shows "drain_ok cfg (gc_exec cfg l s)"
proof (cases l)
  case (LSubmit b)
  have "groups (submit cfg b s) = groups s \<and> commits (submit cfg b s) = commits s \<and>
      draining (submit cfg b s) = draining s"
    by (auto simp: submit_def settle_def Let_def split: sum.split reception.split)
  then show ?thesis using LSubmit assms drain_ok_cong [of "submit cfg b s" s] by simp
next
  case (LQuota r answer now)
  have "drain_ok cfg (resume_submit cfg r answer now s)"
    using assms drain_ok_pump
    by (auto simp: resume_submit_def Let_def settle_def drain_ok_def
        split: option.split quota_answer.split quota_verdict.split reception.split)
  then show ?thesis using LQuota by simp
next
  case (LSink c answer)
  have "groups (sink_answered c answer s) = groups s \<and>
      length (commits (sink_answered c answer s)) = length (commits s) \<and>
      draining (sink_answered c answer s) = draining s"
    by (auto simp: sink_answered_def commit_threw_def set_phase_def settle_all_def report_def
        split: option.split commit_phase.split sink_answer.split)
  then show ?thesis using LSink assms drain_ok_cong [of "sink_answered c answer s" s] by simp
next
  case (LRecord c answer)
  have "groups (record_answered c answer s) = groups s \<and>
      length (commits (record_answered c answer s)) = length (commits s) \<and>
      draining (record_answered c answer s) = draining s"
    by (auto simp: record_answered_def set_phase_def settle_all_def report_def Let_def
        split: option.split commit_phase.split record_answer.split)
  then show ?thesis using LRecord assms drain_ok_cong [of "record_answered c answer s" s] by simp
next
  case (LFinally c now)
  then show ?thesis
    using assms drain_ok_pump by (auto simp: commit_finally_def split: option.split commit_phase.split)
next
  case (LDrain now)
  then show ?thesis
    using drain_ok_pump by (auto simp: begin_drain_def Let_def drained_def drain_ok_def)
qed (simp add: drain_ok_pump)

lemma drain_ok_reachable: "gc_reachable cfg s \<Longrightarrow> drain_ok cfg s"
proof (induction rule: gc_reachable.induct)
  case reach_init
  then show ?case by (simp add: drain_ok_def gc_init_def)
next
  case (reach_step s l s')
  then show ?case using drain_ok_exec gc_step_exec by metis
qed

text \<open>Every answer moves its commit, or its submission, strictly closer to the end.\<close>

fun phase_rank :: "commit_phase \<Rightarrow> nat" where
  "phase_rank (AtSink g) = 3"
| "phase_rank (AtRecord g rc) = 2"
| "phase_rank CommitDone = 1"

definition drain_measure :: "gc_state \<Rightarrow> nat" where
  "drain_measure s =
     5 * length (in_check s) + 4 * length (groups s) +
     (\<Sum>c \<in># mset (commits s). phase_rank (snd c))"

fun is_answer :: "gc_label \<Rightarrow> bool" where
  "is_answer (LQuota r a t) = True"
| "is_answer (LSink c a) = True"
| "is_answer (LRecord c a) = True"
| "is_answer (LFinally c t) = True"
| "is_answer _ = False"

lemma drain_measure_pump:
  assumes "distinct (map g_project (groups s))"
  shows "drain_measure (pump cfg now s) \<le> drain_measure s"
proof -
  let ?P = "\<lambda>t. distinct (map g_project (groups t)) \<and> drain_measure t \<le> drain_measure s"
  have "?P (pump_loop cfg now (groups s) s)"
  proof (rule pump_loop_preserves)
    fix t g assume t: "?P t" and g: "g \<in> set (groups t)"
    have "length (filter (\<lambda>x. g_project x \<noteq> g_project g) (groups t)) < length (groups t)"
      using g by (auto intro: length_filter_less)
    then show "?P (flush_group g t)"
      using t by (auto simp: flush_group_def drain_measure_def distinct_map_filter)
  qed (use assms in simp_all)
  then show ?thesis by (simp add: pump_def)
qed

lemma drain_measure_set_phase:
  assumes "distinct (map fst (commits s))" "map_of (commits s) c = Some ph" "phase_rank ph' < phase_rank ph"
    and "in_check t = in_check s" "groups t = groups s" "commits t = commits s"
  shows "drain_measure (set_phase c ph' t) < drain_measure s"
proof -
  let ?rest = "mset (filter (\<lambda>(i, x). i \<noteq> c) (commits s))"
  have m: "mset (commits s) = add_mset (c, ph) ?rest"
    "mset (map (\<lambda>(i, x). if i = c then (i, ph') else (i, x)) (commits s)) = add_mset (c, ph') ?rest"
    using map_of_split [OF assms(1,2)] by blast+
  have "(\<Sum>c \<in># mset (map (\<lambda>(i, x). if i = c then (i, ph') else (i, x)) (commits s)). phase_rank (snd c)) <
      (\<Sum>c \<in># mset (commits s). phase_rank (snd c))"
    unfolding m using assms(3) by simp
  then show ?thesis using assms(4-6) by (simp add: drain_measure_def set_phase_def del: mset_map)
qed

lemma drain_measure_take:
  assumes "map_of (in_check s) r = Some x"
  shows "drain_measure (s\<lparr>in_check := filter (\<lambda>(q, x). q \<noteq> r) (in_check s)\<rparr>) + 5 \<le> drain_measure s"
proof -
  have "(r, x) \<in> set (in_check s)" using assms by (rule map_of_SomeD)
  then have "length (filter (\<lambda>(q, x). q \<noteq> r) (in_check s)) < length (in_check s)"
    by (auto intro: length_filter_less)
  then show ?thesis by (simp add: drain_measure_def)
qed

lemma drain_measure_join: "drain_measure (join_group cfg r b out now s) \<le> drain_measure s + 4"
  by (auto simp: join_group_def group_for_def put_group_def drain_measure_def Let_def
      split: option.split prod.split)

lemma gc_inv_distinct: "gc_inv cfg s \<Longrightarrow> distinct (map g_project (groups s)) \<and> distinct (map fst (commits s))"
  by (simp add: gc_inv_defs)

lemma drain_measure_quota:
  assumes inv: "gc_inv cfg s" and r: "map_of (in_check s) r = Some x"
  shows "drain_measure (resume_submit cfg r answer now s) < drain_measure s"
proof -
  obtain b out where x: "x = (b, out)" by fastforce
  let ?s = "s\<lparr>in_check := filter (\<lambda>(q, x). q \<noteq> r) (in_check s)\<rparr>"
  note less = drain_measure_take [OF r]
  have "drain_measure (settle r y ?s) < drain_measure s" for y
    using less by (simp add: settle_def drain_measure_def)
  moreover have "drain_measure (pump cfg now (join_group cfg r b out now ?s)) < drain_measure s"
    if "receive (buffered s) (length (admitted out)) (cfg_policy cfg) = Accept"
  proof -
    have "gc_inv cfg (join_group cfg r b out now ?s)"
      using gc_inv_join [of r cfg ?s b out now] gc_inv_take [OF inv, of r b out] r x that by simp
    then have "drain_measure (pump cfg now (join_group cfg r b out now ?s)) \<le>
        drain_measure (join_group cfg r b out now ?s)"
      by (intro drain_measure_pump) (simp add: gc_inv_distinct)
    also have "\<dots> \<le> drain_measure ?s + 4" by (rule drain_measure_join)
    finally show ?thesis using less by simp
  qed
  ultimately show ?thesis
    using r x
    by (auto simp: resume_submit_def Let_def split: quota_answer.split quota_verdict.split reception.split)
qed

lemma drain_measure_answer:
  assumes inv: "gc_inv cfg s" and step: "gc_step cfg s l s'" and ans: "is_answer l"
  shows "drain_measure s' < drain_measure s"
  using step
proof cases
  case (step_quota r x answer now)
  then show ?thesis using drain_measure_quota [OF inv] by simp
next
  case (step_sink c g answer)
  have d: "distinct (map fst (commits s))" using gc_inv_distinct [OF inv] by simp
  show ?thesis
    unfolding step_sink
    by (auto simp: sink_answered_def step_sink(3) commit_threw_def settle_all_def report_def
        intro!: drain_measure_set_phase [OF d step_sink(3)] split: sink_answer.split)
next
  case (step_record c g rc answer)
  have d: "distinct (map fst (commits s))" using gc_inv_distinct [OF inv] by simp
  show ?thesis
    unfolding step_record
    by (auto simp: record_answered_def step_record(3) settle_all_def report_def Let_def
        intro!: drain_measure_set_phase [OF d step_record(3)] split: record_answer.split)
next
  case (step_finally c now)
  let ?s = "s\<lparr>commits := filter (\<lambda>(i, x). i \<noteq> c) (commits s)\<rparr>"
  have d: "distinct (map fst (commits s))" using gc_inv_distinct [OF inv] by simp
  have m: "mset (commits s) = add_mset (c, CommitDone) (mset (filter (\<lambda>(i, x). i \<noteq> c) (commits s)))"
    by (rule map_of_split(1) [OF d step_finally(3)])
  have "(\<Sum>c \<in># mset (commits s). phase_rank (snd c)) =
      1 + (\<Sum>x \<in># mset (filter (\<lambda>(i, x). i \<noteq> c) (commits s)). phase_rank (snd x))"
    unfolding m by simp
  then have "drain_measure ?s < drain_measure s" by (simp add: drain_measure_def del: mset_filter)
  moreover have "drain_measure (pump cfg now ?s) \<le> drain_measure ?s"
    using gc_inv_distinct [OF inv] by (intro drain_measure_pump) simp
  ultimately show ?thesis by (simp add: step_finally commit_finally_def)
qed (use ans in simp_all)

lemma draining_exec: "draining s \<Longrightarrow> draining (gc_exec cfg l s)"
  by (cases l)
    (auto simp: submit_def settle_def resume_submit_def join_group_def group_for_def put_group_def
      sink_answered_def commit_threw_def set_phase_def settle_all_def report_def record_answered_def
      commit_finally_def begin_drain_def Let_def
      split: option.split sum.split prod.split reception.split quota_answer.split quota_verdict.split
        commit_phase.split sink_answer.split record_answer.split)

lemma open_commit_answerable:
  assumes "commits s \<noteq> []" shows "\<exists>l s'. is_answer l \<and> gc_step cfg s l s'"
proof -
  obtain c ph rest where "commits s = (c, ph) # rest" using assms by (cases "commits s") auto
  then have c: "map_of (commits s) c = Some ph" by simp
  show ?thesis
  proof (cases ph)
    case (AtSink g)
    with c show ?thesis using step_sink is_answer.simps by blast
  next
    case (AtRecord g rc)
    with c show ?thesis using step_record is_answer.simps by blast
  next
    case CommitDone
    with c show ?thesis using step_finally is_answer.simps by blast
  qed
qed

text \<open>How much a commit in flight can hold.\<close>

fun phase_size :: "commit_phase \<Rightarrow> int" where
  "phase_size (AtSink g) = int (length (g_events g))"
| "phase_size (AtRecord g rc) = int (length (g_events g))"
| "phase_size CommitDone = 0"

definition in_flight_events :: "gc_state \<Rightarrow> int" where
  "in_flight_events s = (\<Sum>(c, ph) \<leftarrow> commits s. phase_size ph)"

definition commit_sizes_ok :: "gc_config \<Rightarrow> gc_state \<Rightarrow> bool" where
  "commit_sizes_ok cfg s \<longleftrightarrow>
     list_all (\<lambda>(c, ph). phase_size ph \<le> max_buffered (cfg_policy cfg)) (commits s)"

lemma group_size_le:
  assumes "g \<in> set (groups s)"
  shows "int (length (g_events g)) \<le> group_sizes s"
proof -
  obtain M where M: "mset (groups s) = add_mset g M"
    using assms by (metis multi_member_split set_mset_mset)
  have "0 \<le> (\<Sum>g \<in># M. int (length (g_events g)))" by (induction M) auto
  then show ?thesis by (simp add: group_sizes_def M)
qed

lemma commit_sizes_pump:
  assumes "gc_inv cfg s" "commit_sizes_ok cfg s"
  shows "commit_sizes_ok cfg (pump cfg now s)"
proof -
  have "gc_inv cfg (pump_loop cfg now (groups s) s) \<and> commit_sizes_ok cfg (pump_loop cfg now (groups s) s)"
  proof (rule pump_loop_preserves)
    fix t g assume t: "gc_inv cfg t \<and> commit_sizes_ok cfg t" and g: "g \<in> set (groups t)"
      and room: "length (commits t) < max_in_flight (cfg_policy cfg)"
    have "int (length (g_events g)) \<le> max_buffered (cfg_policy cfg)"
      using group_size_le [OF g] t by (auto simp: gc_inv_def gc_sums_def)
    then show "gc_inv cfg (flush_group g t) \<and> commit_sizes_ok cfg (flush_group g t)"
      using t gc_inv_flush [OF _ g room] by (simp add: commit_sizes_ok_def flush_group_def)
  qed (use assms gc_inv_distinct in auto)
  then show ?thesis by (simp add: pump_def)
qed

lemma commit_sizes_set_phase:
  assumes "commit_sizes_ok cfg s" "map_of (commits s) c = Some ph" "commits t = commits s"
    and "phase_size ph' \<le> phase_size ph"
  shows "commit_sizes_ok cfg (set_phase c ph' t)"
proof -
  have "phase_size ph \<le> max_buffered (cfg_policy cfg)"
    using assms(1) map_of_SomeD [OF assms(2)] by (auto simp: commit_sizes_ok_def list_all_iff)
  with assms(1,3,4) show ?thesis
    by (auto simp: commit_sizes_ok_def set_phase_def list_all_iff split_beta)
qed

lemma commits_join [simp]: "commits (join_group cfg r b out now s) = commits s"
  by (auto simp: join_group_def group_for_def put_group_def Let_def split: option.split prod.split)

lemma commit_sizes_exec:
  assumes inv: "gc_inv cfg s" and ok: "commit_sizes_ok cfg s"
  shows "commit_sizes_ok cfg (gc_exec cfg l s)"
proof (cases l)
  case (LSubmit b)
  have "commits (submit cfg b s) = commits s"
    by (auto simp: submit_def settle_def Let_def split: sum.split reception.split)
  then have "commit_sizes_ok cfg (submit cfg b s)" using ok by (simp add: commit_sizes_ok_def)
  then show ?thesis using LSubmit by simp
next
  case (LQuota r answer now)
  show ?thesis
  proof (cases "map_of (in_check s) r")
    case None
    with LQuota ok show ?thesis by (simp add: resume_submit_def)
  next
    case (Some x)
    obtain b out where x: "x = (b, out)" by fastforce
    let ?s = "s\<lparr>in_check := filter (\<lambda>(q, x). q \<noteq> r) (in_check s)\<rparr>"
    have "commit_sizes_ok cfg (pump cfg now (join_group cfg r b out now ?s))"
      if "receive (buffered s) (length (admitted out)) (cfg_policy cfg) = Accept"
      using gc_inv_join [of r cfg ?s b out now] gc_inv_take [OF inv, of r b out] Some x that ok
      by (intro commit_sizes_pump) (simp_all add: commit_sizes_ok_def)
    moreover have "commit_sizes_ok cfg (settle r y ?s)" for y
      using ok by (simp add: commit_sizes_ok_def settle_def)
    ultimately show ?thesis
      using Some x LQuota
      by (auto simp: resume_submit_def Let_def
          split: quota_answer.split quota_verdict.split reception.split)
  qed
next
  case (LTick now)
  then show ?thesis using commit_sizes_pump [OF inv ok] by simp
next
  case (LSink c answer)
  show ?thesis
  proof (cases "\<exists>g. map_of (commits s) c = Some (AtSink g)")
    case True
    then obtain g where c: "map_of (commits s) c = Some (AtSink g)" ..
    show ?thesis
      unfolding LSink
      by (auto simp: sink_answered_def c commit_threw_def settle_all_def report_def
          intro!: commit_sizes_set_phase [OF ok c] split: sink_answer.split)
  next
    case False
    with LSink ok show ?thesis by (auto simp: sink_answered_def split: option.split commit_phase.split)
  qed
next
  case (LRecord c answer)
  show ?thesis
  proof (cases "\<exists>g rc. map_of (commits s) c = Some (AtRecord g rc)")
    case True
    then obtain g rc where c: "map_of (commits s) c = Some (AtRecord g rc)" by blast
    show ?thesis
      unfolding LRecord
      by (auto simp: record_answered_def c settle_all_def report_def Let_def
          intro!: commit_sizes_set_phase [OF ok c] split: record_answer.split)
  next
    case False
    with LRecord ok show ?thesis
      by (auto simp: record_answered_def split: option.split commit_phase.split)
  qed
next
  case (LFinally c now)
  show ?thesis
  proof (cases "map_of (commits s) c = Some CommitDone")
    case True
    have "commit_sizes_ok cfg (s\<lparr>commits := filter (\<lambda>(i, x). i \<noteq> c) (commits s)\<rparr>)"
      using ok by (auto simp: commit_sizes_ok_def list_all_iff)
    with True LFinally show ?thesis
      by (simp add: commit_finally_def commit_sizes_pump gc_inv_remove_done [OF inv])
  next
    case False
    with LFinally ok show ?thesis by (auto simp: commit_finally_def split: option.split commit_phase.split)
  qed
next
  case (LDrain now)
  then show ?thesis
    using ok inv by (auto simp: begin_drain_def Let_def commit_sizes_ok_def
        intro: commit_sizes_pump [unfolded commit_sizes_ok_def])
qed

lemma commit_sizes_reachable:
  assumes "0 \<le> max_buffered (cfg_policy cfg)"
  shows "gc_reachable cfg s \<Longrightarrow> commit_sizes_ok cfg s"
proof (induction rule: gc_reachable.induct)
  case reach_init
  then show ?case by (simp add: commit_sizes_ok_def gc_init_def)
next
  case (reach_step s l s')
  then show ?case
    using commit_sizes_exec [OF gc_inv_reachable [OF assms]] gc_step_exec by metis
qed

lemma in_flight_events_le:
  "commit_sizes_ok cfg s \<Longrightarrow>
     in_flight_events s \<le> int (length (commits s)) * max_buffered (cfg_policy cfg)"
proof -
  have "list_all (\<lambda>(c, ph). phase_size ph \<le> m) cs \<Longrightarrow>
      (\<Sum>(c, ph) \<leftarrow> cs. phase_size ph) \<le> int (length cs) * m" for cs :: "(nat \<times> commit_phase) list" and m
    by (induction cs) (auto simp: algebra_simps)
  then show "commit_sizes_ok cfg s \<Longrightarrow> ?thesis"
    by (simp add: commit_sizes_ok_def in_flight_events_def)
qed

section \<open>Properties\<close>

text \<open>A configuration and batches small enough to run.\<close>

definition tiny_config :: gc_config where
  "tiny_config =
     \<lparr> cfg_policy = \<lparr> linger = 20, max_events = 1, max_waiters = 64, max_buffered = 3,
                      max_in_flight = 1, retry_after = 1000 \<rparr>,
       cfg_admission = DEFAULT_ADMISSION_POLICY, cfg_date_parse = (\<lambda>s. None) \<rparr>"

definition sample_batch :: "string list \<Rightarrow> ingest_batch" where
  "sample_batch keys =
     \<lparr> batch_workspace = ''w'', batch_project = ''p'', batch_received_at = 0,
       batch_events = map (\<lambda>k. JObj [(''name'', JStr ''e''), (''visitId'', JStr ''v''),
                                     (''idempotencyKey'', JStr k)]) keys,
       batch_country = None, batch_bytes = None \<rparr>"

definition sample_run :: "gc_label list" where
  "sample_run =
     [LSubmit (sample_batch [''a'']), LQuota 0 (QuotaVerdict (QuotaAllowed None)) 0,
      LSubmit (sample_batch [''b'', ''c'', ''d'']), LQuota 1 (QuotaVerdict (QuotaAllowed None)) 1,
      LSink 0 (SinkWrote \<lparr> receipt_written = 1, receipt_indices = [0], receipt_deduplicated = 0 \<rparr>),
      LRecord 0 Recorded, LFinally 0 2,
      LSubmit (sample_batch [''e'', ''f'', ''g'']), LQuota 2 (QuotaVerdict (QuotaAllowed None)) 3]"

lemma sample_reachable: "gc_reachable tiny_config (gc_run tiny_config ls gc_init)"
  by (rule gc_run_reachable [OF reach_init])

lemma tiny_bounds: "0 \<le> max_buffered (cfg_policy tiny_config)" "0 < max_in_flight (cfg_policy tiny_config)"
  by (simp_all add: tiny_config_def)

text \<open>
  C1. One request, one answer: in every reachable state each request submitted so far is
  either held in exactly one place (awaiting its quota verdict, in one group, or in one
  commit) or settled exactly once, never both; none is invented and none is forgotten.
\<close>

theorem one_answer_per_request:
  assumes "gc_reachable cfg s" "0 \<le> max_buffered (cfg_policy cfg)"
  shows "count (held s) r + count (mset (map fst (settled s))) r = (if r < length (arrived s) then 1 else 0)"
proof -
  have "held s + mset (map fst (settled s)) = mset [0..<length (arrived s)]"
    using gc_inv_reachable [OF assms(2,1)] by (simp add: gc_inv_def gc_sums_def)
  then have "count (held s) r + count (mset (map fst (settled s))) r = count (mset [0..<length (arrived s)]) r"
    by (metis count_union)
  then show ?thesis by (simp add: distinct_count_atmost_1 [THEN iffD1] count_mset_set')
qed

theorem one_answer_per_request_witness:
  "let s = gc_run tiny_config sample_run gc_init
   in count (held s) 0 + count (mset (map fst (settled s))) 0 = 1 \<and> map fst (settled s) = [0]"
proof -
  let ?s = "gc_run tiny_config sample_run gc_init"
  have "length (arrived ?s) = 3 \<and> map fst (settled ?s) = [0]" by code_simp
  with one_answer_per_request [OF sample_reachable tiny_bounds(1), of sample_run 0]
  show ?thesis by (simp add: Let_def del: mset_map)
qed



text \<open>
  The source's own bound, the buffer ceiling plus the commit ceiling times the group size
  that triggers a flush, does not hold: a group blocked behind a full house of commits
  keeps growing past that size.
\<close>

lemma documented_memory_bound_fails:
  "let s = gc_run tiny_config sample_run gc_init; p = cfg_policy tiny_config
   in buffered s + in_flight_events s > max_buffered p + int (max_in_flight p) * int (max_events p)"
  by code_simp

text \<open>
  C10. Every acknowledgement accounts for its request: accepted, deduplicated and rejected
  events add up to the events submitted; the accepted counts never add up to more than
  the sink reported as newly stored, and add up to exactly that once no commit waits for
  the usage counter.
\<close>

theorem acknowledgements_account:
  assumes "gc_reachable cfg s" "0 \<le> max_buffered (cfg_policy cfg)"
  shows "((r, Resolved (Committed a d rej sm)) \<in> set (settled s) \<longrightarrow>
           a + d + length rej = length (batch_events (arrived s ! r))) \<and>
         (accepted_total (settled s) \<le> stored s) \<and>
         ((\<forall>(c, ph) \<in> set (commits s). phase_stored ph = 0) \<longrightarrow> accepted_total (settled s) = stored s)"
proof (intro conjI impI)
  note inv = gc_inv_reachable [OF assms(2,1)]
  show "(r, Resolved (Committed a d rej sm)) \<in> set (settled s) \<Longrightarrow>
      a + d + length rej = length (batch_events (arrived s ! r))"
    using inv by (auto simp: gc_inv_def gc_shape_def list_all_iff settled_ok_def batch_size_def)
  have eq: "stored s = accepted_total (settled s) + (\<Sum>c \<in># mset (commits s). phase_stored (snd c))"
    using inv by (simp add: gc_inv_def gc_sums_def)
  have nonneg: "phase_ok arr ph \<Longrightarrow> 0 \<le> phase_stored ph" for arr ph
    by (cases ph) (auto simp: receipt_consistent_def)
  have "0 \<le> (\<Sum>c \<in># mset cs. phase_stored (snd c))"
    if "\<forall>(c, ph) \<in> set cs. phase_ok (arrived s) ph" for cs :: "(nat \<times> commit_phase) list"
    using that nonneg by (induction cs) fastforce+
  moreover have "\<forall>(c, ph) \<in> set (commits s). phase_ok (arrived s) ph"
    using inv by (auto simp: gc_inv_def gc_shape_def list_all_iff)
  ultimately have "0 \<le> (\<Sum>c \<in># mset (commits s). phase_stored (snd c))" by blast
  with eq show "accepted_total (settled s) \<le> stored s" by simp
  have "(\<Sum>c \<in># mset cs. phase_stored (snd c)) = 0"
    if "\<forall>(c, ph) \<in> set cs. phase_stored ph = 0" for cs :: "(nat \<times> commit_phase) list"
    using that by (induction cs) auto
  with eq show "\<forall>(c, ph) \<in> set (commits s). phase_stored ph = 0 \<Longrightarrow> accepted_total (settled s) = stored s"
    by simp
qed

theorem acknowledgements_account_witness:
  "let s = gc_run tiny_config sample_run gc_init
   in settled s = [(0, Resolved (Committed 1 0 [] (Some
        \<lparr> summary_size = 1, summary_written = 1, summary_deduplicated = 0 \<rparr>)))] \<and>
      accepted_total (settled s) = stored s"
proof -
  let ?s = "gc_run tiny_config sample_run gc_init"
  have "settled ?s = [(0, Resolved (Committed 1 0 [] (Some
        \<lparr> summary_size = 1, summary_written = 1, summary_deduplicated = 0 \<rparr>)))]"
    by code_simp
  moreover have "list_all (\<lambda>(c, ph). phase_stored ph = 0) (commits ?s)" by code_simp
  then have "\<forall>(c, ph) \<in> set (commits ?s). phase_stored ph = 0" by (simp add: list_all_iff)
  note acknowledgements_account [OF sample_reachable tiny_bounds(1), THEN conjunct2, THEN conjunct2, THEN mp, OF this]
  ultimately show ?thesis by (simp add: Let_def)
qed

text \<open>
  Nothing that may go is left waiting: after every look, each group still assembled is
  either not ready, its deadline counted from its first event lying ahead, or blocked
  because every commit slot is taken.
\<close>

theorem no_ready_group_waits:
  assumes "g \<in> set (groups (pump cfg now s))"
  shows "length (commits (pump cfg now s)) \<ge> max_in_flight (cfg_policy cfg) \<or>
         (\<not> draining s \<and> now < g_opened_at g + linger (cfg_policy cfg) \<and>
          length (g_events g) < max_events (cfg_policy cfg) \<and>
          length (g_waiters g) < max_waiters (cfg_policy cfg))"
  using pump_complete [OF assms]
  by (auto simp: pump_flushes_def flush_reason_of_def pending_of_def deadline_def time_defs
      split: if_splits)

theorem no_ready_group_waits_witness:
  "let s = gc_run tiny_config sample_run gc_init
   in groups (pump tiny_config 4 s) \<noteq> [] \<and> length (commits (pump tiny_config 4 s)) \<ge> 1"
proof -
  let ?t = "pump tiny_config 4 (gc_run tiny_config sample_run gc_init)"
  have ne: "length (groups ?t) = 1 \<and> length (g_events (hd (groups ?t))) = 3" by code_simp
  have lim: "max_events (cfg_policy tiny_config) = 1 \<and> max_in_flight (cfg_policy tiny_config) = 1"
    by (simp add: tiny_config_def)
  from ne have "hd (groups ?t) \<in> set (groups ?t)" by (intro hd_in_set) auto
  from no_ready_group_waits [OF this] have "length (commits ?t) \<ge> 1"
    unfolding lim [THEN conjunct1] lim [THEN conjunct2] using ne by linarith
  with ne show ?thesis by (auto simp: Let_def)
qed

text \<open>
  C38. Draining ends: while a group or a commit is left some pending answer can arrive, every
  answer strictly decreases a measure and none reopens the door; when the drain is over
  and no submission awaits its quota verdict, every request has been answered.
\<close>

theorem drain_terminates:
  assumes "gc_reachable cfg s" "0 \<le> max_buffered (cfg_policy cfg)"
    and "0 < max_in_flight (cfg_policy cfg)" "draining s"
  shows "(\<not> drained s \<longrightarrow> (\<exists>l s'. is_answer l \<and> gc_step cfg s l s')) \<and>
         (gc_step cfg s l s' \<longrightarrow> is_answer l \<longrightarrow> drain_measure s' < drain_measure s \<and> draining s') \<and>
         (drained s \<longrightarrow> in_check s = [] \<longrightarrow> r < length (arrived s) \<longrightarrow> r \<in> fst ` set (settled s))"
proof (intro conjI impI)
  note inv = gc_inv_reachable [OF assms(2,1)]
  show "\<not> drained s \<Longrightarrow> \<exists>l s'. is_answer l \<and> gc_step cfg s l s'"
    using drain_ok_reachable [OF assms(1)] assms(3,4)
    by (intro open_commit_answerable) (auto simp: drain_ok_def drained_def)
  show "drain_measure s' < drain_measure s" "draining s'" if "gc_step cfg s l s'" "is_answer l"
    using that drain_measure_answer [OF inv] draining_exec [OF assms(4)] gc_step_exec by metis+
  assume "drained s" "in_check s = []" "r < length (arrived s)"
  then have "held s = {#}" by (simp add: drained_def held_def)
  then have "mset (map fst (settled s)) = mset [0..<length (arrived s)]"
    using inv by (simp add: gc_inv_def gc_sums_def)
  then have "set (map fst (settled s)) = {0..<length (arrived s)}"
    by (metis set_mset_mset set_upt)
  with \<open>r < length (arrived s)\<close> show "r \<in> fst ` set (settled s)" by auto
qed

theorem drain_terminates_witness:
  "let s = gc_run tiny_config (sample_run @ [LDrain 5]) gc_init
   in \<not> drained s \<and> (\<exists>l s'. is_answer l \<and> gc_step tiny_config s l s')"
proof -
  let ?s = "gc_run tiny_config (sample_run @ [LDrain 5]) gc_init"
  have "draining ?s \<and> \<not> drained ?s" by code_simp
  with drain_terminates [OF sample_reachable tiny_bounds, of "sample_run @ [LDrain 5]"]
  show ?thesis by (simp add: Let_def)
qed

text \<open>
  The condition on the quota is needed: a submission past the shutdown check and still
  awaiting its verdict is in no group and no commit, so a drain ends, and the readout of
  waiting requests is zero, while that request has no answer.
\<close>

lemma drain_ends_before_verdict:
  "let s = gc_run tiny_config [LSubmit (sample_batch [''a'']), LDrain 1] gc_init
   in draining s \<and> drained s \<and> waiting s = 0 \<and> length (arrived s) = 1 \<and> settled s = []"
  by code_simp

end
