(* ===== verification/IngestRoute.thy ===== *)
theory IngestRoute
  imports Access GroupCommitInv Calendar Plan
begin

text \<open>
  The ingest endpoint, apps/api/src/ingest: the caller's address (client-ip.ts), the handler of
  \<open>POST /v1/events\<close> (route.ts) and the quota derived from the events themselves (quota.ts,
  usage.ts). \<open>JSON.parse\<close> and the geo locator are parameters; so is the coalescer, whose answer
  is the settlement of the submitted batch in \<open>GroupCommit\<close>.
\<close>

section \<open>The caller's address\<close>

fun split_on :: "char \<Rightarrow> string \<Rightarrow> string list" where
  "split_on sep [] = [[]]"
| "split_on sep (c # cs) =
     (if c = sep then [] # split_on sep cs
      else (case split_on sep cs of [] \<Rightarrow> [[c]] | part # parts \<Rightarrow> (c # part) # parts))"

definition FORWARDED_FOR :: string where
  "FORWARDED_FOR = ''x-forwarded-for''"

definition DEFAULT_TRUSTED_PROXY_HOPS :: rat where
  "DEFAULT_TRUSTED_PROXY_HOPS = 1"

definition client_address :: "http_headers \<Rightarrow> rat \<Rightarrow> string option" where
  "client_address headers hops =
     (if \<not> is_integer hops \<or> hops < 1 then None
      else
        (case headers FORWARDED_FOR of
           None \<Rightarrow> None
         | Some header \<Rightarrow>
             (let entries = split_on (CHR '','') header;
                  i = int (length entries) - \<lfloor>hops\<rfloor>
              in if i < 0 then None
                 else
                   (let entry = js_trim (entries ! nat i)
                    in if length entry = 0 then None else Some entry))))"

text \<open>A locator that throws costs the batch its country and nothing else.\<close>

definition locate_country :: "(string \<Rightarrow> string + string option) \<Rightarrow> string \<Rightarrow> string option" where
  "locate_country geo address = (case geo address of Inl _ \<Rightarrow> None | Inr c \<Rightarrow> c)"

section \<open>Requests and answers\<close>

record ingest_request =
  rq_headers :: http_headers
  rq_query_key :: "string option"
  rq_text :: string

datatype ingest_body =
    Receipt nat nat nat "(nat \<times> string) list"
  | Problem "(string \<times> fault_value) list"

record ingest_outcome =
  io_status :: int
  io_body :: ingest_body
  io_retry_after :: "int option"

definition UNOWNED_WORKSPACE :: workspace_id where
  "UNOWNED_WORKSPACE = ''~unclaimed''"

fun code_name :: "fault_code \<Rightarrow> string" where
  "code_name BAD_REQUEST = ''BAD_REQUEST''"
| "code_name UNAUTHORIZED = ''UNAUTHORIZED''"
| "code_name PAYMENT_REQUIRED = ''PAYMENT_REQUIRED''"
| "code_name FORBIDDEN = ''FORBIDDEN''"
| "code_name NOT_FOUND = ''NOT_FOUND''"
| "code_name CONFLICT = ''CONFLICT''"
| "code_name GONE = ''GONE''"
| "code_name PAYLOAD_TOO_LARGE = ''PAYLOAD_TOO_LARGE''"
| "code_name UNPROCESSABLE_CONTENT = ''UNPROCESSABLE_CONTENT''"
| "code_name TOO_MANY_REQUESTS = ''TOO_MANY_REQUESTS''"
| "code_name INTERNAL_SERVER_ERROR = ''INTERNAL_SERVER_ERROR''"
| "code_name NOT_IMPLEMENTED = ''NOT_IMPLEMENTED''"
| "code_name BAD_GATEWAY = ''BAD_GATEWAY''"
| "code_name SERVICE_UNAVAILABLE = ''SERVICE_UNAVAILABLE''"
| "code_name GATEWAY_TIMEOUT = ''GATEWAY_TIMEOUT''"

fun status_of :: "fault_code \<Rightarrow> int" where
  "status_of BAD_REQUEST = 400"
| "status_of UNAUTHORIZED = 401"
| "status_of PAYMENT_REQUIRED = 402"
| "status_of FORBIDDEN = 403"
| "status_of PAYLOAD_TOO_LARGE = 413"
| "status_of UNPROCESSABLE_CONTENT = 422"
| "status_of TOO_MANY_REQUESTS = 429"
| "status_of SERVICE_UNAVAILABLE = 503"
| "status_of _ = 500"

text \<open>The data of a fault is spread over the body after its detail, and wins.\<close>

fun spread :: "(string \<times> fault_value) list \<Rightarrow> (string \<times> fault_value) list \<Rightarrow> (string \<times> fault_value) list" where
  "spread body [] = body"
| "spread body ((k, v) # kvs) = spread (map_put k v body) kvs"

definition ceil_seconds :: "int \<Rightarrow> int" where
  "ceil_seconds ms = - ((- ms) div 1000)"

definition problem :: "fault \<Rightarrow> bool \<Rightarrow> int option \<Rightarrow> ingest_outcome" where
  "problem f retryable retry_ms =
     \<lparr> io_status = status_of (fault_code f),
       io_body = Problem (spread
         [(''code'', FText (code_name (fault_code f))), (''detail'', FText (fault_message f)), (''retryable'', FFlag retryable)]
         ((''reason'', FText (fault_reason f)) # fault_fields f)),
       io_retry_after = map_option (\<lambda>ms. max 1 (ceil_seconds ms)) retry_ms \<rparr>"

definition plain_problem :: "int \<Rightarrow> string \<Rightarrow> string \<Rightarrow> (string \<times> fault_value) list \<Rightarrow> ingest_outcome" where
  "plain_problem status code detail extra =
     \<lparr> io_status = status,
       io_body = Problem ([(''code'', FText code), (''detail'', FText detail), (''retryable'', FFlag False)] @ extra),
       io_retry_after = None \<rparr>"

definition unauthorized_outcome :: ingest_outcome where
  "unauthorized_outcome = plain_problem 401 ''UNAUTHORIZED'' ''No usable credential was presented.'' []"

definition ingest_key_of :: "ingest_request \<Rightarrow> string option" where
  "ingest_key_of request =
     (case bearer_token (rq_headers request) of
        Some secret \<Rightarrow> Some secret
      | None \<Rightarrow>
          (case rq_query_key request of
             Some key \<Rightarrow> if length key > 0 then Some key else None
           | None \<Rightarrow> None))"

text \<open>The length in UTF-8 of a string of Latin-1 code units.\<close>

definition utf8_length :: "string \<Rightarrow> int" where
  "utf8_length s = sum_list (map (\<lambda>c. if of_char c < (128 :: nat) then 1 else 2) s)"

fun event_error_kind :: "event_admission_error \<Rightarrow> string" where
  "event_error_kind (MalformedEvent _ _) = ''MalformedEvent''"
| "event_error_kind (UnknownEventName _) = ''UnknownEventName''"
| "event_error_kind (ClockSkew _ _) = ''ClockSkew''"
| "event_error_kind PersonIdRequired = ''PersonIdRequired''"
| "event_error_kind (PersonIdTooLong _ _) = ''PersonIdTooLong''"
| "event_error_kind PersonIdLooksLikeEmail = ''PersonIdLooksLikeEmail''"

fun ack_outcome :: "ack \<Rightarrow> ingest_outcome" where
  "ack_outcome (Refused e rej) =
     problem (from_batch_admission_error e)
       (case e of RateLimited _ \<Rightarrow> True | SinkUnavailable _ \<Rightarrow> True | _ \<Rightarrow> False)
       (case e of RateLimited ms \<Rightarrow> Some ms | _ \<Rightarrow> None)"
| "ack_outcome (Committed accepted deduplicated rej _) =
     \<lparr> io_status = 202,
       io_body = Receipt accepted deduplicated (length rej)
         (map (\<lambda>r. case r of RejectedEvent i e \<Rightarrow> (i, event_error_kind e)) rej),
       io_retry_after = None \<rparr>"

section \<open>The handler\<close>

definition request_events :: "(string \<Rightarrow> json option) \<Rightarrow> string \<Rightarrow> ingest_outcome + json list" where
  "request_events parse raw =
     (case parse raw of
        None \<Rightarrow> err (plain_problem 400 ''BAD_REQUEST'' ''The body is not JSON.'' [])
      | Some body \<Rightarrow>
          (case json_get body ''events'' of
             JArr es \<Rightarrow> ok es
           | _ \<Rightarrow> err (plain_problem 400 ''BAD_REQUEST'' ''`events` must be an array.'' [])))"

definition admit_caller :: "access_reads \<Rightarrow> ingest_request \<Rightarrow> instant \<Rightarrow> ingest_outcome + project_id" where
  "admit_caller rd request t =
     (case ingest_key_of request of
        None \<Rightarrow> err unauthorized_outcome
      | Some secret \<Rightarrow>
     (case rd_verify rd secret t of
        Inl e \<Rightarrow>
          (case e of
             VerifyRateLimited d \<Rightarrow>
               err (problem (make_fault TOO_MANY_REQUESTS ''Too many requests.'' ''RateLimited'' []) True (Some d))
           | _ \<Rightarrow> err unauthorized_outcome)
      | Inr c \<Rightarrow>
          (case vc_project c of
             Some p \<Rightarrow> if EventsWrite \<in> set (vc_permissions c) then ok p
                        else err (plain_problem 403 ''FORBIDDEN'' ''This credential cannot write events.''
                               [(''reason'', FText ''NotPermitted''), (''required'', FText ''events:write'')])
           | None \<Rightarrow> err (plain_problem 403 ''FORBIDDEN'' ''This credential cannot write events.''
                           [(''reason'', FText ''NotPermitted''), (''required'', FText ''events:write'')]))))"

definition ingest_batch_of ::
  "access_reads \<Rightarrow> (string \<Rightarrow> json option) \<Rightarrow> (string \<Rightarrow> string + string option) \<Rightarrow> int \<Rightarrow> rat \<Rightarrow> ingest_request \<Rightarrow>
   instant \<Rightarrow> ingest_outcome + ingest_batch" where
  "ingest_batch_of rd parse geo body_limit hops request t =
     (case admit_caller rd request t of
        Inl out \<Rightarrow> Inl out
      | Inr p \<Rightarrow>
          (let bytes = utf8_length (rq_text request)
           in if bytes > body_limit
              then err (problem (from_batch_admission_error (PayloadTooLarge bytes body_limit)) False None)
              else
                (case request_events parse (rq_text request) of
                   Inl out \<Rightarrow> Inl out
                 | Inr es \<Rightarrow>
                (case rd_project_workspace rd p of
                   None \<Rightarrow> err (plain_problem 404 ''NOT_FOUND'' ''No such project.'' [])
                 | Some w \<Rightarrow>
                     ok \<lparr> batch_workspace = (case w of None \<Rightarrow> UNOWNED_WORKSPACE | Some v \<Rightarrow> v),
                          batch_project = p, batch_received_at = t, batch_events = es,
                          batch_country = (case client_address (rq_headers request) hops of
                                             None \<Rightarrow> None
                                           | Some address \<Rightarrow> locate_country geo address),
                          batch_bytes = Some bytes \<rparr>))))"

text \<open>A submission that raises is a rejected promise: the handler has no answer of its own.\<close>

definition handle_ingest ::
  "access_reads \<Rightarrow> (string \<Rightarrow> json option) \<Rightarrow> (string \<Rightarrow> string + string option) \<Rightarrow> int \<Rightarrow> rat \<Rightarrow>
   (ingest_batch \<Rightarrow> settlement) \<Rightarrow> ingest_request \<Rightarrow> instant \<Rightarrow> ingest_outcome option" where
  "handle_ingest rd parse geo body_limit hops commit request t =
     (case ingest_batch_of rd parse geo body_limit hops request t of
        Inl out \<Rightarrow> Some out
      | Inr batch \<Rightarrow>
          (case commit batch of
             Raised _ \<Rightarrow> None
           | Resolved a \<Rightarrow> Some (ack_outcome a)))"

section \<open>The derived quota\<close>

definition duration_add :: "duration \<Rightarrow> duration \<Rightarrow> duration" where
  "duration_add a b = a + b"

definition month_to_date :: "instant \<Rightarrow> instant \<times> instant" where
  "month_to_date t = (date_utc (utc_year t) (utc_month t) 1, t)"

record quota_reads =
  qr_project_workspace :: "project_id \<Rightarrow> workspace_id option option"
  qr_entitlement :: "workspace_id \<Rightarrow> entitlement option"
  qr_created_at :: "project_id \<Rightarrow> instant option"
  qr_counts :: "engine_scope \<Rightarrow> instant \<times> instant \<Rightarrow> engine_failure + int list"

record quota_config =
  qc_refresh :: duration
  qc_unclaimed_allowance :: int

definition DEFAULT_QUOTA_CONFIG :: quota_config where
  "DEFAULT_QUOTA_CONFIG = \<lparr> qc_refresh = duration_seconds 60, qc_unclaimed_allowance = 100000 \<rparr>"

record reading =
  rg_used :: int
  rg_read_at :: instant

type_synonym readings = "(string \<times> reading) list"

definition events_this_period :: "quota_reads \<Rightarrow> workspace_id \<Rightarrow> instant \<Rightarrow> engine_failure + int" where
  "events_this_period qr w t = result_map (qr_counts qr (WorkspaceScope w) (month_to_date t)) sum_list"

definition stale_reading :: "quota_config \<Rightarrow> reading \<Rightarrow> instant \<Rightarrow> bool" where
  "stale_reading cfg r t = (duration_compare (instant_between (rg_read_at r) t) (qc_refresh cfg) \<ge> 0)"

definition fresh_reading :: "quota_config \<Rightarrow> readings \<Rightarrow> string \<Rightarrow> instant \<Rightarrow> int option" where
  "fresh_reading cfg st key t =
     (case map_of st key of
        Some r \<Rightarrow> if stale_reading cfg r t then None else Some (rg_used r)
      | None \<Rightarrow> None)"

definition read_again ::
  "readings \<Rightarrow> string \<Rightarrow> instant \<Rightarrow> engine_failure + int \<Rightarrow> int option \<times> readings" where
  "read_again st key t answer =
     (case answer of
        Inl _ \<Rightarrow> (None, st)
      | Inr used \<Rightarrow> (Some used, map_put key \<lparr> rg_used = used, rg_read_at = t \<rparr> st))"

definition used_by ::
  "quota_config \<Rightarrow> quota_reads \<Rightarrow> workspace_id \<Rightarrow> instant \<Rightarrow> readings \<Rightarrow> int option \<times> readings" where
  "used_by cfg qr w t st =
     (case fresh_reading cfg st w t of
        Some used \<Rightarrow> (Some used, st)
      | None \<Rightarrow> read_again st w t (events_this_period qr w t))"

definition unclaimed_key :: "project_id \<Rightarrow> string" where
  "unclaimed_key p = ''unclaimed:'' @ p"

definition unclaimed_used_by ::
  "quota_config \<Rightarrow> quota_reads \<Rightarrow> project_id \<Rightarrow> instant \<Rightarrow> readings \<Rightarrow> int option \<times> readings" where
  "unclaimed_used_by cfg qr p t st =
     (case fresh_reading cfg st (unclaimed_key p) t of
        Some used \<Rightarrow> (Some used, st)
      | None \<Rightarrow>
          (case qr_created_at qr p of
             None \<Rightarrow> (None, st)
           | Some created \<Rightarrow>
               read_again st (unclaimed_key p) t
                 (result_map (qr_counts qr (ProjectScope p)
                    (instant_minus created (max_age DEFAULT_ADMISSION_POLICY),
                     instant_plus t (duration_add (max_future_skew DEFAULT_ADMISSION_POLICY) 1))) sum_list)))"

definition quota_check ::
  "quota_config \<Rightarrow> quota_reads \<Rightarrow> project_id \<Rightarrow> int \<Rightarrow> instant \<Rightarrow> readings \<Rightarrow> quota_verdict \<times> readings" where
  "quota_check cfg qr p n t st =
     (case qr_project_workspace qr p of
        None \<Rightarrow> (QuotaRateLimited (duration_hours 1), st)
      | Some None \<Rightarrow>
          (case unclaimed_used_by cfg qr p t st of
             (None, st) \<Rightarrow> (QuotaAllowed None, st)
           | (Some prior, st) \<Rightarrow>
               (let used = prior + n
                in (if used > qc_unclaimed_allowance cfg then QuotaPlanExceeded (qc_unclaimed_allowance cfg) used
                    else QuotaAllowed (Some (qc_unclaimed_allowance cfg - used)), st)))
      | Some (Some w) \<Rightarrow>
          (case qr_entitlement qr w of
             None \<Rightarrow> (QuotaAllowed None, st)
           | Some e \<Rightarrow>
               if events_per_month (ent_limits e) = None then (QuotaAllowed None, st)
               else
                 (case used_by cfg qr w t st of
                    (None, st) \<Rightarrow> (QuotaAllowed None, st)
                  | (Some used, st) \<Rightarrow>
                      (case quota_decide e (used + n) of
                         QuotaRejected u l _ \<Rightarrow> (QuotaPlanExceeded l u, st)
                       | QuotaOk u l \<Rightarrow> (QuotaAllowed (map_option (\<lambda>m. max 0 (m - u)) l), st)
                       | QuotaOverage u l _ \<Rightarrow> (QuotaAllowed (Some (max 0 (l - u))), st)))))"

definition advance_reading :: "int \<Rightarrow> string \<Rightarrow> readings \<Rightarrow> readings" where
  "advance_reading n key st =
     (case map_of st key of
        None \<Rightarrow> st
      | Some r \<Rightarrow> map_put key \<lparr> rg_used = rg_used r + n, rg_read_at = rg_read_at r \<rparr> st)"

definition quota_record :: "workspace_id \<Rightarrow> int \<Rightarrow> project_id \<Rightarrow> readings \<Rightarrow> readings" where
  "quota_record w n p st = advance_reading n (unclaimed_key p) (advance_reading n w st)"

section \<open>Facts\<close>

lemma split_on_Nil [simp]: "split_on sep s \<noteq> []"
  by (induction s) (auto split: list.splits)

text \<open>What a sender puts in front of a list of hops does not move the entries behind it.\<close>

lemma split_on_behind: "\<exists>front. split_on sep (x @ sep # y) = front @ split_on sep y \<and> front \<noteq> []"
proof (induction x)
  case (Cons c x)
  then obtain part front where "split_on sep (x @ sep # y) = (part # front) @ split_on sep y"
    by (metis list.exhaust)
  then show ?case by simp
qed simp

lemma client_address_behind:
  assumes "\<lfloor>hops\<rfloor> \<le> int (length (split_on (CHR '','') y))" "headers FORWARDED_FOR = Some (x @ CHR '','' # y)"
    "headers' FORWARDED_FOR = Some y"
  shows "client_address headers hops = client_address headers' hops"
proof (cases "\<not> is_integer hops \<or> hops < 1")
  case False
  then have "1 \<le> \<lfloor>hops\<rfloor>" by (simp add: le_floor_iff)
  obtain front where f: "split_on (CHR '','') (x @ CHR '','' # y) = front @ split_on (CHR '','') y"
    using split_on_behind by blast
  define k where "k = nat (int (length (split_on (CHR '','') y)) - \<lfloor>hops\<rfloor>)"
  have "0 < length (split_on (CHR '','') y)" by simp
  then have k: "int (length (split_on (CHR '','') y)) - \<lfloor>hops\<rfloor> = int k" "k < length (split_on (CHR '','') y)"
    using assms(1) \<open>1 \<le> \<lfloor>hops\<rfloor>\<close> unfolding k_def by linarith+
  have "int (length front + length (split_on (CHR '','') y)) - \<lfloor>hops\<rfloor> = int (length front + k)"
    using k(1) by simp
  then show ?thesis
    using False k(2) by (simp add: client_address_def assms(2,3) f k(1) nth_append del: of_nat_add)
qed (auto simp: client_address_def)

lemma admit_caller_Inr:
  "admit_caller rd request t = Inr p \<longleftrightarrow>
     (\<exists>secret c. ingest_key_of request = Some secret \<and> rd_verify rd secret t = Inr c \<and>
        vc_project c = Some p \<and> EventsWrite \<in> set (vc_permissions c))"
  by (auto simp: admit_caller_def ok_def err_def split: option.splits sum.splits verification_failure.splits)

lemma refused_before_submission:
  "ingest_batch_of rd parse geo body_limit hops request t = Inl out \<Longrightarrow> io_status out \<noteq> 202"
  by (auto simp: ingest_batch_of_def admit_caller_def request_events_def unauthorized_outcome_def plain_problem_def
      problem_def make_fault_def ok_def err_def Let_def
      split: option.splits sum.splits verification_failure.splits if_splits json.splits)

lemma ingest_batch_of_Inr:
  "ingest_batch_of rd parse geo body_limit hops request t = Inr batch \<Longrightarrow>
     admit_caller rd request t = Inr (batch_project batch) \<and> utf8_length (rq_text request) \<le> body_limit \<and>
     (\<exists>body. parse (rq_text request) = Some body \<and> json_get body ''events'' = JArr (batch_events batch)) \<and>
     (\<exists>w. rd_project_workspace rd (batch_project batch) = Some w \<and>
        batch_workspace batch = (case w of None \<Rightarrow> UNOWNED_WORKSPACE | Some v \<Rightarrow> v)) \<and>
     batch_received_at batch = t"
  by (auto simp: ingest_batch_of_def request_events_def ok_def err_def Let_def
      split: option.splits sum.splits if_splits json.splits)

lemma ack_outcome_status: "io_status (ack_outcome a) = 202 \<longleftrightarrow> (\<exists>n d rej sm. a = Committed n d rej sm)"
proof (cases a)
  case (Refused e rej)
  then show ?thesis by (cases e) (simp_all add: problem_def make_fault_def)
qed simp

lemma settled_ack_counts:
  assumes "gc_reachable cfg s" "0 \<le> max_buffered (cfg_policy cfg)"
    "(r, Resolved (Committed a d rej sm)) \<in> set (settled s)"
  shows "a + d + length rej = length (batch_events (arrived s ! r))"
  using gc_inv_reachable [OF assms(2,1)] assms(3)
  by (auto simp: gc_inv_def gc_shape_def list_all_iff settled_ok_def batch_size_def)

lemma quota_accepted_bound:
  assumes "events_per_month (ent_limits e) = Some l" "0 < l" "quota_accepts (quota_decide e u)"
  shows "10 * u < 13 * l"
proof (cases "u < l")
  case False
  then have "(of_int u :: rat) / of_int l < 13 / 10"
    using assms by (auto simp: quota_decide_def Let_def OVERAGE_MULTIPLE_def split: if_splits)
  then have "(of_int u :: rat) * 10 < 13 * of_int l" using assms(2) by (simp add: field_simps)
  then have "of_int (10 * u) < (of_int (13 * l) :: rat)" by simp
  then show ?thesis by (simp only: of_int_less_iff)
qed (use assms(2) in simp)

section \<open>A burst\<close>

text \<open>Batches one after the other: each is checked, and what is allowed is recorded once it is stored.\<close>

fun burst ::
  "quota_config \<Rightarrow> quota_reads \<Rightarrow> workspace_id \<Rightarrow> project_id \<Rightarrow> (int \<times> instant) list \<Rightarrow> readings \<Rightarrow> int \<times> readings" where
  "burst cfg qr w p [] st = (0, st)"
| "burst cfg qr w p ((n, t) # batches) st =
     (case quota_check cfg qr p n t st of
        (QuotaAllowed _, st) \<Rightarrow>
          (let (through, st) = burst cfg qr w p batches (quota_record w n p st) in (n + through, st))
      | (_, st) \<Rightarrow> burst cfg qr w p batches st)"

lemma quota_record_reading:
  assumes "map_of st w = Some \<lparr> rg_used = u, rg_read_at = t0 \<rparr>" "w \<noteq> unclaimed_key p"
  shows "map_of (quota_record w n p st) w = Some \<lparr> rg_used = u + n, rg_read_at = t0 \<rparr>"
  using assms by (auto simp: quota_record_def advance_reading_def map_of_map_put split: option.splits)

lemma quota_check_cached:
  assumes "qr_project_workspace qr p = Some (Some w)" "qr_entitlement qr w = Some e"
    "events_per_month (ent_limits e) = Some l"
    "map_of st w = Some \<lparr> rg_used = u, rg_read_at = t0 \<rparr>" "t - t0 < qc_refresh cfg"
  shows "snd (quota_check cfg qr p n t st) = st \<and>
    ((\<exists>m. fst (quota_check cfg qr p n t st) = QuotaAllowed m) \<longleftrightarrow> quota_accepts (quota_decide e (u + n)))"
proof -
  have "fresh_reading cfg st w t = Some u"
    using assms(4,5) by (simp add: fresh_reading_def stale_reading_def duration_compare_def time_defs)
  then show ?thesis
    using assms by (cases "quota_decide e (u + n)") (auto simp: quota_check_def used_by_def)
qed

lemma burst_bounded:
  assumes "qr_project_workspace qr p = Some (Some w)" "qr_entitlement qr w = Some e"
    "events_per_month (ent_limits e) = Some l" "0 < l" "w \<noteq> unclaimed_key p"
    "map_of st w = Some \<lparr> rg_used = u, rg_read_at = t0 \<rparr>"
    "\<forall>(n, t) \<in> set batches. 0 \<le> n \<and> t - t0 < qc_refresh cfg"
  shows "map_of (snd (burst cfg qr w p batches st)) w =
      Some \<lparr> rg_used = u + fst (burst cfg qr w p batches st), rg_read_at = t0 \<rparr> \<and>
    0 \<le> fst (burst cfg qr w p batches st) \<and>
    (fst (burst cfg qr w p batches st) = 0 \<or> 10 * (u + fst (burst cfg qr w p batches st)) < 13 * l)"
  using assms(6,7)
proof (induction batches arbitrary: st u)
  case (Cons batch batches)
  obtain n t where b: "batch = (n, t)" by fastforce
  have nt: "0 \<le> n" "t - t0 < qc_refresh cfg" using Cons.prems(2) b by auto
  note c = quota_check_cached [OF assms(1-3) Cons.prems(1) nt(2), of n]
  show ?case
  proof (cases "quota_accepts (quota_decide e (u + n))")
    case True
    then obtain m where m: "quota_check cfg qr p n t st = (QuotaAllowed m, st)" using c by (metis prod.collapse)
    have "map_of (quota_record w n p st) w = Some \<lparr> rg_used = u + n, rg_read_at = t0 \<rparr>"
      by (rule quota_record_reading [OF Cons.prems(1) assms(5)])
    from Cons.IH [OF this] Cons.prems(2) have ih:
      "map_of (snd (burst cfg qr w p batches (quota_record w n p st))) w =
         Some \<lparr> rg_used = u + n + fst (burst cfg qr w p batches (quota_record w n p st)), rg_read_at = t0 \<rparr>"
      "0 \<le> fst (burst cfg qr w p batches (quota_record w n p st))"
      "fst (burst cfg qr w p batches (quota_record w n p st)) = 0 \<or>
         10 * (u + n + fst (burst cfg qr w p batches (quota_record w n p st))) < 13 * l"
      by auto
    have "10 * (u + n) < 13 * l" by (rule quota_accepted_bound [OF assms(3,4) True])
    then show ?thesis using ih nt(1) by (simp add: b m case_prod_unfold Let_def) (auto simp: algebra_simps)
  next
    case False
    then have "burst cfg qr w p (batch # batches) st = burst cfg qr w p batches st"
      using c by (cases "quota_check cfg qr p n t st") (auto simp: b split: quota_verdict.splits)
    then show ?thesis using Cons.IH [OF Cons.prems(1)] Cons.prems(2) by simp
  qed
qed simp

section \<open>Properties\<close>


definition sample_request :: ingest_request where
  "sample_request = \<lparr> rq_headers = (\<lambda>h. None), rq_query_key = Some ''ck_live'', rq_text = ''body'' \<rparr>"

definition sample_parse :: "string \<Rightarrow> json option" where
  "sample_parse s = Some (JObj [(''events'', JArr [JObj [(''name'', JStr ''e''), (''visitId'', JStr ''v''),
                                     (''idempotencyKey'', JStr ''a'')]])])"

definition sample_commit :: "ingest_batch \<Rightarrow> settlement" where
  "sample_commit b =
     (if batch_project b = ''p'' \<and> batch_workspace b = ''w'' \<and> length (batch_events b) = 1
      then Resolved (Committed 1 0 [] (Some \<lparr> summary_size = 1, summary_written = 1, summary_deduplicated = 0 \<rparr>))
      else Resolved (Refused (SinkUnavailable ''down'') []))"


text \<open>
  C12. Receipts add up, from the socket to the commit: when the answers come from a reachable state of
  the group-commit machine, a 202 accounts for every event of the body as accepted, deduplicated or
  rejected, and lists as many outcomes as it rejects.
\<close>

theorem receipts_add_up:
  assumes "gc_reachable cfg s" and "0 \<le> max_buffered (cfg_policy cfg)"
    and "\<forall>b a d rej sm. commit b = Resolved (Committed a d rej sm) \<longrightarrow>
           (\<exists>r. arrived s ! r = b \<and> (r, Resolved (Committed a d rej sm)) \<in> set (settled s))"
    and "handle_ingest rd parse geo body_limit hops commit request t = Some out" and "io_status out = 202"
  shows "\<exists>accepted deduplicated rejected outcomes body events.
      io_body out = Receipt accepted deduplicated rejected outcomes \<and> length outcomes = rejected \<and>
      parse (rq_text request) = Some body \<and> json_get body ''events'' = JArr events \<and>
      accepted + deduplicated + rejected = length events"
proof -
  obtain batch where batch: "ingest_batch_of rd parse geo body_limit hops request t = Inr batch"
    using assms(4,5) refused_before_submission by (cases "ingest_batch_of rd parse geo body_limit hops request t")
      (auto simp: handle_ingest_def)
  then obtain a where "commit batch = Resolved a" "out = ack_outcome a"
    using assms(4) by (auto simp: handle_ingest_def split: settlement.splits)
  moreover from this obtain n d rej sm where a: "a = Committed n d rej sm"
    using assms(5) ack_outcome_status by blast
  ultimately obtain r where r: "arrived s ! r = batch" "(r, Resolved (Committed n d rej sm)) \<in> set (settled s)"
    and out: "out = ack_outcome (Committed n d rej sm)"
    using assms(3) by blast
  have "n + d + length rej = length (batch_events batch)"
    using settled_ack_counts [OF assms(1,2) r(2)] r(1) by simp
  then show ?thesis using ingest_batch_of_Inr [OF batch] out by auto
qed

text \<open>The batch the sample request becomes, and a run of the machine that stores it.\<close>

definition http_batch :: ingest_batch where
  "http_batch = (sample_batch [''a''])\<lparr>batch_received_at := 9, batch_bytes := Some 4\<rparr>"

definition http_run :: gc_state where
  "http_run = gc_run tiny_config
     [LSubmit http_batch, LQuota 0 (QuotaVerdict (QuotaAllowed None)) 9,
      LSink 0 (SinkWrote \<lparr> receipt_written = 1, receipt_indices = [0], receipt_deduplicated = 0 \<rparr>),
      LRecord 0 Recorded, LFinally 0 10] gc_init"

definition http_commit :: "ingest_batch \<Rightarrow> settlement" where
  "http_commit b =
     (if b = http_batch then
        Resolved (Committed 1 0 [] (Some \<lparr> summary_size = 1, summary_written = 1, summary_deduplicated = 0 \<rparr>))
      else Raised '''')"

theorem receipts_add_up_witness:
  "\<exists>out accepted deduplicated rejected outcomes.
     handle_ingest sample_reads sample_parse (\<lambda>a. Inr None) 1000 1 http_commit sample_request 9 = Some out \<and>
     io_body out = Receipt accepted deduplicated rejected outcomes \<and> accepted + deduplicated + rejected = 1"
proof -
  let ?run = "handle_ingest sample_reads sample_parse (\<lambda>a. Inr None) 1000 1 http_commit sample_request 9"
  have "(case ?run of Some out \<Rightarrow> io_status out = 202 | None \<Rightarrow> False)" by code_simp
  then obtain out where out: "?run = Some out" "io_status out = 202" by (auto split: option.splits)
  have reach: "gc_reachable tiny_config http_run" unfolding http_run_def by (rule sample_reachable)
  have "arrived http_run = [http_batch]" "settled http_run = [(0, http_commit http_batch)]" by code_simp+
  then have "\<forall>b a d rej sm. http_commit b = Resolved (Committed a d rej sm) \<longrightarrow>
      (\<exists>r. arrived http_run ! r = b \<and> (r, Resolved (Committed a d rej sm)) \<in> set (settled http_run))"
    by (auto simp: http_commit_def)
  from receipts_add_up [OF reach tiny_bounds(1) this out] obtain a d rej outcomes body events where
    "io_body out = Receipt a d rej outcomes" "sample_parse (rq_text sample_request) = Some body"
    "json_get body ''events'' = JArr events" "a + d + rej = length events" by blast
  moreover have "sample_parse x = Some b \<Longrightarrow> json_get b ''events'' = JArr es \<Longrightarrow> length es = 1" for x b es
    by (auto simp: sample_parse_def json_get_def)
  ultimately show ?thesis using out by metis
qed

text \<open>
  No caller can choose its own country: whatever a client writes into the header before the trusted
  proxies append to it, the address that is read is the one those proxies saw.
\<close>

theorem forged_hops_are_ignored:
  assumes "\<lfloor>hops\<rfloor> \<le> int (length (split_on (CHR '','') seen))"
  shows "client_address (headers(FORWARDED_FOR \<mapsto> forged @ CHR '','' # seen)) hops =
         client_address (headers(FORWARDED_FOR \<mapsto> seen)) hops"
  by (rule client_address_behind [OF assms]) simp_all

theorem forged_hops_are_ignored_witness:
  "client_address [FORWARDED_FOR \<mapsto> ''1.2.3.4, 9.9.9.9''] 1 = Some ''9.9.9.9''"
proof -
  have "\<lfloor>1 :: rat\<rfloor> \<le> int (length (split_on (CHR '','') '' 9.9.9.9''))" by simp
  note f = forged_hops_are_ignored [OF this, of Map.empty "''1.2.3.4''"]
  have "client_address [FORWARDED_FOR \<mapsto> '' 9.9.9.9''] 1 = Some ''9.9.9.9''" by code_simp
  with f show ?thesis by simp
qed



end
