(* ===== verification/Scheduler.thy ===== *)
theory Scheduler
  imports Kernel
begin

text \<open>
  When each job of the worker runs, apps/worker/src/scheduler.ts. A state holds the map of
  promises in flight, the instant each job last finished, whether the timer is set, and the
  invocations suspended at their first await. One stretch of code between two awaits is one
  step: a tick, a job that settles, a run on demand, starting and stopping. A job is given when
  it is started as suspending or as throwing before it returns a promise.
\<close>

section \<open>State\<close>

record job =
  job_name :: string
  job_every :: duration

record sched =
  in_flight :: "string list"
  last_finished :: "(string \<times> instant) list"
  timer_set :: bool
  running :: "string list"

definition sched_init :: sched where
  "sched_init = \<lparr> in_flight = [], last_finished = [], timer_set = False, running = [] \<rparr>"

definition DEFAULT_CADENCE :: duration where
  "DEFAULT_CADENCE = duration_seconds 5"

definition is_running :: "sched \<Rightarrow> bool" where
  "is_running s = (timer_set s \<or> length (in_flight s) > 0)"

datatype job_start = Suspends | ThrowsAtOnce instant

section \<open>Operations\<close>

definition due :: "sched \<Rightarrow> job \<Rightarrow> instant \<Rightarrow> bool" where
  "due s j t =
     (case map_of (last_finished s) (job_name j) of
        None \<Rightarrow> True
      | Some finished \<Rightarrow> duration_compare (instant_between finished t) (job_every j) \<ge> 0)"

text \<open>The \<open>finally\<close> block: the clock is read again, and the promise forgotten.\<close>

definition finish_job :: "string \<Rightarrow> instant \<Rightarrow> sched \<Rightarrow> sched" where
  "finish_job name now s =
     s\<lparr>last_finished := map_put name now (last_finished s), in_flight := removeAll name (in_flight s)\<rparr>"

text \<open>The entry is set after \<open>invoke\<close> came back to its caller, so after a throw before any await.\<close>

definition launch :: "(string \<Rightarrow> job_start) \<Rightarrow> job \<Rightarrow> sched \<Rightarrow> sched" where
  "launch starts j s =
     (let s = (case starts (job_name j) of
                 Suspends \<Rightarrow> s\<lparr>running := job_name j # running s\<rparr>
               | ThrowsAtOnce now \<Rightarrow> finish_job (job_name j) now s)
      in s\<lparr>in_flight := List.insert (job_name j) (in_flight s)\<rparr>)"

record tick_outcome =
  tk_started :: "string list"
  tk_skipped :: "string list"

fun tick_jobs :: "(string \<Rightarrow> job_start) \<Rightarrow> job list \<Rightarrow> instant \<Rightarrow> sched \<Rightarrow> tick_outcome \<times> sched" where
  "tick_jobs starts [] t s = (\<lparr> tk_started = [], tk_skipped = [] \<rparr>, s)"
| "tick_jobs starts (j # js) t s =
     (if \<not> due s j t then tick_jobs starts js t s
      else if job_name j \<in> set (in_flight s) then
        (let (out, s) = tick_jobs starts js t s in (out\<lparr>tk_skipped := job_name j # tk_skipped out\<rparr>, s))
      else
        (let (out, s) = tick_jobs starts js t (launch starts j s)
         in (out\<lparr>tk_started := job_name j # tk_started out\<rparr>, s)))"

definition settle_job :: "string \<Rightarrow> instant \<Rightarrow> sched \<Rightarrow> sched" where
  "settle_job name now s = finish_job name now (s\<lparr>running := remove1 name (running s)\<rparr>)"

definition find_job :: "job list \<Rightarrow> string \<Rightarrow> job option" where
  "find_job jobs name = find (\<lambda>j. job_name j = name) (rev jobs)"

definition run_now :: "(string \<Rightarrow> job_start) \<Rightarrow> job list \<Rightarrow> string \<Rightarrow> sched \<Rightarrow> sched" where
  "run_now starts jobs name s =
     (case find_job jobs name of
        None \<Rightarrow> s
      | Some j \<Rightarrow> if name \<in> set (in_flight s) then s else launch starts j s)"

definition start_timer :: "sched \<Rightarrow> sched" where
  "start_timer s = s\<lparr>timer_set := True\<rparr>"

definition stop_timer :: "sched \<Rightarrow> sched" where
  "stop_timer s = s\<lparr>timer_set := False\<rparr>"

section \<open>Steps\<close>

datatype sched_label =
    STick "string \<Rightarrow> job_start" instant
  | SSettle string instant
  | SRunNow "string \<Rightarrow> job_start" string
  | SStart
  | SStop

fun sched_exec :: "job list \<Rightarrow> sched_label \<Rightarrow> sched \<Rightarrow> sched option" where
  "sched_exec jobs (STick starts t) s = Some (snd (tick_jobs starts jobs t s))"
| "sched_exec jobs (SSettle name now) s =
     (if name \<in> set (running s) then Some (settle_job name now s) else None)"
| "sched_exec jobs (SRunNow starts name) s = Some (run_now starts jobs name s)"
| "sched_exec jobs SStart s = Some (start_timer s)"
| "sched_exec jobs SStop s = Some (stop_timer s)"

inductive sched_reachable :: "job list \<Rightarrow> (sched_label \<Rightarrow> bool) \<Rightarrow> sched \<Rightarrow> bool" for jobs may where
  sched_start: "sched_reachable jobs may sched_init"
| sched_move: "sched_reachable jobs may s \<Longrightarrow> may l \<Longrightarrow> sched_exec jobs l s = Some s' \<Longrightarrow> sched_reachable jobs may s'"

text \<open>Every job suspends: what an \<open>async\<close> function does.\<close>

fun all_async :: "sched_label \<Rightarrow> bool" where
  "all_async (STick starts _) = (starts = (\<lambda>_. Suspends))"
| "all_async (SRunNow starts _) = (starts = (\<lambda>_. Suspends))"
| "all_async _ = True"

section \<open>Facts\<close>

definition sched_inv :: "sched \<Rightarrow> bool" where
  "sched_inv s \<longleftrightarrow> distinct (running s) \<and> set (running s) \<subseteq> set (in_flight s)"

lemma launch_inv: "sched_inv s \<Longrightarrow> job_name j \<notin> set (in_flight s) \<Longrightarrow> sched_inv (launch starts j s)"
  by (auto simp: sched_inv_def launch_def finish_job_def Let_def split: job_start.splits)

lemma tick_inv: "sched_inv s \<Longrightarrow> sched_inv (snd (tick_jobs starts js t s))"
  by (induction starts js t s rule: tick_jobs.induct) (simp_all add: case_prod_unfold Let_def launch_inv)

lemma find_job_name: "find_job jobs name = Some j \<Longrightarrow> job_name j = name"
  by (auto simp: find_job_def find_Some_iff)

lemma sched_exec_inv: "sched_inv s \<Longrightarrow> sched_exec jobs l s = Some s' \<Longrightarrow> sched_inv s'"
proof (cases l)
  case (SSettle name now)
  assume "sched_inv s" "sched_exec jobs l s = Some s'"
  with SSettle show ?thesis
    by (auto simp: sched_inv_def settle_job_def finish_job_def split: if_splits)
next
  case (SRunNow starts name)
  assume "sched_inv s" "sched_exec jobs l s = Some s'"
  with SRunNow show ?thesis
    by (auto simp: run_now_def launch_inv find_job_name split: option.splits)
qed (auto simp: tick_inv, auto simp: sched_inv_def start_timer_def stop_timer_def)

lemma sched_reachable_inv: "sched_reachable jobs may s \<Longrightarrow> sched_inv s"
proof (induction rule: sched_reachable.induct)
  case (sched_move s l s')
  then show ?case using sched_exec_inv by blast
qed (simp add: sched_inv_def sched_init_def)

text \<open>With jobs that suspend, what is in flight is what is running.\<close>

lemma launch_flight: "set (in_flight s) = set (running s) \<Longrightarrow>
    set (in_flight (launch (\<lambda>_. Suspends) j s)) = set (running (launch (\<lambda>_. Suspends) j s))"
  by (simp add: launch_def)

lemma tick_flight: "set (in_flight s) = set (running s) \<Longrightarrow>
    set (in_flight (snd (tick_jobs (\<lambda>_. Suspends) js t s))) = set (running (snd (tick_jobs (\<lambda>_. Suspends) js t s)))"
  by (induction "\<lambda>_ :: string. Suspends" js t s rule: tick_jobs.induct) (simp_all add: case_prod_unfold Let_def launch_flight)

lemma async_flight:
  assumes "sched_reachable jobs all_async s"
  shows "set (in_flight s) = set (running s)"
  using assms
proof (induction rule: sched_reachable.induct)
  case (sched_move s l s')
  then have inv: "distinct (running s)" using sched_reachable_inv by (simp add: sched_inv_def)
  show ?case
  proof (cases l)
    case (STick starts t)
    then show ?thesis using sched_move by (auto simp: tick_flight)
  next
    case (SRunNow starts name)
    then show ?thesis using sched_move by (auto simp: run_now_def launch_flight split: option.splits)
  next
    case (SSettle name now)
    then show ?thesis using sched_move inv by (auto simp: settle_job_def finish_job_def split: if_splits)
  qed (use sched_move in \<open>auto simp: start_timer_def stop_timer_def\<close>)
qed (simp add: sched_init_def)

text \<open>A tick looks at each job once: the others do not change what is due or in flight for it.\<close>

lemma launch_other:
  assumes "job_name j \<noteq> n"
  shows "map_of (last_finished (launch starts j s)) n = map_of (last_finished s) n"
    "n \<in> set (in_flight (launch starts j s)) \<longleftrightarrow> n \<in> set (in_flight s)"
  using assms by (auto simp: launch_def finish_job_def Let_def map_of_map_put split: job_start.splits)

lemma due_launch: "job_name j \<noteq> job_name i \<Longrightarrow> due (launch starts j s) i t = due s i t"
  by (simp add: due_def launch_other)

lemma tick_exact:
  assumes "distinct (map job_name js)"
  shows "tk_started (fst (tick_jobs starts js t s)) =
      map job_name (filter (\<lambda>j. due s j t \<and> job_name j \<notin> set (in_flight s)) js) \<and>
    tk_skipped (fst (tick_jobs starts js t s)) =
      map job_name (filter (\<lambda>j. due s j t \<and> job_name j \<in> set (in_flight s)) js)"
  using assms
proof (induction js arbitrary: s)
  case (Cons j js)
  have same: "filter (\<lambda>i. due (launch starts j s) i t \<and> (job_name i \<notin> set (in_flight (launch starts j s)))) js =
      filter (\<lambda>i. due s i t \<and> job_name i \<notin> set (in_flight s)) js"
    "filter (\<lambda>i. due (launch starts j s) i t \<and> (job_name i \<in> set (in_flight (launch starts j s)))) js =
      filter (\<lambda>i. due s i t \<and> job_name i \<in> set (in_flight s)) js"
    using Cons.prems by (auto intro!: filter_cong simp: due_launch launch_other image_iff)
  show ?case using Cons.IH [of s] Cons.IH [of "launch starts j s"] Cons.prems same
    by (simp add: case_prod_unfold Let_def)
qed simp

lemma settled_last: "map_of (last_finished (settle_job name now s)) name = Some now"
  by (simp add: settle_job_def finish_job_def map_of_map_put)

text \<open>A promise that is in flight without an invocation behind it stays there.\<close>

lemma launch_wedged:
  assumes "n \<in> set (in_flight s)" "n \<notin> set (running s)" "job_name j \<notin> set (in_flight s)"
  shows "n \<in> set (in_flight (launch starts j s)) \<and> n \<notin> set (running (launch starts j s))"
  using assms by (auto simp: launch_def finish_job_def Let_def split: job_start.splits)

lemma tick_wedged:
  assumes "n \<in> set (in_flight s)" "n \<notin> set (running s)"
  shows "n \<in> set (in_flight (snd (tick_jobs starts js t s))) \<and> n \<notin> set (running (snd (tick_jobs starts js t s))) \<and>
    n \<notin> set (tk_started (fst (tick_jobs starts js t s)))"
  using assms
proof (induction js arbitrary: s)
  case (Cons j js)
  show ?case
  proof (cases "due s j t \<and> job_name j \<notin> set (in_flight s)")
    case True
    note l = launch_wedged [OF Cons.prems, of j starts]
    have "job_name j \<noteq> n" using True Cons.prems by auto
    then show ?thesis using True l Cons.IH [of "launch starts j s"] by (simp add: case_prod_unfold Let_def)
  next
    case False
    then show ?thesis using Cons.IH [OF Cons.prems] by (auto simp: case_prod_unfold Let_def)
  qed
qed simp

lemma exec_wedged:
  assumes "n \<in> set (in_flight s)" "n \<notin> set (running s)" "sched_exec jobs l s = Some s'"
  shows "n \<in> set (in_flight s') \<and> n \<notin> set (running s')"
proof (cases l)
  case (SSettle name now)
  then show ?thesis using assms by (auto simp: settle_job_def finish_job_def dest: notin_set_remove1 split: if_splits)
next
  case (SRunNow starts name)
  then show ?thesis using assms launch_wedged [OF assms(1,2)] by (auto simp: run_now_def find_job_name split: option.splits if_splits)
qed (use assms tick_wedged [OF assms(1,2)] in \<open>auto simp: start_timer_def stop_timer_def\<close>)

section \<open>Properties\<close>

text \<open>
  C14. A job that is still running is not started again: in every reachable state, under any ticks and
  any runs on demand, each job has at most one invocation, every invocation is in flight, and a
  tick starts exactly the due jobs that are not in flight and skips the due ones that are.
\<close>

theorem no_job_runs_twice:
  assumes "sched_reachable jobs may s" and "distinct (map job_name jobs)"
  shows "distinct (running s) \<and> set (running s) \<subseteq> set (in_flight s) \<and>
    (case tick_jobs starts jobs t s of
       (out, s') \<Rightarrow>
         tk_started out = map job_name (filter (\<lambda>j. due s j t \<and> job_name j \<notin> set (in_flight s)) jobs) \<and>
         tk_skipped out = map job_name (filter (\<lambda>j. due s j t \<and> job_name j \<in> set (in_flight s)) jobs) \<and>
         set (tk_started out) \<inter> set (running s) = {} \<and> distinct (running s'))"
proof -
  note inv = sched_reachable_inv [OF assms(1)]
  note e = tick_exact [OF assms(2), of starts t s]
  have "distinct (running (snd (tick_jobs starts jobs t s)))"
    using tick_inv [OF inv] by (simp add: sched_inv_def)
  moreover have "set (tk_started (fst (tick_jobs starts jobs t s))) \<inter> set (running s) = {}"
    using e inv by (auto simp: sched_inv_def)
  ultimately show ?thesis using inv e by (simp add: sched_inv_def case_prod_unfold)
qed

definition two_jobs :: "job list" where
  "two_jobs = [\<lparr> job_name = ''monitors'', job_every = 60 \<rparr>, \<lparr> job_name = ''retention'', job_every = 600 \<rparr>]"

definition after_tick :: sched where
  "after_tick = snd (tick_jobs (\<lambda>_. Suspends) two_jobs 0 sched_init)"

lemma after_tick_reachable: "sched_reachable two_jobs all_async after_tick"
  unfolding after_tick_def
  by (rule sched_move [OF sched_start, of _ "STick (\<lambda>_. Suspends) 0"]) simp_all

theorem no_job_runs_twice_witness:
  "running after_tick = [''retention'', ''monitors''] \<and>
   fst (tick_jobs (\<lambda>_. Suspends) two_jobs 90 after_tick) =
     \<lparr> tk_started = [], tk_skipped = [''monitors'', ''retention''] \<rparr> \<and> distinct (running after_tick)"
proof -
  have "distinct (map job_name two_jobs)" by code_simp
  note f = no_job_runs_twice [OF after_tick_reachable this]
  have "running after_tick = [''retention'', ''monitors'']"
    "fst (tick_jobs (\<lambda>_. Suspends) two_jobs 90 after_tick) = \<lparr> tk_started = [], tk_skipped = [''monitors'', ''retention''] \<rparr>"
    by code_simp+
  with f show ?thesis by blast
qed

text \<open>
  No job is starved and lateness does not add up: where jobs are asynchronous functions, a job that
  settles at one instant is started by every tick that comes at least its interval after that
  instant and before another run of it, and by no earlier tick.
\<close>

theorem settled_jobs_run_again:
  assumes "sched_reachable jobs all_async s" and "distinct (map job_name jobs)" and "j \<in> set jobs"
    and "sched_exec jobs (SSettle (job_name j) now) s = Some s'"
  shows "job_name j \<notin> set (in_flight s') \<and>
    (job_name j \<in> set (tk_started (fst (tick_jobs starts jobs t s'))) \<longleftrightarrow> instant_plus now (job_every j) \<le> t) \<and>
    job_name j \<notin> set (tk_skipped (fst (tick_jobs starts jobs t s')))"
proof -
  have s': "s' = settle_job (job_name j) now s" using assms(4) by (simp split: if_splits)
  then have free: "job_name j \<notin> set (in_flight s')" by (simp add: settle_job_def finish_job_def)
  have "due s' j t \<longleftrightarrow> instant_plus now (job_every j) \<le> t"
    unfolding s' by (auto simp: due_def settled_last duration_compare_def time_defs)
  moreover have "job_name j \<in> set (map job_name (filter P jobs)) \<longleftrightarrow> P j" for P
    using assms(2,3) by (auto simp: distinct_map inj_on_def)
  ultimately show ?thesis using tick_exact [OF assms(2), of starts t s'] free by (simp del: set_map set_filter)
qed

theorem settled_jobs_run_again_witness:
  "''monitors'' \<in> set (tk_started (fst (tick_jobs (\<lambda>_. Suspends) two_jobs 160 (settle_job ''monitors'' 90 after_tick)))) \<and>
   ''monitors'' \<notin> set (tk_started (fst (tick_jobs (\<lambda>_. Suspends) two_jobs 149 (settle_job ''monitors'' 90 after_tick))))"
proof -
  let ?j = "\<lparr> job_name = ''monitors'', job_every = 60 \<rparr>"
  have h: "distinct (map job_name two_jobs)" "?j \<in> set two_jobs" by (code_simp, simp add: two_jobs_def)
  have "''monitors'' \<in> set (running after_tick)" by code_simp
  then have "sched_exec two_jobs (SSettle (job_name ?j) 90) after_tick = Some (settle_job ''monitors'' 90 after_tick)" by simp
  note f = settled_jobs_run_again [OF after_tick_reachable h this]
  show ?thesis using f [of "\<lambda>_. Suspends" 160] f [of "\<lambda>_. Suspends" 149] by (simp add: time_defs)
qed

text \<open>
  The comment that a job which throws does not stop its schedule holds of promises that reject. A
  job that throws before it returns one is entered in flight after its \<open>finally\<close> has run, and no
  tick starts it again.
\<close>

theorem synchronous_throw_wedges_a_job:
  assumes "starts (job_name j) = ThrowsAtOnce now" and "job_name j \<notin> set (running s)"
    and "fold (\<lambda>l m. Option.bind m (sched_exec jobs l)) ls (Some (launch starts j s)) = Some s'"
  shows "job_name j \<in> set (in_flight s') \<and> job_name j \<notin> set (tk_started (fst (tick_jobs starts' jobs t s')))"
proof -
  have none: "fold (\<lambda>l m. Option.bind m (sched_exec jobs l)) ls None = None" for ls
    by (induction ls) simp_all
  have "n \<in> set (in_flight s') \<and> n \<notin> set (running s')"
    if "fold (\<lambda>l m. Option.bind m (sched_exec jobs l)) ls (Some u) = Some s'" "n \<in> set (in_flight u)" "n \<notin> set (running u)"
    for n u
    using that
  proof (induction ls arbitrary: u)
    case (Cons l ls)
    then obtain v where v: "sched_exec jobs l u = Some v" using none by (cases "sched_exec jobs l u") simp_all
    then show ?case using Cons.IH [of v] Cons.prems exec_wedged [OF Cons.prems(2,3) v] by simp
  qed simp
  moreover have "job_name j \<in> set (in_flight (launch starts j s))" "job_name j \<notin> set (running (launch starts j s))"
    using assms(1,2) by (simp_all add: launch_def finish_job_def)
  ultimately have w: "job_name j \<in> set (in_flight s')" "job_name j \<notin> set (running s')" using assms(3) by blast+
  then show ?thesis using tick_wedged [OF w] by blast
qed

end
