(* ===== verification/SdkClient.thy ===== *)
theory SdkClient
  imports Calendar "HOL-Library.Multiset" "HOL-Library.Sublist"
begin

text \<open>
  The JavaScript SDK, packages/sdk-js/src: the bounded queue (queue.ts), visits (visit.ts), the reading
  of a reply (transport.ts) and the client (client.ts). One stretch of the client's code between two
  awaits is one step. The clock, the random numbers and the minted keys are read by the steps, so
  they are arguments of them; instants are integral milliseconds, and the products with a random
  number are exact.
\<close>

section \<open>The queue\<close>

record queued_event =
  qe_name :: string
  qe_visit_id :: visit_id
  qe_user_id :: "string option"
  qe_occurred_at :: string
  qe_idempotency_key :: string
  qe_properties :: "(string \<times> json) list option"
  qe_system :: "(string \<times> string option) list"

record event_queue =
  eq_events :: "queued_event list"
  eq_dropped :: int

definition queue_new :: event_queue where
  "queue_new = \<lparr> eq_events = [], eq_dropped = 0 \<rparr>"

definition queue_size :: "event_queue \<Rightarrow> int" where
  "queue_size q = int (length (eq_events q))"

text \<open>\<open>splice(0, n)\<close> removes nothing for a negative \<open>n\<close> and everything for a large one.\<close>

definition queue_trim :: "int \<Rightarrow> event_queue \<Rightarrow> event_queue" where
  "queue_trim capacity q =
     (let excess = queue_size q - capacity
      in if excess \<le> 0 then q
         else q\<lparr>eq_events := drop (nat excess) (eq_events q), eq_dropped := eq_dropped q + excess\<rparr>)"

definition queue_push :: "int \<Rightarrow> queued_event \<Rightarrow> event_queue \<Rightarrow> event_queue" where
  "queue_push capacity e q = queue_trim capacity (q\<lparr>eq_events := eq_events q @ [e]\<rparr>)"

definition queue_take :: "int \<Rightarrow> event_queue \<Rightarrow> queued_event list \<times> event_queue" where
  "queue_take n q = (take (nat n) (eq_events q), q\<lparr>eq_events := drop (nat n) (eq_events q)\<rparr>)"

definition queue_requeue :: "int \<Rightarrow> queued_event list \<Rightarrow> event_queue \<Rightarrow> event_queue" where
  "queue_requeue capacity es q = queue_trim capacity (q\<lparr>eq_events := es @ eq_events q\<rparr>)"

section \<open>Visits\<close>

record visit =
  vi_id :: "visit_id option"
  vi_last_activity :: instant

definition DEFAULT_IDLE_MS :: int where
  "DEFAULT_IDLE_MS = 30 * 60 * 1000"

text \<open>The suffix is a random number written in base 36, read where the code draws it.\<close>

definition visit_mint :: "instant \<Rightarrow> string \<Rightarrow> visit_id" where
  "visit_mint now sfx = show_int (now div 1000) @ ''.'' @ sfx"

definition visit_new :: "visit_id option \<Rightarrow> instant \<Rightarrow> visit" where
  "visit_new given now =
     (case given of
        None \<Rightarrow> \<lparr> vi_id = None, vi_last_activity = 0 \<rparr>
      | Some i \<Rightarrow> \<lparr> vi_id = Some i, vi_last_activity = now \<rparr>)"

definition visit_current :: "int \<Rightarrow> instant \<Rightarrow> string \<Rightarrow> visit \<Rightarrow> visit_id \<times> visit" where
  "visit_current idle now sfx v =
     (let i = (case vi_id v of
                 None \<Rightarrow> visit_mint now sfx
               | Some i \<Rightarrow> if idle > 0 \<and> now - vi_last_activity v > idle then visit_mint now sfx else i)
      in (i, \<lparr> vi_id = Some i, vi_last_activity = now \<rparr>))"

definition visit_restart :: "instant \<Rightarrow> string \<Rightarrow> instant \<Rightarrow> visit" where
  "visit_restart now sfx now' = \<lparr> vi_id = Some (visit_mint now sfx), vi_last_activity = now' \<rparr>"

section \<open>Reading a reply\<close>

record quota_notice =
  qn_state :: string
  qn_used :: int
  qn_limit :: "int option"

record event_verdict =
  ev_index :: int
  ev_accepted :: bool
  ev_reason :: "string option"

record sdk_receipt =
  sr_accepted :: int
  sr_deduplicated :: int
  sr_rejected :: int
  sr_outcomes :: "event_verdict list option"
  sr_quota :: "quota_notice option"

datatype send_outcome =
    Accepted sdk_receipt
  | Retry int "rat option" string
  | Refused int string

text \<open>
  A header as the two readings the code asks the standard library for: its finite value as a
  number, and as a date.
\<close>

record retry_header =
  rh_number :: "rat option"
  rh_date :: "int option"

definition parse_retry_after :: "retry_header option \<Rightarrow> instant \<Rightarrow> rat option" where
  "parse_retry_after header now =
     (case header of
        None \<Rightarrow> None
      | Some h \<Rightarrow>
          (case rh_number h of
             Some seconds \<Rightarrow>
               if seconds \<ge> 0 then Some (seconds * 1000)
               else map_option (\<lambda>d. max 0 (of_int (d - now))) (rh_date h)
           | None \<Rightarrow> map_option (\<lambda>d. max 0 (of_int (d - now))) (rh_date h)))"

definition RETRYABLE_STATUSES :: "int list" where
  "RETRYABLE_STATUSES = [408, 425, 429, 500, 502, 503, 504]"

record problem_body =
  pb_retryable :: "bool option"
  pb_detail :: "string option"

text \<open>What \<open>fetch\<close> gives: an answer whose body may not parse, or a throw.\<close>

datatype http_reply =
    Answer int "sdk_receipt option" "problem_body option" "retry_header option"
  | Threw "string option"

fun classify_reply :: "nat \<Rightarrow> instant \<Rightarrow> http_reply \<Rightarrow> send_outcome" where
  "classify_reply events now (Answer status receipt problem header) =
     (if 200 \<le> status \<and> status \<le> 299 then
        Accepted (case receipt of
            Some r \<Rightarrow> r
          | None \<Rightarrow> \<lparr> sr_accepted = int events, sr_deduplicated = 0, sr_rejected = 0,
                      sr_outcomes = None, sr_quota = None \<rparr>)
      else
        (let detail = (case Option.bind problem pb_detail of Some d \<Rightarrow> d | None \<Rightarrow> ''HTTP '' @ show_int status);
             retryable = (case Option.bind problem pb_retryable of
                            Some b \<Rightarrow> b
                          | None \<Rightarrow> status \<in> set RETRYABLE_STATUSES)
         in if \<not> retryable then Refused status detail
            else Retry status (parse_retry_after header now) detail))"
| "classify_reply events now (Threw message) =
     Retry 0 None (case message of Some m \<Rightarrow> m | None \<Rightarrow> ''network error'')"

datatype beacon_api = NoBeacon | BeaconThrows | BeaconAnswers bool

fun send_beacon :: "beacon_api \<Rightarrow> bool" where
  "send_beacon NoBeacon = False"
| "send_beacon BeaconThrows = False"
| "send_beacon (BeaconAnswers b) = b"

text \<open>A beacon carries the key in its address, as it cannot set a header.\<close>

definition beacon_url :: "(string \<Rightarrow> string) \<Rightarrow> string \<Rightarrow> string \<Rightarrow> string" where
  "beacon_url encode endpoint key =
     endpoint @ (if CHR ''?'' \<in> set endpoint then ''&'' else ''?'') @ ''key='' @ encode key"

section \<open>The client\<close>

datatype diagnostic =
    DRefused int string
  | DDisabled int string int
  | DDropped int
  | DRejected int "string list"
  | DQuota quota_notice

datatype sdk_output =
    Post "queued_event list"
  | Beacon "queued_event list"
  | Told diagnostic
  | Logged diagnostic
  | Warned int string

record sdk_options =
  so_flush_interval_ms :: "int option"
  so_max_batch_size :: "int option"
  so_max_queue_size :: "int option"
  so_debug :: bool
  so_visit_id :: "visit_id option"
  so_on_diagnostic :: bool

text \<open>
  \<open>inFlight\<close> is set while the request is awaited, and after the drain has ended until its
  \<open>finally\<close> runs.
\<close>

datatype flight = Awaiting "queued_event list" | Ended

record counted_client =
  cl_options :: sdk_options
  cl_max_batch_size :: int
  cl_capacity :: int
  cl_queue :: event_queue
  cl_visit :: visit
  cl_system :: "(string \<times> string option) list"
  cl_person :: "string option"
  cl_timer :: bool
  cl_in_flight :: "flight option"
  cl_paused_until :: rat
  cl_attempt :: nat
  cl_closed :: bool
  cl_disabled :: bool
  cl_warned :: "int list"

definition or_default :: "'a option \<Rightarrow> 'a \<Rightarrow> 'a" where
  "or_default v d = (case v of Some x \<Rightarrow> x | None \<Rightarrow> d)"

definition counted_new :: "sdk_options \<Rightarrow> (string \<times> string option) list \<Rightarrow> instant \<Rightarrow> counted_client" where
  "counted_new opts system now =
     \<lparr> cl_options = opts,
       cl_max_batch_size = min (or_default (so_max_batch_size opts) 50) 250,
       cl_capacity = or_default (so_max_queue_size opts) 1000,
       cl_queue = queue_new, cl_visit = visit_new (so_visit_id opts) now, cl_system = system,
       cl_person = None, cl_timer = (or_default (so_flush_interval_ms opts) 5000 > 0),
       cl_in_flight = None, cl_paused_until = 0, cl_attempt = 0,
       cl_closed = False, cl_disabled = False, cl_warned = [] \<rparr>"

definition report_diagnostic :: "counted_client \<Rightarrow> diagnostic \<Rightarrow> sdk_output list" where
  "report_diagnostic c d =
     (if so_on_diagnostic (cl_options c) then [Told d] else if so_debug (cl_options c) then [Logged d] else [])"

definition warn_once :: "int \<Rightarrow> string \<Rightarrow> counted_client \<Rightarrow> sdk_output list \<times> counted_client" where
  "warn_once status detail c =
     (if \<not> (status = 401 \<or> status = 403) \<and> status \<in> set (cl_warned c) then ([], c)
      else ([Warned status detail], c\<lparr>cl_warned := List.insert status (cl_warned c)\<rparr>))"

definition identify :: "string \<Rightarrow> counted_client \<Rightarrow> counted_client" where
  "identify user c =
     (let trimmed = js_trim user in c\<lparr>cl_person := if trimmed = [] then None else Some trimmed\<rparr>)"

definition reset_client :: "instant \<Rightarrow> string \<Rightarrow> instant \<Rightarrow> counted_client \<Rightarrow> counted_client" where
  "reset_client now sfx now' c = c\<lparr>cl_person := None, cl_visit := visit_restart now sfx now'\<rparr>"

text \<open>\<open>drain\<close> up to its await, and \<open>flush\<close>, which joins a drain that has not settled.\<close>

definition drain :: "instant \<Rightarrow> counted_client \<Rightarrow> sdk_output list \<times> counted_client" where
  "drain now c =
     (if cl_disabled c \<or> queue_size (cl_queue c) = 0 then ([], c\<lparr>cl_in_flight := Some Ended\<rparr>)
      else if of_int now < cl_paused_until c then ([], c\<lparr>cl_in_flight := Some Ended\<rparr>)
      else
        (let (batch, q) = queue_take (cl_max_batch_size c) (cl_queue c)
         in if batch = [] then ([], c\<lparr>cl_queue := q, cl_in_flight := Some Ended\<rparr>)
            else ([Post batch], c\<lparr>cl_queue := q, cl_in_flight := Some (Awaiting batch)\<rparr>)))"

definition flush :: "instant \<Rightarrow> counted_client \<Rightarrow> sdk_output list \<times> counted_client" where
  "flush now c = (if cl_in_flight c \<noteq> None then ([], c) else drain now c)"

text \<open>What one call of \<open>track\<close> reads: the clock three times, a random suffix and a minted key.\<close>

record track_reads =
  tr_visit_now :: instant
  tr_suffix :: string
  tr_now :: instant
  tr_key :: string
  tr_flush_now :: instant

definition new_event ::
  "string \<Rightarrow> (string \<times> json) list option \<Rightarrow> track_reads \<Rightarrow> counted_client \<Rightarrow> queued_event \<times> counted_client" where
  "new_event name props rd c =
     (let (i, v) = visit_current DEFAULT_IDLE_MS (tr_visit_now rd) (tr_suffix rd) (cl_visit c)
      in (\<lparr> qe_name = name, qe_visit_id = i, qe_user_id = cl_person c,
            qe_occurred_at = instant_to_iso (tr_now rd), qe_idempotency_key = tr_key rd,
            qe_properties = props, qe_system = cl_system c \<rparr>, c\<lparr>cl_visit := v\<rparr>))"

definition track ::
  "string \<Rightarrow> (string \<times> json) list option \<Rightarrow> track_reads \<Rightarrow> counted_client \<Rightarrow> sdk_output list \<times> counted_client" where
  "track name props rd c =
     (if cl_closed c \<or> cl_disabled c then ([], c)
      else
        (let before = eq_dropped (cl_queue c);
             (e, c) = new_event name props rd c;
             c = c\<lparr>cl_queue := queue_push (cl_capacity c) e (cl_queue c)\<rparr>;
             dropped = eq_dropped (cl_queue c) - before;
             told = (if dropped > 0 then report_diagnostic c (DDropped dropped) else []);
             (out, c) = (if queue_size (cl_queue c) \<ge> cl_max_batch_size c then flush (tr_flush_now rd) c else ([], c))
         in (told @ out, c)))"

definition report_receipt :: "sdk_receipt \<Rightarrow> counted_client \<Rightarrow> sdk_output list" where
  "report_receipt r c =
     (if sr_rejected r > 0
      then report_diagnostic c (DRejected (sr_rejected r)
             (map the (filter (\<lambda>x. x \<noteq> None)
               (map ev_reason (filter (\<lambda>o1. \<not> ev_accepted o1) (or_default (sr_outcomes r) []))))))
      else []) @
     (case sr_quota r of
        None \<Rightarrow> []
      | Some q \<Rightarrow> if qn_state q \<noteq> ''ok'' then report_diagnostic c (DQuota q) else [])"

definition FATAL_STATUSES :: "int list" where
  "FATAL_STATUSES = [401, 403]"

definition backoff_ceiling :: "nat \<Rightarrow> int" where
  "backoff_ceiling attempt = min 60000 (500 * 2 ^ (attempt - 1))"

fun handle :: "send_outcome \<Rightarrow> queued_event list \<Rightarrow> instant \<Rightarrow> rat \<Rightarrow> counted_client \<Rightarrow> sdk_output list \<times> counted_client" where
  "handle (Accepted receipt) batch now random c =
     (let c = c\<lparr>cl_attempt := 0\<rparr> in (report_receipt receipt c, c))"
| "handle (Refused status detail) batch now random c =
     (if status \<in> set FATAL_STATUSES then
        (let discarded = queue_size (cl_queue c);
             (_, q) = queue_take (queue_size (cl_queue c)) (cl_queue c);
             c = c\<lparr>cl_queue := q, cl_disabled := True\<rparr>;
             (warned, c) = warn_once status detail c
         in (warned @ report_diagnostic c (DDisabled status detail discarded), c))
      else
        (let (warned, c) = warn_once status detail c
         in (warned @ report_diagnostic c (DRefused status detail), c)))"
| "handle (Retry status after detail) batch now random c =
     (let c = (case after of
                 Some ms \<Rightarrow> c\<lparr>cl_paused_until := of_int now + ms\<rparr>
               | None \<Rightarrow>
                   c\<lparr>cl_attempt := cl_attempt c + 1,
                     cl_paused_until := of_int now + random * of_int (backoff_ceiling (cl_attempt c + 1))\<rparr>)
      in ([], c\<lparr>cl_queue := queue_requeue (cl_capacity c) batch (cl_queue c)\<rparr>))"

definition shutdown :: "instant \<Rightarrow> counted_client \<Rightarrow> sdk_output list \<times> counted_client" where
  "shutdown now c = flush now (c\<lparr>cl_closed := True, cl_timer := False\<rparr>)"

definition on_hidden :: "beacon_api \<Rightarrow> counted_client \<Rightarrow> sdk_output list \<times> counted_client" where
  "on_hidden api c =
     (let (batch, q) = queue_take (cl_max_batch_size c) (cl_queue c)
      in if batch = [] then ([], c\<lparr>cl_queue := q\<rparr>)
         else ([Beacon batch],
               c\<lparr>cl_queue := if send_beacon api then q else queue_requeue (cl_capacity c) batch q\<rparr>))"

section \<open>Steps\<close>

datatype sdk_label =
    LIdentify string
  | LReset instant string instant
  | LTrack string "(string \<times> json) list option" track_reads
  | LFlush instant
  | LShutdown instant
  | LHidden beacon_api
  | LReply send_outcome instant rat
  | LSettled

text \<open>The page listener is removed by \<open>shutdown\<close>; explicit flushes and the exit handler are not.\<close>

fun sdk_exec :: "sdk_label \<Rightarrow> counted_client \<Rightarrow> (sdk_output list \<times> counted_client) option" where
  "sdk_exec (LIdentify user) c = Some ([], identify user c)"
| "sdk_exec (LReset now sfx now') c = Some ([], reset_client now sfx now' c)"
| "sdk_exec (LTrack name props rd) c = Some (track name props rd c)"
| "sdk_exec (LFlush now) c = Some (flush now c)"
| "sdk_exec (LShutdown now) c = Some (shutdown now c)"
| "sdk_exec (LHidden api) c = (if cl_closed c then None else Some (on_hidden api c))"
| "sdk_exec (LReply outcome now random) c =
     (case cl_in_flight c of
        Some (Awaiting batch) \<Rightarrow>
          (let (out, c) = handle outcome batch now random c in Some (out, c\<lparr>cl_in_flight := Some Ended\<rparr>))
      | _ \<Rightarrow> None)"
| "sdk_exec LSettled c =
     (if cl_in_flight c = Some Ended then Some ([], c\<lparr>cl_in_flight := None\<rparr>) else None)"

text \<open>What an observer notes down: what was tracked, and what became of it.\<close>

record sdk_history =
  hs_tracked :: "queued_event list"
  hs_delivered :: "queued_event list"
  hs_refused :: "queued_event list"
  hs_discarded :: "queued_event list"
  hs_beaconed :: "queued_event list"
  hs_outputs :: "sdk_output list"

definition no_history :: sdk_history where
  "no_history = \<lparr> hs_tracked = [], hs_delivered = [], hs_refused = [], hs_discarded = [],
     hs_beaconed = [], hs_outputs = [] \<rparr>"

definition carried :: "counted_client \<Rightarrow> queued_event list" where
  "carried c = (case cl_in_flight c of Some (Awaiting batch) \<Rightarrow> batch | _ \<Rightarrow> [])"

fun observe :: "sdk_label \<Rightarrow> counted_client \<Rightarrow> sdk_history \<Rightarrow> sdk_history" where
  "observe (LTrack name props rd) c h =
     (if cl_closed c \<or> cl_disabled c then h
      else h\<lparr>hs_tracked := hs_tracked h @ [fst (new_event name props rd c)]\<rparr>)"
| "observe (LReply (Accepted r) now random) c h = h\<lparr>hs_delivered := hs_delivered h @ carried c\<rparr>"
| "observe (LReply (Refused status detail) now random) c h =
     (if status \<in> set FATAL_STATUSES
      then h\<lparr>hs_refused := hs_refused h @ carried c, hs_discarded := hs_discarded h @ eq_events (cl_queue c)\<rparr>
      else h\<lparr>hs_refused := hs_refused h @ carried c\<rparr>)"
| "observe (LHidden api) c h =
     (if send_beacon api
      then h\<lparr>hs_beaconed := hs_beaconed h @ fst (queue_take (cl_max_batch_size c) (cl_queue c))\<rparr> else h)"
| "observe _ c h = h"

fun sdk_run :: "sdk_label list \<Rightarrow> counted_client \<times> sdk_history \<Rightarrow> (counted_client \<times> sdk_history) option" where
  "sdk_run [] s = Some s"
| "sdk_run (l # ls) (c, h) =
     (case sdk_exec l c of
        None \<Rightarrow> None
      | Some (out, c') \<Rightarrow>
          (let h' = observe l c h in sdk_run ls (c', h'\<lparr>hs_outputs := hs_outputs h' @ out\<rparr>)))"

section \<open>Facts\<close>

lemma queue_trim_drops:
  "queue_trim cap q =
     (let k = nat (queue_size q - cap)
      in q\<lparr>eq_events := drop k (eq_events q), eq_dropped := eq_dropped q + int k\<rparr>)"
  by (simp add: queue_trim_def Let_def)

lemma length_queue_trim: "0 \<le> cap \<Longrightarrow> int (length (eq_events (queue_trim cap q))) \<le> cap"
  by (simp add: queue_trim_drops queue_size_def Let_def)

text \<open>
  \<open>balanced T H S n\<close>: the events \<open>T\<close> are those held, those settled, and \<open>n\<close> that were dropped.
\<close>

definition balanced :: "queued_event list \<Rightarrow> queued_event list \<Rightarrow> queued_event list \<Rightarrow> int \<Rightarrow> bool" where
  "balanced T H S n \<longleftrightarrow> (\<exists>D. mset T = mset H + mset S + D \<and> int (size D) = n)"

lemma balanced_add: "balanced T H S n \<Longrightarrow> balanced (T @ [e]) (H @ [e]) S n"
  by (auto simp: balanced_def)

lemma balanced_settle: "balanced T (A @ B) S n \<Longrightarrow> mset S' = mset S + mset A \<Longrightarrow> balanced T B S' n"
  by (auto simp: balanced_def ac_simps)

lemma balanced_trim:
  assumes "balanced T (A @ eq_events q) S (eq_dropped q)" and "0 \<le> cap"
  shows "balanced T (A @ eq_events (queue_trim cap q)) S (eq_dropped (queue_trim cap q))"
proof -
  let ?k = "nat (queue_size q - cap)" and ?es = "eq_events q"
  obtain D where D: "mset T = mset (A @ ?es) + mset S + D" "int (size D) = eq_dropped q"
    using assms(1) by (auto simp: balanced_def)
  have es: "mset ?es = mset (take ?k ?es) + mset (drop ?k ?es)"
    by (simp flip: mset_append)
  have "?k \<le> length ?es" using assms(2) by (simp add: queue_size_def)
  then have "int (size (D + mset (take ?k ?es))) = eq_dropped q + int ?k" using D(2) by simp
  moreover have "mset T = mset (A @ drop ?k ?es) + mset S + (D + mset (take ?k ?es))"
    using D(1) es by (simp add: ac_simps)
  ultimately show ?thesis unfolding balanced_def queue_trim_drops Let_def by auto
qed

text \<open>What a flush changes: it moves a head of the queue into flight, and nothing is lost.\<close>

lemma flush_facts:
  assumes "flush now c = (out, c')"
  shows "carried c' @ eq_events (cl_queue c') = carried c @ eq_events (cl_queue c)"
    and "eq_dropped (cl_queue c') = eq_dropped (cl_queue c)"
    and "length (carried c') \<le> max (length (carried c)) (nat (cl_max_batch_size c))"
    and "cl_disabled c' = cl_disabled c" and "cl_closed c' = cl_closed c"
    and "cl_capacity c' = cl_capacity c" and "cl_max_batch_size c' = cl_max_batch_size c"
    and "length (eq_events (cl_queue c')) \<le> length (eq_events (cl_queue c))"
    and "cl_disabled c \<Longrightarrow> out = []"
    and "length (filter (\<lambda>o1. \<exists>b. o1 = Post b) out) \<le> 1"
  using assms by (auto simp: flush_def drain_def carried_def queue_take_def case_prod_unfold Let_def
      split: if_splits option.splits flight.splits)


definition settled :: "sdk_history \<Rightarrow> queued_event list" where
  "settled h = hs_delivered h @ hs_refused h @ hs_discarded h @ hs_beaconed h"

definition sdk_inv :: "counted_client \<Rightarrow> sdk_history \<Rightarrow> bool" where
  "sdk_inv c h \<longleftrightarrow>
     balanced (hs_tracked h) (carried c @ eq_events (cl_queue c)) (settled h) (eq_dropped (cl_queue c)) \<and>
     subseq (carried c @ eq_events (cl_queue c)) (hs_tracked h) \<and>
     0 \<le> cl_capacity c \<and> queue_size (cl_queue c) \<le> cl_capacity c \<and>
     cl_max_batch_size c \<le> 250 \<and> length (carried c) \<le> 250 \<and>
     (cl_disabled c \<longrightarrow> eq_events (cl_queue c) = [] \<and> carried c = [])"

lemma carried_simps [simp]:
  "carried (c\<lparr>cl_queue := q\<rparr>) = carried c" "carried (c\<lparr>cl_in_flight := Some Ended\<rparr>) = []"
  "carried (c\<lparr>cl_in_flight := None\<rparr>) = []"
  by (simp_all add: carried_def)

lemma subseq_drop_tail: "subseq (A @ es) T \<Longrightarrow> subseq (A @ drop k es) T"
  by (rule subseq_order.trans [of _ "A @ es"]) (auto intro: list_emb_append_mono suffix_imp_subseq suffix_drop)

lemma subseq_trim: "subseq (A @ eq_events q) T \<Longrightarrow> subseq (A @ eq_events (queue_trim cap q)) T"
  by (simp add: queue_trim_drops Let_def subseq_drop_tail)

lemma subseq_tail: "subseq (A @ B) T \<Longrightarrow> subseq B T"
  by (rule subseq_order.trans [of _ "A @ B"]) auto

text \<open>A change that leaves what the invariant looks at alone.\<close>

lemma sdk_inv_same:
  assumes "sdk_inv c h" and "carried c' = carried c" and "cl_queue c' = cl_queue c"
    and "cl_capacity c' = cl_capacity c" and "cl_max_batch_size c' = cl_max_batch_size c"
    and "cl_disabled c' = cl_disabled c"
  shows "sdk_inv c' h"
  using assms by (simp add: sdk_inv_def)

lemma sdk_inv_outputs [simp]: "sdk_inv c (h\<lparr>hs_outputs := out\<rparr>) = sdk_inv c h"
  by (simp add: sdk_inv_def settled_def)

lemma flush_inv: "sdk_inv c h \<Longrightarrow> flush now c = (out, c') \<Longrightarrow> sdk_inv c' h"
proof -
  assume i: "sdk_inv c h" and f: "flush now c = (out, c')"
  note f = flush_facts [OF f]
  have "carried c' = [] \<and> eq_events (cl_queue c') = []" if "cl_disabled c"
    using f(1) i that by (simp add: sdk_inv_def)
  then show ?thesis using i f(1-8) by (auto simp: sdk_inv_def queue_size_def)
qed

lemma new_event_same:
  assumes "new_event name props rd c = (e, c')"
  shows "carried c' = carried c" "cl_queue c' = cl_queue c" "cl_capacity c' = cl_capacity c"
    "cl_max_batch_size c' = cl_max_batch_size c" "cl_disabled c' = cl_disabled c" "cl_closed c' = cl_closed c"
    "cl_in_flight c' = cl_in_flight c" "cl_options c' = cl_options c"
  using assms by (auto simp: new_event_def carried_def case_prod_unfold Let_def)

text \<open>\<open>track\<close> on an open client: the event is pushed, then perhaps a flush.\<close>

definition pushed :: "queued_event \<Rightarrow> counted_client \<Rightarrow> counted_client" where
  "pushed e c = c\<lparr>cl_queue := queue_push (cl_capacity c) e (cl_queue c)\<rparr>"

lemma track_cases:
  assumes "track name props rd c = (out, c')" and "\<not> cl_closed c" and "\<not> cl_disabled c"
  obtains e c1 told where "new_event name props rd c = (e, c1)"
    "out = told \<and> c' = pushed e c1 \<or> (\<exists>out2. flush (tr_flush_now rd) (pushed e c1) = (out2, c') \<and> out = told @ out2)"
    "told = (if eq_dropped (cl_queue (pushed e c1)) > eq_dropped (cl_queue c)
             then report_diagnostic (pushed e c1) (DDropped (eq_dropped (cl_queue (pushed e c1)) - eq_dropped (cl_queue c)))
             else [])"
proof -
  obtain e c1 where ne: "new_event name props rd c = (e, c1)" by fastforce
  show thesis
    by (rule that [OF ne _ refl])
      (use assms ne in \<open>auto simp: track_def pushed_def Let_def case_prod_unfold split: if_splits\<close>)
qed

lemma pushed_inv:
  assumes "sdk_inv c h" and "\<not> cl_disabled c"
  shows "sdk_inv (pushed e c) (h\<lparr>hs_tracked := hs_tracked h @ [e]\<rparr>)"
proof -
  let ?q = "(cl_queue c)\<lparr>eq_events := eq_events (cl_queue c) @ [e]\<rparr>"
  have c: "carried (pushed e c) = carried c" by (simp add: pushed_def carried_def)
  have "balanced (hs_tracked h @ [e]) (carried c @ eq_events ?q) (settled h) (eq_dropped ?q)"
    using assms(1) balanced_add [of "hs_tracked h" "carried c @ eq_events (cl_queue c)"] by (simp add: sdk_inv_def)
  moreover have "subseq (carried c @ eq_events ?q) (hs_tracked h @ [e])"
    using assms(1) list_emb_append_mono [of "(=)" "carried c @ eq_events (cl_queue c)" "hs_tracked h" "[e]" "[e]"]
    by (simp add: sdk_inv_def)
  ultimately show ?thesis
    using assms balanced_trim [of _ _ ?q] subseq_trim [of _ ?q] length_queue_trim [of "cl_capacity c" ?q]
    by (simp add: sdk_inv_def c settled_def)
      (simp add: pushed_def queue_push_def queue_size_def)
qed

lemma track_inv:
  assumes "sdk_inv c h" and "track name props rd c = (out, c')"
  shows "sdk_inv c' (observe (LTrack name props rd) c h)"
proof (cases "cl_closed c \<or> cl_disabled c")
  case True
  then show ?thesis using assms by (auto simp: track_def)
next
  case False
  then obtain e c1 told where t: "new_event name props rd c = (e, c1)"
    "out = told \<and> c' = pushed e c1 \<or> (\<exists>out2. flush (tr_flush_now rd) (pushed e c1) = (out2, c') \<and> out = told @ out2)"
    using track_cases [OF assms(2)] by metis
  have "sdk_inv (pushed e c1) (h\<lparr>hs_tracked := hs_tracked h @ [e]\<rparr>)"
    using pushed_inv [of c1] sdk_inv_same [OF assms(1) new_event_same(1-5) [OF t(1)]] new_event_same(5) [OF t(1)] False by simp
  then have "sdk_inv c' (h\<lparr>hs_tracked := hs_tracked h @ [e]\<rparr>)" using t(2) flush_inv by blast
  then show ?thesis using False t(1) by simp
qed

lemma warn_once_same:
  assumes "warn_once status detail c = (out, c')"
  shows "cl_queue c' = cl_queue c" "cl_disabled c' = cl_disabled c" "cl_capacity c' = cl_capacity c"
    "cl_max_batch_size c' = cl_max_batch_size c" "cl_in_flight c' = cl_in_flight c" "cl_options c' = cl_options c"
    "cl_closed c' = cl_closed c"
  using assms by (auto simp: warn_once_def split: if_splits)

text \<open>Events that leave the client's hands, and the rest it keeps.\<close>

lemma settle_inv:
  assumes "sdk_inv c h" and "carried c @ eq_events (cl_queue c) = A @ B"
    and "mset (settled h') = mset (settled h) + mset A" and "hs_tracked h' = hs_tracked h"
    and "carried c' @ eq_events (cl_queue c') = B" and "eq_dropped (cl_queue c') = eq_dropped (cl_queue c)"
    and "length (eq_events (cl_queue c')) \<le> length (eq_events (cl_queue c))" and "length (carried c') \<le> 250"
    and "cl_capacity c' = cl_capacity c" and "cl_max_batch_size c' = cl_max_batch_size c"
    and "cl_disabled c' \<longrightarrow> B = []"
  shows "sdk_inv c' h'"
proof -
  have "balanced (hs_tracked h') B (settled h') (eq_dropped (cl_queue c'))"
    using balanced_settle [of "hs_tracked h" A B "settled h"] assms(1-4,6) by (simp add: sdk_inv_def)
  moreover have "subseq B (hs_tracked h')" using subseq_tail [of A B "hs_tracked h"] assms(1,2,4) by (simp add: sdk_inv_def)
  ultimately show ?thesis using assms(1,5-11) by (auto simp: sdk_inv_def queue_size_def)
qed

lemma reply_inv:
  assumes i: "sdk_inv c h" and a: "cl_in_flight c = Some (Awaiting batch)"
    and r: "handle outcome batch now random c = (out, c1)"
  shows "sdk_inv (c1\<lparr>cl_in_flight := Some Ended\<rparr>) (observe (LReply outcome now random) c h)"
proof -
  have b: "carried c = batch" using a by (simp add: carried_def)
  show ?thesis
  proof (cases outcome)
    case (Accepted receipt)
    then have "c1 = c\<lparr>cl_attempt := 0\<rparr>" using r by (simp add: Let_def)
    then show ?thesis using Accepted i
      by (intro settle_inv [OF i, of batch "eq_events (cl_queue c)"])
        (simp_all add: b settled_def sdk_inv_def)
  next
    case (Refused status detail)
    show ?thesis
    proof (cases "status \<in> set FATAL_STATUSES")
      case True
      define c0 where "c0 = c\<lparr>cl_queue := (cl_queue c)\<lparr>eq_events := []\<rparr>, cl_disabled := True\<rparr>"
      obtain w c2 where w: "warn_once status detail c0 = (w, c2)" by fastforce
      have "c1 = c2" using r Refused True w
        by (simp add: Let_def case_prod_unfold queue_take_def queue_size_def c0_def)
      then show ?thesis using warn_once_same [OF w] Refused True
        by (intro settle_inv [OF i, of "batch @ eq_events (cl_queue c)" "[]"])
          (simp_all add: b settled_def c0_def)
    next
      case False
      obtain w c2 where w: "warn_once status detail c = (w, c2)" by fastforce
      then have "c1 = c2" using r Refused False by simp
      then show ?thesis using warn_once_same [OF w] i Refused False
        by (intro settle_inv [OF i, of batch "eq_events (cl_queue c)"])
          (simp_all add: b settled_def sdk_inv_def)
    qed
  next
    case (Retry status after detail)
    let ?q = "(cl_queue c)\<lparr>eq_events := batch @ eq_events (cl_queue c)\<rparr>"
    have c: "cl_queue c1 = queue_trim (cl_capacity c) ?q" "cl_capacity c1 = cl_capacity c"
      "cl_max_batch_size c1 = cl_max_batch_size c" "cl_disabled c1 = cl_disabled c"
      using r Retry by (auto simp: Let_def queue_requeue_def split: option.splits)
    have "eq_events (cl_queue c1) = []" if "cl_disabled c"
      using that i b by (simp add: c queue_trim_drops Let_def sdk_inv_def)
    then show ?thesis
      using i b Retry balanced_trim [of _ "[]" ?q] subseq_trim [of "[]" ?q] length_queue_trim [of "cl_capacity c" ?q]
      by (simp add: sdk_inv_def c queue_size_def)
  qed
qed

lemma hidden_inv:
  assumes i: "sdk_inv c h" and r: "on_hidden api c = (out, c')"
  shows "sdk_inv c' (observe (LHidden api) c h)"
proof -
  let ?n = "nat (cl_max_batch_size c)" and ?es = "eq_events (cl_queue c)"
  have ca: "carried c' = carried c" using r
    by (auto simp: on_hidden_def carried_def case_prod_unfold Let_def split: if_splits)
  show ?thesis
  proof (cases "take ?n ?es = []")
    case True
    then have "drop ?n ?es = ?es" by auto
    then have "cl_queue c' = cl_queue c" "observe (LHidden api) c h = h" "cl_capacity c' = cl_capacity c"
      "cl_max_batch_size c' = cl_max_batch_size c" "cl_disabled c' = cl_disabled c"
      using r True by (auto simp: on_hidden_def queue_take_def case_prod_unfold Let_def split: if_splits)
    then show ?thesis using sdk_inv_same [OF i ca] by simp
  next
    case False
    let ?q = "(cl_queue c)\<lparr>eq_events := drop ?n ?es\<rparr>"
    have c': "c' = c\<lparr>cl_queue := if send_beacon api then ?q else queue_requeue (cl_capacity c) (take ?n ?es) ?q\<rparr>"
      using r False by (auto simp: on_hidden_def queue_take_def case_prod_unfold Let_def)
    show ?thesis
    proof (cases "send_beacon api")
      case True
      have "balanced (hs_tracked h) (carried c @ drop ?n ?es) (settled h @ take ?n ?es) (eq_dropped (cl_queue c))"
      proof (rule balanced_settle)
        have "mset ?es = mset (take ?n ?es) + mset (drop ?n ?es)" by (simp flip: mset_append)
        then show "balanced (hs_tracked h) (take ?n ?es @ (carried c @ drop ?n ?es)) (settled h) (eq_dropped (cl_queue c))"
          using i by (simp add: sdk_inv_def balanced_def ac_simps)
      qed simp
      then have "balanced (hs_tracked h) (carried c' @ eq_events (cl_queue c'))
          (settled (observe (LHidden api) c h)) (eq_dropped (cl_queue c'))"
        using True by (simp add: ca c' queue_take_def settled_def del: append_assoc) (simp add: balanced_def settled_def)
      moreover have "subseq (carried c @ drop ?n ?es) (hs_tracked h)"
        using i subseq_drop_tail [of "carried c" ?es _ ?n] by (simp add: sdk_inv_def)
      moreover have "queue_size ?q \<le> queue_size (cl_queue c)" by (simp add: queue_size_def)
      then have "queue_size ?q \<le> cl_capacity c" using i by (simp add: sdk_inv_def)
      ultimately show ?thesis using True i ca by (simp add: sdk_inv_def c')
    next
      case False
      then have "cl_queue c' = queue_trim (cl_capacity c) (cl_queue c)" by (simp add: c' queue_requeue_def)
      then have "cl_queue c' = cl_queue c" using i by (simp add: queue_trim_def sdk_inv_def)
      then show ?thesis using sdk_inv_same [OF i ca, of] False by (simp add: c')
    qed
  qed
qed

lemma sdk_exec_inv:
  assumes "sdk_inv c h" and "sdk_exec l c = Some (out, c')"
  shows "sdk_inv c' (observe l c h)"
proof (cases l)
  case (LShutdown now)
  then show ?thesis using assms flush_inv sdk_inv_same [OF assms(1), of "c\<lparr>cl_closed := True, cl_timer := False\<rparr>"]
    by (simp add: shutdown_def carried_def)
next
  case (LReply outcome now random)
  then obtain batch where "cl_in_flight c = Some (Awaiting batch)"
    using assms(2) by (auto split: option.splits flight.splits)
  moreover obtain o1 c1 where "handle outcome batch now random c = (o1, c1)" by fastforce
  ultimately show ?thesis using LReply assms(2) reply_inv [OF assms(1)] by fastforce
next
  case LSettled
  then show ?thesis using assms sdk_inv_same [OF assms(1), of c'] by (auto simp: carried_def split: if_splits)
next
  case (LIdentify user)
  then show ?thesis using assms sdk_inv_same [OF assms(1), of c'] by (auto simp: identify_def carried_def Let_def)
next
  case (LReset now sfx now')
  then show ?thesis using assms sdk_inv_same [OF assms(1), of c'] by (auto simp: reset_client_def carried_def)
next
  case (LTrack name props rd)
  then show ?thesis using assms track_inv [OF assms(1)] by (simp del: observe.simps)
next
  case (LHidden api)
  then show ?thesis using assms hidden_inv [OF assms(1)] by (simp split: if_splits del: observe.simps)
next
  case (LFlush now)
  then show ?thesis using assms flush_inv by simp
qed

lemma sdk_run_inv: "sdk_run ls (c, h) = Some (c', h') \<Longrightarrow> sdk_inv c h \<Longrightarrow> sdk_inv c' h'"
proof (induction ls arbitrary: c h)
  case (Cons l ls)
  then obtain out c1 where e: "sdk_exec l c = Some (out, c1)" by (auto split: option.splits)
  then show ?case using Cons sdk_exec_inv [OF Cons.prems(2) e] by (simp add: Let_def)
qed simp

lemma sdk_start_inv: "0 \<le> or_default (so_max_queue_size opts) 1000 \<Longrightarrow> sdk_inv (counted_new opts system now) no_history"
  by (simp add: sdk_inv_def counted_new_def no_history_def settled_def carried_def queue_new_def balanced_def queue_size_def)

text \<open>A request in flight carries at least one event.\<close>

lemma no_empty_post:
  assumes "cl_in_flight c \<noteq> Some (Awaiting [])" and "sdk_exec l c = Some (out, c')"
  shows "cl_in_flight c' \<noteq> Some (Awaiting [])"
proof -
  have f: "cl_in_flight c2 \<noteq> Some (Awaiting [])"
    if "flush now c1 = (out1, c2)" "cl_in_flight c1 \<noteq> Some (Awaiting [])" for now c1 out1 c2
    using that by (auto simp: flush_def drain_def queue_take_def case_prod_unfold Let_def split: if_splits)
  show ?thesis
  proof (cases l)
    case (LTrack name props rd)
    show ?thesis
    proof (cases "cl_closed c \<or> cl_disabled c")
      case True
      then show ?thesis using assms LTrack by (auto simp: track_def)
    next
      case False
      from LTrack assms(2) have "track name props rd c = (out, c')" by simp
      then obtain e c1 told where t: "new_event name props rd c = (e, c1)"
        "out = told \<and> c' = pushed e c1 \<or> (\<exists>out2. flush (tr_flush_now rd) (pushed e c1) = (out2, c') \<and> out = told @ out2)"
        using track_cases [of name props rd c out c'] False by metis
      have "cl_in_flight (pushed e c1) \<noteq> Some (Awaiting [])"
        using assms(1) new_event_same(7) [OF t(1)] by (simp add: pushed_def)
      then show ?thesis using t(2) f by blast
    qed
  next
    case (LShutdown now)
    then show ?thesis using assms f [of now "c\<lparr>cl_closed := True, cl_timer := False\<rparr>" out c'] by (simp add: shutdown_def)
  next
    case (LFlush now)
    then show ?thesis using assms f [of now c out c'] by simp
  qed (use assms in \<open>auto simp: identify_def reset_client_def on_hidden_def case_prod_unfold Let_def
        split: if_splits option.splits flight.splits\<close>)
qed

lemma run_no_empty_post:
  "sdk_run ls (c, h) = Some (c', h') \<Longrightarrow> cl_in_flight c \<noteq> Some (Awaiting []) \<Longrightarrow> cl_in_flight c' \<noteq> Some (Awaiting [])"
proof (induction ls arbitrary: c h)
  case (Cons l ls)
  then obtain out c1 where e: "sdk_exec l c = Some (out, c1)" by (auto split: option.splits)
  then show ?case using Cons no_empty_post [OF Cons.prems(2) e] by (simp add: Let_def)
qed simp

text \<open>A disabled client with nothing in hand: no step does anything the outside sees.\<close>

definition silent :: "counted_client \<Rightarrow> bool" where
  "silent c \<longleftrightarrow> cl_disabled c \<and> eq_events (cl_queue c) = [] \<and> (\<forall>b. cl_in_flight c \<noteq> Some (Awaiting b))"

lemma silent_flush: "silent c \<Longrightarrow> flush now c = (out, c') \<Longrightarrow> silent c' \<and> out = []"
  by (auto simp: silent_def flush_def drain_def split: if_splits)

lemma silent_step:
  assumes "silent c" and "sdk_exec l c = Some (out, c')"
  shows "silent c' \<and> out = [] \<and> observe l c h = h"
proof (cases l)
  case (LShutdown now)
  then show ?thesis using assms silent_flush [of "c\<lparr>cl_closed := True, cl_timer := False\<rparr>" now out c']
    by (simp add: shutdown_def silent_def)
next
  case (LFlush now)
  then show ?thesis using assms silent_flush by simp
qed (use assms in \<open>auto simp: silent_def identify_def reset_client_def track_def on_hidden_def queue_take_def
      case_prod_unfold Let_def split: if_splits option.splits flight.splits\<close>)

lemma silent_run:
  "sdk_run ls (c, h) = Some (c', h') \<Longrightarrow> silent c \<Longrightarrow> silent c' \<and> h' = h"
proof (induction ls arbitrary: c h)
  case (Cons l ls)
  then obtain out c1 where e: "sdk_exec l c = Some (out, c1)" by (auto split: option.splits)
  have "silent c1 \<and> out = [] \<and> observe l c h = h" by (rule silent_step [OF Cons.prems(2) e])
  then show ?case using Cons e by (simp add: Let_def)
qed simp

lemma fatal_reply:
  assumes "sdk_inv c h" and "cl_in_flight c = Some (Awaiting batch)" and "status \<in> set FATAL_STATUSES"
    and "sdk_exec (LReply (Refused status detail) now random) c = Some (out, c')"
  shows "silent c' \<and> out = Warned status detail #
    report_diagnostic c (DDisabled status detail (queue_size (cl_queue c)))"
proof -
  have "status = 401 \<or> status = 403" using assms(3) by (auto simp: FATAL_STATUSES_def)
  then show ?thesis using assms
    by (auto simp: silent_def warn_once_def queue_take_def queue_size_def report_diagnostic_def Let_def case_prod_unfold)
qed

text \<open>One round: a flush, its answer, and the settling of the drain.\<close>

definition sdk_round :: "instant \<Rightarrow> sdk_receipt \<Rightarrow> sdk_label list" where
  "sdk_round now r = [LFlush now, LReply (Accepted r) now 0, LSettled]"

lemma sdk_run_append: "sdk_run (xs @ ys) s = Option.bind (sdk_run xs s) (sdk_run ys)"
proof (induction xs s rule: sdk_run.induct)
  case (2 l ls c h)
  then show ?case by (cases "sdk_exec l c") (auto simp: Let_def)
qed simp

lemma sdk_round_step:
  assumes "cl_in_flight c = None" and "\<not> cl_disabled c" and "0 < cl_max_batch_size c"
    and "cl_paused_until c \<le> of_int now" and "eq_events (cl_queue c) \<noteq> []"
  obtains c' h' where "sdk_run (sdk_round now r) (c, h) = Some (c', h')"
    "cl_in_flight c' = None" "\<not> cl_disabled c'" "cl_max_batch_size c' = cl_max_batch_size c"
    "cl_paused_until c' = cl_paused_until c"
    "eq_events (cl_queue c') = drop (nat (cl_max_batch_size c)) (eq_events (cl_queue c))"
    "eq_dropped (cl_queue c') = eq_dropped (cl_queue c)"
    "hs_delivered h' = hs_delivered h @ take (nat (cl_max_batch_size c)) (eq_events (cl_queue c))"
    "hs_tracked h' = hs_tracked h"
proof -
  let ?n = "nat (cl_max_batch_size c)" and ?es = "eq_events (cl_queue c)"
  have f: "flush now c = ([Post (take ?n ?es)],
      c\<lparr>cl_queue := (cl_queue c)\<lparr>eq_events := drop ?n ?es\<rparr>, cl_in_flight := Some (Awaiting (take ?n ?es))\<rparr>)"
    using assms by (simp add: flush_def drain_def queue_size_def queue_take_def)
  let ?c = "c\<lparr>cl_queue := (cl_queue c)\<lparr>eq_events := drop ?n ?es\<rparr>, cl_attempt := 0, cl_in_flight := None\<rparr>"
  have "\<exists>h1. sdk_run (sdk_round now r) (c, h) = Some (?c, h1) \<and>
      hs_delivered h1 = hs_delivered h @ take ?n ?es \<and> hs_tracked h1 = hs_tracked h"
    by (simp add: sdk_round_def f Let_def carried_def)
  then show thesis using that [of ?c] assms by auto
qed

lemma sdk_rounds:
  assumes "cl_in_flight c = None" and "\<not> cl_disabled c" and "0 < cl_max_batch_size c"
    and "cl_paused_until c \<le> of_int now"
    and "int n * cl_max_batch_size c < queue_size (cl_queue c) + cl_max_batch_size c"
  shows "\<exists>c' h'. sdk_run (concat (replicate n (sdk_round now r))) (c, h) = Some (c', h') \<and>
    eq_events (cl_queue c') = drop (n * nat (cl_max_batch_size c)) (eq_events (cl_queue c)) \<and>
    eq_dropped (cl_queue c') = eq_dropped (cl_queue c) \<and>
    hs_delivered h' = hs_delivered h @ take (n * nat (cl_max_batch_size c)) (eq_events (cl_queue c)) \<and>
    hs_tracked h' = hs_tracked h"
  using assms
proof (induction n arbitrary: c h)
  case (Suc n)
  let ?m = "cl_max_batch_size c" and ?es = "eq_events (cl_queue c)"
  have len: "int n * ?m < queue_size (cl_queue c)" using Suc.prems(5) by (simp add: algebra_simps)
  then have "?es \<noteq> []" using Suc.prems(3) by (auto simp: queue_size_def mult_less_0_iff)
  then obtain c1 h1 where s: "sdk_run (sdk_round now r) (c, h) = Some (c1, h1)"
    "cl_in_flight c1 = None" "\<not> cl_disabled c1" "cl_max_batch_size c1 = ?m" "cl_paused_until c1 = cl_paused_until c"
    "eq_events (cl_queue c1) = drop (nat ?m) ?es" "eq_dropped (cl_queue c1) = eq_dropped (cl_queue c)"
    "hs_delivered h1 = hs_delivered h @ take (nat ?m) ?es" "hs_tracked h1 = hs_tracked h"
    using sdk_round_step [OF Suc.prems(1-4)] by metis
  have "int n * ?m < queue_size (cl_queue c1) + ?m"
    using len Suc.prems(3) by (simp add: s queue_size_def)
  then obtain c2 h2 where r: "sdk_run (concat (replicate n (sdk_round now r))) (c1, h1) = Some (c2, h2)"
    "eq_events (cl_queue c2) = drop (n * nat ?m) (drop (nat ?m) ?es)" "eq_dropped (cl_queue c2) = eq_dropped (cl_queue c)"
    "hs_delivered h2 = hs_delivered h @ take (nat ?m) ?es @ take (n * nat ?m) (drop (nat ?m) ?es)"
    "hs_tracked h2 = hs_tracked h"
    using Suc.IH [of c1 h1] Suc.prems s by auto
  then show ?case by (simp add: sdk_run_append s take_add add.commute)
qed simp

section \<open>Properties\<close>


definition small_options :: sdk_options where
  "small_options = \<lparr> so_flush_interval_ms = Some 0, so_max_batch_size = Some 2, so_max_queue_size = Some 2,
     so_debug = False, so_visit_id = Some ''v'', so_on_diagnostic = True \<rparr>"

definition reads_at :: "instant \<Rightarrow> string \<Rightarrow> track_reads" where
  "reads_at t k = \<lparr> tr_visit_now = t, tr_suffix = ''x'', tr_now = t, tr_key = k, tr_flush_now = t \<rparr>"

lemmas sdk_eval =
  counted_new_def small_options_def or_default_def no_history_def queue_new_def visit_new_def reads_at_def
  track_def new_event_def visit_current_def queue_push_def queue_trim_def queue_size_def queue_take_def
  queue_requeue_def flush_def drain_def report_diagnostic_def backoff_ceiling_def carried_def Let_def

text \<open>Two events go out, two more arrive, and the first two come back over a full queue.\<close>

definition overflowing_retry :: "sdk_label list" where
  "overflowing_retry =
     [LTrack ''a'' None (reads_at 1 ''k1''), LTrack ''b'' None (reads_at 2 ''k2''),
      LTrack ''c'' None (reads_at 3 ''k3''), LTrack ''d'' None (reads_at 4 ''k4''),
      LReply (Retry 503 None ''down'') 10 (1/2), LSettled]"


text \<open>Nobody is told of the two that were dropped: only \<open>track\<close> compares the counter.\<close>

lemma requeue_drops_go_unreported:
  "case sdk_run overflowing_retry (counted_new small_options [] 0, no_history) of
     Some (c, h) \<Rightarrow> eq_dropped (cl_queue c) = 2 \<and> (case hs_outputs h of [Post _] \<Rightarrow> True | _ \<Rightarrow> False)
   | None \<Rightarrow> False"
  by (simp add: sdk_eval overflowing_retry_def)

text \<open>
  C25. A key the server rejects ends the client: after an answer of 401 or 403 that is not to be
  retried, the developer is warned and told how many events were discarded, and from then on,
  whatever is called, nothing is queued, posted, beaconed or reported any more.
\<close>

theorem rejected_keys_silence_the_client:
  assumes "sdk_run ls (counted_new opts system t0, no_history) = Some (c, h)"
    and "0 \<le> or_default (so_max_queue_size opts) 1000"
    and "status \<in> {401, 403}"
    and "sdk_run (LReply (Refused status detail) now random # later) (c, h) = Some (c', h')"
  shows "cl_disabled c' \<and> eq_events (cl_queue c') = [] \<and> carried c' = [] \<and>
    hs_tracked h' = hs_tracked h \<and> hs_beaconed h' = hs_beaconed h \<and>
    hs_discarded h' = hs_discarded h @ eq_events (cl_queue c) \<and> hs_refused h' = hs_refused h @ carried c \<and>
    hs_outputs h' = hs_outputs h @ Warned status detail #
      report_diagnostic c (DDisabled status detail (queue_size (cl_queue c)))"
proof -
  note i = sdk_run_inv [OF assms(1) sdk_start_inv [OF assms(2)]]
  have fatal: "status \<in> set FATAL_STATUSES" using assms(3) by (simp add: FATAL_STATUSES_def)
  obtain out c1 where e: "sdk_exec (LReply (Refused status detail) now random) c = Some (out, c1)"
    using assms(4) by (auto simp del: sdk_exec.simps split: option.splits)
  then obtain batch where a: "cl_in_flight c = Some (Awaiting batch)" by (auto split: option.splits flight.splits)
  note s = fatal_reply [OF i a fatal e]
  let ?h = "observe (LReply (Refused status detail) now random) c h"
  have "sdk_run later (c1, ?h\<lparr>hs_outputs := hs_outputs ?h @ out\<rparr>) = Some (c', h')"
    using assms(4) e by (simp add: Let_def del: sdk_exec.simps observe.simps)
  from silent_run [OF this] s have "silent c'" "h' = ?h\<lparr>hs_outputs := hs_outputs ?h @ out\<rparr>" by blast+
  then show ?thesis using s fatal by (auto simp: silent_def carried_def split: option.splits flight.splits)
qed

definition revoked_key_run :: "sdk_label list" where
  "revoked_key_run = [LTrack ''a'' None (reads_at 1 ''k1''), LTrack ''b'' None (reads_at 2 ''k2''),
     LTrack ''c'' None (reads_at 3 ''k3'')]"

definition after_the_refusal :: "sdk_label list" where
  "after_the_refusal = [LTrack ''d'' None (reads_at 20 ''k4''), LSettled, LFlush 30, LSettled, LHidden (BeaconAnswers True)]"

theorem rejected_keys_silence_the_client_witness:
  "case sdk_run revoked_key_run (counted_new small_options [] 0, no_history) of
     Some (c, h) \<Rightarrow>
       (case sdk_run (LReply (Refused 401 ''revoked'') 10 0 # after_the_refusal) (c, h) of
          Some (c', h') \<Rightarrow>
            cl_disabled c' \<and> hs_tracked h' = hs_tracked h \<and>
            hs_outputs h' = hs_outputs h @ [Warned 401 ''revoked'', Told (DDisabled 401 ''revoked'' 1)]
        | None \<Rightarrow> False)
   | None \<Rightarrow> False"
proof -
  let ?s = "(counted_new small_options [] 0, no_history)"
  let ?l = "LReply (Refused 401 ''revoked'') 10 0 # after_the_refusal"
  have "case sdk_run revoked_key_run ?s of
      Some (c, h) \<Rightarrow> queue_size (cl_queue c) = 1 \<and> so_on_diagnostic (cl_options c) \<and> sdk_run ?l (c, h) \<noteq> None
    | None \<Rightarrow> False"
    by (simp add: sdk_eval overflowing_retry_def revoked_key_run_def after_the_refusal_def on_hidden_def warn_once_def FATAL_STATUSES_def)
  then obtain c h c' h' where r: "sdk_run revoked_key_run ?s = Some (c, h)" "sdk_run ?l (c, h) = Some (c', h')"
    "queue_size (cl_queue c) = 1" "so_on_diagnostic (cl_options c)"
    by (auto simp del: sdk_run.simps split: option.splits)
  have "0 \<le> or_default (so_max_queue_size small_options) 1000" "(401 :: int) \<in> {401, 403}" by (code_simp, simp)
  from rejected_keys_silence_the_client [OF r(1) this r(2)] r show ?thesis
    by (simp add: report_diagnostic_def del: sdk_run.simps)
qed

text \<open>
  A failing server is left alone for a bounded time: after an answer to be retried the batch is
  back at the head of the queue, oldest events giving way, and until the pause ends no flush sends
  anything. The pause is what the server asked for, or a random part of a ceiling that
  doubles with each failure and never passes a minute.
\<close>

theorem backoff_is_bounded:
  assumes "cl_in_flight c = Some (Awaiting batch)" and "0 \<le> random" and "random < 1"
    and "sdk_exec (LReply (Retry status after detail) now random) c = Some (out, c')"
  shows "out = [] \<and>
    cl_queue c' = queue_trim (cl_capacity c) ((cl_queue c)\<lparr>eq_events := batch @ eq_events (cl_queue c)\<rparr>) \<and>
    (case after of
       Some ms \<Rightarrow> cl_paused_until c' = of_int now + ms \<and> cl_attempt c' = cl_attempt c
     | None \<Rightarrow>
         of_int now \<le> cl_paused_until c' \<and> cl_paused_until c' < of_int now + 500 * 2 ^ cl_attempt c \<and>
         cl_paused_until c' < of_int now + 60000 \<and> cl_attempt c' = cl_attempt c + 1) \<and>
    (of_int t < cl_paused_until c' \<longrightarrow>
       fst (flush t (c'\<lparr>cl_in_flight := None\<rparr>)) = [] \<and>
       cl_queue (snd (flush t (c'\<lparr>cl_in_flight := None\<rparr>))) = cl_queue c')"
proof -
  let ?q = "queue_trim (cl_capacity c) ((cl_queue c)\<lparr>eq_events := batch @ eq_events (cl_queue c)\<rparr>)"
  have q: "out = [] \<and> cl_queue c' = ?q"
    using assms(1,4) by (auto simp: Let_def queue_requeue_def split: option.splits)
  have p: "case after of
      Some ms \<Rightarrow> cl_paused_until c' = of_int now + ms \<and> cl_attempt c' = cl_attempt c
    | None \<Rightarrow> cl_paused_until c' = of_int now + random * of_int (backoff_ceiling (cl_attempt c + 1)) \<and>
        cl_attempt c' = cl_attempt c + 1"
    using assms(1,4) by (auto simp: Let_def split: option.splits)
  let ?b = "of_int (backoff_ceiling (cl_attempt c + 1)) :: rat"
  have "0 < ?b" "?b \<le> 500 * 2 ^ cl_attempt c" "?b \<le> 60000"
    by (simp_all add: backoff_ceiling_def of_int_min min_le_iff_disj)
  then have "0 \<le> random * ?b" "random * ?b < 500 * 2 ^ cl_attempt c" "random * ?b < 60000"
    using assms(2,3) mult_strict_right_mono [OF assms(3), of ?b] by (simp, linarith, linarith)
  with p have "case after of
      Some ms \<Rightarrow> cl_paused_until c' = of_int now + ms \<and> cl_attempt c' = cl_attempt c
    | None \<Rightarrow> of_int now \<le> cl_paused_until c' \<and> cl_paused_until c' < of_int now + 500 * 2 ^ cl_attempt c \<and>
        cl_paused_until c' < of_int now + 60000 \<and> cl_attempt c' = cl_attempt c + 1"
    by (simp split: option.splits)
  moreover have "fst (flush t (c'\<lparr>cl_in_flight := None\<rparr>)) = [] \<and>
      cl_queue (snd (flush t (c'\<lparr>cl_in_flight := None\<rparr>))) = cl_queue c'" if "of_int t < cl_paused_until c'"
    using that by (simp add: flush_def drain_def)
  ultimately show ?thesis using q by blast
qed

theorem backoff_is_bounded_witness:
  "case sdk_run revoked_key_run (counted_new small_options [] 0, no_history) of
     Some (c, h) \<Rightarrow>
       (case sdk_exec (LReply (Retry 503 None ''down'') 10 (1/2)) c of
          Some (out, c') \<Rightarrow> cl_paused_until c' < 510 \<and> fst (flush 100 (c'\<lparr>cl_in_flight := None\<rparr>)) = []
        | None \<Rightarrow> False)
   | None \<Rightarrow> False"
proof -
  let ?s = "(counted_new small_options [] 0, no_history)" and ?l = "LReply (Retry 503 None ''down'') 10 (1/2)"
  have "case sdk_run revoked_key_run ?s of
      Some (c, h) \<Rightarrow> carried c \<noteq> [] \<and> cl_attempt c = 0 \<and>
        (case sdk_exec ?l c of Some (out, c') \<Rightarrow> cl_paused_until c' = 260 | None \<Rightarrow> False)
    | None \<Rightarrow> False"
    by (simp add: sdk_eval overflowing_retry_def revoked_key_run_def after_the_refusal_def on_hidden_def warn_once_def FATAL_STATUSES_def)
  then obtain c h out c' where r: "sdk_run revoked_key_run ?s = Some (c, h)" "sdk_exec ?l c = Some (out, c')"
    "carried c \<noteq> []" "cl_attempt c = 0" "cl_paused_until c' = 260"
    by (auto simp del: sdk_run.simps sdk_exec.simps split: option.splits)
  then obtain batch where a: "cl_in_flight c = Some (Awaiting batch)"
    by (auto simp: carried_def split: option.splits flight.splits)
  have "0 \<le> (1/2 :: rat)" "(1/2 :: rat) < 1" by simp_all
  from backoff_is_bounded [OF a this r(2), of 100] r show ?thesis by (simp del: sdk_run.simps sdk_exec.simps)
qed

text \<open>
  C27. A healthy server empties the queue: once the pause is over, a round is a flush that is answered
  with a receipt, and after as many rounds as the queue has batches every queued event has been
  delivered, in order, and none was dropped.
\<close>

theorem flushing_delivers_everything:
  assumes "cl_in_flight c = None" and "\<not> cl_disabled c" and "0 < cl_max_batch_size c"
    and "cl_paused_until c \<le> of_int now"
  defines "rounds \<equiv> nat ((queue_size (cl_queue c) + cl_max_batch_size c - 1) div cl_max_batch_size c)"
  shows "\<exists>c' h'. sdk_run (concat (replicate rounds (sdk_round now r))) (c, h) = Some (c', h') \<and>
    eq_events (cl_queue c') = [] \<and> eq_dropped (cl_queue c') = eq_dropped (cl_queue c) \<and>
    hs_delivered h' = hs_delivered h @ eq_events (cl_queue c) \<and> hs_tracked h' = hs_tracked h"
proof -
  let ?m = "cl_max_batch_size c" and ?s = "queue_size (cl_queue c)"
  have s: "0 \<le> ?s" by (simp add: queue_size_def)
  have eq: "(?s + ?m - 1) div ?m * ?m + (?s + ?m - 1) mod ?m = ?s + ?m - 1" by simp
  have md: "0 \<le> (?s + ?m - 1) mod ?m" "(?s + ?m - 1) mod ?m < ?m" using assms(3) by simp_all
  have "0 \<le> (?s + ?m - 1) div ?m" using s assms(3) by (simp add: pos_imp_zdiv_nonneg_iff)
  then have rounds: "int rounds = (?s + ?m - 1) div ?m" by (simp add: rounds_def)
  have lt: "int rounds * ?m < ?s + ?m" using eq md unfolding rounds by linarith
  have "?s \<le> int rounds * ?m" using eq md unfolding rounds by linarith
  then have "length (eq_events (cl_queue c)) \<le> rounds * nat ?m"
    using assms(3) by (simp add: queue_size_def flip: of_nat_le_iff [where ?'a = int])
  then show ?thesis using sdk_rounds [OF assms(1-4) lt, of r h] by simp
qed

theorem flushing_delivers_everything_witness:
  "case sdk_run overflowing_retry (counted_new small_options [] 0, no_history) of
     Some (c, h) \<Rightarrow>
       \<exists>c' h'. sdk_run (concat (replicate 1 (sdk_round 300 \<lparr> sr_accepted = 2, sr_deduplicated = 0, sr_rejected = 0,
           sr_outcomes = None, sr_quota = None \<rparr>))) (c, h) = Some (c', h') \<and>
         eq_events (cl_queue c') = [] \<and> hs_delivered h' = hs_delivered h @ eq_events (cl_queue c)
   | None \<Rightarrow> False"
proof -
  let ?s = "(counted_new small_options [] 0, no_history)"
  have "case sdk_run overflowing_retry ?s of
      Some (c, h) \<Rightarrow> cl_in_flight c = None \<and> \<not> cl_disabled c \<and> cl_max_batch_size c = 2 \<and> cl_paused_until c = 260 \<and>
        queue_size (cl_queue c) = 2
    | None \<Rightarrow> False"
    by (simp add: sdk_eval overflowing_retry_def revoked_key_run_def after_the_refusal_def on_hidden_def warn_once_def FATAL_STATUSES_def)
  then obtain c h where r: "sdk_run overflowing_retry ?s = Some (c, h)" "cl_in_flight c = None" "\<not> cl_disabled c"
    "cl_max_batch_size c = 2" "cl_paused_until c = 260" "queue_size (cl_queue c) = 2"
    by (auto simp del: sdk_run.simps split: option.splits)
  have "0 < cl_max_batch_size c" "cl_paused_until c \<le> of_int 300" using r by simp_all
  from flushing_delivers_everything [OF r(2,3) this] r show ?thesis by (simp del: sdk_run.simps) blast
qed

text \<open>The one flush of \<open>shutdown\<close> sends a single batch: what does not fit in it stays behind.\<close>

lemma shutdown_leaves_events:
  assumes "cl_in_flight c = None" and "\<not> cl_disabled c" and "cl_paused_until c \<le> of_int now"
    and "0 < cl_max_batch_size c" and "cl_max_batch_size c < queue_size (cl_queue c)"
  shows "\<exists>out c'. shutdown now c = (out, c') \<and> out = [Post (take (nat (cl_max_batch_size c)) (eq_events (cl_queue c)))] \<and>
    eq_events (cl_queue c') \<noteq> [] \<and> cl_closed c' \<and> \<not> cl_timer c'"
  using assms by (auto simp: shutdown_def flush_def drain_def queue_take_def queue_size_def)

end
