(* ===== verification/SdkPlatform.thy ===== *)
theory SdkPlatform
  imports EventText
begin

text \<open>
  What the JavaScript SDK says of the machine it runs on, packages/sdk-js/src/platform.ts. The
  globals it looks at are the record \<open>runtime\<close>; its regular expressions are run.
\<close>

record runtime =
  rt_user_agent :: "string option"
  rt_platform :: "string option"
  rt_language :: "string option"
  rt_lc_all :: "string option"
  rt_lang :: "string option"

section \<open>The platform\<close>

definition NODE_PLATFORMS :: "(string \<times> string) list" where
  "NODE_PLATFORMS = [(''darwin'', ''macos''), (''win32'', ''windows''), (''linux'', ''linux''),
     (''freebsd'', ''freebsd''), (''openbsd'', ''freebsd''), (''android'', ''android'')]"

text \<open>Each rule is the alternatives of its expression and the platform it stands for.\<close>

definition USER_AGENT_RULES :: "(string list \<times> string) list" where
  "USER_AGENT_RULES =
     [([''iPad''], ''ipados''), ([''iPhone'', ''iPod''], ''ios''), ([''Android''], ''android''),
      ([''CrOS''], ''chromeos''), ([''Macintosh'', ''Mac OS X''], ''macos''), ([''Windows''], ''windows''),
      ([''FreeBSD'', ''OpenBSD'', ''NetBSD''], ''freebsd''), ([''Linux'', ''X11''], ''linux'')]"

fun occurs_in :: "string \<Rightarrow> string \<Rightarrow> bool" where
  "occurs_in needle [] = (needle = [])"
| "occurs_in needle (c # cs) = (take (length needle) (c # cs) = needle \<or> occurs_in needle cs)"

definition rule_matches :: "string \<Rightarrow> string list \<times> string \<Rightarrow> bool" where
  "rule_matches ua r = list_ex (\<lambda>alt. occurs_in (js_lower alt) (js_lower ua)) (fst r)"

text \<open>Where a name is not in the table, \<open>Object.prototype\<close> may still have it.\<close>

definition node_platform :: "string \<Rightarrow> os_value" where
  "node_platform node =
     (case map_of NODE_PLATFORMS node of
        Some p \<Rightarrow> OsName p
      | None \<Rightarrow> if node \<in> set INHERITED_NAMES then InheritedMember node else OsName ''other'')"

definition detect_platform :: "runtime \<Rightarrow> os_value" where
  "detect_platform rt =
     (case Option.bind (rt_user_agent rt) (\<lambda>ua. find (rule_matches ua) USER_AGENT_RULES) of
        Some r \<Rightarrow> OsName (snd r)
      | None \<Rightarrow> (case rt_platform rt of Some node \<Rightarrow> node_platform node | None \<Rightarrow> OsName ''other''))"

section \<open>Its version\<close>

definition is_digit :: "char \<Rightarrow> bool" where
  "is_digit c = (48 \<le> (of_char c :: nat) \<and> of_char c \<le> (57 :: nat))"

text \<open>The first place where the literal is followed by what the rest of the expression takes.\<close>

fun first_after :: "string \<Rightarrow> (string \<Rightarrow> string option) \<Rightarrow> string \<Rightarrow> string option" where
  "first_after lit f [] = None"
| "first_after lit f (c # cs) =
     (case (if take (length lit) (c # cs) = lit then f (drop (length lit) (c # cs)) else None) of
        Some v \<Rightarrow> Some v
      | None \<Rightarrow> first_after lit f cs)"

text \<open>\<open>\d+[._]\d+([._]\d+)?\<close>, with what follows it.\<close>

definition is_joint :: "char \<Rightarrow> bool" where
  "is_joint c = (c = CHR ''.'' \<or> c = CHR ''_'')"

definition next_part :: "(char \<Rightarrow> bool) \<Rightarrow> string \<Rightarrow> (string \<times> string) option" where
  "next_part joint s =
     (case s of
        [] \<Rightarrow> None
      | c # cs \<Rightarrow>
          (let d = takeWhile is_digit cs
           in if joint c \<and> length d > 0 then Some (c # d, dropWhile is_digit cs) else None))"

definition joined_version :: "string \<Rightarrow> (string \<times> string) option" where
  "joined_version s =
     (let d = takeWhile is_digit s
      in if length d = 0 then None
         else (case next_part is_joint (dropWhile is_digit s) of
                 None \<Rightarrow> None
               | Some (p, rest) \<Rightarrow>
                   (case next_part is_joint rest of
                      None \<Rightarrow> Some (d @ p, rest)
                    | Some (q, rest') \<Rightarrow> Some (d @ p @ q, rest'))))"

definition windows_version :: "string \<Rightarrow> string option" where
  "windows_version s =
     (let d = takeWhile is_digit s
      in if length d = 0 then None
         else map_option (\<lambda>(p, _). d @ p) (next_part (\<lambda>c. c = CHR ''.'') (dropWhile is_digit s)))"

text \<open>\<open>\d+(\.\d+)*\<close>: a dot is taken where a digit follows it.\<close>

fun dotted :: "string \<Rightarrow> string" where
  "dotted [] = []"
| "dotted (c # cs) =
     (if is_digit c then c # dotted cs
      else if c = CHR ''.'' \<and> length (takeWhile is_digit cs) > 0 then c # dotted cs
      else [])"

definition android_version :: "string \<Rightarrow> string option" where
  "android_version s = (if length (takeWhile is_digit s) = 0 then None else Some (dotted s))"

definition underscores_to_dots :: "string \<Rightarrow> string" where
  "underscores_to_dots s = map (\<lambda>c. if c = CHR ''_'' then CHR ''.'' else c) s"

definition ios_version :: "string \<Rightarrow> string option" where
  "ios_version s =
     (case joined_version s of
        None \<Rightarrow> None
      | Some (v, rest) \<Rightarrow> if take 14 rest = '' like Mac OS X'' then Some v else None)"

definition first_of :: "'a option list \<Rightarrow> 'a option" where
  "first_of os = (case find (\<lambda>x. x \<noteq> None) os of None \<Rightarrow> None | Some v \<Rightarrow> v)"

definition os_version_of :: "string \<Rightarrow> string option" where
  "os_version_of ua =
     first_of
       [map_option underscores_to_dots (first_after ''Mac OS X '' (\<lambda>s. map_option fst (joined_version s)) ua),
        first_after ''Windows NT '' windows_version ua,
        first_after ''Android '' android_version ua,
        map_option underscores_to_dots (first_after ''OS '' ios_version ua)]"

definition os_version :: "runtime \<Rightarrow> string option" where
  "os_version rt = Option.bind (rt_user_agent rt) os_version_of"

section \<open>Locale and the whole\<close>

text \<open>\<open>replace\<close> with a text replaces its first occurrence.\<close>

fun first_underscore :: "string \<Rightarrow> string" where
  "first_underscore [] = []"
| "first_underscore (c # cs) = (if c = CHR ''_'' then CHR ''-'' # cs else c # first_underscore cs)"

definition locale_tag :: "runtime \<Rightarrow> string option" where
  "locale_tag rt =
     (case rt_language rt of
        Some l \<Rightarrow> Some l
      | None \<Rightarrow>
          (case (case rt_lc_all rt of Some s \<Rightarrow> Some s | None \<Rightarrow> rt_lang rt) of
             None \<Rightarrow> None
           | Some raw \<Rightarrow>
               if length raw = 0 then None
               else (let tag = takeWhile (\<lambda>c. c \<noteq> CHR ''.'') raw
                     in if length tag = 0 then None else Some (first_underscore tag))))"

record detected_system =
  ds_os_name :: os_value
  ds_os_version :: "string option"
  ds_locale :: "string option"
  ds_app_version :: "string option"
  ds_device_model :: "string option"
  ds_sdk_version :: string

definition detect_system :: "string option \<Rightarrow> string \<Rightarrow> runtime \<Rightarrow> detected_system" where
  "detect_system app_version sdk_version rt =
     \<lparr> ds_os_name = detect_platform rt, ds_os_version = os_version rt, ds_locale = locale_tag rt,
       ds_app_version = app_version, ds_device_model = None, ds_sdk_version = sdk_version \<rparr>"

section \<open>Facts\<close>

lemma detected_name:
  assumes "\<forall>node. rt_platform rt = Some node \<longrightarrow> node \<notin> set INHERITED_NAMES"
  obtains s where "detect_platform rt = OsName s" "s \<in> set (''other'' # map snd NODE_PLATFORMS @ map snd USER_AGENT_RULES)"
proof (cases "Option.bind (rt_user_agent rt) (\<lambda>ua. find (rule_matches ua) USER_AGENT_RULES)")
  case (Some r)
  then obtain ua where "find (rule_matches ua) USER_AGENT_RULES = Some r"
    by (cases "rt_user_agent rt") auto
  then have "r \<in> set USER_AGENT_RULES" by (simp add: find_Some_iff_mem)
  then show thesis using that [of "snd r"] Some by (simp add: detect_platform_def)
next
  case None
  show thesis
  proof (cases "rt_platform rt")
    case (Some node)
    show thesis
    proof (cases "map_of NODE_PLATFORMS node")
      case (Some p)
      then have "p \<in> set (map snd NODE_PLATFORMS)" using map_of_SomeD by force
      then show thesis using that [of p] \<open>rt_platform rt = Some node\<close> Some None
        by (simp add: detect_platform_def node_platform_def)
    qed (use that [of "''other''"] Some None assms in \<open>simp add: detect_platform_def node_platform_def\<close>)
  qed (use that [of "''other''"] None in \<open>simp add: detect_platform_def\<close>)
qed

lemma platforms_canonical:
  "list_all (\<lambda>s. s \<in> set OS_NAMES \<and>
      canonical_os_name (as_bounded_string (JStr s)) = \<lparr> os_name = OsName s, os_name_raw = None \<rparr>)
    (''other'' # map snd NODE_PLATFORMS @ map snd USER_AGENT_RULES)"
  by code_simp

definition is_version_text :: "string \<Rightarrow> bool" where
  "is_version_text s = list_all (\<lambda>c. is_digit c \<or> c = CHR ''.'') s"

lemma first_after_Some: "first_after lit f s = Some v \<Longrightarrow> \<exists>t. f t = Some v"
  by (induction s) (auto split: option.splits if_splits)

lemma digits_taken: "c \<in> set (takeWhile is_digit s) \<Longrightarrow> is_digit c"
  by (rule set_takeWhileD [THEN conjunct2])

lemma next_part_chars: "next_part joint s = Some (p, rest) \<Longrightarrow> \<forall>c \<in> set p. is_digit c \<or> joint c"
  by (auto simp: next_part_def Let_def digits_taken split: list.splits if_splits)

lemma joined_version_chars:
  assumes "joined_version s = Some (v, rest)" and "c \<in> set v" shows "is_digit c \<or> is_joint c"
  using assms by (auto simp: joined_version_def Let_def split: if_splits option.splits dest!: next_part_chars)
    (blast dest: digits_taken)+

lemma version_text_dots: "\<forall>c \<in> set v. is_digit c \<or> is_joint c \<Longrightarrow> is_version_text (underscores_to_dots v)"
  by (auto simp: is_version_text_def underscores_to_dots_def is_joint_def list_all_iff)

lemma dotted_chars: "is_version_text (dotted s)"
  by (induction s rule: dotted.induct) (auto simp: is_version_text_def)

lemma windows_version_chars: "windows_version s = Some v \<Longrightarrow> is_version_text v"
  by (auto simp: windows_version_def is_version_text_def list_all_iff Let_def split: if_splits
      dest!: next_part_chars dest: digits_taken)

lemma os_version_text:
  assumes "os_version rt = Some v" shows "is_version_text v"
proof -
  obtain ua where "os_version_of ua = Some v" using assms by (auto simp: os_version_def bind_eq_Some_conv)
  then consider t w rest where "joined_version t = Some (w, rest)" "v = underscores_to_dots w"
    | t where "windows_version t = Some v" | t where "android_version t = Some v"
    by (auto simp: os_version_of_def first_of_def ios_version_def split: option.splits if_splits dest!: first_after_Some)
  then show ?thesis
  proof cases
    case (1 t w rest)
    then show ?thesis using joined_version_chars [OF 1(1)] by (simp add: version_text_dots)
  next
    case (3 t)
    then show ?thesis by (auto simp: android_version_def dotted_chars split: if_splits)
  qed (rule windows_version_chars)
qed

section \<open>Properties\<close>


definition an_ipad :: runtime where
  "an_ipad = \<lparr> rt_user_agent = Some ''Mozilla/5.0 (iPad; CPU OS 16_5 like Mac OS X) AppleWebKit'',
     rt_platform = None, rt_language = Some ''en-GB'', rt_lc_all = None, rt_lang = None \<rparr>"


end
