(* ===== verification/Aptabase.thy ===== *)
theory Aptabase
  imports Admission Calendar
begin

text \<open>
  The translation of another product's events, packages/aptabase-compat/src: request bodies
  (translate.ts), where a client puts its key (keys.ts) and the answers it understands
  (respond.ts). The reading of a date is a parameter.
\<close>

section \<open>Translation\<close>

record translated_event =
  te_name :: string
  te_visit_id :: string
  te_occurred_at :: "string option"
  te_properties :: "(string \<times> json) list option"
  te_system :: "(string \<times> string option) list option"

definition as_object :: "json \<Rightarrow> (string \<times> json) list option" where
  "as_object v = (case v of JObj kvs \<Rightarrow> Some kvs | _ \<Rightarrow> None)"

definition as_string :: "json \<Rightarrow> string option" where
  "as_string v = (case v of JStr s \<Rightarrow> if length s > 0 then Some s else None | _ \<Rightarrow> None)"

definition SYSTEM_FIELDS :: "(string \<times> string) list" where
  "SYSTEM_FIELDS = [(''osName'', ''os_name''), (''osVersion'', ''os_version''), (''locale'', ''locale''),
     (''appVersion'', ''app_version''), (''deviceModel'', ''device_model''), (''sdkVersion'', ''sdk_version'')]"

definition AS_PROPERTIES :: "(string \<times> string) list" where
  "AS_PROPERTIES = [(''isDebug'', ''aptabase_is_debug''), (''appBuildNumber'', ''aptabase_app_build_number'')]"

definition MAX_BATCH :: nat where
  "MAX_BATCH = 250"

definition is_plain :: "json \<Rightarrow> bool" where
  "is_plain v = (case v of JStr _ \<Rightarrow> True | JNum _ \<Rightarrow> True | JInfinite \<Rightarrow> True | JBool _ \<Rightarrow> True | _ \<Rightarrow> False)"

fun system_fields :: "(string \<times> json) list \<Rightarrow> (string \<times> string) list \<Rightarrow> (string \<times> string option) list" where
  "system_fields source [] = []"
| "system_fields source ((theirs, ours) # fs) =
     (case json_get (JObj source) theirs of
        JNull \<Rightarrow> (ours, None) # system_fields source fs
      | JStr s \<Rightarrow> (ours, Some s) # system_fields source fs
      | _ \<Rightarrow> system_fields source fs)"

text \<open>
  \<open>properties[key] = value\<close>: a plain value under the key \<open>__proto__\<close> meets the inherited
  setter and is not stored.
\<close>

fun plain_entries :: "(string \<times> json) list \<Rightarrow> (string \<times> json) list \<Rightarrow> (string \<times> json) list" where
  "plain_entries ps [] = ps"
| "plain_entries ps ((k, v) # kvs) =
     (if (v = JNull \<or> is_plain v) \<and> k \<noteq> ''__proto__'' then plain_entries (map_put k v ps) kvs
      else plain_entries ps kvs)"

fun carried_fields ::
  "(string \<times> json) list \<Rightarrow> (string \<times> json) list \<Rightarrow> (string \<times> string) list \<Rightarrow> (string \<times> json) list" where
  "carried_fields source ps [] = ps"
| "carried_fields source ps ((theirs, ours) # fs) =
     (let v = json_get (JObj source) theirs
      in carried_fields source (if is_plain v then map_put ours v ps else ps) fs)"

text \<open>\<open>new Date(value).getTime()\<close>, where it is finite.\<close>

definition date_of :: "(string \<Rightarrow> int option) \<Rightarrow> json \<Rightarrow> instant option" where
  "date_of date_parse v =
     (case v of
        JStr s \<Rightarrow> date_parse s
      | JNum n \<Rightarrow> if \<bar>n\<bar> \<le> MAX_EPOCH_MILLIS then Some n else None
      | _ \<Rightarrow> None)"

definition event_refused :: "nat \<Rightarrow> string \<Rightarrow> string" where
  "event_refused i why = ''events['' @ show_nat i @ '']: '' @ why"

definition translate_one :: "(string \<Rightarrow> int option) \<Rightarrow> json \<Rightarrow> nat \<Rightarrow> string + translated_event" where
  "translate_one date_parse raw i =
     (if as_object raw = None then Inl (event_refused i ''not an object'')
      else
        (case as_string (json_get raw ''eventName'') of
           None \<Rightarrow> Inl (event_refused i ''eventName is required'')
         | Some name \<Rightarrow>
             (case as_string (json_get raw ''sessionId'') of
                None \<Rightarrow> Inl (event_refused i ''sessionId is required'')
              | Some session \<Rightarrow>
                  (let system = (case as_object (json_get raw ''systemProps'') of Some s \<Rightarrow> s | None \<Rightarrow> []);
                       sys = system_fields system SYSTEM_FIELDS;
                       own = (case as_object (json_get raw ''props'') of Some kvs \<Rightarrow> plain_entries [] kvs | None \<Rightarrow> []);
                       props = carried_fields system own AS_PROPERTIES
                   in Inr \<lparr> te_name = name, te_visit_id = session,
                            te_occurred_at = map_option instant_to_iso (date_of date_parse (json_get raw ''timestamp'')),
                            te_properties = (if length props > 0 then Some props else None),
                            te_system = (if length sys > 0 then Some sys else None) \<rparr>))))"

fun translate_loop ::
  "(string \<Rightarrow> int option) \<Rightarrow> translated_event list \<Rightarrow> nat \<Rightarrow> json list \<Rightarrow> string + translated_event list" where
  "translate_loop date_parse events i [] = Inr events"
| "translate_loop date_parse events i (raw # raws) =
     (case translate_one date_parse raw i of
        Inl reason \<Rightarrow> Inl reason
      | Inr e \<Rightarrow> translate_loop date_parse (events @ [e]) (i + 1) raws)"

definition batch_of :: "json \<Rightarrow> json list" where
  "batch_of body = (case body of JArr vs \<Rightarrow> vs | v \<Rightarrow> [v])"

definition translate :: "(string \<Rightarrow> int option) \<Rightarrow> json \<Rightarrow> string + translated_event list" where
  "translate date_parse body =
     (let batch = batch_of body
      in if length batch = 0 then Inl ''empty batch''
         else if length batch > MAX_BATCH then Inl (''batch exceeds '' @ show_nat MAX_BATCH @ '' events'')
         else translate_loop date_parse [] 0 batch)"

section \<open>Keys and answers\<close>

text \<open>The regular expression \<open>^A-[A-Z]{2,4}-\d{10,}$\<close>, run.\<close>

definition is_capital :: "char \<Rightarrow> bool" where
  "is_capital c = (65 \<le> (of_char c :: nat) \<and> of_char c \<le> (90 :: nat))"

definition is_decimal :: "char \<Rightarrow> bool" where
  "is_decimal c = (48 \<le> (of_char c :: nat) \<and> of_char c \<le> (57 :: nat))"

definition looks_like_aptabase_key :: "string \<Rightarrow> bool" where
  "looks_like_aptabase_key key =
     (take 2 key = ''A-'' \<and>
      (let rest = drop 2 key; region = takeWhile is_capital rest; tl1 = dropWhile is_capital rest
       in 2 \<le> length region \<and> length region \<le> 4 \<and>
          (case tl1 of
             [] \<Rightarrow> False
           | c # digits \<Rightarrow> c = CHR ''-'' \<and> 10 \<le> length digits \<and> list_all is_decimal digits)))"

datatype key_source = AppKey | ProjectKey | Query

definition presented_key :: "(string \<Rightarrow> string option) \<Rightarrow> string option \<Rightarrow> (string \<times> key_source) option" where
  "presented_key headers query =
     (case headers ''app-key'' of
        Some (c # cs) \<Rightarrow> Some (c # cs, AppKey)
      | _ \<Rightarrow>
          (case headers ''project-key'' of
             Some (c # cs) \<Rightarrow> Some (c # cs, ProjectKey)
           | _ \<Rightarrow> (case query of Some (c # cs) \<Rightarrow> Some (c # cs, Query) | _ \<Rightarrow> None)))"

text \<open>A body is the object that is written as JSON.\<close>

record compat_response =
  cr_status :: int
  cr_body :: "(string \<times> string) list option"
  cr_headers :: "(string \<times> string) list"

definition JSON_HEADERS :: "(string \<times> string) list" where
  "JSON_HEADERS = [(''content-type'', ''application/json'')]"

definition accepted_response :: compat_response where
  "accepted_response = \<lparr> cr_status = 200, cr_body = None, cr_headers = [] \<rparr>"

definition bad_request :: "string \<Rightarrow> compat_response" where
  "bad_request reason = \<lparr> cr_status = 400, cr_body = Some [(''error'', reason)], cr_headers = JSON_HEADERS \<rparr>"

definition unauthorized_response :: "string \<Rightarrow> compat_response" where
  "unauthorized_response detail = \<lparr> cr_status = 401, cr_body = Some [(''error'', detail)], cr_headers = JSON_HEADERS \<rparr>"

definition too_large :: compat_response where
  "too_large = \<lparr> cr_status = 413, cr_body = Some [(''error'', ''Payload too large'')], cr_headers = JSON_HEADERS \<rparr>"

definition rate_limited :: "int \<Rightarrow> compat_response" where
  "rate_limited seconds =
     \<lparr> cr_status = 429, cr_body = Some [(''error'', ''Too many requests'')],
       cr_headers = map_put ''retry-after'' (show_int seconds) JSON_HEADERS \<rparr>"

definition gone :: "string \<Rightarrow> compat_response" where
  "gone path =
     \<lparr> cr_status = 410,
       cr_body = Some [(''error'', path @ '' was removed in the v1 API.''), (''successor'', ''/v1/openapi.json'')],
       cr_headers = map_put ''link'' (''</v1/openapi.json>; rel='' @ [CHR 0x22] @ ''successor-version'' @ [CHR 0x22]) JSON_HEADERS \<rparr>"

section \<open>Facts\<close>

definition translatable :: "json \<Rightarrow> bool" where
  "translatable v \<longleftrightarrow> (\<exists>kvs. v = JObj kvs) \<and> as_string (json_get v ''eventName'') \<noteq> None \<and>
     as_string (json_get v ''sessionId'') \<noteq> None"

lemma translate_one_Inr: "(\<exists>e. translate_one date_parse v i = Inr e) \<longleftrightarrow> translatable v"
proof -
  have "(\<exists>kvs. v = JObj kvs) \<longleftrightarrow> as_object v \<noteq> None" by (cases v) (simp_all add: as_object_def)
  then show ?thesis
    by (cases "as_object v"; cases "as_string (json_get v ''eventName'')"; cases "as_string (json_get v ''sessionId'')")
      (simp_all add: translate_one_def translatable_def Let_def)
qed

lemma translatable_intro: "translate_one date_parse v i = Inr e \<Longrightarrow> translatable v"
  using translate_one_Inr by blast

lemma translate_one_index:
  "translate_one date_parse v i = Inr e \<longleftrightarrow> translate_one date_parse v j = Inr e"
  by (cases "as_object v"; cases "as_string (json_get v ''eventName'')"; cases "as_string (json_get v ''sessionId'')")
    (simp_all add: translate_one_def Let_def)

lemma translate_loop_Inr:
  "translate_loop date_parse es i vs = Inr res \<longleftrightarrow>
     (\<exists>ts. res = es @ ts \<and> list_all2 (\<lambda>v e. translate_one date_parse v 0 = Inr e) vs ts)"
proof (induction vs arbitrary: es i)
  case (Cons v vs)
  show ?case
  proof (cases "translate_one date_parse v i")
    case (Inl e)
    then have "translate_one date_parse v 0 \<noteq> Inr t" for t
      using translate_one_index [of date_parse v i t 0] by simp
    then show ?thesis using Inl by (auto simp: list_all2_Cons1)
  next
    case (Inr t)
    then have "translate_one date_parse v 0 = Inr t" using translate_one_index by blast
    then show ?thesis using Inr Cons.IH by (auto simp: list_all2_Cons1)
  qed
qed auto

lemma translate_loop_Inl:
  "translate_loop date_parse es i vs = Inl reason \<longleftrightarrow>
     (\<exists>k < length vs. (\<forall>m < k. translatable (vs ! m)) \<and> translate_one date_parse (vs ! k) (i + k) = Inl reason)"
proof (induction vs arbitrary: es i)
  case (Cons v vs)
  show ?case
  proof (cases "translate_one date_parse v i")
    case (Inl e)
    then have "\<not> translatable v" using translate_one_Inr [of date_parse v i] by simp
    then have "(\<forall>m < k. translatable ((v # vs) ! m)) \<longleftrightarrow> k = 0" for k by (cases k) auto
    then show ?thesis using Inl by auto
  next
    case (Inr t)
    then have t: "translatable v" using translate_one_Inr by blast
    have "(\<exists>k < length (v # vs). (\<forall>m < k. translatable ((v # vs) ! m)) \<and>
          translate_one date_parse ((v # vs) ! k) (i + k) = Inl reason) \<longleftrightarrow>
        (\<exists>k < length vs. (\<forall>m < k. translatable (vs ! m)) \<and> translate_one date_parse (vs ! k) (i + 1 + k) = Inl reason)"
      (is "?a \<longleftrightarrow> ?b")
    proof
      assume ?a
      then obtain k where k: "k < length (v # vs)" "\<forall>m < k. translatable ((v # vs) ! m)"
        "translate_one date_parse ((v # vs) ! k) (i + k) = Inl reason" by blast
      then obtain j where "k = Suc j" using Inr by (cases k) auto
      with k show ?b by (intro exI [of _ j]) auto
    next
      assume ?b
      then obtain k where k: "k < length vs" "\<forall>m < k. translatable (vs ! m)"
        "translate_one date_parse (vs ! k) (i + 1 + k) = Inl reason" by blast
      then have "\<forall>m < Suc k. translatable ((v # vs) ! m)" using t by (auto simp: less_Suc_eq_0_disj)
      with k show ?a by (intro exI [of _ "Suc k"]) auto
    qed
    then show ?thesis using Inr Cons.IH by simp
  qed
qed simp

lemma plain_plain_entries:
  "(\<forall>(k, v) \<in> set ps. v = JNull \<or> is_plain v) \<Longrightarrow> \<forall>(k, v) \<in> set (plain_entries ps kvs). v = JNull \<or> is_plain v"
proof (induction ps kvs rule: plain_entries.induct)
  case (2 ps k v kvs)
  have "\<forall>(k, v) \<in> set (map_put k v ps). v = JNull \<or> is_plain v" if "v = JNull \<or> is_plain v"
    using list_all_map_put [of "\<lambda>(k, v). v = JNull \<or> is_plain v" k v ps] that "2.prems" by (simp add: list_all_iff)
  then show ?case using 2 by simp
qed simp

lemma plain_carried_fields:
  "(\<forall>(k, v) \<in> set ps. v = JNull \<or> is_plain v) \<Longrightarrow> \<forall>(k, v) \<in> set (carried_fields source ps fs). v = JNull \<or> is_plain v"
proof (induction source ps fs rule: carried_fields.induct)
  case (2 source ps theirs ours fs)
  let ?v = "json_get (JObj source) theirs"
  have "\<forall>(k, v) \<in> set (map_put ours ?v ps). v = JNull \<or> is_plain v" if "is_plain ?v"
    using list_all_map_put [of "\<lambda>(k, v). v = JNull \<or> is_plain v" ours ?v ps] that "2.prems" by (simp add: list_all_iff)
  then show ?case using 2 by (simp add: Let_def)
qed simp

lemma translated_fields:
  assumes "translate_one date_parse v i = Inr e"
  shows "te_name e \<noteq> []" "te_visit_id e \<noteq> []" "json_get v ''eventName'' = JStr (te_name e)"
    "json_get v ''sessionId'' = JStr (te_visit_id e)"
    "\<forall>ps. te_properties e = Some ps \<longrightarrow> ps \<noteq> [] \<and> (\<forall>(k, w) \<in> set ps. w = JNull \<or> is_plain w)"
proof -
  let ?sys = "case as_object (json_get v ''systemProps'') of Some s \<Rightarrow> s | None \<Rightarrow> []"
  let ?own = "case as_object (json_get v ''props'') of Some kvs \<Rightarrow> plain_entries [] kvs | None \<Rightarrow> []"
  let ?props = "carried_fields ?sys ?own AS_PROPERTIES"
  have "\<exists>name session. as_string (json_get v ''eventName'') = Some name \<and>
      as_string (json_get v ''sessionId'') = Some session \<and> te_name e = name \<and> te_visit_id e = session \<and>
      te_properties e = (if length ?props > 0 then Some ?props else None)"
    using assms
    by (cases "as_object v"; cases "as_string (json_get v ''eventName'')"; cases "as_string (json_get v ''sessionId'')")
      (auto simp: translate_one_def Let_def)
  then obtain name session where e:
    "as_string (json_get v ''eventName'') = Some name" "as_string (json_get v ''sessionId'') = Some session"
    "te_name e = name" "te_visit_id e = session"
    "te_properties e = (if length ?props > 0 then Some ?props else None)"
    by blast
  then show "te_name e \<noteq> []" "te_visit_id e \<noteq> []" "json_get v ''eventName'' = JStr (te_name e)"
    "json_get v ''sessionId'' = JStr (te_visit_id e)"
    by (auto simp: as_string_def split: json.splits if_splits)
  have "\<forall>(k, w) \<in> set ?own. w = JNull \<or> is_plain w"
    using plain_plain_entries [of "[]"] by (cases "as_object (json_get v ''props'')") auto
  from plain_carried_fields [OF this, of ?sys AS_PROPERTIES] e(5)
  show "\<forall>ps. te_properties e = Some ps \<longrightarrow> ps \<noteq> [] \<and> (\<forall>(k, w) \<in> set ps. w = JNull \<or> is_plain w)"
    by (simp split: if_splits)
qed

section \<open>Properties\<close>

text \<open>
  C28. A foreign batch is translated whole or not at all: it is accepted exactly when it has between one
  and 250 events and each is an object with a name and a session, and then every event is translated
  on its own and in order, keeping name and session and carrying plain properties only; otherwise
  the reason names the size or the first event that cannot be read.
\<close>

theorem translation_is_all_or_nothing:
  "(case translate date_parse body of
      Inr es \<Rightarrow>
        list_all2 (\<lambda>v e. translate_one date_parse v 0 = Inr e) (batch_of body) es \<and>
        (\<forall>e \<in> set es. te_name e \<noteq> [] \<and> te_visit_id e \<noteq> [] \<and>
           (\<forall>ps. te_properties e = Some ps \<longrightarrow> ps \<noteq> [] \<and> (\<forall>(k, w) \<in> set ps. w = JNull \<or> is_plain w)))
    | Inl reason \<Rightarrow>
        batch_of body = [] \<and> reason = ''empty batch'' \<or>
        250 < length (batch_of body) \<and> reason = ''batch exceeds 250 events'' \<or>
        (\<exists>k < length (batch_of body). \<not> translatable (batch_of body ! k) \<and>
           (\<forall>m < k. translatable (batch_of body ! m)) \<and>
           translate_one date_parse (batch_of body ! k) k = Inl reason)) \<and>
   ((\<exists>es. translate date_parse body = Inr es) \<longleftrightarrow>
      1 \<le> length (batch_of body) \<and> length (batch_of body) \<le> 250 \<and> list_all translatable (batch_of body))"
proof -
  let ?b = "batch_of body"
  have max: "''batch exceeds '' @ show_nat MAX_BATCH @ '' events'' = ''batch exceeds 250 events''" by code_simp
  have whole: "(\<exists>es. translate_loop date_parse [] 0 ?b = Inr es) \<longleftrightarrow> list_all translatable ?b"
  proof
    assume "\<exists>es. translate_loop date_parse [] 0 ?b = Inr es"
    then obtain es where "list_all2 (\<lambda>v e. translate_one date_parse v 0 = Inr e) ?b es"
      by (auto simp: translate_loop_Inr)
    then show "list_all translatable ?b"
      using translatable_intro by (auto simp: list_all_length list_all2_conv_all_nth)
  next
    assume all: "list_all translatable ?b"
    show "\<exists>es. translate_loop date_parse [] 0 ?b = Inr es"
    proof (cases "translate_loop date_parse [] 0 ?b")
      case (Inl reason)
      then obtain k where "k < length ?b" "translate_one date_parse (?b ! k) k = Inl reason"
        by (auto simp: translate_loop_Inl)
      moreover have "translatable (?b ! k)" using all calculation(1) by (simp add: list_all_iff)
      ultimately show ?thesis using translate_one_Inr [of date_parse "?b ! k" k] by simp
    qed blast
  qed
  show ?thesis
  proof (cases "translate date_parse body")
    case (Inl reason)
    then consider "?b = []" "reason = ''empty batch''"
      | "250 < length ?b" "reason = ''batch exceeds 250 events''"
      | "translate_loop date_parse [] 0 ?b = Inl reason" "?b \<noteq> []" "length ?b \<le> 250"
      unfolding translate_def Let_def max
      by (cases "length ?b = 0"; cases "length ?b > MAX_BATCH") (simp_all add: MAX_BATCH_def not_less)
    then show ?thesis
    proof cases
      case 3
      then obtain k where k: "k < length ?b" "\<forall>m < k. translatable (?b ! m)"
        "translate_one date_parse (?b ! k) k = Inl reason"
        by (auto simp: translate_loop_Inl)
      then have "\<not> translatable (?b ! k)" using translate_one_Inr [of date_parse "?b ! k" k] by simp
      with k have "\<exists>k < length ?b. \<not> translatable (?b ! k) \<and> (\<forall>m < k. translatable (?b ! m)) \<and>
          translate_one date_parse (?b ! k) k = Inl reason" "\<not> list_all translatable ?b"
        by (blast, auto simp: list_all_length)
      then show ?thesis unfolding Inl by simp
    qed (simp_all add: Inl)
  next
    case (Inr es)
    then have l: "translate_loop date_parse [] 0 ?b = Inr es" "?b \<noteq> []" "length ?b \<le> 250"
      by (auto simp: translate_def MAX_BATCH_def Let_def split: if_splits)
    then have a: "list_all2 (\<lambda>v e. translate_one date_parse v 0 = Inr e) ?b es" by (auto simp: translate_loop_Inr)
    have "\<exists>v. translate_one date_parse v 0 = Inr e" if "e \<in> set es" for e
      using a that by (auto simp: list_all2_conv_all_nth in_set_conv_nth)
    then have "\<forall>e \<in> set es. te_name e \<noteq> [] \<and> te_visit_id e \<noteq> [] \<and>
        (\<forall>ps. te_properties e = Some ps \<longrightarrow> ps \<noteq> [] \<and> (\<forall>(k, w) \<in> set ps. w = JNull \<or> is_plain w))"
      using translated_fields by metis
    then show ?thesis using Inr a l whole by (simp add: Suc_le_eq)
  qed
qed

definition foreign_batch :: json where
  "foreign_batch = JArr [
     JObj [(''eventName'', JStr ''opened''), (''sessionId'', JStr ''s1''),
       (''props'', JObj [(''plan'', JStr ''pro''), (''nested'', JArr [])]),
       (''systemProps'', JObj [(''osName'', JStr ''macOS''), (''isDebug'', JBool True)])],
     JObj [(''eventName'', JStr ''closed''), (''sessionId'', JNull)]]"

theorem translation_is_all_or_nothing_witness:
  "translate (\<lambda>_. None) foreign_batch = Inl ''events[1]: sessionId is required'' \<and>
   (case translate (\<lambda>_. None) (hd (batch_of foreign_batch)) of
      Inr [e] \<Rightarrow> te_properties e = Some [(''plan'', JStr ''pro''), (''aptabase_is_debug'', JBool True)] \<and> te_name e \<noteq> []
    | _ \<Rightarrow> False) \<and>
   \<not> list_all translatable (batch_of foreign_batch)"
proof -
  have t: "translate (\<lambda>_. None) foreign_batch = Inl ''events[1]: sessionId is required''" by code_simp
  have n: "1 \<le> length (batch_of foreign_batch) \<and> length (batch_of foreign_batch) \<le> 250" by code_simp
  have "case translate (\<lambda>_. None) (hd (batch_of foreign_batch)) of
      Inr [e] \<Rightarrow> te_properties e = Some [(''plan'', JStr ''pro''), (''aptabase_is_debug'', JBool True)] \<and> te_name e \<noteq> []
    | _ \<Rightarrow> False"
    by code_simp
  with t n show ?thesis using translation_is_all_or_nothing [of foreign_batch "\<lambda>_. None"] by simp
qed

end
