(* ===== verification/Spec2Isabelle.thy ===== *)
theory Spec2Isabelle
  imports Authorization Tenancy ProjectsUse TenancyUse MonitorUse Readouts AnalysisCodecs AnalysisWire RawReads
    IngestRoute Scheduler SdkClient SdkPlatform Aptabase
begin

text \<open>
  A verification of the server core of \<open>counted\<close>, a product-analytics service written in
  TypeScript. Clients send batches of events to the ingest API; people own workspaces,
  which own projects, which own credentials; every call is decided by one policy. The
  sources keep this logic in domain packages without I/O, and that is what is modelled.

  \<^bold>\<open>Theories and sources\<close> (all under \<open>src/packages\<close>).

  \<^item> \<open>Prelude\<close>: strings, integral and fractional numbers, results, and the locale
    \<open>aggregate\<close>: a command either refuses or returns the next state and its events, and
    every command keeps the invariant; runs of commands then keep it. It is interpreted on
    the Workspace and on the Project aggregate.
  \<^item> \<open>Kernel\<close>: \<open>kernel/src\<close>. Untrusted values (\<open>json\<close>), identifiers, instants,
    durations, roles and permissions.
  \<^item> \<open>Authorization\<close>: \<open>authorization/src\<close>. Principals, the role table expanded through
    the library \<open>accesscontrol\<close> (a parameter whose documented behaviour is
    \<open>ac_lib_ok\<close>), placement and coverage, \<open>decide\<close> and \<open>decide_unplaced\<close>.
  \<^item> \<open>Tenancy\<close>: \<open>tenancy/domain/src\<close>. The plan catalog, the entitlement a payment state
    confers, the event quota, retention, the Workspace aggregate with its commands, the
    transition of a subscription under billing events, and the usage readout.
  \<^item> \<open>Projects\<close>: \<open>projects/domain/src\<close>. The Project aggregate with its claim grant,
    revocation and rotation of credentials, what a credential may carry, retention,
    suggested names (their hash on 32-bit words).
  \<^item> \<open>TenancyUse\<close>: \<open>tenancy/app/src\<close>. Plan changes, project slots, opening a workspace and
    the payment webhook, over stores that are a record of operations; the locale
    \<open>tenancy_stores\<close> is what they rely on, interpreted on the in-memory ports.
  \<^item> \<open>ProjectsUse\<close>: \<open>projects/app/src\<close>. Provisioning with its first key, repair, issuing,
    rotation, revocation, claiming and deletion over two stores that share no transaction;
    the locale \<open>credential_stores\<close> is what they rely on, interpreted on the in-memory ports.
  \<^item> \<open>EventText\<close> and \<open>Admission\<close>: \<open>ingestion/domain/src\<close>. Canonical text of an event,
    the agent vocabulary, and admission of a batch of untrusted values with one outcome per
    event. \<open>Date.parse\<close> is a parameter.
  \<^item> \<open>GroupCommit\<close> and \<open>GroupCommitInv\<close>: \<open>ingestion/app/src\<close>. The coalescer: requests
    join per-shard groups, groups flush into commits, an acknowledgement is given only after
    the commit. Each stretch of code between two awaits is one step; the answers of the
    quota service, the sink and the clock are the labels of the step relation.
  \<^item> \<open>Calendar\<close> and \<open>Window\<close>: instants as ISO text, and \<open>analytics/domain/src/window.ts\<close>,
    the windows a question covers and what they resolve to.
  \<^item> \<open>Predicates\<close>, \<open>Funnels\<close>, \<open>Analysis\<close>: \<open>analytics/domain/src\<close>. Fields, predicates and
    their classification into indexed, scanned and unanswerable; measures, trends and
    funnels; questions with their structural defects, their check and their answerability.
  \<^item> \<open>AnalysisCodecs\<close> and \<open>AnalysisWire\<close>: \<open>analysis-codec.ts\<close> of the worker and
    \<open>analysis/wire.ts\<close> of the API (under \<open>src/apps\<close>), the stored and the wire form of a
    question.
  \<^item> \<open>Bucketing\<close>, \<open>Plan\<close>, \<open>RawReads\<close>: \<open>analytics/adapter-litics/src\<close>. The bucket grid, the
    planner of indexed reads, and the exact reads from raw events.
  \<^item> \<open>Dashboard\<close>, \<open>Readouts\<close>, \<open>Monitor\<close>: \<open>dashboarding/domain/src\<close>. Dashboards with
    their tiles on a grid and their share grant, readouts, monitors and their alerts.
  \<^item> \<open>DashboardUse\<close> and \<open>MonitorUse\<close>: \<open>dashboarding/app/src\<close>, the use cases over stores,
    with the locales \<open>dashboard_repository\<close> and \<open>monitor_repository\<close> interpreted on the
    in-memory repositories.
  \<^item> \<open>Faults\<close>, \<open>Access\<close>, \<open>IngestRoute\<close>: \<open>apps/api/src\<close> (under \<open>src/\<close>). The status code and
    reason of every domain error; the principal a request speaks as, where its resource sits,
    and the authorization of a route; the ingest handler with the caller's address, and the
    quota read from the events themselves. Stores, sessions and secrets answer as a record.
  \<^item> \<open>Scheduler\<close>: \<open>apps/worker/src/scheduler.ts\<close>, when the jobs of the worker run, as steps.
  \<^item> \<open>SdkClient\<close> and \<open>SdkPlatform\<close>: \<open>sdk-js/src\<close>. The bounded queue, visits, the reading
    of a reply and the client as steps; the platform it reports.
  \<^item> \<open>Aptabase\<close>: \<open>aptabase-compat/src\<close>, the translation of another product's events.

  \<^bold>\<open>How the parts interact\<close>. The SDK queues events and posts them in batches, again where
  the answer says so. An ingest call authenticates as a principal; \<open>decide\<close> says
  whether it may write events; \<open>admit\<close> turns the batch into stored events and per-event
  errors; the coalescer asks the quota service (\<open>quota_decide\<close> on the workspace's
  entitlement), buffers, and commits through the sink. A management call is decided in the
  same way, and then loads an aggregate, runs one command of it and saves it. A question
  arrives over the wire, is checked against the project's schema, classified, and answered
  from the index through a plan or from raw events; dashboards hold questions in tiles and
  monitors evaluate them on a schedule. The payment provider's webhook moves a subscription
  and then the standing of its workspace.

  \<^bold>\<open>What the lemmas show\<close>. Per aggregate: each command's refusals and effects, the
  invariant over all runs, round trips and idempotence of commands. For the policy: the
  three checks in order, exactness of the role table, isolation of tenants and of narrowed
  keys. For admission: totality, accounting of every event, canonical and bounded results,
  recognition of resends. For the coalescer: invariants over every reachable state, by rule
  induction on the step relation, and progress while draining as a decreasing measure. For
  the use cases: over every store that keeps its promises, invariants of what is stored, and
  refinement of the two writes that move a default. For analytics: classification, plan and
  scan agree on the events a question covers, the grid tiles the window and always ends,
  validated questions fit it, series are histograms, funnels never rise, and both encodings
  of a question round trip. For the API: what is let through was decided, a 202 is given only
  after the commit of that batch, and its counts add up. For the SDK: every tracked event is
  accounted for over all interleavings of calls and answers. For the worker: no job runs twice.

  \<^bold>\<open>Bounds and restrictions\<close>. Strings are lists of Latin-1 code units. JSON numbers are
  integral, with one value for the infinities; numbers tested with \<open>Number.isInteger\<close> are
  rational. Instants and durations are unbounded integers of milliseconds; the sources stay
  below 2^53, where they are exact. The quota ratio is rational where the sources divide
  doubles. No definition needs fuel: loops recurse over lists, the flush loop of the
  coalescer over its groups, the grid loop to its own ceiling of starts. What a host decides
  is a parameter: \<open>Date.parse\<close>, the text of a built-in function, the order of
  \<open>localeCompare\<close>. A use case's promise that rejects is \<open>None\<close>, its transaction rolled back.

  \<^bold>\<open>Not modelled\<close>. Persistence, the HTTP framework, the procedures of the API over the use
  cases and the wiring of the API and the worker, the consoles, the client packages in other
  languages, agent plugins and the packages around third-party libraries; the executor, sink
  and maintenance of the analytics adapter, which are SQL.
\<close>

section \<open>Across components\<close>

text \<open>
  C20. The issuing rule of Projects against the policy of Authorization: a key minted
  for a human, from what the human's role holds, is a principal that can do nothing the
  human could not do themselves, and never administers the workspace or pays.
\<close>

theorem issued_key_within_issuer:
  assumes "ac_lib_ok lib direct extends"
    and "grantable_to kind (permissions_held_by lib (Account a (Some st) cap)) = Inr granted"
    and "who \<in> {Service c (standing_workspace st) binding granted a,
                 Ingest c q (Some (standing_workspace st)) granted}"
    and "decide lib who p pl res = Allow"
  shows "(decide lib (Account a (Some st) cap) p pl res = Allow) \<and>
         (p \<notin> {WorkspaceAdmin, BillingWrite})"
proof (intro conjI impI)
  have granted: "set granted \<subseteq> set (permissions_held_by lib (Account a (Some st) cap))"
    "set granted \<subseteq> set SERVICE_DELEGABLE_PERMISSIONS"
    using grantable_to_Inr [OF assms(2)] by blast+
  have p: "p \<in> set granted" and w: "placed_workspace pl = Some (standing_workspace st)"
    using assms(3,4)
    by (auto simp: decide_Allow_iff covers_BProjects_Covered covers_BWorkspace_Covered
        simp del: covers.simps split: projects_binding.splits)
  from p w granted(1) show "decide lib (Account a (Some st) cap) p pl res = Allow"
    by (auto simp: decide_Allow_iff)
  from p granted(2) show "p \<notin> {WorkspaceAdmin, BillingWrite}"
    by (auto simp: SERVICE_DELEGABLE_PERMISSIONS_def)
qed

theorem issued_key_within_issuer_witness:
  "decide list_ac (Account ''u'' (Some \<lparr> standing_workspace = ''w'', standing_role = Member \<rparr>) None)
     DashboardsWrite \<lparr> placed_workspace = Some ''w'', placed_project = Some ''p'' \<rparr> (RDashboard ''d'') =
   Allow"
proof -
  let ?st = "\<lparr> standing_workspace = ''w'', standing_role = Member \<rparr>"
  let ?pl = "\<lparr> placed_workspace = Some ''w'', placed_project = Some ''p'' \<rparr>"
  have "(case grantable_to ServiceKey (permissions_held_by list_ac (Account ''u'' (Some ?st) None)) of
           Inl _ \<Rightarrow> False
         | Inr ps \<Rightarrow> decide list_ac (Service ''k'' ''w'' (SomeProjects [''p'']) ps ''u'') DashboardsWrite
                       ?pl (RDashboard ''d'') = Allow)"
    by code_simp
  then obtain ps where ps:
    "grantable_to ServiceKey (permissions_held_by list_ac (Account ''u'' (Some ?st) None)) = Inr ps"
    "decide list_ac (Service ''k'' ''w'' (SomeProjects [''p'']) ps ''u'') DashboardsWrite
       ?pl (RDashboard ''d'') = Allow"
    by (auto split: sum.splits)
  show ?thesis
    by (rule issued_key_within_issuer [OF list_ac_ok ps(1) _ ps(2), THEN conjunct1]) simp
qed

end
